(* ===== verification/Go_Prelude.thy ===== *)
theory Go_Prelude
  imports Main "HOL-Library.Word" "HOL-Library.Char_ord" "HOL-Library.List_Lexorder"
    "HOL-Library.Multiset" "HOL-Library.Sublist"
begin

text \<open>
  Shared ground of the development: the parts of Go's language and standard library that the
  modelled packages use, and the generic lemmas the component theories share.

  A Go \<^verbatim>\<open>string\<close> or \<^verbatim>\<open>[]byte\<close> is a \<^typ>\<open>string\<close>, a list of bytes, compared
  byte by byte (\<^verbatim>\<open>HOL-Library.List_Lexorder\<close>), as Go compares strings. White space and case
  mapping are those of ASCII: the further Unicode white space that \<^verbatim>\<open>strings.TrimSpace\<close>
  removes and Unicode case folding are outside the model.

  A Go \<^verbatim>\<open>error\<close> carries its text and the sentinel errors that \<^verbatim>\<open>errors.Is\<close> finds in its
  chain; a call that returns \<^verbatim>\<open>(T, error)\<close> is a value of the sum type \<^verbatim>\<open>go_error + T\<close>.
  A time or a duration is a number of nanoseconds; the zero time is 0.
\<close>

named_theorems go_strings \<open>rewrite rules for the string functions of the Go library\<close>
named_theorems step_inv \<open>facts that an operation keeps an invariant\<close>

section \<open>Errors and results\<close>

datatype err_kind =
    Canceled            \<comment> \<open>context.Canceled\<close>
  | DeadlineExceeded    \<comment> \<open>context.DeadlineExceeded\<close>
  | ArchiveLimit        \<comment> \<open>errArchiveLimit, errDaemonArchiveLimit\<close>
  | NotExist            \<comment> \<open>os.ErrNotExist\<close>
  | ModeSchedulerClosed \<comment> \<open>errModeSchedulerClosed\<close>
  | RegistryBusy        \<comment> \<open>errRegistryCheckBusy\<close>
  | RegistryNotAllowed  \<comment> \<open>*registryNotAllowedError\<close>
  | InvalidReference    \<comment> \<open>*invalidImageReferenceError\<close>
  | NotFound            \<comment> \<open>containerd errdefs.ErrNotFound\<close>

datatype go_error = GoError (err_text: string) (err_chain: "err_kind list")

definition errors_Is :: "go_error \<Rightarrow> err_kind \<Rightarrow> bool" where
  "errors_Is e k \<longleftrightarrow> k \<in> set (err_chain e)"

abbreviation Errorf :: "string \<Rightarrow> go_error" where
  "Errorf msg \<equiv> GoError msg []"

definition context_Canceled :: go_error where
  "context_Canceled = GoError ''context canceled'' [Canceled]"

definition context_DeadlineExceeded :: go_error where
  "context_DeadlineExceeded = GoError ''context deadline exceeded'' [DeadlineExceeded]"

definition errShortWrite :: go_error where
  "errShortWrite = Errorf ''short write''"

type_synonym 'a result = "go_error + 'a"
type_synonym time = int
type_synonym duration = int

abbreviation second :: duration where
  "second \<equiv> 1000000000"

lemma sum_case_eq_Inr [simp]:
  "(case r of Inl e \<Rightarrow> Inl e | Inr x \<Rightarrow> f x) = Inr y \<longleftrightarrow> (\<exists>x. r = Inr x \<and> f x = Inr y)"
  by (cases r) auto

section \<open>Strings\<close>

definition isSpace :: "char \<Rightarrow> bool" where
  "isSpace c \<longleftrightarrow> c \<in> set [CHR '' '', CHR 0x09, CHR 0x0A, CHR 0x0B, CHR 0x0C, CHR 0x0D]"

definition trimLeftFunc :: "(char \<Rightarrow> bool) \<Rightarrow> string \<Rightarrow> string" where
  "trimLeftFunc p s = dropWhile p s"

definition trimRightFunc :: "(char \<Rightarrow> bool) \<Rightarrow> string \<Rightarrow> string" where
  "trimRightFunc p s = rev (dropWhile p (rev s))"

definition trimSpace :: "string \<Rightarrow> string" where
  "trimSpace s = trimRightFunc isSpace (trimLeftFunc isSpace s)"

definition hasPrefix :: "string \<Rightarrow> string \<Rightarrow> bool" where
  "hasPrefix s p \<longleftrightarrow> take (length p) s = p"

definition hasSuffix :: "string \<Rightarrow> string \<Rightarrow> bool" where
  "hasSuffix s p \<longleftrightarrow> length p \<le> length s \<and> drop (length s - length p) s = p"

definition trimPrefix :: "string \<Rightarrow> string \<Rightarrow> string" where
  "trimPrefix s p = (if hasPrefix s p then drop (length p) s else s)"

definition trimSuffix :: "string \<Rightarrow> string \<Rightarrow> string" where
  "trimSuffix s p = (if hasSuffix s p then take (length s - length p) s else s)"

fun containsStr :: "string \<Rightarrow> string \<Rightarrow> bool" where
  "containsStr [] p \<longleftrightarrow> p = []"
| "containsStr (c # s) p \<longleftrightarrow> hasPrefix (c # s) p \<or> containsStr s p"

definition containsAny :: "string \<Rightarrow> string \<Rightarrow> bool" where
  "containsAny s cs \<longleftrightarrow> list_ex (\<lambda>c. c \<in> set cs) s"

text \<open>\<^verbatim>\<open>strings.Split(s, sep)\<close> for a separator of one byte: never the empty list.\<close>

fun splitByte :: "char \<Rightarrow> string \<Rightarrow> string list" where
  "splitByte d [] = [[]]"
| "splitByte d (c # s) =
     (if c = d then [] # splitByte d s
      else (case splitByte d s of [] \<Rightarrow> [[c]] | w # ws \<Rightarrow> (c # w) # ws))"

text \<open>\<^verbatim>\<open>strings.IndexByte\<close>, with \<^const>\<open>None\<close> for \<open>-1\<close>, and \<^verbatim>\<open>strings.Cut\<close>.\<close>

fun indexByte :: "string \<Rightarrow> char \<Rightarrow> nat option" where
  "indexByte [] d = None"
| "indexByte (c # s) d = (if c = d then Some 0 else map_option Suc (indexByte s d))"

definition cutByte :: "char \<Rightarrow> string \<Rightarrow> string \<times> string \<times> bool" where
  "cutByte d s = (case indexByte s d of
      None \<Rightarrow> (s, [], False)
    | Some i \<Rightarrow> (take i s, drop (Suc i) s, True))"

fun joinStr :: "string \<Rightarrow> string list \<Rightarrow> string" where
  "joinStr sep [] = []"
| "joinStr sep [w] = w"
| "joinStr sep (w # ws) = w @ sep @ joinStr sep ws"

definition toLowerChar :: "char \<Rightarrow> char" where
  "toLowerChar c = (let n = (of_char c :: nat) in if 65 \<le> n \<and> n \<le> 90 then char_of (n + 32) else c)"

definition toUpperChar :: "char \<Rightarrow> char" where
  "toUpperChar c = (let n = (of_char c :: nat) in if 97 \<le> n \<and> n \<le> 122 then char_of (n - 32) else c)"

definition toLower :: "string \<Rightarrow> string" where
  "toLower s = map toLowerChar s"

definition toUpper :: "string \<Rightarrow> string" where
  "toUpper s = map toUpperChar s"

text \<open>\<^verbatim>\<open>%d\<close> of \<^verbatim>\<open>fmt.Sprintf\<close> for a natural number.\<close>

definition digitChar :: "nat \<Rightarrow> char" where
  "digitChar d = char_of (48 + d)"

fun showNat :: "nat \<Rightarrow> string" where
  "showNat n = (if n < 10 then [digitChar n] else showNat (n div 10) @ [digitChar (n mod 10)])"

declare showNat.simps [simp del]

definition showInt :: "int \<Rightarrow> string" where
  "showInt n = (if n < 0 then CHR ''-'' # showNat (nat (- n)) else showNat (nat n))"

text \<open>\<^verbatim>\<open>%q\<close> for text without characters that need an escape.\<close>

definition quoteStr :: "string \<Rightarrow> string" where
  "quoteStr s = CHR 0x22 # s @ [CHR 0x22]"

text \<open>The value of a signed 64-bit integer: arithmetic on \<^verbatim>\<open>int\<close> and \<^verbatim>\<open>int64\<close> wraps.\<close>

definition wrap64 :: "int \<Rightarrow> int" where
  "wrap64 n = (n + 2 ^ 63) mod 2 ^ 64 - 2 ^ 63"

text \<open>
  \<^verbatim>\<open>strconv.Atoi\<close> and \<^verbatim>\<open>strconv.ParseInt(s, 10, 64)\<close>: an optional sign, one or more decimal
  digits, and a value in the range of \<^verbatim>\<open>int64\<close>; \<^const>\<open>None\<close> stands for the error.
\<close>

definition isDigit :: "char \<Rightarrow> bool" where
  "isDigit c \<longleftrightarrow> (let n = (of_char c :: nat) in 48 \<le> n \<and> n \<le> 57)"

definition digitsVal :: "string \<Rightarrow> int" where
  "digitsVal s = foldl (\<lambda>acc c. 10 * acc + (int (of_char c) - 48)) 0 s"

definition atoi :: "string \<Rightarrow> int option" where
  "atoi s = (let (neg, ds) = (case s of
         [] \<Rightarrow> (False, [])
       | c # cs \<Rightarrow> (if c = CHR ''-'' then (True, cs) else if c = CHR ''+'' then (False, cs) else (False, s)))
     in if ds = [] \<or> \<not> list_all isDigit ds then None
        else let v = (if neg then - digitsVal ds else digitsVal ds)
             in if - (2 ^ 63) \<le> v \<and> v < 2 ^ 63 then Some v else None)"

subsection \<open>Lemmas on strings\<close>

lemma dropWhile_hd_not: "dropWhile p s = [] \<or> \<not> p (hd (dropWhile p s))"
  by (induction s) auto

lemma dropWhile_id_iff: "dropWhile p s = s \<longleftrightarrow> s = [] \<or> \<not> p (hd s)"
proof (cases s)
  case (Cons c cs)
  have "length (dropWhile p cs) < length (c # cs)"
    by (simp add: le_imp_less_Suc length_dropWhile_le)
  then have "dropWhile p cs \<noteq> c # cs" by auto
  with Cons show ?thesis by auto
qed simp

lemma trimRightFunc_snoc [simp]:
  "trimRightFunc p (s @ [c]) = (if p c then trimRightFunc p s else s @ [c])"
  by (simp add: trimRightFunc_def)

lemma trimRightFunc_Nil [simp]: "trimRightFunc p [] = []"
  by (simp add: trimRightFunc_def)

lemma trimRightFunc_last: "trimRightFunc p s = [] \<or> \<not> p (last (trimRightFunc p s))"
  by (induction s rule: rev_induct) auto

lemma trimRightFunc_id_iff: "trimRightFunc p s = s \<longleftrightarrow> s = [] \<or> \<not> p (last s)"
  unfolding trimRightFunc_def
  by (metis dropWhile_id_iff hd_rev rev_is_Nil_conv rev_rev_ident)

lemma trimRightFunc_prefix: "\<exists>t. s = trimRightFunc p s @ t"
proof (induction s rule: rev_induct)
  case (snoc c s)
  then obtain t where "s = trimRightFunc p s @ t" ..
  then have "s @ [c] = trimRightFunc p s @ (t @ [c])"
    by (metis append_assoc)
  then show ?case by (metis trimRightFunc_snoc append_Nil2)
qed simp

lemma trimSpace_ends:
  "trimSpace s = [] \<or> (\<not> isSpace (hd (trimSpace s)) \<and> \<not> isSpace (last (trimSpace s)))"
proof (cases "trimSpace s = []")
  case False
  let ?l = "trimLeftFunc isSpace s"
  obtain t where t: "?l = trimSpace s @ t"
    using trimRightFunc_prefix [of ?l isSpace] unfolding trimSpace_def by auto
  with False have "?l \<noteq> []" and "hd (trimSpace s) = hd ?l"
    by auto
  then have "\<not> isSpace (hd (trimSpace s))"
    using dropWhile_hd_not [of isSpace s] unfolding trimLeftFunc_def by auto
  moreover have "\<not> isSpace (last (trimSpace s))"
    using False trimRightFunc_last unfolding trimSpace_def by blast
  ultimately show ?thesis by simp
qed simp

lemma trimSpace_id_iff:
  "trimSpace s = s \<longleftrightarrow> s = [] \<or> (\<not> isSpace (hd s) \<and> \<not> isSpace (last s))"
proof
  assume "trimSpace s = s"
  then show "s = [] \<or> (\<not> isSpace (hd s) \<and> \<not> isSpace (last s))"
    using trimSpace_ends [of s] by auto
next
  assume "s = [] \<or> (\<not> isSpace (hd s) \<and> \<not> isSpace (last s))"
  then have "trimLeftFunc isSpace s = s" and "trimRightFunc isSpace s = s"
    by (auto simp: trimLeftFunc_def dropWhile_id_iff trimRightFunc_id_iff)
  then show "trimSpace s = s" by (simp add: trimSpace_def)
qed

lemma trimSpace_idem [simp]: "trimSpace (trimSpace s) = trimSpace s"
  using trimSpace_ends trimSpace_id_iff by blast

lemma trimSpace_Nil [simp]: "trimSpace [] = []"
  by (simp add: trimSpace_id_iff)

lemma hasPrefix_iff: "hasPrefix s p \<longleftrightarrow> (\<exists>t. s = p @ t)"
proof
  assume "hasPrefix s p"
  then have "s = p @ drop (length p) s"
    unfolding hasPrefix_def by (metis append_take_drop_id)
  then show "\<exists>t. s = p @ t" by blast
qed (auto simp: hasPrefix_def)

lemma hasPrefix_append [simp]: "hasPrefix (p @ t) p"
  by (auto simp: hasPrefix_iff)

lemma hasSuffix_iff: "hasSuffix s p \<longleftrightarrow> (\<exists>t. s = t @ p)"
proof
  assume "hasSuffix s p"
  then have "s = take (length s - length p) s @ p"
    unfolding hasSuffix_def by (metis append_take_drop_id)
  then show "\<exists>t. s = t @ p" by blast
qed (auto simp: hasSuffix_def)

lemma hasSuffix_append [simp]: "hasSuffix (t @ p) p"
  by (auto simp: hasSuffix_iff)

lemma trimSuffix_append [simp]: "trimSuffix (t @ p) p = t"
  by (simp add: trimSuffix_def)

lemma trimPrefix_append [simp]: "trimPrefix (p @ t) p = t"
  by (simp add: trimPrefix_def)

lemma trimSuffix_no: "\<not> hasSuffix s p \<Longrightarrow> trimSuffix s p = s"
  by (simp add: trimSuffix_def)

lemma containsStr_iff: "containsStr s p \<longleftrightarrow> (\<exists>a b. s = a @ p @ b)"
proof (induction s)
  case (Cons c s)
  have "(\<exists>a b. c # s = a @ p @ b) \<longleftrightarrow> (\<exists>b. c # s = p @ b) \<or> (\<exists>a b. s = a @ p @ b)"
    by (metis append_Cons append_Nil list.inject neq_Nil_conv)
  with Cons show ?case by (simp add: hasPrefix_iff)
qed simp

lemma splitByte_not_Nil [simp]: "splitByte d s \<noteq> []"
  by (induction s) (auto split: list.splits)

lemma splitByte_no_sep: "w \<in> set (splitByte d s) \<Longrightarrow> d \<notin> set w"
  by (induction s arbitrary: w) (auto split: list.splits if_splits)

lemma joinStr_Cons: "ws \<noteq> [] \<Longrightarrow> joinStr sep (w # ws) = w @ sep @ joinStr sep ws"
  by (cases ws) auto

lemma joinStr_Cons_Cons: "joinStr sep ((c # w) # ws) = c # joinStr sep (w # ws)"
  by (cases ws) auto

lemma joinStr_splitByte: "joinStr [d] (splitByte d s) = s"
  by (induction s) (auto simp: joinStr_Cons joinStr_Cons_Cons split: list.splits)

subsection \<open>Printing and reading numbers\<close>

lemma of_char_digitChar: "d < 10 \<Longrightarrow> (of_char (digitChar d) :: nat) = 48 + d"
  by (simp add: digitChar_def)

lemma digitsVal_snoc: "digitsVal (s @ [c]) = 10 * digitsVal s + (int (of_char c) - 48)"
  by (simp add: digitsVal_def)

lemma showNat_not_Nil [simp]: "showNat n \<noteq> []"
  by (subst showNat.simps) simp

lemma showNat_digits: "list_all isDigit (showNat n)"
proof (induction n rule: showNat.induct)
  case (1 n)
  have "isDigit (digitChar d)" if "d < 10" for d using that by (simp add: isDigit_def of_char_digitChar)
  with 1 show ?case by (subst showNat.simps) auto
qed

lemma digitsVal_showNat: "digitsVal (showNat n) = int n"
proof (induction n rule: showNat.induct)
  case (1 n)
  show ?case
  proof (cases "n < 10")
    case True
    then show ?thesis by (subst showNat.simps) (simp add: digitsVal_def of_char_digitChar)
  next
    case False
    with 1 show ?thesis by (subst showNat.simps) (simp add: digitsVal_snoc of_char_digitChar zdiv_int zmod_int)
  qed
qed

lemma showNat_hd: "isDigit (hd (showNat n))"
  using showNat_digits [of n] by (cases "showNat n") (auto dest: arg_cong [of _ "[]"])

lemma atoi_showInt:
  assumes "0 \<le> n" "n < 2 ^ 63"
  shows "atoi (showInt n) = Some n"
proof -
  obtain c cs where s: "showNat (nat n) = c # cs" by (cases "showNat (nat n)") auto
  have "isDigit c" using showNat_hd [of "nat n"] s by simp
  then have "c \<noteq> CHR ''-'' \<and> c \<noteq> CHR ''+''" by (auto simp: isDigit_def)
  then show ?thesis
    using assms showNat_digits [of "nat n"] digitsVal_showNat [of "nat n"] by (simp add: atoi_def showInt_def s)
qed

lemma trimSpace_showInt: "0 \<le> n \<Longrightarrow> trimSpace (showInt n) \<noteq> []"
proof -
  assume "0 \<le> n"
  have sp: "isDigit c \<Longrightarrow> \<not> isSpace c" for c by (auto simp: isDigit_def isSpace_def)
  have "isDigit (last (showNat (nat n)))" using showNat_digits [of "nat n"] by (simp add: list_all_iff)
  with showNat_hd [of "nat n"] have "trimSpace (showNat (nat n)) = showNat (nat n)" by (simp add: trimSpace_id_iff sp)
  with \<open>0 \<le> n\<close> show ?thesis by (simp add: showInt_def)
qed

lemmas [go_strings] = hasPrefix_def hasSuffix_def trimPrefix_def trimSuffix_def trimSpace_def
  trimLeftFunc_def trimRightFunc_def isSpace_def

section \<open>Lists\<close>

text \<open>Counting the elements with a property when one element of a list is replaced.\<close>

abbreviation count_if :: "('a \<Rightarrow> bool) \<Rightarrow> 'a list \<Rightarrow> nat" where
  "count_if p xs \<equiv> length (filter p xs)"

lemma count_if_update:
  "i < length xs \<Longrightarrow>
    count_if p (xs[i := x]) + of_bool (p (xs ! i)) = count_if p xs + of_bool (p x)"
proof (induction xs arbitrary: i)
  case (Cons y ys)
  then show ?case by (cases i) auto
qed simp

lemma count_if_update_same:
  "i < length xs \<Longrightarrow> p x = p (xs ! i) \<Longrightarrow> count_if p (xs[i := x]) = count_if p xs"
  using count_if_update [of i xs p x] by simp

lemma count_if_mono: "(\<And>x. P x \<Longrightarrow> Q x) \<Longrightarrow> count_if P xs \<le> count_if Q xs"
  by (induction xs) (auto intro: le_SucI)

lemma count_if_pos: "i < length xs \<Longrightarrow> p (xs ! i) \<Longrightarrow> 0 < count_if p xs"
  using nth_mem by (fastforce simp: filter_empty_conv)

text \<open>The first element with the greatest key, as a left-to-right loop with a strict test finds it.\<close>

fun arg_max_from :: "('a \<Rightarrow> 'k::linorder) \<Rightarrow> 'a \<Rightarrow> 'a list \<Rightarrow> 'a" where
  "arg_max_from f b [] = b"
| "arg_max_from f b (x # xs) = arg_max_from f (if f b < f x then x else b) xs"

lemma arg_max_from_mem: "arg_max_from f b xs \<in> set (b # xs)"
  by (induction f b xs rule: arg_max_from.induct) auto

lemma arg_max_from_base: "f b \<le> f (arg_max_from f b xs)"
proof (induction xs arbitrary: b)
  case (Cons x xs)
  have "f b \<le> f (if f b < f x then x else b)" by (simp add: less_imp_le)
  also have "\<dots> \<le> f (arg_max_from f (if f b < f x then x else b) xs)" by (rule Cons)
  finally show ?case by simp
qed simp

lemma arg_max_from_ge: "y \<in> set (b # xs) \<Longrightarrow> f y \<le> f (arg_max_from f b xs)"
proof (induction f b xs rule: arg_max_from.induct)
  case (2 f b x xs)
  let ?m = "if f b < f x then x else b"
  show ?case
  proof (cases "y \<in> set xs")
    case True
    then show ?thesis using "2.IH" by simp
  next
    case False
    with "2.prems" have "f y \<le> f ?m" by auto
    also have "f ?m \<le> f (arg_max_from f ?m xs)"
      by (rule arg_max_from_base)
    finally show ?thesis by simp
  qed
qed simp

subsection \<open>One element of a list replaced\<close>

lemma list_ex_update_same:
  "i < length xs \<Longrightarrow> p x = p (xs ! i) \<Longrightarrow> list_ex p (xs[i := x]) = list_ex p xs"
  by (auto simp: list_ex_length nth_list_update)

lemma list_all_update: "list_all p xs \<Longrightarrow> p x \<Longrightarrow> list_all p (xs[i := x])"
  using set_update_subset_insert [of xs i x] by (auto simp: list_all_iff)

lemma map_update_same: "i < length xs \<Longrightarrow> f x = f (xs ! i) \<Longrightarrow> map f (xs[i := x]) = map f xs"
  by (metis list_update_id map_update)

lemma mset_concat_update:
  assumes "i < length ws"
  shows "mset (concat (map f (ws[i := w]))) + mset (f (ws ! i)) = mset (concat (map f ws)) + mset (f w)"
  using assms
proof (induction ws arbitrary: i)
  case (Cons x ws)
  then show ?case by (cases i) (auto simp: ac_simps)
qed simp

section \<open>A buffered channel used as a counting semaphore\<close>

text \<open>
  \<^verbatim>\<open>make(chan struct{}, n)\<close>: a send takes a slot and blocks while the buffer is full, a receive
  gives one back. \<open>sem_trySend\<close> is the send that succeeds at once (\<^const>\<open>None\<close> when it would
  block), \<open>sem_recv\<close> the receive (\<^const>\<open>None\<close> when it would block).
\<close>

record csem =
  sem_len :: nat
  sem_cap :: nat

definition makeSem :: "nat \<Rightarrow> csem" where
  "makeSem n = \<lparr>sem_len = 0, sem_cap = n\<rparr>"

definition sem_trySend :: "csem \<Rightarrow> csem option" where
  "sem_trySend s = (if sem_len s < sem_cap s then Some (s\<lparr>sem_len := Suc (sem_len s)\<rparr>) else None)"

definition sem_recv :: "csem \<Rightarrow> csem option" where
  "sem_recv s = (if 0 < sem_len s then Some (s\<lparr>sem_len := sem_len s - 1\<rparr>) else None)"

definition sem_ok :: "csem \<Rightarrow> bool" where
  "sem_ok s \<longleftrightarrow> sem_len s \<le> sem_cap s"

lemma sem_ok_make [simp]: "sem_ok (makeSem n)"
  by (simp add: sem_ok_def makeSem_def)

lemma sem_trySend_Some [simp]:
  "sem_trySend s = Some s' \<longleftrightarrow> sem_len s < sem_cap s \<and> s' = s\<lparr>sem_len := Suc (sem_len s)\<rparr>"
  by (auto simp: sem_trySend_def)

lemma sem_trySend_None [simp]: "sem_trySend s = None \<longleftrightarrow> sem_cap s \<le> sem_len s"
  by (auto simp: sem_trySend_def)

lemma sem_recv_Some [simp]:
  "sem_recv s = Some s' \<longleftrightarrow> 0 < sem_len s \<and> s' = s\<lparr>sem_len := sem_len s - 1\<rparr>"
  by (auto simp: sem_recv_def)

lemma sem_send_recv: "sem_trySend s = Some s' \<Longrightarrow> sem_recv s' = Some s"
  by simp

section \<open>Machine integers\<close>

lemma wrap64_id: "- (2 ^ 63) \<le> n \<Longrightarrow> n < 2 ^ 63 \<Longrightarrow> wrap64 n = n"
  unfolding wrap64_def by (subst mod_pos_pos_trivial) auto

lemma wrap64_range: "- (2 ^ 63) \<le> wrap64 n \<and> wrap64 n < 2 ^ 63"
proof -
  have "0 \<le> (n + 2 ^ 63) mod 2 ^ 64" "(n + 2 ^ 63) mod 2 ^ 64 < 2 ^ 64" by simp_all
  then show ?thesis by (simp add: wrap64_def)
qed

end
