(* ===== verification/Consistent_Hash.thy ===== *)
theory Consistent_Hash
  imports Go_Prelude
begin

unbundle bit_operations_syntax

text \<open>
  The consistent-hash ring of \<^verbatim>\<open>internal/builddaemon/scheduler.go\<close>: the FNV-1a hash on 32-bit
  words, the construction of the ring of virtual nodes, and \<^verbatim>\<open>getSlotOrder\<close>, which walks the ring
  from the key's successor point and lists every worker index once. The walk is a loop that
  ends only when every index has been met, so it is a \<^theory_text>\<open>partial_function\<close> whose \<^const>\<open>None\<close>
  means that the loop never ends; the theorems say exactly when it ends and what it lists.
\<close>

section \<open>Model\<close>

definition fnv1a_step :: "32 word \<Rightarrow> char \<Rightarrow> 32 word" where
  "fnv1a_step h c = (h XOR of_char c) * 16777619"

definition fnv1a :: "string \<Rightarrow> 32 word" where
  "fnv1a s = foldl fnv1a_step 2166136261 s"

record consistentHash =
  ring :: "32 word list"
  nodeMap :: "32 word \<rightharpoonup> nat"
  numNodes :: nat

definition replicaKey :: "nat \<Rightarrow> nat \<Rightarrow> string" where
  "replicaKey i r = ''node-'' @ showNat i @ ''-replica-'' @ showNat r"

text \<open>The body of the inner loop of \<^verbatim>\<open>newConsistentHash\<close>, and the loop's index pairs in order.\<close>

definition addReplica :: "nat \<times> nat \<Rightarrow> consistentHash \<Rightarrow> consistentHash" where
  "addReplica ir ch = (let h = fnv1a (replicaKey (fst ir) (snd ir))
     in ch\<lparr>ring := ring ch @ [h], nodeMap := (nodeMap ch)(h \<mapsto> fst ir)\<rparr>)"

definition replicaPairs :: "nat \<Rightarrow> nat \<Rightarrow> (nat \<times> nat) list" where
  "replicaPairs n replicas = concat (map (\<lambda>i. map (\<lambda>r. (i, r)) [0..<replicas]) [0..<n])"

definition newConsistentHash :: "nat \<Rightarrow> nat \<Rightarrow> consistentHash" where
  "newConsistentHash n replicas =
     (let ch = fold addReplica (replicaPairs n replicas)
                 \<lparr>ring = [], nodeMap = Map.empty, numNodes = n\<rparr>
      in ch\<lparr>ring := sort (ring ch)\<rparr>)"

text \<open>The binary search of \<^verbatim>\<open>sort.Search\<close>.\<close>

function sortSearch :: "(nat \<Rightarrow> bool) \<Rightarrow> nat \<Rightarrow> nat \<Rightarrow> nat" where
  "sortSearch f i j =
     (if i < j then
        (let h = (i + j) div 2 in if \<not> f h then sortSearch f (h + 1) j else sortSearch f i h)
      else i)"
  by pat_completeness auto
termination
  by (relation "measure (\<lambda>(f, i, j). j - i)") (auto simp: Let_def)

declare sortSearch.simps [simp del]

text \<open>A Go map read returns the zero value for a missing key.\<close>

definition nodeAt :: "consistentHash \<Rightarrow> nat \<Rightarrow> nat" where
  "nodeAt ch idx = (case nodeMap ch (ring ch ! (idx mod length (ring ch))) of Some i \<Rightarrow> i | None \<Rightarrow> 0)"

definition searchRing :: "consistentHash \<Rightarrow> 32 word \<Rightarrow> nat" where
  "searchRing ch h =
     (let idx = sortSearch (\<lambda>i. h \<le> ring ch ! i) 0 (length (ring ch))
      in if length (ring ch) \<le> idx then 0 else idx)"

partial_function (option) walkRing ::
    "consistentHash \<Rightarrow> nat \<Rightarrow> (nat \<Rightarrow> bool) \<Rightarrow> nat list \<Rightarrow> nat list option" where
  "walkRing ch idx seen order =
     (if length order < numNodes ch then
        (let nodeIdx = nodeAt ch idx in
         if \<not> seen nodeIdx then walkRing ch (idx + 1) (seen(nodeIdx := True)) (order @ [nodeIdx])
         else walkRing ch (idx + 1) seen order)
      else Some order)"

definition getSlotOrder :: "consistentHash \<Rightarrow> string \<Rightarrow> nat list option" where
  "getSlotOrder ch key =
     (if ring ch = [] then Some []
      else walkRing ch (searchRing ch (fnv1a key)) (\<lambda>_. False) [])"

section \<open>The hash\<close>

text \<open>Every step of FNV-1a is a bijection on the 32-bit state, since the multiplier is odd.\<close>

lemma fnv_prime_inverse: "(16777619 :: 32 word) * 899433627 = 1"
  by simp

lemma fnv1a_step_undo: "fnv1a_step h c * 899433627 = h XOR of_char c"
  by (simp only: fnv1a_step_def mult.assoc fnv_prime_inverse mult_1_right)

lemma xor_twice: "(a XOR b) XOR b = (a :: 32 word)" "a XOR (a XOR b) = (b :: 32 word)"
  by (rule bit_word_eqI, auto simp: bit_simps)+

lemma fnv1a_step_inj:
  assumes "fnv1a_step g c = fnv1a_step h c"
  shows "g = h"
proof -
  from assms have "g XOR of_char c = h XOR of_char c"
    by (metis fnv1a_step_undo)
  then show ?thesis by (metis xor_twice(1))
qed

lemma foldl_fnv1a_inj: "foldl fnv1a_step g s = foldl fnv1a_step h s \<Longrightarrow> g = h"
  by (induction s arbitrary: g h) (auto dest: fnv1a_step_inj)

lemma of_char_word_inj: "(of_char c :: 32 word) = of_char d \<Longrightarrow> c = d"
proof -
  assume "(of_char c :: 32 word) = of_char d"
  then have "unat (of_nat (of_char c) :: 32 word) = unat (of_nat (of_char d) :: 32 word)"
    by (simp add: of_char_def flip: of_nat_of_char)
  moreover have "(of_char c :: nat) < 256" "(of_char d :: nat) < 256" by simp_all
  ultimately have "(of_char c :: nat) = of_char d"
    by (simp add: unat_of_nat)
  then show "c = d" by simp
qed

lemma fnv1a_step_char_inj:
  assumes "fnv1a_step h c = fnv1a_step h d"
  shows "c = d"
proof -
  from assms have "h XOR of_char c = h XOR of_char d"
    by (metis fnv1a_step_undo)
  then have "(of_char c :: 32 word) = of_char d"
    by (metis xor_twice(2))
  then show ?thesis by (rule of_char_word_inj)
qed

section \<open>The binary search\<close>

lemma sortSearch_step:
  "i < j \<Longrightarrow> sortSearch f i j =
     (if f ((i + j) div 2) then sortSearch f i ((i + j) div 2) else sortSearch f ((i + j) div 2 + 1) j)"
  by (simp add: sortSearch.simps [of f i j] Let_def)

lemma sortSearch_stop: "\<not> i < j \<Longrightarrow> sortSearch f i j = i"
  by (simp add: sortSearch.simps [of f i j])

text \<open>For a predicate that stays true once true, the search returns its first true index.\<close>

definition first_true :: "(nat \<Rightarrow> bool) \<Rightarrow> nat \<Rightarrow> nat \<Rightarrow> bool" where
  "first_true f n r \<longleftrightarrow> r \<le> n \<and> (\<forall>k < r. \<not> f k) \<and> (r < n \<longrightarrow> f r)"

lemma sortSearch_first_true:
  assumes mono: "\<And>a b. a \<le> b \<Longrightarrow> b < n \<Longrightarrow> f a \<Longrightarrow> f b"
    and "i \<le> j" "j \<le> n" "\<forall>k < i. \<not> f k" "j < n \<longrightarrow> f j"
  shows "first_true f n (sortSearch f i j)"
  using assms(2-)
proof (induction "j - i" arbitrary: i j rule: less_induct)
  case less
  let ?h = "(i + j) div 2"
  show ?case
  proof (cases "i < j")
    case True
    then have h: "i \<le> ?h" "?h < j" by linarith+
    show ?thesis
    proof (cases "f ?h")
      case fh: True
      have "first_true f n (sortSearch f i ?h)"
        by (rule less.hyps) (use h fh less.prems in auto)
      with True fh show ?thesis by (simp add: sortSearch_step)
    next
      case nfh: False
      have "\<not> f k" if "k < ?h + 1" for k
      proof
        assume fk: "f k"
        have "k \<le> ?h" "?h < n" using that h less.prems by linarith+
        then have "f ?h" using fk by (rule mono)
        with nfh show False ..
      qed
      then have "first_true f n (sortSearch f (?h + 1) j)"
        by (intro less.hyps) (use h less.prems in auto)
      with True nfh show ?thesis by (simp add: sortSearch_step)
    qed
  next
    case False
    with less.prems show ?thesis by (auto simp: sortSearch_stop first_true_def)
  qed
qed

section \<open>The walk\<close>

text \<open>The reference: the elements of a list in the order of their first occurrence.\<close>

fun firsts :: "'a list \<Rightarrow> 'a list \<Rightarrow> 'a list" where
  "firsts acc [] = acc"
| "firsts acc (x # xs) = firsts (if x \<in> set acc then acc else acc @ [x]) xs"

lemma set_firsts: "set (firsts acc xs) = set acc \<union> set xs"
  by (induction acc xs rule: firsts.induct) auto

lemma distinct_firsts: "distinct acc \<Longrightarrow> distinct (firsts acc xs)"
  by (induction acc xs rule: firsts.induct) auto

lemma firsts_subset: "set xs \<subseteq> set acc \<Longrightarrow> firsts acc xs = acc"
  by (induction acc xs rule: firsts.induct) auto

lemma hd_firsts_acc: "acc \<noteq> [] \<Longrightarrow> hd (firsts acc xs) = hd acc"
  by (induction acc xs rule: firsts.induct) auto

lemma hd_firsts: "hd (firsts [] (x # xs)) = x"
  by (simp add: hd_firsts_acc)

text \<open>Every worker index is reachable on the ring, and the ring leads to worker indices only.\<close>

definition ring_owners_ok :: "consistentHash \<Rightarrow> bool" where
  "ring_owners_ok ch \<longleftrightarrow> (\<forall>idx. ring ch \<noteq> [] \<longrightarrow> nodeAt ch idx < numNodes ch)"

definition ring_complete :: "consistentHash \<Rightarrow> bool" where
  "ring_complete ch \<longleftrightarrow> ring ch \<noteq> [] \<and> ring_owners_ok ch \<and>
     (\<forall>i < numNodes ch. \<exists>idx < length (ring ch). nodeAt ch idx = i)"

lemma nodeAt_mod: "nodeAt ch (idx mod length (ring ch)) = nodeAt ch idx"
  by (simp add: nodeAt_def)

lemma walk_covers:
  assumes "ring_complete ch" "i < numNodes ch"
  shows "\<exists>k \<in> {idx..<idx + length (ring ch)}. nodeAt ch k = i"
proof -
  let ?L = "length (ring ch)"
  obtain j where j: "j < ?L" "nodeAt ch j = i"
    using assms unfolding ring_complete_def by blast
  let ?k = "idx + (j + ?L - idx mod ?L) mod ?L"
  have "?k mod ?L = (idx mod ?L + (j + ?L - idx mod ?L)) mod ?L"
    by (metis mod_add_left_eq mod_add_right_eq)
  also have "idx mod ?L + (j + ?L - idx mod ?L) = j + ?L"
  proof -
    have "idx mod ?L < ?L" using j(1) by (intro mod_less_divisor) linarith
    then show ?thesis by simp
  qed
  finally have "?k mod ?L = j" using j(1) by simp
  then have "nodeAt ch ?k = i" using j(2) nodeAt_mod by metis
  moreover have "(j + ?L - idx mod ?L) mod ?L < ?L"
    using j(1) by (intro mod_less_divisor) linarith
  then have "?k < idx + ?L" by simp
  ultimately show ?thesis by (intro bexI [of _ ?k]) auto
qed

lemma walkRing_firsts:
  assumes "ring_owners_ok ch" "ring ch \<noteq> []"
    and "distinct order" "set order \<subseteq> {..<numNodes ch}" "\<And>i. seen i \<longleftrightarrow> i \<in> set order"
    and "{..<numNodes ch} \<subseteq> set order \<union> nodeAt ch ` {idx..<idx + m}"
  shows "walkRing ch idx seen order = Some (firsts order (map (nodeAt ch) [idx..<idx + m]))"
  using assms(3-)
proof (induction m arbitrary: idx seen order)
  case 0
  then have "set order = {..<numNodes ch}" by auto
  then have "length order = numNodes ch"
    using "0.prems"(1) distinct_card [of order] by simp
  then show ?case by (subst walkRing.simps) simp
next
  case (Suc m)
  let ?n = "nodeAt ch idx"
  have n: "?n < numNodes ch" using assms(1,2) unfolding ring_owners_ok_def by blast
  have upt: "[idx..<idx + Suc m] = idx # [Suc idx..<Suc idx + m]"
    by (simp add: upt_rec)
  have cover: "nodeAt ch ` {idx..<idx + Suc m} = insert ?n (nodeAt ch ` {Suc idx..<Suc idx + m})"
  proof -
    have "{idx..<idx + Suc m} = insert idx {Suc idx..<Suc idx + m}" by auto
    then show ?thesis by (metis image_insert)
  qed
  show ?case
  proof (cases "length order < numNodes ch")
    case True
    let ?order = "if ?n \<in> set order then order else order @ [?n]"
    let ?seen = "if ?n \<in> set order then seen else seen(?n := True)"
    have "walkRing ch idx seen order = walkRing ch (Suc idx) ?seen ?order"
      using True Suc.prems(3) by (subst walkRing.simps) (simp add: Let_def)
    also have "\<dots> = Some (firsts ?order (map (nodeAt ch) [Suc idx..<Suc idx + m]))"
      by (rule Suc.IH) (use Suc.prems n cover in \<open>auto split: if_splits\<close>)
    finally show ?thesis by (simp only: upt list.map firsts.simps)
  next
    case False
    have "card (set order) \<le> card {..<numNodes ch}"
      using Suc.prems(2) by (intro card_mono) auto
    with False Suc.prems(1) have "card (set order) = card {..<numNodes ch}"
      by (simp add: distinct_card)
    with Suc.prems(2) have full: "set order = {..<numNodes ch}"
      by (intro card_subset_eq) auto
    have "set (map (nodeAt ch) [idx..<idx + Suc m]) \<subseteq> set order"
      using assms(1,2) unfolding full ring_owners_ok_def by auto
    then have "firsts order (map (nodeAt ch) [idx..<idx + Suc m]) = order"
      by (rule firsts_subset)
    with False show ?thesis by (subst walkRing.simps) (simp only: if_False)
  qed
qed

text \<open>What a returning walk returns: as many distinct indices as there are workers.\<close>

lemma walkRing_returns:
  assumes ret: "walkRing ch idx seen order = Some res"
    and own: "ring_owners_ok ch" "ring ch \<noteq> []"
  shows "(\<forall>i. seen i \<longleftrightarrow> i \<in> set order) \<longrightarrow> distinct order \<longrightarrow>
    numNodes ch \<le> length res \<and> distinct res \<and> set res \<subseteq> set order \<union> range (nodeAt ch)"
proof (rule walkRing.raw_induct
    [where P = "\<lambda>c i s o' r. c = ch \<longrightarrow> (\<forall>i. s i \<longleftrightarrow> i \<in> set o') \<longrightarrow> distinct o' \<longrightarrow>
      numNodes ch \<le> length r \<and> distinct r \<and> set r \<subseteq> set o' \<union> range (nodeAt ch)",
     OF _ ret, THEN mp, OF _ refl])
  fix f :: "consistentHash \<Rightarrow> nat \<Rightarrow> (nat \<Rightarrow> bool) \<Rightarrow> nat list \<Rightarrow> nat list option"
    and c i s o' r
  assume IH: "\<And>c i s o' r. f c i s o' = Some r \<Longrightarrow> c = ch \<longrightarrow> (\<forall>i. s i \<longleftrightarrow> i \<in> set o') \<longrightarrow>
      distinct o' \<longrightarrow> numNodes ch \<le> length r \<and> distinct r \<and> set r \<subseteq> set o' \<union> range (nodeAt ch)"
    and eq: "(if length o' < numNodes c then
        let nodeIdx = nodeAt c i in
        if \<not> s nodeIdx then f c (i + 1) (s(nodeIdx := True)) (o' @ [nodeIdx])
        else f c (i + 1) s o'
      else Some o') = Some r"
  show "c = ch \<longrightarrow> (\<forall>i. s i \<longleftrightarrow> i \<in> set o') \<longrightarrow> distinct o' \<longrightarrow>
      numNodes ch \<le> length r \<and> distinct r \<and> set r \<subseteq> set o' \<union> range (nodeAt ch)"
  proof (intro impI)
    assume a: "c = ch" "\<forall>i. s i \<longleftrightarrow> i \<in> set o'" "distinct o'"
    show "numNodes ch \<le> length r \<and> distinct r \<and> set r \<subseteq> set o' \<union> range (nodeAt ch)"
    proof (cases "length o' < numNodes c")
      case False
      with eq have "r = o'" by simp
      with False a(1,3) show ?thesis by simp
    next
      case more: True
      show ?thesis
      proof (cases "s (nodeAt c i)")
        case True
        with eq more have "f c (i + 1) s o' = Some r" by (simp add: Let_def)
        from IH [OF this, THEN mp, THEN mp, THEN mp, OF a] show ?thesis .
      next
        case False
        with eq more have f: "f c (i + 1) (s(nodeAt c i := True)) (o' @ [nodeAt c i]) = Some r"
          by (simp add: Let_def)
        have "nodeAt c i \<notin> set o'" using False a(2) by blast
        then have "\<forall>k. (s(nodeAt c i := True)) k \<longleftrightarrow> k \<in> set (o' @ [nodeAt c i])"
          and "distinct (o' @ [nodeAt c i])"
          using a(2,3) by simp_all
        from IH [OF f, THEN mp, THEN mp, THEN mp, OF a(1) this] show ?thesis
          using a(1) by auto
      qed
    qed
  qed
qed

section \<open>The order of a key\<close>

lemma ring_completeD:
  assumes "ring_complete ch"
  shows "ring ch \<noteq> []" "ring_owners_ok ch"
  using assms by (auto simp: ring_complete_def)

lemma getSlotOrder_complete:
  assumes "ring_complete ch"
  shows "getSlotOrder ch key = Some (firsts [] (map (nodeAt ch)
    [searchRing ch (fnv1a key)..<searchRing ch (fnv1a key) + length (ring ch)]))"
proof -
  have "{..<numNodes ch} \<subseteq> nodeAt ch ` {idx..<idx + length (ring ch)}" for idx
    using walk_covers [OF assms] by blast
  then show ?thesis
    unfolding getSlotOrder_def using ring_completeD [OF assms]
    by (simp add: walkRing_firsts)
qed

lemma getSlotOrder_props:
  assumes "ring_complete ch" "getSlotOrder ch key = Some order"
  shows "distinct order" "set order = {..<numNodes ch}"
    "hd order = nodeAt ch (searchRing ch (fnv1a key))"
proof -
  let ?i = "searchRing ch (fnv1a key)" and ?L = "length (ring ch)"
  have order: "order = firsts [] (map (nodeAt ch) [?i..<?i + ?L])"
    using assms getSlotOrder_complete by simp
  show "distinct order" unfolding order by (rule distinct_firsts) simp
  have "nodeAt ch ` {?i..<?i + ?L} = {..<numNodes ch}"
    using walk_covers [OF assms(1)] ring_completeD [OF assms(1)]
    by (fastforce simp: ring_owners_ok_def)
  then show "set order = {..<numNodes ch}"
    unfolding order by (simp add: set_firsts)
  have "0 < ?L" using ring_completeD(1) [OF assms(1)] by simp
  then have "[?i..<?i + ?L] = ?i # [Suc ?i..<?i + ?L]" by (simp add: upt_rec)
  then show "hd order = nodeAt ch ?i"
    unfolding order by (simp only: list.map hd_firsts)
qed

text \<open>The loop ends exactly when every worker index owns a point of the ring.\<close>

lemma getSlotOrder_ends_iff:
  assumes "ring ch \<noteq> []" "ring_owners_ok ch"
  shows "(\<exists>order. getSlotOrder ch key = Some order) \<longleftrightarrow> ring_complete ch"
proof
  assume "\<exists>order. getSlotOrder ch key = Some order"
  then obtain order where
    "walkRing ch (searchRing ch (fnv1a key)) (\<lambda>_. False) [] = Some order"
    using assms by (auto simp: getSlotOrder_def)
  from walkRing_returns [OF this assms(2,1)]
  have res: "numNodes ch \<le> length order" "distinct order" "set order \<subseteq> range (nodeAt ch)"
    by auto
  have sub: "set order \<subseteq> {..<numNodes ch}"
    using res(3) assms unfolding ring_owners_ok_def by blast
  have "card {..<numNodes ch} \<le> card (set order)"
    using res(1,2) by (simp add: distinct_card)
  with sub have "set order = {..<numNodes ch}"
    by (intro card_seteq) auto
  with res(3) have "\<exists>idx. nodeAt ch idx = i" if "i < numNodes ch" for i
    using that by blast
  then have "\<exists>idx < length (ring ch). nodeAt ch idx = i" if "i < numNodes ch" for i
    using that nodeAt_mod assms(1) by (metis length_greater_0_conv mod_less_divisor)
  with assms show "ring_complete ch" by (simp add: ring_complete_def)
qed (use getSlotOrder_complete in blast)

text \<open>The interface the slot selection relies on: a preference order over all workers.\<close>

locale slot_ranking =
  fixes rank :: "'h \<Rightarrow> string \<Rightarrow> nat list option"
    and nodes :: "'h \<Rightarrow> nat"
    and good :: "'h \<Rightarrow> bool"
  assumes rank_total: "good h \<Longrightarrow> \<exists>order. rank h key = Some order"
    and rank_distinct: "good h \<Longrightarrow> rank h key = Some order \<Longrightarrow> distinct order"
    and rank_set: "good h \<Longrightarrow> rank h key = Some order \<Longrightarrow> set order = {..<nodes h}"
begin

lemma rank_mset: "good h \<Longrightarrow> rank h key = Some order \<Longrightarrow> mset order = mset [0..<nodes h]"
  by (metis rank_distinct rank_set distinct_upt set_upt atLeast_upt set_eq_iff_mset_eq_distinct)

lemma ranked_elements:
  assumes "good h" "rank h key = Some order" "nodes h = length xs"
  shows "mset (map ((!) xs) order) = mset xs"
proof -
  have "mset (map ((!) xs) order) = image_mset ((!) xs) (mset order)" by simp
  also have "\<dots> = mset (map ((!) xs) [0..<length xs])"
    using rank_mset [OF assms(1,2)] assms(3) by simp
  finally show ?thesis by (simp only: map_nth)
qed

lemma rank_in_range: "good h \<Longrightarrow> rank h key = Some order \<Longrightarrow> i \<in> set order \<Longrightarrow> i < nodes h"
  using rank_set by blast

end

interpretation ringrank: slot_ranking getSlotOrder numNodes ring_complete
  by unfold_locales (use getSlotOrder_complete in blast, (rule getSlotOrder_props; assumption)+)

section \<open>The constructed ring\<close>

abbreviation replicaHash :: "nat \<times> nat \<Rightarrow> 32 word" where
  "replicaHash ir \<equiv> fnv1a (replicaKey (fst ir) (snd ir))"

lemma fold_addReplica:
  "fold addReplica ps ch = ch\<lparr>ring := ring ch @ map replicaHash ps,
     nodeMap := nodeMap ch ++ map_of (rev (map (\<lambda>ir. (replicaHash ir, fst ir)) ps))\<rparr>"
proof (induction ps arbitrary: ch)
  case (Cons p ps)
  then show ?case
    by (simp add: addReplica_def Let_def map_add_def fun_eq_iff split: option.splits)
qed simp

lemma newConsistentHash_simps:
  "ring (newConsistentHash n k) = sort (map replicaHash (replicaPairs n k))"
  "nodeMap (newConsistentHash n k) =
     map_of (rev (map (\<lambda>ir. (replicaHash ir, fst ir)) (replicaPairs n k)))"
  "numNodes (newConsistentHash n k) = n"
  by (simp_all add: newConsistentHash_def fold_addReplica Let_def)

lemma set_replicaPairs: "set (replicaPairs n k) = {..<n} \<times> {..<k}"
  by (auto simp: replicaPairs_def)

lemma replicaPairs_Suc: "replicaPairs (Suc n) k = replicaPairs n k @ map (Pair n) [0..<k]"
  by (simp add: replicaPairs_def)

lemma ring_mem_iff: "h \<in> set (ring (newConsistentHash n k)) \<longleftrightarrow> nodeMap (newConsistentHash n k) h \<noteq> None"
  by (simp add: newConsistentHash_simps map_of_eq_None_iff image_image)

lemma nodeMap_Suc:
  "nodeMap (newConsistentHash (Suc n) k) h =
     (if h \<in> replicaHash ` Pair n ` {..<k} then Some n else nodeMap (newConsistentHash n k) h)"
proof -
  have *: "map_of (rev (map (\<lambda>ir. (replicaHash ir, fst ir)) (map (Pair n) rs))) h =
      (if h \<in> replicaHash ` Pair n ` set rs then Some n else None)" for rs
    by (induction rs rule: rev_induct) auto
  show ?thesis
    unfolding newConsistentHash_simps(2) replicaPairs_Suc map_append rev_append map_of_append
      map_add_def * by (simp add: atLeast_upt lessThan_def)
qed

lemma nodeMap_less: "nodeMap (newConsistentHash n k) h = Some i \<Longrightarrow> i < n"
proof (induction n)
  case 0
  then show ?case by (simp add: newConsistentHash_simps replicaPairs_def)
next
  case (Suc n)
  then show ?case by (auto simp: nodeMap_Suc less_Suc_eq split: if_splits)
qed

lemma nodeAt_ring:
  "ring ch \<noteq> [] \<Longrightarrow> \<exists>h \<in> set (ring ch). nodeAt ch idx = (case nodeMap ch h of Some i \<Rightarrow> i | None \<Rightarrow> 0)"
  by (intro bexI [of _ "ring ch ! (idx mod length (ring ch))"]) (simp_all add: nodeAt_def)

lemma newConsistentHash_owners: "ring_owners_ok (newConsistentHash n k)"
  unfolding ring_owners_ok_def
proof (intro allI impI)
  fix idx
  assume "ring (newConsistentHash n k) \<noteq> []"
  from nodeAt_ring [OF this, of idx] obtain h where
    h: "h \<in> set (ring (newConsistentHash n k))"
      "nodeAt (newConsistentHash n k) idx =
        (case nodeMap (newConsistentHash n k) h of Some i \<Rightarrow> i | None \<Rightarrow> 0)" by blast
  then obtain i where "nodeMap (newConsistentHash n k) h = Some i"
    using ring_mem_iff by blast
  with h nodeMap_less show "nodeAt (newConsistentHash n k) idx < numNodes (newConsistentHash n k)"
    by (simp add: newConsistentHash_simps)
qed

text \<open>Which worker a point belongs to: the last one whose replica was written there.\<close>

lemma nodeMap_Some_iff:
  "nodeMap (newConsistentHash n k) h = Some i \<longleftrightarrow>
     i < n \<and> (\<exists>r < k. replicaHash (i, r) = h) \<and> (\<forall>j. i < j \<longrightarrow> j < n \<longrightarrow> (\<forall>r < k. replicaHash (j, r) \<noteq> h))"
proof (induction n)
  case 0
  then show ?case by (simp add: newConsistentHash_simps replicaPairs_def)
next
  case (Suc n)
  show ?case
  proof (cases "h \<in> replicaHash ` Pair n ` {..<k}")
    case True
    then have "(\<exists>r < k. replicaHash (n, r) = h)" by auto
    with True show ?thesis by (auto simp: nodeMap_Suc not_less_eq less_Suc_eq)
  next
    case False
    then have "\<forall>r < k. replicaHash (n, r) \<noteq> h" by blast
    with False show ?thesis by (auto simp: nodeMap_Suc Suc.IH less_Suc_eq)
  qed
qed

lemma ring_complete_new_iff:
  assumes "0 < n" "0 < k"
  shows "ring_complete (newConsistentHash n k) \<longleftrightarrow>
    (\<forall>i < n. \<exists>r < k. \<forall>j. i < j \<longrightarrow> j < n \<longrightarrow> (\<forall>r' < k. replicaHash (j, r') \<noteq> replicaHash (i, r)))"
proof -
  let ?ch = "newConsistentHash n k"
  have "(0, 0) \<in> set (replicaPairs n k)" using assms by (simp add: set_replicaPairs)
  then have "replicaHash (0, 0) \<in> set (ring ?ch)"
    unfolding newConsistentHash_simps(1) by (simp only: set_sort set_map image_eqI)
  then have ne: "ring ?ch \<noteq> []" by force
  have "(\<exists>idx < length (ring ?ch). nodeAt ?ch idx = i) \<longleftrightarrow> (\<exists>h. nodeMap ?ch h = Some i)" (is "?l = ?r")
    if "i < n" for i
  proof
    assume ?l
    then obtain idx where idx: "idx < length (ring ?ch)" "nodeAt ?ch idx = i" by blast
    then obtain j where "nodeMap ?ch (ring ?ch ! idx) = Some j"
      using ring_mem_iff nth_mem by blast
    with idx show ?r by (auto simp: nodeAt_def)
  next
    assume ?r
    then obtain h where h: "nodeMap ?ch h = Some i" ..
    then obtain idx where "idx < length (ring ?ch)" "ring ?ch ! idx = h"
      using ring_mem_iff [of h n k] by (auto simp: in_set_conv_nth)
    with h show ?l by (auto simp: nodeAt_def)
  qed
  then show ?thesis
    using ne newConsistentHash_owners [of n k]
    by (simp add: ring_complete_def newConsistentHash_simps(3) nodeMap_Some_iff) blast
qed

section \<open>Stability of the primary worker\<close>

text \<open>The point a hash is sent to: the next one on the ring, or the least one past the end.\<close>

definition succ_point :: "32 word set \<Rightarrow> 32 word \<Rightarrow> 32 word \<Rightarrow> bool" where
  "succ_point S h p \<longleftrightarrow> p \<in> S \<and>
     (if \<exists>q \<in> S. h \<le> q then h \<le> p \<and> (\<forall>q \<in> S. h \<le> q \<longrightarrow> p \<le> q) else \<forall>q \<in> S. p \<le> q)"

lemma succ_point_unique: "succ_point S h p \<Longrightarrow> succ_point S h q \<Longrightarrow> p = q"
  by (auto simp: succ_point_def split: if_splits intro: antisym)

lemma succ_point_subset:
  assumes "succ_point T h p" "S \<subseteq> T" "p \<in> S"
  shows "succ_point S h p"
proof (cases "\<exists>q \<in> T. h \<le> q")
  case True
  with assms have "h \<le> p" "\<forall>q \<in> T. h \<le> q \<longrightarrow> p \<le> q" by (auto simp: succ_point_def)
  with assms(2,3) show ?thesis by (auto simp: succ_point_def)
next
  case False
  with assms show ?thesis by (auto simp: succ_point_def)
qed

lemma searchRing_succ_point:
  assumes "sorted (ring ch)" "ring ch \<noteq> []"
  shows "searchRing ch h < length (ring ch)"
    and "succ_point (set (ring ch)) h (ring ch ! searchRing ch h)"
proof -
  let ?r = "ring ch" let ?n = "length ?r"
  let ?i = "sortSearch (\<lambda>i. h \<le> ?r ! i) 0 ?n"
  have mono: "h \<le> ?r ! b" if "a \<le> b" "b < ?n" "h \<le> ?r ! a" for a b
    using that assms(1) sorted_nth_mono [of ?r a b] by simp
  have "first_true (\<lambda>i. h \<le> ?r ! i) ?n ?i"
    by (rule sortSearch_first_true) (use mono in auto)
  then have i: "?i \<le> ?n" "\<forall>k < ?i. \<not> h \<le> ?r ! k" "?i < ?n \<longrightarrow> h \<le> ?r ! ?i"
    by (auto simp: first_true_def)
  show len: "searchRing ch h < ?n"
    using assms(2) by (simp add: searchRing_def Let_def)
  show "succ_point (set ?r) h (?r ! searchRing ch h)"
  proof (cases "?i < ?n")
    case True
    then have s: "searchRing ch h = ?i" by (simp add: searchRing_def Let_def)
    have "?r ! ?i \<le> q" if q: "q \<in> set ?r" "h \<le> q" for q
    proof -
      obtain k where k: "k < ?n" "q = ?r ! k" using q(1) by (auto simp: in_set_conv_nth)
      with q(2) i(2) have "?i \<le> k" by (metis not_le)
      with k assms(1) show ?thesis by (auto intro: sorted_nth_mono)
    qed
    moreover have "?r ! ?i \<in> set ?r" using True by simp
    moreover have "h \<le> ?r ! ?i" using True i(3) by simp
    ultimately show ?thesis unfolding s succ_point_def by (auto simp del: nth_mem)
  next
    case False
    then have s: "searchRing ch h = 0" by (simp add: searchRing_def Let_def)
    from False i(1,2) have none: "\<not> (\<exists>q \<in> set ?r. h \<le> q)"
      by (auto simp: in_set_conv_nth)
    have "?r ! 0 \<le> q" if "q \<in> set ?r" for q
      using that assms(1) by (auto simp: in_set_conv_nth intro: sorted_nth_mono)
    with none s assms(2) show ?thesis by (simp add: succ_point_def)
  qed
qed

definition owner :: "consistentHash \<Rightarrow> 32 word \<Rightarrow> nat" where
  "owner ch p = (case nodeMap ch p of Some i \<Rightarrow> i | None \<Rightarrow> 0)"

lemma primary_is_owner:
  assumes "ring_complete ch" "sorted (ring ch)" "getSlotOrder ch key = Some order"
  obtains p where "succ_point (set (ring ch)) (fnv1a key) p" "hd order = owner ch p"
proof
  let ?i = "searchRing ch (fnv1a key)"
  note s = searchRing_succ_point [OF assms(2) ring_completeD(1) [OF assms(1)], of "fnv1a key"]
  show "succ_point (set (ring ch)) (fnv1a key) (ring ch ! ?i)" by (rule s(2))
  show "hd order = owner ch (ring ch ! ?i)"
    using getSlotOrder_props(3) [OF assms(1,3)] s(1) by (simp add: nodeAt_def owner_def)
qed

lemma sorted_ring_new: "sorted (ring (newConsistentHash n k))"
  by (simp add: newConsistentHash_simps)

text \<open>Appending one worker moves keys to the new worker only.\<close>

lemma primary_stable_on_append:
  assumes "ring_complete (newConsistentHash n k)" "ring_complete (newConsistentHash (Suc n) k)"
    and "getSlotOrder (newConsistentHash n k) key = Some order"
    and "getSlotOrder (newConsistentHash (Suc n) k) key = Some order'"
  shows "hd order' = hd order \<or> hd order' = n"
proof -
  let ?c = "newConsistentHash n k" and ?c' = "newConsistentHash (Suc n) k"
  obtain p where p: "succ_point (set (ring ?c)) (fnv1a key) p" "hd order = owner ?c p"
    using primary_is_owner [OF assms(1) sorted_ring_new assms(3)] .
  obtain p' where p': "succ_point (set (ring ?c')) (fnv1a key) p'" "hd order' = owner ?c' p'"
    using primary_is_owner [OF assms(2) sorted_ring_new assms(4)] .
  have sub: "set (ring ?c) \<subseteq> set (ring ?c')"
    by (auto simp: ring_mem_iff nodeMap_Suc)
  show ?thesis
  proof (cases "p' \<in> replicaHash ` Pair n ` {..<k}")
    case True
    then have "owner ?c' p' = n" by (simp only: owner_def nodeMap_Suc if_True option.case)
    with p'(2) show ?thesis by simp
  next
    case False
    then have same: "nodeMap ?c' p' = nodeMap ?c p'" by (simp only: nodeMap_Suc if_False)
    have "p' \<in> set (ring ?c')" using p'(1) by (simp add: succ_point_def)
    then have "p' \<in> set (ring ?c)" using same by (simp add: ring_mem_iff)
    then have "p' = p"
      using succ_point_subset [OF p'(1) sub] p(1) succ_point_unique by blast
    with same p(2) p'(2) show ?thesis by (simp add: owner_def)
  qed
qed

end
