(* ===== verification/Addr_Pool.thy ===== *)
theory Addr_Pool
  imports Consistent_Hash
begin

text \<open>
  The worker pool of \<^verbatim>\<open>internal/builddaemon/scheduler.go\<close>: address parsing, the pool of slots
  with one semaphore per worker, replacement of the pool on a refresh, and the choice of a slot
  for a key.

  Slots are Go pointers shared between the pool, snapshots of it and running builds, so they live
  in an explicit heap: \<open>ap_heap\<close> lists every slot ever allocated and a pointer is an index into
  it. A slot that a refresh drops from the pool stays in the heap, where builds still hold it.
  The \<^verbatim>\<open>nil\<close> tests of the code on slots are vacuous here: \<^verbatim>\<open>replace\<close> stores no nil slot.
\<close>

section \<open>Addresses\<close>

record buildkitAddr =
  ba_original :: string
  ba_addr :: string
  ba_nodeIP :: string

text \<open>
  What address parsing takes from the network library: \<^verbatim>\<open>net.ParseIP\<close> followed by
  \<^verbatim>\<open>String\<close>, and \<^verbatim>\<open>net.LookupHost\<close>.
\<close>

record net_env =
  net_ParseIP :: "string \<Rightarrow> string option"
  net_LookupHost :: "string \<Rightarrow> string list result"

text \<open>\<^verbatim>\<open>net.SplitHostPort\<close> and \<^verbatim>\<open>net.JoinHostPort\<close>; \<^const>\<open>None\<close> is the address error.\<close>

definition lastIndexByte :: "string \<Rightarrow> char \<Rightarrow> nat option" where
  "lastIndexByte s c = map_option (\<lambda>i. length s - Suc i) (indexByte (rev s) c)"

definition splitHostPort :: "string \<Rightarrow> (string \<times> string) option" where
  "splitHostPort hostport = (case lastIndexByte hostport CHR '':'' of
      None \<Rightarrow> None
    | Some i \<Rightarrow>
        if hd hostport = CHR ''['' then
          (case indexByte hostport CHR '']'' of
             None \<Rightarrow> None
           | Some e \<Rightarrow>
               if e + 1 = length hostport \<or> e + 1 \<noteq> i then None
               else if CHR ''['' \<in> set (drop 1 hostport) \<or> CHR '']'' \<in> set (drop (e + 1) hostport) then None
               else Some (drop 1 (take e hostport), drop (i + 1) hostport))
        else
          (let host = take i hostport in
           if CHR '':'' \<in> set host \<or> CHR ''['' \<in> set hostport \<or> CHR '']'' \<in> set hostport then None
           else Some (host, drop (i + 1) hostport)))"

definition joinHostPort :: "string \<Rightarrow> string \<Rightarrow> string" where
  "joinHostPort host port =
     (if CHR '':'' \<in> set host then ''['' @ host @ '']:'' @ port else host @ '':'' @ port)"

definition nodeIPFromBuildkitAddr :: "net_env \<Rightarrow> string \<Rightarrow> string" where
  "nodeIPFromBuildkitAddr net addr =
     (case splitHostPort (trimPrefix (trimSpace addr) ''tcp://'') of
        None \<Rightarrow> ''''
      | Some (host, _) \<Rightarrow> (case net_ParseIP net host of Some ip \<Rightarrow> ip | None \<Rightarrow> ''''))"

text \<open>One iteration of the loop over the comma-separated parts: the addresses it appends.\<close>

definition parseBuildkitAddrPart :: "net_env \<Rightarrow> string \<Rightarrow> buildkitAddr list" where
  "parseBuildkitAddrPart net rawPart = (let part = trimSpace rawPart in
     if part = '''' then []
     else
       let addr = (if \<not> containsStr part ''://'' then ''tcp://'' @ part else part);
           plain = [\<lparr>ba_original = part, ba_addr = addr, ba_nodeIP = nodeIPFromBuildkitAddr net addr\<rparr>]
       in case splitHostPort (trimPrefix addr ''tcp://'') of
            None \<Rightarrow> plain
          | Some (host, port) \<Rightarrow>
              (case net_ParseIP net host of
                 Some ip \<Rightarrow> [\<lparr>ba_original = part, ba_addr = addr, ba_nodeIP = ip\<rparr>]
               | None \<Rightarrow>
                   (case net_LookupHost net host of
                      Inl _ \<Rightarrow> plain
                    | Inr ips \<Rightarrow> map (\<lambda>ip. \<lparr>ba_original = part,
                          ba_addr = ''tcp://'' @ joinHostPort ip port, ba_nodeIP = ip\<rparr>) ips)))"

definition parseBuildkitAddrs :: "net_env \<Rightarrow> string \<Rightarrow> buildkitAddr list result" where
  "parseBuildkitAddrs net raw =
     (if trimSpace raw = '''' then Inl (Errorf ''--buildkitd-addr is required'')
      else
        let addrs = concat (map (parseBuildkitAddrPart net) (splitByte CHR '','' raw)) in
        if addrs = [] then Inl (Errorf ''no valid buildkitd addresses'')
        else Inr (sort_key ba_addr addrs))"

section \<open>Slots and the pool\<close>

record addrSlot =
  as_addr :: buildkitAddr
  as_sem :: csem

type_synonym slot_ptr = nat

record addrPool =
  ap_concurrency :: nat
  ap_slots :: "slot_ptr list"
  ap_hash :: "consistentHash option"
  ap_heap :: "addrSlot list"

abbreviation slot_key :: "addrSlot list \<Rightarrow> slot_ptr \<Rightarrow> string" where
  "slot_key heap ptr \<equiv> ba_addr (as_addr (heap ! ptr))"

definition slotAddressKeys :: "addrSlot list \<Rightarrow> slot_ptr list \<Rightarrow> string list" where
  "slotAddressKeys heap slots = map (slot_key heap) slots"

definition pool_addresses :: "addrPool \<Rightarrow> string list" where
  "pool_addresses p = slotAddressKeys (ap_heap p) (ap_slots p)"

definition existingSlots :: "addrPool \<Rightarrow> string \<rightharpoonup> slot_ptr" where
  "existingSlots p = foldl (\<lambda>m ptr. m(slot_key (ap_heap p) ptr \<mapsto> ptr)) Map.empty (ap_slots p)"

text \<open>The loop of \<^verbatim>\<open>replace\<close> over the new addresses; a nil address is skipped.\<close>

fun replaceLoop :: "(string \<rightharpoonup> slot_ptr) \<Rightarrow> nat \<Rightarrow> addrSlot list \<Rightarrow> slot_ptr list \<Rightarrow>
    buildkitAddr option list \<Rightarrow> addrSlot list \<times> slot_ptr list" where
  "replaceLoop existing conc heap newSlots [] = (heap, newSlots)"
| "replaceLoop existing conc heap newSlots (None # addrs) = replaceLoop existing conc heap newSlots addrs"
| "replaceLoop existing conc heap newSlots (Some addr # addrs) =
     (case existing (ba_addr addr) of
        Some ptr \<Rightarrow> replaceLoop existing conc heap (newSlots @ [ptr]) addrs
      | None \<Rightarrow> replaceLoop existing conc (heap @ [\<lparr>as_addr = addr, as_sem = makeSem conc\<rparr>])
                  (newSlots @ [length heap]) addrs)"

definition ringReplicas :: nat where
  "ringReplicas = 150"

definition pool_replace :: "addrPool \<Rightarrow> buildkitAddr option list \<Rightarrow> addrPool" where
  "pool_replace p addrs =
     (let (heap, newSlots) = replaceLoop (existingSlots p) (ap_concurrency p) (ap_heap p) [] addrs;
          slots = sort_key (slot_key heap) newSlots
      in p\<lparr>ap_heap := heap, ap_slots := slots,
           ap_hash := (if slots = [] then None else Some (newConsistentHash (length slots) ringReplicas))\<rparr>)"

definition newAddrPool :: "buildkitAddr option list \<Rightarrow> nat \<Rightarrow> addrPool" where
  "newAddrPool addrs conc =
     pool_replace \<lparr>ap_concurrency = conc, ap_slots = [], ap_hash = None, ap_heap = []\<rparr> addrs"

record addrPoolSnapshot =
  snap_slots :: "slot_ptr list"
  snap_hash :: "consistentHash option"

definition pool_snapshot :: "addrPool \<Rightarrow> addrPoolSnapshot" where
  "pool_snapshot p = \<lparr>snap_slots = ap_slots p, snap_hash = ap_hash p\<rparr>"

definition sameStringSlice :: "string list \<Rightarrow> string list \<Rightarrow> bool" where
  "sameStringSlice left right \<longleftrightarrow> length left = length right \<and> list_all2 (=) left right"

text \<open>
  \<^verbatim>\<open>refreshBuildkitAddrs\<close>: the new pool and whether the address list changed (which is logged), or
  the parse error, which leaves the pool as it was.
\<close>

definition refreshBuildkitAddrs :: "buildkitAddr list result \<Rightarrow> addrPool \<Rightarrow> (addrPool \<times> bool) result" where
  "refreshBuildkitAddrs parsed p = (case parsed of
      Inl e \<Rightarrow> Inl e
    | Inr refreshed \<Rightarrow>
        (let before = pool_addresses p;
             p' = pool_replace p (map Some refreshed);
             after = pool_addresses p'
         in Inr (p', \<not> sameStringSlice before after)))"

section \<open>Choosing a slot\<close>

definition orderedAddrSlots :: "addrPoolSnapshot \<Rightarrow> string \<Rightarrow> slot_ptr list option" where
  "orderedAddrSlots snap key =
     (case snap_hash snap of
        None \<Rightarrow> Some []
      | Some h \<Rightarrow>
          if snap_slots snap = [] then Some []
          else map_option (\<lambda>order. map ((!) (snap_slots snap)) (filter (\<lambda>i. i < length (snap_slots snap)) order))
                 (getSlotOrder h key))"

definition filterExcludedAddrSlots :: "addrSlot list \<Rightarrow> slot_ptr list \<Rightarrow> string list \<Rightarrow> slot_ptr list" where
  "filterExcludedAddrSlots heap slots excluded =
     (if slots = [] \<or> excluded = [] then slots
      else filter (\<lambda>ptr. slot_key heap ptr \<notin> set excluded) slots)"

definition setSem :: "addrSlot list \<Rightarrow> slot_ptr \<Rightarrow> csem \<Rightarrow> addrSlot list" where
  "setSem heap ptr s = heap[ptr := (heap ! ptr)\<lparr>as_sem := s\<rparr>]"

definition tryAcquireAddrSlot :: "addrSlot list \<Rightarrow> slot_ptr \<Rightarrow> addrSlot list option" where
  "tryAcquireAddrSlot heap ptr = map_option (setSem heap ptr) (sem_trySend (as_sem (heap ! ptr)))"

definition releaseAddrSlot :: "addrSlot list \<Rightarrow> slot_ptr \<Rightarrow> addrSlot list option" where
  "releaseAddrSlot heap ptr = map_option (setSem heap ptr) (sem_recv (as_sem (heap ! ptr)))"

fun pickLoop :: "addrSlot list \<Rightarrow> slot_ptr list \<Rightarrow> (addrSlot list \<times> slot_ptr) option" where
  "pickLoop heap [] = None"
| "pickLoop heap (ptr # ptrs) =
     (case tryAcquireAddrSlot heap ptr of
        Some heap' \<Rightarrow> Some (heap', ptr)
      | None \<Rightarrow> pickLoop heap ptrs)"

text \<open>The outer option is the ring walk that may not end; the inner one is the nil slot.\<close>

definition pickAvailableAddrSlot ::
    "addrSlot list \<Rightarrow> addrPoolSnapshot \<Rightarrow> string \<Rightarrow> string list \<Rightarrow> (addrSlot list \<times> slot_ptr) option option" where
  "pickAvailableAddrSlot heap snap key excluded =
     map_option (\<lambda>slots. pickLoop heap (filterExcludedAddrSlots heap slots excluded))
       (orderedAddrSlots snap key)"

datatype acquire_result =
    Acquired slot_ptr
  | AcquireFailed go_error
  | AcquireWait "slot_ptr list"

text \<open>
  \<^verbatim>\<open>acquireAddrSlot\<close> up to the point where it blocks: \<open>AcquireWait slots\<close> is the goroutine
  blocked in the \<^verbatim>\<open>select\<close> (or \<^verbatim>\<open>reflect.Select\<close>) on the context and the given slots' semaphores.
\<close>

definition noBuildkitdAddrs :: go_error where
  "noBuildkitdAddrs = Errorf ''no buildkitd addresses available''"

definition acquireAddrSlot :: "addrPool \<Rightarrow> string \<Rightarrow> string list \<Rightarrow> (addrPool \<times> acquire_result) option" where
  "acquireAddrSlot p key excluded = (let snap = pool_snapshot p in
     case pickAvailableAddrSlot (ap_heap p) snap key excluded of
       None \<Rightarrow> None
     | Some (Some (heap', ptr)) \<Rightarrow> Some (p\<lparr>ap_heap := heap'\<rparr>, Acquired ptr)
     | Some None \<Rightarrow>
         map_option (\<lambda>ordered. let slots = filterExcludedAddrSlots (ap_heap p) ordered excluded in
             (p, if slots = [] then AcquireFailed noBuildkitdAddrs else AcquireWait slots))
           (orderedAddrSlots snap key))"

section \<open>Address lists\<close>

lemma parseBuildkitAddrs_sorted:
  assumes "parseBuildkitAddrs net raw = Inr addrs"
  shows "addrs \<noteq> [] \<and> sorted (map ba_addr addrs)"
proof -
  let ?xs = "concat (map (parseBuildkitAddrPart net) (splitByte CHR '','' raw))"
  have "addrs = sort_key ba_addr ?xs" "?xs \<noteq> []"
    using assms unfolding parseBuildkitAddrs_def Let_def by (simp_all split: if_splits)
  moreover have "length (sort_key ba_addr ?xs) = length ?xs" by (rule length_sort)
  ultimately show ?thesis using sorted_sort_key by fastforce
qed

lemma indexByte_None: "indexByte s c = None \<longleftrightarrow> c \<notin> set s"
  by (induction s) auto

lemma indexByte_append: "c \<notin> set s \<Longrightarrow> indexByte (s @ c # t) c = Some (length s)"
  by (induction s) auto

lemma lastIndexByte_append: "c \<notin> set t \<Longrightarrow> lastIndexByte (s @ c # t) c = Some (length s)"
  by (simp add: lastIndexByte_def indexByte_append)

text \<open>Splitting what was joined gives the parts back, for hosts and ports without brackets.\<close>

lemma split_join_HostPort:
  assumes "set host \<inter> {CHR ''['', CHR '']''} = {}" "set port \<inter> {CHR '':'', CHR ''['', CHR '']''} = {}"
    and "host \<noteq> []"
  shows "splitHostPort (joinHostPort host port) = Some (host, port)"
proof (cases "CHR '':'' \<in> set host")
  case True
  let ?hp = "CHR ''['' # host @ CHR '']'' # CHR '':'' # port"
  have l: "lastIndexByte ?hp CHR '':'' = Some (length host + 2)"
    using lastIndexByte_append [of "CHR '':''" port "CHR ''['' # host @ [CHR '']'']"] assms by simp
  have r: "indexByte ?hp CHR '']'' = Some (Suc (length host))"
    using indexByte_append [of "CHR '']''" "CHR ''['' # host" "CHR '':'' # port"] assms by simp
  have "splitHostPort ?hp = Some (host, port)"
    using assms unfolding splitHostPort_def l r by auto
  with True show ?thesis by (simp add: joinHostPort_def)
next
  case False
  let ?hp = "host @ CHR '':'' # port"
  have l: "lastIndexByte ?hp CHR '':'' = Some (length host)"
    using lastIndexByte_append [of "CHR '':''" port host] assms by simp
  have "hd ?hp \<noteq> CHR ''[''" using assms(1,3) by (cases host) auto
  then have "splitHostPort ?hp = Some (host, port)"
    using assms False unfolding splitHostPort_def l by (auto simp: Let_def)
  with False show ?thesis by (simp add: joinHostPort_def)
qed

section \<open>Replacing the pool\<close>

definition pool_wf :: "addrPool \<Rightarrow> bool" where
  "pool_wf p \<longleftrightarrow>
     (\<forall>ptr \<in> set (ap_slots p). ptr < length (ap_heap p)) \<and>
     (\<forall>s \<in> set (ap_heap p). sem_ok (as_sem s) \<and> sem_cap (as_sem s) = ap_concurrency p) \<and>
     sorted (pool_addresses p) \<and>
     ap_hash p = (if ap_slots p = [] then None else Some (newConsistentHash (length (ap_slots p)) ringReplicas))"

lemma existingSlots_aux:
  "foldl (\<lambda>m ptr. m(f ptr \<mapsto> ptr)) m0 ptrs k = Some ptr \<Longrightarrow>
     (ptr \<in> set ptrs \<and> f ptr = k) \<or> m0 k = Some ptr"
  by (induction ptrs arbitrary: m0) (fastforce split: if_splits)+

lemma existingSlots_dom:
  "dom (foldl (\<lambda>m ptr. m(f ptr \<mapsto> ptr)) m0 ptrs) = dom m0 \<union> f ` set ptrs"
  by (induction ptrs arbitrary: m0) auto

lemma existingSlots_Some:
  "existingSlots p k = Some ptr \<Longrightarrow> ptr \<in> set (ap_slots p) \<and> slot_key (ap_heap p) ptr = k"
  unfolding existingSlots_def by (drule existingSlots_aux) auto

lemma existingSlots_None: "existingSlots p k = None \<longleftrightarrow> k \<notin> set (pool_addresses p)"
proof -
  have "dom (existingSlots p) = set (pool_addresses p)"
    by (simp add: existingSlots_def existingSlots_dom pool_addresses_def slotAddressKeys_def)
  then show ?thesis by (metis domIff)
qed

fun nonNil :: "'a option list \<Rightarrow> 'a list" where
  "nonNil [] = []"
| "nonNil (None # xs) = nonNil xs"
| "nonNil (Some x # xs) = x # nonNil xs"

lemma set_nonNil: "x \<in> set (nonNil xs) \<longleftrightarrow> Some x \<in> set xs"
  by (induction xs rule: nonNil.induct) auto

lemma nonNil_map_Some [simp]: "nonNil (map Some xs) = xs"
  by (induction xs) auto

text \<open>What the loop of \<open>pool_replace\<close> keeps: the heap only grows, with idle slots.\<close>

definition ptr_ok :: "(string \<rightharpoonup> slot_ptr) \<Rightarrow> addrSlot list \<Rightarrow> bool" where
  "ptr_ok existing heap \<longleftrightarrow>
     (\<forall>k ptr. existing k = Some ptr \<longrightarrow> ptr < length heap \<and> slot_key heap ptr = k)"

lemma ptr_okD: "ptr_ok existing heap \<Longrightarrow> existing k = Some ptr \<Longrightarrow> ptr < length heap \<and> slot_key heap ptr = k"
  by (simp add: ptr_ok_def)

lemma ptr_ok_grow: "ptr_ok existing heap \<Longrightarrow> ptr_ok existing (heap @ new)"
  by (auto simp: ptr_ok_def nth_append intro: trans_less_add1)

lemma replaceLoop_heap:
  "replaceLoop existing conc heap slots addrs = (heap', slots') \<Longrightarrow>
     \<exists>fresh. heap' = heap @ fresh \<and> (\<forall>s \<in> set fresh. as_sem s = makeSem conc)"
  by (induction existing conc heap slots addrs rule: replaceLoop.induct)
     (fastforce split: option.splits)+

lemma replaceLoop_in_heap:
  "replaceLoop existing conc heap slots addrs = (heap', slots') \<Longrightarrow> ptr_ok existing heap \<Longrightarrow>
     \<forall>ptr \<in> set slots. ptr < length heap \<Longrightarrow> \<forall>ptr \<in> set slots'. ptr < length heap'"
proof (induction existing conc heap slots addrs rule: replaceLoop.induct)
  case (3 existing conc heap slots addr addrs)
  show ?case
  proof (cases "existing (ba_addr addr)")
    case None
    show ?thesis
      by (rule "3.IH"(1) [OF None]) (use None "3.prems" in \<open>auto simp: ptr_ok_grow\<close>)
  next
    case (Some ptr)
    show ?thesis
      by (rule "3.IH"(2) [OF Some]) (use Some "3.prems" in \<open>auto dest: ptr_okD\<close>)
  qed
qed auto

lemma slotAddressKeys_grow:
  "\<forall>ptr \<in> set slots. ptr < length heap \<Longrightarrow> slotAddressKeys (heap @ new) slots = slotAddressKeys heap slots"
  by (auto simp: slotAddressKeys_def nth_append)

lemma replaceLoop_keys:
  "replaceLoop existing conc heap slots addrs = (heap', slots') \<Longrightarrow> ptr_ok existing heap \<Longrightarrow>
     \<forall>ptr \<in> set slots. ptr < length heap \<Longrightarrow>
     slotAddressKeys heap' slots' = slotAddressKeys heap slots @ map ba_addr (nonNil addrs)"
proof (induction existing conc heap slots addrs rule: replaceLoop.induct)
  case (3 existing conc heap slots addr addrs)
  show ?case
  proof (cases "existing (ba_addr addr)")
    case None
    let ?heap = "heap @ [\<lparr>as_addr = addr, as_sem = makeSem conc\<rparr>]"
    have "slotAddressKeys heap' slots' =
        slotAddressKeys ?heap (slots @ [length heap]) @ map ba_addr (nonNil addrs)"
      by (rule "3.IH"(1) [OF None]) (use None "3.prems" in \<open>auto simp: ptr_ok_grow\<close>)
    also have "slotAddressKeys ?heap (slots @ [length heap]) = slotAddressKeys heap slots @ [ba_addr addr]"
      using slotAddressKeys_grow [OF "3.prems"(3)] by (simp add: slotAddressKeys_def)
    finally show ?thesis by simp
  next
    case (Some ptr)
    have "slotAddressKeys heap' slots' = slotAddressKeys heap (slots @ [ptr]) @ map ba_addr (nonNil addrs)"
      by (rule "3.IH"(2) [OF Some]) (use Some "3.prems" in \<open>auto dest: ptr_okD\<close>)
    with Some "3.prems"(2) show ?thesis by (auto simp: slotAddressKeys_def dest: ptr_okD)
  qed
qed auto

lemma replaceLoop_keeps:
  "replaceLoop existing conc heap slots addrs = (heap', slots') \<Longrightarrow>
     set slots \<subseteq> set slots' \<and>
     (\<forall>addr \<in> set (nonNil addrs). \<forall>ptr. existing (ba_addr addr) = Some ptr \<longrightarrow> ptr \<in> set slots')"
  by (induction existing conc heap slots addrs rule: replaceLoop.induct)
     (auto split: option.splits)

lemma ptr_ok_existing: "pool_wf p \<Longrightarrow> ptr_ok (existingSlots p) (ap_heap p)"
  unfolding ptr_ok_def pool_wf_def by (blast dest: existingSlots_Some)

text \<open>The heap only grows on a replacement, so every slot a build holds keeps its identity.\<close>

lemma pool_replace_heap:
  "\<exists>fresh. ap_heap (pool_replace p addrs) = ap_heap p @ fresh \<and>
     (\<forall>s \<in> set fresh. as_sem s = makeSem (ap_concurrency p))"
  by (cases "replaceLoop (existingSlots p) (ap_concurrency p) (ap_heap p) [] addrs")
     (auto simp: pool_replace_def Let_def dest: replaceLoop_heap)

lemma pool_replace_concurrency [simp]: "ap_concurrency (pool_replace p addrs) = ap_concurrency p"
  by (simp add: pool_replace_def Let_def split: prod.splits)

lemma map_sort_key: "map f (sort_key f xs) = sort (map f xs)"
  by (rule properties_for_sort [symmetric]) simp_all

lemma pool_replace_addresses:
  assumes "pool_wf p"
  shows "pool_addresses (pool_replace p addrs) = sort (map ba_addr (nonNil addrs))"
proof -
  obtain heap' slots' where
    l: "replaceLoop (existingSlots p) (ap_concurrency p) (ap_heap p) [] addrs = (heap', slots')"
    by fastforce
  have "map (slot_key heap') slots' = map ba_addr (nonNil addrs)"
    using replaceLoop_keys [OF l ptr_ok_existing [OF assms]] by (simp add: slotAddressKeys_def)
  then show ?thesis
    by (simp add: pool_replace_def Let_def l pool_addresses_def slotAddressKeys_def map_sort_key)
qed

lemma pool_replace_wf [step_inv]:
  assumes "pool_wf p"
  shows "pool_wf (pool_replace p addrs)"
proof -
  obtain heap' slots' where
    l: "replaceLoop (existingSlots p) (ap_concurrency p) (ap_heap p) [] addrs = (heap', slots')"
    by fastforce
  note p' = pool_replace_def [of p addrs, unfolded l Let_def prod.case]
  obtain fresh where "heap' = ap_heap p @ fresh" "\<forall>s \<in> set fresh. as_sem s = makeSem (ap_concurrency p)"
    using replaceLoop_heap [OF l] by blast
  then have "\<forall>s \<in> set heap'. sem_ok (as_sem s) \<and> sem_cap (as_sem s) = ap_concurrency p"
    using assms by (auto simp: pool_wf_def makeSem_def sem_ok_def)
  moreover have "\<forall>ptr \<in> set slots'. ptr < length heap'"
    using replaceLoop_in_heap [OF l ptr_ok_existing [OF assms]] by simp
  moreover have "sorted (pool_addresses (pool_replace p addrs))"
    using pool_replace_addresses [OF assms] by simp
  ultimately show ?thesis
    unfolding pool_wf_def by (auto simp: p')
qed

lemma newAddrPool_wf: "pool_wf (newAddrPool addrs conc)"
  unfolding newAddrPool_def
  by (rule pool_replace_wf) (simp add: pool_wf_def pool_addresses_def slotAddressKeys_def)

text \<open>A worker that is in the pool before and after a refresh keeps its slot and so its load.\<close>

lemma pool_replace_keeps_slot:
  assumes "pool_wf p" "existingSlots p (ba_addr addr) = Some ptr" "Some addr \<in> set addrs"
  shows "ptr \<in> set (ap_slots (pool_replace p addrs))"
    and "ap_heap (pool_replace p addrs) ! ptr = ap_heap p ! ptr"
proof -
  obtain heap' slots' where
    l: "replaceLoop (existingSlots p) (ap_concurrency p) (ap_heap p) [] addrs = (heap', slots')"
    by fastforce
  have "addr \<in> set (nonNil addrs)" using assms(3) by (simp add: set_nonNil)
  with replaceLoop_keeps [OF l] assms(2) have "ptr \<in> set slots'" by blast
  then show "ptr \<in> set (ap_slots (pool_replace p addrs))"
    by (simp add: pool_replace_def Let_def l)
  have "ptr < length (ap_heap p)"
    using assms(1,2) ptr_ok_existing ptr_okD by blast
  then show "ap_heap (pool_replace p addrs) ! ptr = ap_heap p ! ptr"
    using pool_replace_heap [of p addrs] by (auto simp: nth_append)
qed

section \<open>Slot selection\<close>

definition pool_ring_complete :: "addrPool \<Rightarrow> bool" where
  "pool_ring_complete p \<longleftrightarrow>
     ap_slots p = [] \<or> ring_complete (newConsistentHash (length (ap_slots p)) ringReplicas)"

lemma orderedAddrSlots_pool:
  assumes "pool_wf p" "pool_ring_complete p"
  shows "\<exists>slots. orderedAddrSlots (pool_snapshot p) key = Some slots \<and> mset slots = mset (ap_slots p)"
proof (cases "ap_slots p = []")
  case True
  with assms(1) show ?thesis
    by (simp add: pool_wf_def orderedAddrSlots_def pool_snapshot_def)
next
  case False
  let ?n = "length (ap_slots p)" let ?h = "newConsistentHash ?n ringReplicas"
  have c: "ring_complete ?h" using assms(2) False by (simp add: pool_ring_complete_def)
  have n: "numNodes ?h = ?n" by (simp add: newConsistentHash_simps)
  obtain order where o: "getSlotOrder ?h key = Some order"
    using ringrank.rank_total [OF c] by blast
  have all: "\<forall>i \<in> set order. i < ?n"
    using ringrank.rank_in_range [OF c o] n by simp
  have "mset (map ((!) (ap_slots p)) order) = mset (ap_slots p)"
    by (rule ringrank.ranked_elements [OF c o n])
  moreover have "filter (\<lambda>i. i < ?n) order = order" using all by simp
  ultimately show ?thesis
    using assms(1) False o
    by (simp add: pool_wf_def orderedAddrSlots_def pool_snapshot_def)
qed

abbreviation slot_full :: "addrSlot list \<Rightarrow> slot_ptr \<Rightarrow> bool" where
  "slot_full heap ptr \<equiv> sem_cap (as_sem (heap ! ptr)) \<le> sem_len (as_sem (heap ! ptr))"

lemma tryAcquireAddrSlot_Some:
  "tryAcquireAddrSlot heap ptr = Some heap' \<longleftrightarrow> \<not> slot_full heap ptr \<and>
     heap' = setSem heap ptr ((as_sem (heap ! ptr))\<lparr>sem_len := Suc (sem_len (as_sem (heap ! ptr)))\<rparr>)"
  by (auto simp: tryAcquireAddrSlot_def)

lemma tryAcquireAddrSlot_None: "tryAcquireAddrSlot heap ptr = None \<longleftrightarrow> slot_full heap ptr"
  by (simp add: tryAcquireAddrSlot_def)

lemma releaseAddrSlot_Some:
  "releaseAddrSlot heap ptr = Some heap' \<longleftrightarrow> 0 < sem_len (as_sem (heap ! ptr)) \<and>
     heap' = setSem heap ptr ((as_sem (heap ! ptr))\<lparr>sem_len := sem_len (as_sem (heap ! ptr)) - 1\<rparr>)"
  by (auto simp: releaseAddrSlot_def)

lemma length_setSem [simp]: "length (setSem heap ptr s) = length heap"
  by (simp add: setSem_def)

lemma as_addr_setSem [simp]: "as_addr (setSem heap ptr s ! q) = as_addr (heap ! q)"
  by (cases "ptr < length heap") (auto simp: setSem_def nth_list_update list_update_beyond)

lemma as_sem_setSem:
  "ptr < length heap \<Longrightarrow> as_sem (setSem heap ptr s ! q) = (if q = ptr then s else as_sem (heap ! q))"
  by (simp add: setSem_def nth_list_update)

lemma set_setSem: "ptr < length heap \<Longrightarrow> x \<in> set (setSem heap ptr s) \<Longrightarrow>
    x \<in> set heap \<or> x = (heap ! ptr)\<lparr>as_sem := s\<rparr>"
  using set_update_subset_insert unfolding setSem_def by fastforce

text \<open>Changing a semaphore within its capacity keeps the pool well-formed.\<close>

lemma pool_setSem_wf [step_inv]:
  assumes "pool_wf p" "ptr < length (ap_heap p)"
    and "sem_ok s" "sem_cap s = sem_cap (as_sem (ap_heap p ! ptr))"
  shows "pool_wf (p\<lparr>ap_heap := setSem (ap_heap p) ptr s\<rparr>)"
proof -
  have "\<forall>x \<in> set (setSem (ap_heap p) ptr s). sem_ok (as_sem x) \<and> sem_cap (as_sem x) = ap_concurrency p"
    using assms by (auto simp: pool_wf_def dest!: set_setSem)
  moreover have "pool_addresses (p\<lparr>ap_heap := setSem (ap_heap p) ptr s\<rparr>) = pool_addresses p"
    by (simp add: pool_addresses_def slotAddressKeys_def)
  ultimately show ?thesis using assms(1) unfolding pool_wf_def by simp
qed

text \<open>The loop takes the first slot of the list that has room.\<close>

lemma pickLoop_Some:
  assumes "pickLoop heap ptrs = Some (heap', ptr)"
  obtains pre post where "ptrs = pre @ ptr # post" "\<forall>q \<in> set pre. slot_full heap q"
    "tryAcquireAddrSlot heap ptr = Some heap'"
  using assms
proof (induction ptrs arbitrary: thesis)
  case (Cons q ptrs)
  show ?case
  proof (cases "tryAcquireAddrSlot heap q")
    case None
    then have "slot_full heap q" by (simp add: tryAcquireAddrSlot_None)
    from None Cons.prems(2) have "pickLoop heap ptrs = Some (heap', ptr)" by simp
    then obtain pre post where "ptrs = pre @ ptr # post" "\<forall>q \<in> set pre. slot_full heap q"
      "tryAcquireAddrSlot heap ptr = Some heap'"
      using Cons.IH by blast
    with \<open>slot_full heap q\<close> show ?thesis by (intro Cons.prems(1) [of "q # pre" post]) auto
  next
    case (Some h)
    with Cons.prems show ?thesis by (intro Cons.prems(1) [of "[]" ptrs]) auto
  qed
qed simp

lemma pickLoop_None: "pickLoop heap ptrs = None \<longleftrightarrow> (\<forall>q \<in> set ptrs. slot_full heap q)"
  by (induction ptrs) (auto simp: tryAcquireAddrSlot_None tryAcquireAddrSlot_Some split: option.splits)

lemma set_filterExcluded:
  "set (filterExcludedAddrSlots heap slots excluded) =
     {ptr \<in> set slots. slot_key heap ptr \<notin> set excluded}"
  by (auto simp: filterExcludedAddrSlots_def)

text \<open>\<open>candidates p excluded\<close>: the workers of the pool that are not excluded.\<close>

definition candidates :: "addrPool \<Rightarrow> string list \<Rightarrow> slot_ptr set" where
  "candidates p excluded = {ptr \<in> set (ap_slots p). slot_key (ap_heap p) ptr \<notin> set excluded}"

lemma acquireAddrSlot_cases:
  assumes "pool_wf p" "pool_ring_complete p"
  obtains (acquired) heap' ptr where
      "acquireAddrSlot p key excluded = Some (p\<lparr>ap_heap := heap'\<rparr>, Acquired ptr)"
      "ptr \<in> candidates p excluded" "tryAcquireAddrSlot (ap_heap p) ptr = Some heap'"
  | (failed) "acquireAddrSlot p key excluded = Some (p, AcquireFailed noBuildkitdAddrs)"
      "candidates p excluded = {}"
  | (wait) slots where "acquireAddrSlot p key excluded = Some (p, AcquireWait slots)"
      "set slots = candidates p excluded" "slots \<noteq> []"
      "\<forall>ptr \<in> set slots. slot_full (ap_heap p) ptr"
proof -
  obtain ordered where o: "orderedAddrSlots (pool_snapshot p) key = Some ordered"
    and m: "mset ordered = mset (ap_slots p)"
    using orderedAddrSlots_pool [OF assms] by blast
  let ?f = "filterExcludedAddrSlots (ap_heap p) ordered excluded"
  have "set ordered = set (ap_slots p)" using m by (rule mset_eq_setD)
  then have f: "set ?f = candidates p excluded"
    by (simp add: set_filterExcluded candidates_def)
  show thesis
  proof (cases "pickLoop (ap_heap p) ?f")
    case None
    then have acq: "acquireAddrSlot p key excluded =
        Some (p, if ?f = [] then AcquireFailed noBuildkitdAddrs else AcquireWait ?f)"
      by (simp add: acquireAddrSlot_def pickAvailableAddrSlot_def o Let_def)
    from None have full: "\<forall>q \<in> set ?f. slot_full (ap_heap p) q"
      by (simp only: pickLoop_None)
    show thesis
    proof (cases "?f = []")
      case True
      with acq f show thesis by (intro failed) auto
    next
      case False
      with acq f full show thesis by (intro wait [of ?f]) simp_all
    qed
  next
    case (Some r)
    then obtain heap' ptr where r: "pickLoop (ap_heap p) ?f = Some (heap', ptr)" by (cases r) auto
    then have "acquireAddrSlot p key excluded = Some (p\<lparr>ap_heap := heap'\<rparr>, Acquired ptr)"
      by (simp add: acquireAddrSlot_def pickAvailableAddrSlot_def o Let_def)
    moreover obtain pre post where "?f = pre @ ptr # post" "tryAcquireAddrSlot (ap_heap p) ptr = Some heap'"
      using r by (rule pickLoop_Some)
    moreover from this have "ptr \<in> candidates p excluded" using f by auto
    ultimately show thesis by (intro acquired)
  qed
qed

end
