(* ===== verification/Go_Path.thy ===== *)
theory Go_Path
  imports Go_Prelude
begin

text \<open>
  Lexical path handling: \<^verbatim>\<open>path.Clean\<close> and its Unix twin \<^verbatim>\<open>filepath.Clean\<close>, \<^verbatim>\<open>filepath.Join\<close>
  and \<^verbatim>\<open>filepath.IsAbs\<close> of the Go library, as the archive extraction of both daemons uses them.
  A path is cleaned component by component on a stack (top first). The main lemma is
  \<open>filepathJoin_below\<close>: joining a base with a name whose cleaned form does not climb is the base,
  a slash, and the cleaned name.
\<close>

section \<open>Model\<close>

definition isAbs :: "string \<Rightarrow> bool" where
  "isAbs p \<longleftrightarrow> hasPrefix p ''/''"

definition cleanStep :: "bool \<Rightarrow> string list \<Rightarrow> string \<Rightarrow> string list" where
  "cleanStep rooted stack c =
     (if c = '''' \<or> c = ''.'' then stack
      else if c = ''..'' then
        (case stack of
           [] \<Rightarrow> if rooted then [] else [''..'']
         | t # ts \<Rightarrow> if t = ''..'' then ''..'' # stack else ts)
      else c # stack)"

definition cleanStack :: "bool \<Rightarrow> string list \<Rightarrow> string list \<Rightarrow> string list" where
  "cleanStack rooted stack cs = foldl (cleanStep rooted) stack cs"

definition renderPath :: "bool \<Rightarrow> string list \<Rightarrow> string" where
  "renderPath rooted stack =
     (if rooted then ''/'' @ joinStr ''/'' (rev stack)
      else if stack = [] then ''.'' else joinStr ''/'' (rev stack))"

definition pathClean :: "string \<Rightarrow> string" where
  "pathClean p = renderPath (isAbs p) (cleanStack (isAbs p) [] (splitByte CHR ''/'' p))"

definition filepathJoin :: "string \<Rightarrow> string \<Rightarrow> string" where
  "filepathJoin a b =
     (if a = '''' \<and> b = '''' then ''''
      else if a = '''' then pathClean b
      else if b = '''' then pathClean a
      else pathClean (a @ ''/'' @ b))"

section \<open>Splitting and joining\<close>

lemma splitByte_append:
  "splitByte d (s @ d # t) = splitByte d s @ splitByte d t"
  by (induction s) (auto split: list.splits)

lemma splitByte_single: "d \<notin> set w \<Longrightarrow> splitByte d w = [w]"
  by (induction w) auto

lemma splitByte_joinStr:
  "ws \<noteq> [] \<Longrightarrow> \<forall>w \<in> set ws. d \<notin> set w \<Longrightarrow> splitByte d (joinStr [d] ws) = ws"
proof (induction ws)
  case (Cons w ws)
  show ?case
  proof (cases "ws = []")
    case True
    with Cons.prems show ?thesis by (simp add: splitByte_single)
  next
    case False
    with Cons have "splitByte d (joinStr [d] ws) = ws" by simp
    with False Cons.prems show ?thesis
      by (simp add: joinStr_Cons splitByte_append splitByte_single)
  qed
qed simp

lemma joinStr_append:
  "xs \<noteq> [] \<Longrightarrow> ys \<noteq> [] \<Longrightarrow> joinStr sep (xs @ ys) = joinStr sep xs @ sep @ joinStr sep ys"
proof (induction xs)
  case (Cons x xs)
  then show ?case by (cases "xs = []") (auto simp: joinStr_Cons)
qed simp

section \<open>The stack\<close>

lemma cleanStack_simps [simp]:
  "cleanStack rooted stack [] = stack"
  "cleanStack rooted stack (c # cs) = cleanStack rooted (cleanStep rooted stack c) cs"
  by (simp_all add: cleanStack_def)

lemma cleanStack_append:
  "cleanStack rooted stack (cs @ ds) = cleanStack rooted (cleanStack rooted stack cs) ds"
  by (simp add: cleanStack_def)

text \<open>Parent components gather at the bottom of the stack and are never removed.\<close>

definition dots_below :: "string list \<Rightarrow> bool" where
  "dots_below stack \<longleftrightarrow> (\<exists>names n. stack = names @ replicate n ''..'' \<and> ''..'' \<notin> set names)"

lemma dots_below_Nil [simp]: "dots_below []"
  by (simp add: dots_below_def)

lemma dots_below_Cons:
  "dots_below (c # stack) \<longleftrightarrow> dots_below stack \<and> (c = ''..'' \<longrightarrow> set stack \<subseteq> {''..''})"
proof
  assume "dots_below (c # stack)"
  then obtain names n where s: "c # stack = names @ replicate n ''..''" "''..'' \<notin> set names"
    by (auto simp: dots_below_def)
  show "dots_below stack \<and> (c = ''..'' \<longrightarrow> set stack \<subseteq> {''..''})"
  proof (cases names)
    case Nil
    with s(1) obtain m where "stack = [] @ replicate m ''..''" by (cases n) auto
    then show ?thesis by (force simp: dots_below_def)
  next
    case (Cons a names')
    with s have "stack = names' @ replicate n ''..''" "''..'' \<notin> set names'" "c \<noteq> ''..''" by auto
    then show ?thesis by (auto simp: dots_below_def)
  qed
next
  assume a: "dots_below stack \<and> (c = ''..'' \<longrightarrow> set stack \<subseteq> {''..''})"
  then obtain names n where s: "stack = names @ replicate n ''..''" "''..'' \<notin> set names"
    by (auto simp: dots_below_def)
  show "dots_below (c # stack)"
  proof (cases "c = ''..''")
    case True
    with a s have "names = []" by (cases names) auto
    with True s have "c # stack = [] @ replicate (Suc n) ''..''" by simp
    then show ?thesis unfolding dots_below_def by (metis list.set(1) empty_iff)
  next
    case False
    with s have "c # stack = (c # names) @ replicate n ''..''" "''..'' \<notin> set (c # names)" by auto
    then show ?thesis unfolding dots_below_def by blast
  qed
qed

lemma cleanStep_dots_below: "dots_below stack \<Longrightarrow> dots_below (cleanStep rooted stack c)"
  by (auto simp: cleanStep_def dots_below_Cons split: list.splits)

lemma cleanStack_dots_below: "dots_below stack \<Longrightarrow> dots_below (cleanStack rooted stack cs)"
  by (induction cs arbitrary: stack) (auto simp: cleanStep_dots_below)

lemma dots_below_last: "dots_below stack \<Longrightarrow> stack \<noteq> [] \<Longrightarrow> last stack \<noteq> ''..'' \<Longrightarrow> ''..'' \<notin> set stack"
  by (induction stack) (auto simp: dots_below_Cons dest: last_in_set split: if_splits)

lemma cleanStep_keeps_dots:
  "dots_below stack \<Longrightarrow> ''..'' \<in> set stack \<Longrightarrow> ''..'' \<in> set (cleanStep False stack c)"
  by (auto simp: cleanStep_def dots_below_Cons split: list.splits)

lemma cleanStack_keeps_dots:
  "dots_below stack \<Longrightarrow> ''..'' \<in> set stack \<Longrightarrow> ''..'' \<in> set (cleanStack False stack cs)"
  by (induction cs arbitrary: stack) (auto simp: cleanStep_keeps_dots cleanStep_dots_below)

text \<open>
  A relative path that never climbs above its start leaves whatever lies below it on the stack.
\<close>

lemma cleanStack_above:
  assumes "''..'' \<notin> set (cleanStack False stack cs)" "dots_below stack"
  shows "cleanStack rooted (stack @ below) cs = cleanStack False stack cs @ below"
  using assms
proof (induction cs arbitrary: stack)
  case (Cons c cs)
  from Cons.prems(2) have db: "dots_below (cleanStep False stack c)"
    by (rule cleanStep_dots_below)
  have clean: "''..'' \<notin> set (cleanStep False stack c)"
    using Cons.prems(1) cleanStack_keeps_dots [OF db] by auto
  have "cleanStep rooted (stack @ below) c = cleanStep False stack c @ below"
    using clean by (auto simp: cleanStep_def split: list.splits if_splits)
  with Cons.IH [OF _ db] Cons.prems(1) show ?case by simp
qed simp

lemma cleanStack_components:
  "c \<in> set (cleanStack rooted stack cs) \<Longrightarrow> c \<in> set stack \<or> c \<in> set cs \<or> c = ''..''"
  by (induction cs arbitrary: stack)
     (fastforce simp: cleanStep_def split: list.splits if_splits)+

section \<open>Joining below a base\<close>

definition climbs :: "string \<Rightarrow> bool" where
  "climbs clean \<longleftrightarrow> clean = ''..'' \<or> hasPrefix clean ''../''"

lemma joinStr_hd: "joinStr ''/'' (w # ws) = w \<or> (\<exists>t. joinStr ''/'' (w # ws) = w @ ''/'' @ t)"
  by (cases ws) auto

lemma relative_clean_names:
  assumes "\<not> isAbs name" "pathClean name \<noteq> ''.''" "\<not> climbs (pathClean name)"
  shows "cleanStack False [] (splitByte CHR ''/'' name) \<noteq> []"
    and "''..'' \<notin> set (cleanStack False [] (splitByte CHR ''/'' name))"
proof -
  let ?t = "cleanStack False [] (splitByte CHR ''/'' name)"
  have c: "pathClean name = renderPath False ?t"
    using assms(1) by (simp add: pathClean_def)
  show ne: "?t \<noteq> []" using assms(2) c by (auto simp: renderPath_def)
  have "last ?t \<noteq> ''..''"
  proof
    assume l: "last ?t = ''..''"
    obtain ws where "rev ?t = ''..'' # ws"
      using ne l by (metis hd_rev list.collapse rev_is_Nil_conv)
    then have "pathClean name = joinStr ''/'' (''..'' # ws)"
      using c ne by (simp add: renderPath_def)
    then have "climbs (pathClean name)"
      using joinStr_hd [of "''..''" ws] by (auto simp: climbs_def hasPrefix_iff)
    with assms(3) show False ..
  qed
  then show "''..'' \<notin> set ?t"
    using dots_below_last ne cleanStack_dots_below [OF dots_below_Nil] by blast
qed

lemma renderPath_append:
  assumes "s \<noteq> []" "t \<noteq> []"
  shows "renderPath r (t @ s) = renderPath r s @ ''/'' @ renderPath False t"
  using assms by (cases r) (simp_all add: renderPath_def joinStr_append)

lemma pathClean_Nil: "pathClean [] = ''.''"
  by (simp add: pathClean_def isAbs_def hasPrefix_def cleanStep_def renderPath_def)

lemma filepathJoin_below:
  assumes base: "pathClean dst = dst" "dst \<noteq> ''.''" "dst \<noteq> ''/''"
    and name: "name \<noteq> ''''" "\<not> isAbs name" "pathClean name \<noteq> ''.''" "\<not> climbs (pathClean name)"
  shows "filepathJoin dst name = dst @ ''/'' @ pathClean name"
proof -
  let ?r = "isAbs dst"
  let ?s = "cleanStack ?r [] (splitByte CHR ''/'' dst)"
  let ?t = "cleanStack False [] (splitByte CHR ''/'' name)"
  note t = relative_clean_names [OF name(2-4)]
  have dst: "dst = renderPath ?r ?s" using base(1) by (simp add: pathClean_def)
  have ne: "dst \<noteq> ''''" using base(1) by (auto simp: pathClean_Nil)
  have s: "?s \<noteq> []" using dst base(2,3) by (auto simp: renderPath_def split: if_splits)
  have abs: "isAbs (dst @ ''/'' @ name) = ?r"
    using ne by (cases dst) (auto simp: isAbs_def hasPrefix_def)
  have "cleanStack ?r [] (splitByte CHR ''/'' (dst @ ''/'' @ name)) = cleanStack ?r ?s (splitByte CHR ''/'' name)"
    by (simp add: splitByte_append cleanStack_append)
  also have "\<dots> = ?t @ ?s"
    using cleanStack_above [OF t(2) dots_below_Nil, of ?r ?s] by simp
  finally have "filepathJoin dst name = renderPath ?r (?t @ ?s)"
    using ne name(1) abs by (simp add: filepathJoin_def pathClean_def)
  also have "\<dots> = renderPath ?r ?s @ ''/'' @ renderPath False ?t"
    by (rule renderPath_append [OF s t(1)])
  also have "renderPath False ?t = pathClean name"
    using name(2) by (simp add: pathClean_def)
  finally show ?thesis using dst by simp
qed

end
