(* ===== verification/Build_Steps.thy ===== *)
theory Build_Steps
  imports Go_Path "HOL-Library.AList"
begin

text \<open>
  The pure part of \<^verbatim>\<open>internal/builddaemon/build.go\<close>: image names with and without the Nydus suffix,
  the build steps of an image type, the attributes handed to BuildKit, the classification of build
  errors, the TLS settings and the conversion context that pins the OCI image by digest.

  The packages \<^verbatim>\<open>distribution/reference\<close> and \<^verbatim>\<open>opencontainers/go-digest\<close> are not part of the
  repository: their functions are the fields of \<open>reference_lib\<close>, an argument of the definitions
  that call them. A Go \<^verbatim>\<open>map[string]string\<close> is an association list with distinct keys.
\<close>

type_synonym strmap = "(string \<times> string) list"

section \<open>Image names\<close>

definition nydusV3TargetSuffix :: string where
  "nydusV3TargetSuffix = ''_nydus_v3''"

definition hasNydusV3Suffix :: "string \<Rightarrow> bool" where
  "hasNydusV3Suffix target \<longleftrightarrow> hasSuffix (trimSpace target) nydusV3TargetSuffix"

definition ensureNydusV3Suffix :: "string \<Rightarrow> string" where
  "ensureNydusV3Suffix target = (let trimmed = trimSpace target in
     if trimmed = '''' \<or> hasNydusV3Suffix trimmed then trimmed else trimmed @ nydusV3TargetSuffix)"

definition stripNydusV3Suffix :: "string \<Rightarrow> string" where
  "stripNydusV3Suffix target = trimSuffix (trimSpace target) nydusV3TargetSuffix"

definition imageTypeNydus :: string where "imageTypeNydus = ''nydus''"
definition imageTypeOCI :: string where "imageTypeOCI = ''oci''"
definition imageTypeBoth :: string where "imageTypeBoth = ''both''"

lemmas image_types = imageTypeNydus_def imageTypeOCI_def imageTypeBoth_def

definition parseImageType :: "string \<Rightarrow> string result" where
  "parseImageType raw = (let t = toLower (trimSpace raw) in
     if t = '''' \<or> t = imageTypeNydus then Inr imageTypeNydus
     else if t = imageTypeOCI \<or> t = ''gzip'' then Inr imageTypeOCI
     else if t = imageTypeBoth then Inr imageTypeBoth
     else Inl (Errorf ''image_type must be one of nydus, oci, both''))"

record buildStep =
  bs_Image :: string
  bs_Format :: string
  bs_BaseImage :: string
  bs_ContextDir :: string

definition buildStepsForImageType :: "string \<Rightarrow> string \<Rightarrow> buildStep list" where
  "buildStepsForImageType img imageType =
     (if imageType = imageTypeOCI then
        [\<lparr>bs_Image = stripNydusV3Suffix img, bs_Format = imageTypeOCI, bs_BaseImage = '''', bs_ContextDir = ''''\<rparr>]
      else if imageType = imageTypeBoth then
        (let ociImage = stripNydusV3Suffix img in
         [\<lparr>bs_Image = ociImage, bs_Format = imageTypeOCI, bs_BaseImage = '''', bs_ContextDir = ''''\<rparr>,
          \<lparr>bs_Image = ensureNydusV3Suffix ociImage, bs_Format = imageTypeNydus,
           bs_BaseImage = ociImage, bs_ContextDir = ''''\<rparr>])
      else
        [\<lparr>bs_Image = ensureNydusV3Suffix img, bs_Format = imageTypeNydus, bs_BaseImage = '''', bs_ContextDir = ''''\<rparr>])"

section \<open>Build errors\<close>

definition errorMentionsBuildkitAddr :: "string \<Rightarrow> string \<Rightarrow> bool" where
  "errorMentionsBuildkitAddr msg buildkitAddr = (let addr = toLower (trimSpace buildkitAddr) in
     if addr = '''' then False
     else
       let h1 = trimPrefix (trimPrefix addr ''tcp://'') ''http://'';
           h2 = trimPrefix h1 ''https://'';
           hostPort = trimRightFunc (\<lambda>c. c = CHR ''/'') (trimLeftFunc (\<lambda>c. c = CHR ''/'') h2)
       in if hostPort = '''' then False else containsStr msg hostPort)"

definition dialErrorNeedles :: "string list" where
  "dialErrorNeedles = [''connect: no route to host'', ''connect: connection refused'',
     ''failed to dial'', ''i/o timeout'']"

definition transportErrorNeedles :: "string list" where
  "transportErrorNeedles = [''connection reset by peer'', ''connection error'',
     ''error reading server preface'', ''transport is closing'', ''unavailable'']"

definition deterministicErrorNeedles :: "string list" where
  "deterministicErrorNeedles = [''did not complete successfully: exit code:'',
     ''dockerfile parse error'', ''failed to parse dockerfile'', ''syntax error'']"

definition isRetryableBuildkitAddrError :: "go_error option \<Rightarrow> string \<Rightarrow> bool" where
  "isRetryableBuildkitAddrError err buildkitAddr = (case err of
      None \<Rightarrow> False
    | Some e \<Rightarrow> (let msg = toLower (err_text e) in
        if list_ex (containsStr msg) dialErrorNeedles then errorMentionsBuildkitAddr msg buildkitAddr
        else list_ex (containsStr msg) transportErrorNeedles))"

definition isDeterministicBuildError :: "go_error option \<Rightarrow> bool" where
  "isDeterministicBuildError err = (case err of
      None \<Rightarrow> False
    | Some e \<Rightarrow> list_ex (containsStr (toLower (err_text e))) deterministicErrorNeedles)"

text \<open>\<^verbatim>\<open>outcome\<close> of \<^verbatim>\<open>observability.go\<close>: the error class of a metric label.\<close>

definition outcome :: "go_error option \<Rightarrow> string" where
  "outcome err = (case err of
      None \<Rightarrow> ''succeeded''
    | Some e \<Rightarrow>
        if errors_Is e Canceled then ''canceled''
        else if errors_Is e DeadlineExceeded then ''deadline''
        else if isDeterministicBuildError err then ''deterministic''
        else ''infrastructure'')"

section \<open>Attributes of a solve request\<close>

definition outputAttrs :: "string \<Rightarrow> string \<Rightarrow> strmap" where
  "outputAttrs img format =
     [(''name'', img), (''push'', ''true''), (''force-compression'', ''true''), (''oci-mediatypes'', ''true'')] @
     (if format = imageTypeOCI then [(''compression'', ''gzip'')]
      else [(''compression'', ''nydus''), (''fs-version'', ''5'')])"

definition frontendAttrs :: "string \<Rightarrow> bool \<Rightarrow> strmap \<Rightarrow> strmap" where
  "frontendAttrs target noCache buildArgs =
     (let a0 = (if trimSpace target \<noteq> '''' then [(''target'', trimSpace target)] else []);
          a1 = (if noCache then AList.update ''no-cache'' '''' a0 else a0)
      in foldl (\<lambda>m kv. AList.update (''build-arg:'' @ fst kv) (snd kv) m) a1 buildArgs)"

record buildRunRequest =
  br_ContextDir :: string
  br_BuildkitAddr :: string
  br_Image :: string
  br_Format :: string
  br_Target :: string
  br_NoCache :: bool
  br_BuildArgs :: strmap

section \<open>The conversion context\<close>

record reference_named =
  rn_domain :: string
  rn_path :: string
  rn_tag :: "string option"
  rn_digest :: "string option"

record reference_lib =
  ParseNormalizedNamed :: "string \<Rightarrow> reference_named result"
  digest_Parse :: "string \<Rightarrow> string result"
  WithDigest :: "reference_named \<Rightarrow> string \<Rightarrow> reference_named result"
  FamiliarString :: "reference_named \<Rightarrow> string"

definition exporterImageDigestKey :: string where
  "exporterImageDigestKey = ''containerimage.digest''"

definition mapGet :: "strmap \<Rightarrow> string \<Rightarrow> string" where
  "mapGet m k = (case map_of m k of Some v \<Rightarrow> v | None \<Rightarrow> '''')"

text \<open>
  The result is the context directory, the pinned base image and the Dockerfile written there;
  \<open>mkdirErr\<close> and \<open>writeErr\<close> are the outcomes of the two file system calls.
\<close>

definition wrapErr :: "string \<Rightarrow> go_error \<Rightarrow> go_error" where
  "wrapErr pre e = GoError (pre @ '': '' @ err_text e) (err_chain e)"

definition createNydusFromOCIContext ::
    "reference_lib \<Rightarrow> go_error option \<Rightarrow> go_error option \<Rightarrow> string \<Rightarrow> string \<Rightarrow> strmap \<Rightarrow>
     (string \<times> string \<times> string) result" where
  "createNydusFromOCIContext lib mkdirErr writeErr workDir img exporter =
     (let digestValue = trimSpace (mapGet exporter exporterImageDigestKey) in
      if digestValue = '''' then Inl (Errorf (''OCI build did not return '' @ exporterImageDigestKey))
      else case digest_Parse lib digestValue of
        Inl e \<Rightarrow> Inl (wrapErr (''parse OCI image digest '' @ quoteStr digestValue) e)
      | Inr parsedDigest \<Rightarrow>
      (case ParseNormalizedNamed lib (trimSpace img) of
        Inl e \<Rightarrow> Inl (wrapErr (''parse OCI image reference '' @ quoteStr img) e)
      | Inr named \<Rightarrow>
      (case WithDigest lib named parsedDigest of
        Inl e \<Rightarrow> Inl (wrapErr (''pin OCI image reference '' @ quoteStr img) e)
      | Inr canonical \<Rightarrow>
        (let baseImage = FamiliarString lib canonical;
             contextDir = filepathJoin workDir ''nydus-from-oci'' in
         case mkdirErr of
           Some e \<Rightarrow> Inl (wrapErr ''create nydus conversion context'' e)
         | None \<Rightarrow>
             (case writeErr of
                Some e \<Rightarrow> Inl (wrapErr ''write nydus conversion Dockerfile'' e)
              | None \<Rightarrow> Inr (contextDir, baseImage, ''FROM '' @ baseImage @ [CHR 0x0A]))))))"

section \<open>TLS settings\<close>

record TLSConfig =
  tls_CACert :: string
  tls_Cert :: string
  tls_Key :: string
  tls_Dir :: string
  tls_ServerName :: string

definition resolveTLSConfig :: "TLSConfig \<Rightarrow> TLSConfig result" where
  "resolveTLSConfig tls =
     (if tls_Dir tls = '''' then Inr tls
      else if tls_CACert tls \<noteq> '''' \<or> tls_Cert tls \<noteq> '''' \<or> tls_Key tls \<noteq> '''' then
        Inl (Errorf ''cannot specify tlsdir and tlscacert/tlscert/tlskey at the same time'')
      else Inr \<lparr>tls_CACert = filepathJoin (tls_Dir tls) ''ca.pem'',
                tls_Cert = filepathJoin (tls_Dir tls) ''cert.pem'',
                tls_Key = filepathJoin (tls_Dir tls) ''key.pem'',
                tls_Dir = tls_Dir tls, tls_ServerName = tls_ServerName tls\<rparr>)"

section \<open>Lemmas on image names\<close>

text \<open>
  The contract of the suffix functions, which both packages define: adding the suffix is
  idempotent, leaves what stripping returns, and is undone by stripping.
\<close>

locale format_suffix =
  fixes has :: "string \<Rightarrow> bool"
    and ensure :: "string \<Rightarrow> string"
    and strip :: "string \<Rightarrow> string"
  assumes ensure_has: "trimSpace t \<noteq> '''' \<Longrightarrow> has (ensure t)"
    and ensure_fix: "has t \<Longrightarrow> ensure t = trimSpace t"
    and ensure_trimmed: "trimSpace (ensure t) = ensure t"
    and strip_ensure: "strip (ensure t) = strip t"
    and strip_fix: "\<not> has t \<Longrightarrow> strip t = trimSpace t"
    and ensure_blank: "trimSpace t = '''' \<Longrightarrow> ensure t = ''''"
begin

lemma ensure_idem: "ensure (ensure t) = ensure t"
proof (cases "trimSpace t = ''''")
  case True
  then show ?thesis by (simp add: ensure_blank)
next
  case False
  then show ?thesis using ensure_fix ensure_has ensure_trimmed by metis
qed

text \<open>The two names of a target differ unless the stripped name carries the suffix itself.\<close>

lemma names_distinct_iff:
  assumes "trimSpace (strip t) = strip t" "strip t \<noteq> ''''"
  shows "ensure (strip t) \<noteq> strip t \<longleftrightarrow> \<not> has (strip t)"
  using assms ensure_has ensure_fix by metis

end

lemma hasNydusV3Suffix_trim [simp]: "hasNydusV3Suffix (trimSpace t) = hasNydusV3Suffix t"
  by (simp add: hasNydusV3Suffix_def)

lemma trimSpace_append_suffix:
  assumes "trimSpace t = t" "t \<noteq> []"
  shows "trimSpace (t @ nydusV3TargetSuffix) = t @ nydusV3TargetSuffix"
  using assms by (auto simp: trimSpace_id_iff nydusV3TargetSuffix_def isSpace_def)

lemma ensure_append:
  assumes "trimSpace t \<noteq> ''''" "\<not> hasNydusV3Suffix t"
  shows "ensureNydusV3Suffix t = trimSpace t @ nydusV3TargetSuffix"
  using assms by (simp add: ensureNydusV3Suffix_def Let_def)

interpretation daemon_suffix: format_suffix hasNydusV3Suffix ensureNydusV3Suffix stripNydusV3Suffix
proof unfold_locales
  fix t
  show trimmed: "trimSpace (ensureNydusV3Suffix t) = ensureNydusV3Suffix t"
    by (auto simp: ensureNydusV3Suffix_def Let_def trimSpace_append_suffix)
  show "hasNydusV3Suffix (ensureNydusV3Suffix t)" if "trimSpace t \<noteq> ''''"
    using that trimmed
    by (cases "hasNydusV3Suffix t") (auto simp: ensureNydusV3Suffix_def hasNydusV3Suffix_def Let_def)
  show "ensureNydusV3Suffix t = trimSpace t" if "hasNydusV3Suffix t"
    using that by (simp add: ensureNydusV3Suffix_def Let_def)
  show "ensureNydusV3Suffix t = ''''" if "trimSpace t = ''''"
    using that by (simp add: ensureNydusV3Suffix_def Let_def)
  show "stripNydusV3Suffix t = trimSpace t" if "\<not> hasNydusV3Suffix t"
    using that by (simp add: stripNydusV3Suffix_def hasNydusV3Suffix_def trimSuffix_no)
  show "stripNydusV3Suffix (ensureNydusV3Suffix t) = stripNydusV3Suffix t"
    using trimmed
    by (auto simp: stripNydusV3Suffix_def ensureNydusV3Suffix_def hasNydusV3Suffix_def Let_def
        trimSuffix_no)
qed

section \<open>Lemmas on attributes and errors\<close>

lemma map_of_frontendAttrs_fold:
  "map_of (foldl (\<lambda>m kv. AList.update (''build-arg:'' @ fst kv) (snd kv) m) m0 args) k =
     (if hasPrefix k ''build-arg:'' then
        (case map_of (rev args) (trimPrefix k ''build-arg:'') of
           Some v \<Rightarrow> Some v | None \<Rightarrow> map_of m0 k)
      else map_of m0 k)"
proof (induction args rule: rev_induct)
  case (snoc kv args)
  show ?case
  proof (cases "\<exists>a. k = ''build-arg:'' @ a")
    case True
    then obtain a where k: "k = ''build-arg:'' @ a" ..
    then have tp: "hasPrefix k ''build-arg:''" "trimPrefix k ''build-arg:'' = a"
      by (simp_all add: hasPrefix_def trimPrefix_def)
    with snoc show ?thesis by (auto simp: k AList.update_conv')
  next
    case False
    then have "\<not> hasPrefix k ''build-arg:''" by (simp add: hasPrefix_iff)
    with snoc False show ?thesis by (auto simp: AList.update_conv')
  qed
qed auto

end
