(* ===== verification/Task_Store.thy ===== *)
theory Task_Store
  imports Build_Steps
begin

text \<open>
  The task store of \<^verbatim>\<open>internal/builddaemon/tasks.go\<close> (lines 23 to 259) and the four closures that
  the daemon runs under its lock: \<^verbatim>\<open>markTaskQueued\<close>, the assignment of a worker, \<^verbatim>\<open>finishTask\<close>
  and \<^verbatim>\<open>cancel\<close>.

  The Go map from ids to tasks is an association list with distinct keys; its order stands for the
  iteration order, which Go leaves open, so every statement holds for each order. Every method
  holds the store's lock from beginning to end and is one function here. Cloning a task is the
  identity on values. The tracing spans of a task are not modelled; \<open>t_done\<close> says that the
  \<^verbatim>\<open>done\<close> channel of the task is not nil.
\<close>

section \<open>Tasks\<close>

datatype buildStatus =
    buildStatusQueued
  | buildStatusRunning
  | buildStatusSucceeded
  | buildStatusFailed
  | buildStatusCanceled

primrec statusText :: "buildStatus \<Rightarrow> string" where
  "statusText buildStatusQueued = ''queued''"
| "statusText buildStatusRunning = ''running''"
| "statusText buildStatusSucceeded = ''succeeded''"
| "statusText buildStatusFailed = ''failed''"
| "statusText buildStatusCanceled = ''canceled''"

record buildTask =
  t_TraceID :: string
  t_queuedAt :: time
  t_observed :: bool
  t_ID :: string
  t_Status :: buildStatus
  t_Image :: string
  t_Mode :: string
  t_RoutedTarget :: string
  t_ImageType :: string
  t_Target :: string
  t_BuildkitAddr :: string
  t_NodeIP :: string
  t_CreatedAt :: time
  t_StartedAt :: "time option"
  t_FinishedAt :: "time option"
  t_Error :: string
  t_LogPath :: string
  t_WorkDir :: string
  t_ExporterResponse :: strmap
  t_contextDir :: string
  t_scheduleKey :: string
  t_routingDigest :: string
  t_noCache :: bool
  t_retry :: int
  t_retryInterval :: duration
  t_buildArgs :: strmap
  t_done :: bool

record buildTaskView =
  v_TraceID :: string
  v_ID :: string
  v_Status :: string
  v_Image :: string
  v_Mode :: string
  v_RoutedTarget :: string
  v_ImageType :: string
  v_Target :: string
  v_BuildkitAddr :: string
  v_NodeIP :: string
  v_Retry :: int
  v_RetryIntervalSeconds :: int
  v_CreatedAt :: time
  v_StartedAt :: "time option"
  v_FinishedAt :: "time option"
  v_Error :: string

text \<open>Go's integer division truncates towards zero.\<close>

definition quotTrunc :: "int \<Rightarrow> int \<Rightarrow> int" where
  "quotTrunc a b = (if a < 0 then - ((- a) div b) else a div b)"

definition viewTask :: "buildTask \<Rightarrow> buildTaskView" where
  "viewTask t =
     \<lparr>v_TraceID = t_TraceID t, v_ID = t_ID t, v_Status = statusText (t_Status t), v_Image = t_Image t,
      v_Mode = t_Mode t, v_RoutedTarget = t_RoutedTarget t, v_ImageType = t_ImageType t,
      v_Target = t_Target t, v_BuildkitAddr = t_BuildkitAddr t, v_NodeIP = t_NodeIP t,
      v_Retry = t_retry t, v_RetryIntervalSeconds = quotTrunc (t_retryInterval t) second,
      v_CreatedAt = t_CreatedAt t, v_StartedAt = t_StartedAt t, v_FinishedAt = t_FinishedAt t,
      v_Error = t_Error t\<rparr>"

section \<open>The store\<close>

type_synonym taskStore = "(string \<times> buildTask) list"

definition newTaskStore :: taskStore where
  "newTaskStore = []"

definition store_add :: "buildTask \<Rightarrow> taskStore \<Rightarrow> taskStore" where
  "store_add task s = AList.update (t_ID task) task s"

definition store_len :: "taskStore \<Rightarrow> nat" where
  "store_len s = length s"

definition store_get :: "taskStore \<Rightarrow> string \<Rightarrow> buildTask option" where
  "store_get s tid = map_of s tid"

definition countByStatus :: "taskStore \<Rightarrow> buildStatus \<Rightarrow> nat" where
  "countByStatus s status = count_if (\<lambda>t. t_Status t = status) (map snd s)"

definition countByModeAndStatus :: "taskStore \<Rightarrow> string \<Rightarrow> buildStatus \<Rightarrow> nat" where
  "countByModeAndStatus s mode status = count_if (\<lambda>t. t_Mode t = mode \<and> t_Status t = status) (map snd s)"

definition store_list :: "taskStore \<Rightarrow> buildTask list" where
  "store_list s = sort_key t_CreatedAt (map snd s)"

definition viewTasks :: "buildTask list \<Rightarrow> buildTaskView list" where
  "viewTasks ts = map viewTask ts"

definition store_update :: "string \<Rightarrow> (buildTask \<Rightarrow> buildTask) \<Rightarrow> taskStore \<Rightarrow> taskStore \<times> buildTask option" where
  "store_update tid fn s = (case map_of s tid of
      None \<Rightarrow> (s, None)
    | Some task \<Rightarrow> (AList.update tid (fn task) s, Some (fn task)))"

definition store_delete :: "string \<Rightarrow> taskStore \<Rightarrow> taskStore \<times> buildTask option" where
  "store_delete tid s = (case map_of s tid of
      None \<Rightarrow> (s, None)
    | Some task \<Rightarrow> (AList.delete tid s, Some task))"

text \<open>A task is expired when it has finished and its keep time is over.\<close>

definition task_expired :: "time \<Rightarrow> duration \<Rightarrow> buildTask \<Rightarrow> bool" where
  "task_expired now keepTTL task = (case t_FinishedAt task of
      None \<Rightarrow> False
    | Some fin \<Rightarrow> \<not> now < fin + keepTTL)"

definition deleteExpired :: "time \<Rightarrow> duration \<Rightarrow> taskStore \<Rightarrow> taskStore \<times> buildTask list" where
  "deleteExpired now keepTTL s =
     (filter (\<lambda>(tid, task). \<not> task_expired now keepTTL task) s,
      map snd (filter (\<lambda>(tid, task). task_expired now keepTTL task) s))"

section \<open>Updates under the lock\<close>

abbreviation active :: "buildStatus \<Rightarrow> bool" where
  "active st \<equiv> st = buildStatusQueued \<or> st = buildStatusRunning"

definition cancel_upd :: "time \<Rightarrow> buildTask \<Rightarrow> buildTask" where
  "cancel_upd now task =
     (if \<not> active (t_Status task) then task
      else task\<lparr>t_Status := buildStatusCanceled, t_FinishedAt := Some now\<rparr>)"

text \<open>\<^verbatim>\<open>taskStore.cancel\<close>: the store, the snapshot, and whether the context's cancel function is called.\<close>

definition store_cancel :: "time \<Rightarrow> string \<Rightarrow> taskStore \<Rightarrow> taskStore \<times> buildTask option \<times> bool" where
  "store_cancel now tid s =
     (let (s', snap) = store_update tid (cancel_upd now) s;
          called = (case map_of s tid of None \<Rightarrow> False | Some task \<Rightarrow> active (t_Status task))
      in (s', snap, called))"

definition markTaskQueued_upd :: "time \<Rightarrow> buildTask \<Rightarrow> buildTask" where
  "markTaskQueued_upd now task =
     (if \<not> active (t_Status task) then task
      else let t1 = (if t_Status task \<noteq> buildStatusQueued \<or> t_queuedAt task = 0
                     then task\<lparr>t_queuedAt := now\<rparr> else task)
           in t1\<lparr>t_Status := buildStatusQueued, t_BuildkitAddr := '''', t_NodeIP := ''''\<rparr>)"

text \<open>The update of \<^verbatim>\<open>runBuildStepAttempt\<close> that gives the task its worker, and its \<^verbatim>\<open>assigned\<close> flag.\<close>

definition assignable :: "buildTask \<Rightarrow> bool" where
  "assignable task \<longleftrightarrow> \<not> (t_Status task = buildStatusCanceled \<or> t_observed task)"

definition assign_upd :: "time \<Rightarrow> string \<Rightarrow> string \<Rightarrow> buildTask \<Rightarrow> buildTask" where
  "assign_upd started addr nodeIP task =
     (if \<not> assignable task then task
      else task\<lparr>t_StartedAt := (case t_StartedAt task of None \<Rightarrow> Some started | Some st \<Rightarrow> Some st),
                t_Status := buildStatusRunning, t_BuildkitAddr := addr, t_NodeIP := nodeIP\<rparr>)"

text \<open>\<^verbatim>\<open>finishTask\<close>'s update, and whether it applies.\<close>

definition finishable :: "buildStatus \<Rightarrow> buildTask \<Rightarrow> bool" where
  "finishable status task \<longleftrightarrow>
     \<not> t_observed task \<and> \<not> (t_Status task = buildStatusCanceled \<and> status \<noteq> buildStatusCanceled)"

definition finish_upd :: "time \<Rightarrow> buildStatus \<Rightarrow> strmap \<Rightarrow> go_error option \<Rightarrow> buildTask \<Rightarrow> buildTask" where
  "finish_upd finished status exporter err task =
     (if \<not> finishable status task then task
      else task\<lparr>t_Status := status, t_FinishedAt := Some finished, t_ExporterResponse := exporter,
                t_Error := (case err of None \<Rightarrow> t_Error task | Some e \<Rightarrow> err_text e),
                t_observed := True\<rparr>)"

text \<open>The deferred update of \<^verbatim>\<open>runBuildTask\<close>: the \<^verbatim>\<open>done\<close> channel is closed and set to nil.\<close>

definition done_upd :: "buildTask \<Rightarrow> buildTask" where
  "done_upd task = (if t_done task then task\<lparr>t_done := False\<rparr> else task)"

section \<open>The store as a finite map\<close>

text \<open>
  What clients of the store rely on: reading after writing, and the keys. \<open>get\<close>, \<open>put\<close> and \<open>del\<close>
  keep the representation invariant \<open>rep\<close>.
\<close>

locale task_map =
  fixes rep :: "'s \<Rightarrow> bool"
    and get :: "'s \<Rightarrow> string \<Rightarrow> 't option"
    and put :: "string \<Rightarrow> 't \<Rightarrow> 's \<Rightarrow> 's"
    and del :: "string \<Rightarrow> 's \<Rightarrow> 's"
    and card_of :: "'s \<Rightarrow> nat"
  assumes get_put: "rep s \<Longrightarrow> get (put k v s) = (get s)(k \<mapsto> v)"
    and get_del: "rep s \<Longrightarrow> get (del k s) = (get s)(k := None)"
    and rep_put: "rep s \<Longrightarrow> rep (put k v s)"
    and rep_del: "rep s \<Longrightarrow> rep (del k s)"
    and card_get: "rep s \<Longrightarrow> card_of s = card (dom (get s))"
    and finite_get: "rep s \<Longrightarrow> finite (dom (get s))"
begin

lemma card_put_new: "rep s \<Longrightarrow> get s k = None \<Longrightarrow> card_of (put k v s) = Suc (card_of s)"
  by (simp add: card_get rep_put get_put finite_get domIff)

lemma card_put_old: "rep s \<Longrightarrow> get s k = Some w \<Longrightarrow> card_of (put k v s) = card_of s"
  by (simp add: card_get rep_put get_put insert_absorb domI)

lemma card_del: "rep s \<Longrightarrow> get s k = Some w \<Longrightarrow> Suc (card_of (del k s)) = card_of s"
  by (simp add: card_get rep_del get_del) (metis card_Suc_Diff1 domI finite_get)

lemma get_put_commute:
  "rep s \<Longrightarrow> k \<noteq> l \<Longrightarrow> get (put k v (put l w s)) = get (put l w (put k v s))"
  by (simp add: get_put rep_put fun_upd_twist)

end

definition store_rep :: "taskStore \<Rightarrow> bool" where
  "store_rep s \<longleftrightarrow> distinct (map fst s)"

lemma card_dom_map_of: "distinct (map fst s) \<Longrightarrow> card (dom (map_of s)) = length s"
  by (simp add: dom_map_of_conv_image_fst distinct_card flip: set_map)

lemma store_get_conv: "store_get s = map_of s"
  by (simp add: store_get_def fun_eq_iff)

interpretation store: task_map store_rep store_get AList.update AList.delete store_len
  by unfold_locales
     (auto simp: store_rep_def store_get_conv store_len_def update_conv' delete_conv'
       distinct_update card_dom_map_of finite_dom_map_of intro: distinct_delete)

lemma store_get_update:
  assumes "store_rep s"
  shows "store_get (fst (store_update tid fn s)) =
    (case store_get s tid of None \<Rightarrow> store_get s | Some t \<Rightarrow> (store_get s)(tid \<mapsto> fn t))"
  using assms
  by (auto simp: store_update_def store_get_conv update_conv' split: option.splits)

lemma store_rep_update [step_inv]: "store_rep s \<Longrightarrow> store_rep (fst (store_update tid fn s))"
  by (auto simp: store_update_def store_rep_def distinct_update split: option.splits)

lemma store_rep_add [step_inv]: "store_rep s \<Longrightarrow> store_rep (store_add t s)"
  by (simp add: store_add_def store.rep_put)

lemma store_get_add: "store_rep s \<Longrightarrow> store_get (store_add t s) = (store_get s)(t_ID t \<mapsto> t)"
  by (simp add: store_add_def store.get_put)

lemma store_rep_deleteExpired [step_inv]: "store_rep s \<Longrightarrow> store_rep (fst (deleteExpired now ttl s))"
  by (simp add: store_rep_def deleteExpired_def distinct_map_filter)

lemma map_of_filter_snd:
  "distinct (map fst s) \<Longrightarrow>
     map_of (filter (\<lambda>(k, v). P v) s) k = (case map_of s k of None \<Rightarrow> None | Some v \<Rightarrow> if P v then Some v else None)"
  by (induction s) (auto split: option.splits simp: rev_image_eqI map_of_eq_None_iff)

lemma store_get_deleteExpired:
  assumes "store_rep s"
  shows "store_get (fst (deleteExpired now ttl s)) tid =
    (case store_get s tid of None \<Rightarrow> None
     | Some t \<Rightarrow> if task_expired now ttl t then None else Some t)"
  using assms map_of_filter_snd [of s "\<lambda>t. \<not> task_expired now ttl t" tid]
  by (auto simp: store_rep_def deleteExpired_def store_get_def split: option.splits)

section \<open>The life of a task\<close>

primrec terminal :: "buildStatus \<Rightarrow> bool" where
  "terminal buildStatusQueued = False"
| "terminal buildStatusRunning = False"
| "terminal buildStatusSucceeded = True"
| "terminal buildStatusFailed = True"
| "terminal buildStatusCanceled = True"

lemma active_iff: "active st \<longleftrightarrow> \<not> terminal st"
  by (cases st) auto

text \<open>
  The invariant of a task: it has a finish time exactly when its status is terminal; a task whose
  end has been observed is terminal, and a terminal task whose end has not been observed is a
  canceled one; a queued task has no worker and a running one has been started.
\<close>

definition task_ok :: "buildTask \<Rightarrow> bool" where
  "task_ok t \<longleftrightarrow>
     (t_FinishedAt t \<noteq> None \<longleftrightarrow> terminal (t_Status t)) \<and>
     (t_observed t \<longrightarrow> terminal (t_Status t)) \<and>
     (terminal (t_Status t) \<and> \<not> t_observed t \<longrightarrow> t_Status t = buildStatusCanceled) \<and>
     (t_Status t = buildStatusQueued \<longrightarrow> t_BuildkitAddr t = '''' \<and> t_NodeIP t = '''') \<and>
     (t_Status t = buildStatusRunning \<longrightarrow> t_StartedAt t \<noteq> None)"

text \<open>What no update changes: the request the task was made from.\<close>

definition task_request :: "buildTask \<Rightarrow> string \<times> string \<times> string \<times> string \<times> string \<times> string \<times> time \<times> strmap" where
  "task_request t = (t_ID t, t_Image t, t_Mode t, t_RoutedTarget t, t_ImageType t, t_WorkDir t,
     t_CreatedAt t, t_buildArgs t)"

text \<open>
  The contract of a closure handed to \<^verbatim>\<open>taskStore.update\<close>: it keeps the request and the
  invariant, a terminal status never changes and an observed task stays observed.
\<close>

locale task_update =
  fixes fn :: "buildTask \<Rightarrow> buildTask"
  assumes fn_request: "task_request (fn t) = task_request t"
    and fn_ok: "task_ok t \<Longrightarrow> task_ok (fn t)"
    and fn_terminal: "task_ok t \<Longrightarrow> terminal (t_Status t) \<Longrightarrow> t_Status (fn t) = t_Status t"
    and fn_observed: "t_observed t \<Longrightarrow> t_observed (fn t)"
    and fn_done: "t_done (fn t) \<Longrightarrow> t_done t"
begin

lemma fn_id: "t_ID (fn t) = t_ID t"
  using fn_request [of t] by (simp add: task_request_def)

lemma update_ok:
  assumes "store_rep s" "\<forall>tid t. store_get s tid = Some t \<longrightarrow> task_ok t \<and> t_ID t = tid"
    and "store_get (fst (store_update k fn s)) tid = Some t"
  shows "task_ok t \<and> t_ID t = tid"
  using assms by (auto simp: store_get_update fn_ok fn_id split: option.splits if_splits)

lemma update_terminal:
  assumes "store_rep s" "store_get s tid = Some t" "task_ok t" "terminal (t_Status t)"
  shows "\<exists>t'. store_get (fst (store_update k fn s)) tid = Some t' \<and> t_Status t' = t_Status t"
  using assms by (auto simp: store_get_update fn_terminal split: option.splits)

lemma update_request:
  assumes "store_rep s" "store_get s tid = Some t"
  shows "\<exists>t'. store_get (fst (store_update k fn s)) tid = Some t' \<and> task_request t' = task_request t"
  using assms by (auto simp: store_get_update fn_request split: option.splits)

end

lemmas task_upd_defs = cancel_upd_def markTaskQueued_upd_def assign_upd_def finish_upd_def done_upd_def
  assignable_def finishable_def task_ok_def task_request_def

interpretation mark_queued: task_update "markTaskQueued_upd now" for now
  by unfold_locales (auto simp: task_upd_defs Let_def split: if_splits)

interpretation assign: task_update "assign_upd started addr nodeIP" for started addr nodeIP
  by unfold_locales (auto simp: task_upd_defs active_iff split: option.splits if_splits)

interpretation cancel: task_update "cancel_upd now" for now
  by unfold_locales (auto simp: task_upd_defs split: if_splits)

interpretation close_done: task_update done_upd
  by unfold_locales (auto simp: task_upd_defs split: if_splits)

lemma finish_update: "terminal status \<Longrightarrow> task_update (finish_upd now status exporter err)"
  by unfold_locales (auto simp: task_upd_defs split: if_splits)

interpretation finish_succeeded: task_update "finish_upd now buildStatusSucceeded exporter err" for now exporter err
  by (rule finish_update) simp

interpretation finish_failed: task_update "finish_upd now buildStatusFailed exporter err" for now exporter err
  by (rule finish_update) simp

interpretation finish_canceled: task_update "finish_upd now buildStatusCanceled exporter err" for now exporter err
  by (rule finish_update) simp

text \<open>After \<^verbatim>\<open>finishTask\<close> a task is terminal, whether or not the update applied.\<close>

lemma finish_upd_terminal: "task_ok t \<Longrightarrow> terminal status \<Longrightarrow> terminal (t_Status (finish_upd now status exporter err t))"
  by (auto simp: task_upd_defs)

lemma finish_upd_observed:
  "t_observed (finish_upd now status exporter err t) \<longleftrightarrow> t_observed t \<or> finishable status t"
  by (auto simp: task_upd_defs)

end
