(* ===== verification/Transition_Systems.thy ===== *)
theory Transition_Systems
  imports Main
begin

text \<open>
  Labelled transition systems given by an executable step function: reachable states, runs, and
  the proof rule for invariants as a locale. The machines of the development are instances.
\<close>

inductive reach :: "('s \<Rightarrow> bool) \<Rightarrow> ('e \<Rightarrow> 's \<Rightarrow> 's option) \<Rightarrow> 's \<Rightarrow> bool" for start step where
  reach_init: "start s \<Longrightarrow> reach start step s"
| reach_step: "reach start step s \<Longrightarrow> step e s = Some s' \<Longrightarrow> reach start step s'"

fun runs :: "('e \<Rightarrow> 's \<Rightarrow> 's option) \<Rightarrow> 'e list \<Rightarrow> 's \<Rightarrow> 's option" where
  "runs step [] s = Some s"
| "runs step (e # es) s = (case step e s of None \<Rightarrow> None | Some s' \<Rightarrow> runs step es s')"

lemma runs_append:
  "runs step (es @ fs) s = (case runs step es s of None \<Rightarrow> None | Some s' \<Rightarrow> runs step fs s')"
  by (induction es arbitrary: s) (auto split: option.splits)

lemma runs_reach: "runs step es s = Some s' \<Longrightarrow> reach start step s \<Longrightarrow> reach start step s'"
  by (induction es arbitrary: s) (auto split: option.splits intro: reach_step)

lemma reach_runs: "reach start step s \<Longrightarrow> \<exists>s0 es. start s0 \<and> runs step es s0 = Some s"
proof (induction rule: reach.induct)
  case (reach_init s)
  then show ?case by (intro exI [of _ s] exI [of _ "[]"]) simp
next
  case (reach_step s e s')
  then obtain s0 es where "start s0" "runs step es s0 = Some s" by blast
  with reach_step.hyps show ?case by (intro exI [of _ s0] exI [of _ "es @ [e]"]) (simp add: runs_append)
qed

locale ts_invariant =
  fixes start :: "'s \<Rightarrow> bool"
    and step :: "'e \<Rightarrow> 's \<Rightarrow> 's option"
    and inv :: "'s \<Rightarrow> bool"
  assumes inv_start: "start s \<Longrightarrow> inv s"
    and inv_step: "inv s \<Longrightarrow> step e s = Some s' \<Longrightarrow> inv s'"
begin

lemma reach_inv: "reach start step s \<Longrightarrow> inv s"
  by (induction rule: reach.induct) (auto intro: inv_start inv_step)

lemma runs_inv: "inv s \<Longrightarrow> runs step es s = Some s' \<Longrightarrow> inv s'"
  by (induction es arbitrary: s) (auto split: option.splits intro: inv_step)

end

text \<open>
  A relation between an earlier and a later state that every step keeps as long as the invariant
  holds, and that is reflexive and transitive, holds along every run.
\<close>

locale ts_history = ts_invariant +
  fixes rel :: "'s \<Rightarrow> 's \<Rightarrow> bool"
  assumes rel_refl: "rel s s"
    and rel_trans: "rel s t \<Longrightarrow> rel t u \<Longrightarrow> rel s u"
    and rel_step: "inv s \<Longrightarrow> step e s = Some s' \<Longrightarrow> rel s s'"
begin

lemma runs_rel: "inv s \<Longrightarrow> runs step es s = Some s' \<Longrightarrow> rel s s'"
proof (induction es arbitrary: s)
  case (Cons e es)
  then obtain t where t: "step e s = Some t" "runs step es t = Some s'"
    by (auto split: option.splits)
  have "rel t s'" using Cons.IH [OF _ t(2)] inv_step [OF Cons.prems(1) t(1)] by blast
  with rel_step [OF Cons.prems(1) t(1)] show ?case by (rule rel_trans)
qed (simp add: rel_refl)

end

end
