(* ===== verification/Build_Machine.thy ===== *)
theory Build_Machine
  imports Addr_Pool Task_Store Transition_Systems
begin

text \<open>
  The execution of builds by the daemon (\<^verbatim>\<open>tasks.go\<close> from \<^verbatim>\<open>runBuildTask\<close> on, the acquisition
  functions of \<^verbatim>\<open>scheduler.go\<close>, \<^verbatim>\<open>handleCancelBuild\<close> of \<^verbatim>\<open>server.go\<close>, \<^verbatim>\<open>observeTerminal\<close> of
  \<^verbatim>\<open>observability.go\<close>) as a machine of interleaved goroutines over the shared state of the server.

  A goroutine is a record of its local variables and a program counter. One step runs the code
  between two points where another goroutine can interfere: an update under the store's lock, a
  channel operation, a read of the context, one probe of a slot. The inputs that the program does
  not determine are the constructors of \<open>action\<close>: the clock, the result of opening the log, of
  the files written for the conversion, of the solve, of address resolution, and which ready case a
  \<^verbatim>\<open>select\<close> takes. The reference library is the parameter \<open>lib\<close>.

  \<^verbatim>\<open>finishTask\<close> changes the counters right after it gives up the store's lock; the model changes
  them in the same step, which only \<^verbatim>\<open>/metrics\<close> could tell apart. Log output and tracing spans are
  not modelled.
\<close>

section \<open>State\<close>

record build_finished =
  bf_id :: string
  bf_mode :: string
  bf_result :: buildStatus
  bf_class :: string
  bf_worker :: string

record daemonMetrics =
  m_succeeded :: nat
  m_failed :: nat
  m_canceled :: nat
  m_buildRetry :: nat
  m_failover :: nat
  m_durations :: "(string \<times> string \<times> string) list"
  m_queueWaits :: "(string \<times> duration) list"
  m_attempts :: "(string \<times> string) list"
  m_finished :: "build_finished list"

definition defaultBuildMode :: string where
  "defaultBuildMode = ''default_mode''"

definition observeTerminal :: "buildTask \<Rightarrow> go_error option \<Rightarrow> daemonMetrics \<Rightarrow> daemonMetrics" where
  "observeTerminal task err m =
     (let mode = (if t_Mode task = '''' then defaultBuildMode else t_Mode task);
          format = (if t_ImageType task = '''' then ''unknown'' else t_ImageType task);
          m1 = (if t_Status task = buildStatusCanceled then m\<lparr>m_canceled := Suc (m_canceled m)\<rparr> else m);
          m2 = (if t_CreatedAt task \<noteq> 0
                then m1\<lparr>m_durations := m_durations m1 @ [(mode, statusText (t_Status task), format)]\<rparr> else m1)
      in m2\<lparr>m_finished := m_finished m2 @
            [\<lparr>bf_id = t_ID task, bf_mode = mode, bf_result = t_Status task, bf_class = outcome err,
              bf_worker = t_BuildkitAddr task\<rparr>]\<rparr>)"

text \<open>What a goroutine returns once it has given its slots back.\<close>

datatype after_release =
    RetErr go_error
  | RetBuilt slot_ptr strmap "go_error option"

datatype pc =
    RunStart
  | OpenLog
  | NextStep
  | AttemptHead "go_error option"
  | RetryMark
  | RetryWait
  | QueueMark
  | AcquireGlobal
  | AcquireAddr
  | PickAddr "slot_ptr list" "slot_ptr list"
  | WaitAddr "slot_ptr list"
  | Assign slot_ptr
  | Building slot_ptr
  | ReleaseSlot slot_ptr after_release
  | ReleaseGlobal after_release
  | CheckBuilt slot_ptr strmap "go_error option"
  | RefreshAddrs
  | Returned strmap "go_error option"
  | Finish buildStatus strmap "go_error option"
  | Defer
  | HandlerCancel
  | HandlerFinish
  | RejectCancel
  | RejectFinish
  | RejectClose
  | RejectCleanup
  | Exited

record proc =
  p_runner :: bool
  p_id :: string
  p_snap :: buildTask
  p_steps :: "buildStep list"
  p_attempt :: int
  p_exporter :: strmap
  p_excluded :: "string list"
  p_pc :: pc

record world =
  w_global :: "csem option"
  w_pool :: addrPool
  w_store :: taskStore
  w_ctx :: "string \<Rightarrow> go_error option"
  w_procs :: "proc list"
  w_metrics :: daemonMetrics
  w_closed :: "string list"
  w_solves :: "(string \<times> buildRunRequest) list"
  w_issued :: "string list"
  w_removed :: "string list"

definition newGlobalSem :: "int \<Rightarrow> csem option" where
  "newGlobalSem limit = (if limit \<le> 0 then None else Some (makeSem (nat limit)))"

definition zeroMetrics :: daemonMetrics where
  "zeroMetrics = \<lparr>m_succeeded = 0, m_failed = 0, m_canceled = 0, m_buildRetry = 0, m_failover = 0,
     m_durations = [], m_queueWaits = [], m_attempts = [], m_finished = []\<rparr>"

text \<open>The server as \<^verbatim>\<open>Run\<close> starts it: an idle pool, no task.\<close>

definition init_world :: "int \<Rightarrow> buildkitAddr list \<Rightarrow> nat \<Rightarrow> world" where
  "init_world maxConcurrency addrs addrConcurrency =
     \<lparr>w_global = newGlobalSem maxConcurrency, w_pool = newAddrPool (map Some addrs) addrConcurrency,
      w_store = newTaskStore, w_ctx = (\<lambda>_. None), w_procs = [], w_metrics = zeroMetrics,
      w_closed = [], w_solves = [], w_issued = [], w_removed = []\<rparr>"

section \<open>Operations on the server\<close>

definition update_task :: "string \<Rightarrow> (buildTask \<Rightarrow> buildTask) \<Rightarrow> world \<Rightarrow> world" where
  "update_task tid fn w = w\<lparr>w_store := fst (store_update tid fn (w_store w))\<rparr>"

definition markTaskQueued :: "time \<Rightarrow> string \<Rightarrow> world \<Rightarrow> world" where
  "markTaskQueued now tid w = update_task tid (markTaskQueued_upd now) w"

definition finishTask :: "time \<Rightarrow> string \<Rightarrow> buildStatus \<Rightarrow> strmap \<Rightarrow> go_error option \<Rightarrow> world \<Rightarrow> world" where
  "finishTask now tid status exporter err w =
     (case store_get (w_store w) tid of
        None \<Rightarrow> w
      | Some task \<Rightarrow>
          if \<not> finishable status task then w
          else
            (let task' = finish_upd now status exporter err task;
                 m = observeTerminal task' err (w_metrics w);
                 m' = (if status = buildStatusSucceeded then m\<lparr>m_succeeded := Suc (m_succeeded m)\<rparr>
                       else if status = buildStatusFailed then m\<lparr>m_failed := Suc (m_failed m)\<rparr> else m)
             in (update_task tid (finish_upd now status exporter err) w)\<lparr>w_metrics := m'\<rparr>))"

definition releaseGlobal :: "csem option \<Rightarrow> csem option option" where
  "releaseGlobal g = (case g of None \<Rightarrow> Some None | Some s \<Rightarrow> map_option Some (sem_recv s))"

definition set_heap :: "addrSlot list \<Rightarrow> world \<Rightarrow> world" where
  "set_heap heap w = w\<lparr>w_pool := (w_pool w)\<lparr>ap_heap := heap\<rparr>\<rparr>"

abbreviation w_heap :: "world \<Rightarrow> addrSlot list" where
  "w_heap w \<equiv> ap_heap (w_pool w)"

definition cancel_ctx :: "string \<Rightarrow> go_error \<Rightarrow> world \<Rightarrow> world" where
  "cancel_ctx tid e w = (if w_ctx w tid = None then w\<lparr>w_ctx := (w_ctx w)(tid := Some e)\<rparr> else w)"

text \<open>The two histograms of an attempt: the wait of a task's first assignment, and the result of a solve.\<close>

definition observeQueue :: "time \<Rightarrow> string \<Rightarrow> world \<Rightarrow> world" where
  "observeQueue started tid w = (case store_get (w_store w) tid of
      None \<Rightarrow> w
    | Some t \<Rightarrow>
        if assignable t \<and> t_StartedAt t = None \<and> t_CreatedAt t \<noteq> 0
        then w\<lparr>w_metrics := (w_metrics w)\<lparr>m_queueWaits := m_queueWaits (w_metrics w) @ [(t_Mode t, started - t_CreatedAt t)]\<rparr>\<rparr>
        else w)"

definition observeAttempt :: "string \<Rightarrow> go_error option \<Rightarrow> world \<Rightarrow> world" where
  "observeAttempt format err w =
     w\<lparr>w_metrics := (w_metrics w)\<lparr>m_attempts := m_attempts (w_metrics w) @ [(format, outcome err)]\<rparr>\<rparr>"

text \<open>The request of one solve: a conversion step builds from its own context, without target and arguments.\<close>

definition solveRequest :: "buildTask \<Rightarrow> buildStep \<Rightarrow> string \<Rightarrow> buildRunRequest" where
  "solveRequest snapshot step addr =
     (let own = (bs_ContextDir step \<noteq> '''') in
      \<lparr>br_ContextDir = (if own then bs_ContextDir step else t_contextDir snapshot),
       br_BuildkitAddr = addr, br_Image = bs_Image step, br_Format = bs_Format step,
       br_Target = (if own then '''' else t_Target snapshot), br_NoCache = t_noCache snapshot,
       br_BuildArgs = (if own then [] else t_buildArgs snapshot)\<rparr>)"

definition buildImageOf :: "buildTask \<Rightarrow> string" where
  "buildImageOf snapshot = (if t_RoutedTarget snapshot = '''' then t_Image snapshot else t_RoutedTarget snapshot)"

section \<open>Steps of a goroutine\<close>

datatype action =
    Run time
  | OpenFails go_error
  | FsResult "go_error option" "go_error option"
  | TimerFires
  | CtxDone
  | SendGlobal
  | SendSlot slot_ptr
  | BuildReturns strmap "go_error option"
  | RefreshGives "buildkitAddr list result"

abbreviation goto :: "pc \<Rightarrow> proc \<Rightarrow> proc" where
  "goto l p \<equiv> p\<lparr>p_pc := l\<rparr>"

definition runBuildTask_start :: "action \<Rightarrow> world \<Rightarrow> proc \<Rightarrow> (world \<times> proc) option" where
  "runBuildTask_start a w p = (case a of
      Run now \<Rightarrow>
        (case store_get (w_store w) (p_id p) of
           None \<Rightarrow> Some (w, goto Defer p)
         | Some snapshot \<Rightarrow>
             if t_Status snapshot = buildStatusCanceled then Some (w, goto Defer p)
             else Some (w, p\<lparr>p_snap := snapshot, p_pc := OpenLog\<rparr>))
    | _ \<Rightarrow> None)"

definition runBuildTask_openLog :: "action \<Rightarrow> world \<Rightarrow> proc \<Rightarrow> (world \<times> proc) option" where
  "runBuildTask_openLog a w p = (case a of
      OpenFails e \<Rightarrow> Some (w, goto (Finish buildStatusFailed [] (Some e)) p)
    | Run now \<Rightarrow> Some (w, p\<lparr>p_steps := buildStepsForImageType (buildImageOf (p_snap p)) (t_ImageType (p_snap p)),
                          p_exporter := [], p_pc := NextStep\<rparr>)
    | _ \<Rightarrow> None)"

definition runBuildTask_nextStep :: "reference_lib \<Rightarrow> action \<Rightarrow> world \<Rightarrow> proc \<Rightarrow> (world \<times> proc) option" where
  "runBuildTask_nextStep lib a w p = (case p_steps p of
      [] \<Rightarrow> (case a of
          Run now \<Rightarrow> Some (w, goto (Finish buildStatusSucceeded (p_exporter p) None) p)
        | _ \<Rightarrow> None)
    | step # rest \<Rightarrow>
        if bs_BaseImage step = '''' then
          (case a of
             Run now \<Rightarrow> Some (w, p\<lparr>p_attempt := 0, p_pc := AttemptHead None\<rparr>)
           | _ \<Rightarrow> None)
        else
          (case a of
             FsResult mkdirErr writeErr \<Rightarrow>
               (case createNydusFromOCIContext lib mkdirErr writeErr (t_WorkDir (p_snap p))
                       (bs_BaseImage step) (p_exporter p) of
                  Inl e \<Rightarrow> Some (w, goto (Finish buildStatusFailed (p_exporter p) (Some e)) p)
                | Inr (contextDir, baseImage, dockerfile) \<Rightarrow>
                    Some (w, p\<lparr>p_steps := step\<lparr>bs_ContextDir := contextDir\<rparr> # rest,
                               p_attempt := 0, p_pc := AttemptHead None\<rparr>))
           | _ \<Rightarrow> None))"

text \<open>What follows the attempt loop of a step.\<close>

definition stepEnd :: "go_error option \<Rightarrow> proc \<Rightarrow> proc" where
  "stepEnd err p = (case err of
      Some e \<Rightarrow> goto (Finish buildStatusFailed (p_exporter p) err) p
    | None \<Rightarrow> p\<lparr>p_steps := tl (p_steps p), p_pc := NextStep\<rparr>)"

definition runBuildTask_attemptHead :: "go_error option \<Rightarrow> action \<Rightarrow> world \<Rightarrow> proc \<Rightarrow> (world \<times> proc) option" where
  "runBuildTask_attemptHead err a w p = (case a of
      Run now \<Rightarrow>
        if \<not> p_attempt p \<le> t_retry (p_snap p) then Some (w, stepEnd err p)
        else if p_attempt p > 0 then Some (w, goto RetryMark p)
        else Some (w, p\<lparr>p_excluded := [], p_pc := QueueMark\<rparr>)
    | _ \<Rightarrow> None)"

definition runBuildTask_retryMark :: "action \<Rightarrow> world \<Rightarrow> proc \<Rightarrow> (world \<times> proc) option" where
  "runBuildTask_retryMark a w p = (case a of
      Run now \<Rightarrow>
        (let w1 = w\<lparr>w_metrics := (w_metrics w)\<lparr>m_buildRetry := Suc (m_buildRetry (w_metrics w))\<rparr>\<rparr>
         in Some (markTaskQueued now (p_id p) w1, goto RetryWait p))
    | _ \<Rightarrow> None)"

text \<open>\<^verbatim>\<open>waitRetryInterval\<close> and its caller.\<close>

definition waitRetryInterval :: "action \<Rightarrow> world \<Rightarrow> proc \<Rightarrow> (world \<times> proc) option" where
  "waitRetryInterval a w p =
     (if t_retryInterval (p_snap p) \<le> 0 then
        (case a of Run now \<Rightarrow> Some (w, p\<lparr>p_excluded := [], p_pc := QueueMark\<rparr>) | _ \<Rightarrow> None)
      else
        (case a of
           TimerFires \<Rightarrow> Some (w, p\<lparr>p_excluded := [], p_pc := QueueMark\<rparr>)
         | CtxDone \<Rightarrow>
             (case w_ctx w (p_id p) of
                None \<Rightarrow> None
              | Some e \<Rightarrow> Some (w, goto (Finish buildStatusCanceled (p_exporter p) (Some e)) p))
         | _ \<Rightarrow> None))"

definition attempt_queueMark :: "action \<Rightarrow> world \<Rightarrow> proc \<Rightarrow> (world \<times> proc) option" where
  "attempt_queueMark a w p = (case a of
      Run now \<Rightarrow> Some (markTaskQueued now (p_id p) w, goto AcquireGlobal p)
    | _ \<Rightarrow> None)"

definition acquireGlobalSlot :: "action \<Rightarrow> world \<Rightarrow> proc \<Rightarrow> (world \<times> proc) option" where
  "acquireGlobalSlot a w p = (case w_global w of
      None \<Rightarrow> (case a of Run now \<Rightarrow> Some (w, goto AcquireAddr p) | _ \<Rightarrow> None)
    | Some s \<Rightarrow>
        (case a of
           CtxDone \<Rightarrow>
             (case w_ctx w (p_id p) of
                None \<Rightarrow> None
              | Some e \<Rightarrow> Some (w, goto (Returned [] (Some e)) p))
         | SendGlobal \<Rightarrow>
             (case sem_trySend s of
                None \<Rightarrow> None
              | Some s' \<Rightarrow> Some (w\<lparr>w_global := Some s'\<rparr>, goto AcquireAddr p))
         | _ \<Rightarrow> None))"

text \<open>
  \<^verbatim>\<open>acquireAddrSlot\<close>, one interference point at a time: the snapshot with its order, the probes of
  \<^verbatim>\<open>pickAvailableAddrSlot\<close> from the first slot on, then the blocking \<^verbatim>\<open>select\<close>.
\<close>

definition acquireAddr_snapshot :: "action \<Rightarrow> world \<Rightarrow> proc \<Rightarrow> (world \<times> proc) option" where
  "acquireAddr_snapshot a w p = (case a of
      Run now \<Rightarrow>
        map_option (\<lambda>ordered.
            let slots = filterExcludedAddrSlots (w_heap w) ordered (p_excluded p)
            in (w, goto (PickAddr slots slots) p))
          (orderedAddrSlots (pool_snapshot (w_pool w)) (t_scheduleKey (p_snap p)))
    | _ \<Rightarrow> None)"

fun acquireAddr_pick :: "slot_ptr list \<Rightarrow> slot_ptr list \<Rightarrow> action \<Rightarrow> world \<Rightarrow> proc \<Rightarrow> (world \<times> proc) option" where
  "acquireAddr_pick [] slots a w p = (case a of
      Run now \<Rightarrow> Some (w, goto (if slots = [] then ReleaseGlobal (RetErr noBuildkitdAddrs) else WaitAddr slots) p)
    | _ \<Rightarrow> None)"
| "acquireAddr_pick (q # qs) slots a w p = (case a of
      Run now \<Rightarrow>
        (case tryAcquireAddrSlot (w_heap w) q of
           Some heap' \<Rightarrow> Some (set_heap heap' w, goto (Assign q) p)
         | None \<Rightarrow> Some (w, goto (PickAddr qs slots) p))
    | _ \<Rightarrow> None)"

definition acquireAddr_wait :: "slot_ptr list \<Rightarrow> action \<Rightarrow> world \<Rightarrow> proc \<Rightarrow> (world \<times> proc) option" where
  "acquireAddr_wait slots a w p = (case a of
      CtxDone \<Rightarrow>
        (case w_ctx w (p_id p) of
           None \<Rightarrow> None
         | Some e \<Rightarrow> Some (w, goto (ReleaseGlobal (RetErr e)) p))
    | SendSlot q \<Rightarrow>
        if q \<in> set slots then
          (case tryAcquireAddrSlot (w_heap w) q of
             Some heap' \<Rightarrow> Some (set_heap heap' w, goto (Assign q) p)
           | None \<Rightarrow> None)
        else None
    | _ \<Rightarrow> None)"

definition attempt_assign :: "slot_ptr \<Rightarrow> action \<Rightarrow> world \<Rightarrow> proc \<Rightarrow> (world \<times> proc) option" where
  "attempt_assign q a w p = (case a of
      Run started \<Rightarrow>
        (let assigned = (case store_get (w_store w) (p_id p) of None \<Rightarrow> False | Some t \<Rightarrow> assignable t);
             addr = as_addr (w_heap w ! q);
             w1 = update_task (p_id p) (assign_upd started (ba_addr addr) (ba_nodeIP addr))
                    (observeQueue started (p_id p) w)
         in if \<not> assigned then Some (w1, goto (ReleaseSlot q (RetErr context_Canceled)) p)
            else Some (w1\<lparr>w_solves := w_solves w1 @
                           [(p_id p, solveRequest (p_snap p) (hd (p_steps p)) (ba_addr addr))]\<rparr>,
                       goto (Building q) p))
    | _ \<Rightarrow> None)"

definition attempt_building :: "slot_ptr \<Rightarrow> action \<Rightarrow> world \<Rightarrow> proc \<Rightarrow> (world \<times> proc) option" where
  "attempt_building q a w p = (case a of
      BuildReturns exporter err \<Rightarrow>
        Some (observeAttempt (bs_Format (hd (p_steps p))) err w, goto (ReleaseSlot q (RetBuilt q exporter err)) p)
    | _ \<Rightarrow> None)"

definition attempt_releaseSlot :: "slot_ptr \<Rightarrow> after_release \<Rightarrow> action \<Rightarrow> world \<Rightarrow> proc \<Rightarrow> (world \<times> proc) option" where
  "attempt_releaseSlot q r a w p = (case a of
      Run now \<Rightarrow> map_option (\<lambda>heap'. (set_heap heap' w, goto (ReleaseGlobal r) p)) (releaseAddrSlot (w_heap w) q)
    | _ \<Rightarrow> None)"

definition attempt_releaseGlobal :: "after_release \<Rightarrow> action \<Rightarrow> world \<Rightarrow> proc \<Rightarrow> (world \<times> proc) option" where
  "attempt_releaseGlobal r a w p = (case a of
      Run now \<Rightarrow>
        map_option (\<lambda>g. (w\<lparr>w_global := g\<rparr>,
            goto (case r of RetErr e \<Rightarrow> Returned [] (Some e) | RetBuilt q ex err \<Rightarrow> CheckBuilt q ex err) p))
          (releaseGlobal (w_global w))
    | _ \<Rightarrow> None)"

definition attempt_checkBuilt ::
    "slot_ptr \<Rightarrow> strmap \<Rightarrow> go_error option \<Rightarrow> action \<Rightarrow> world \<Rightarrow> proc \<Rightarrow> (world \<times> proc) option" where
  "attempt_checkBuilt q exporter err a w p = (case a of
      Run now \<Rightarrow>
        (let addr = slot_key (w_heap w) q in
         if err = None \<or> w_ctx w (p_id p) \<noteq> None then Some (w, goto (Returned exporter err) p)
         else if \<not> isRetryableBuildkitAddrError err addr then Some (w, goto (Returned exporter err) p)
         else Some (w\<lparr>w_metrics := (w_metrics w)\<lparr>m_failover := Suc (m_failover (w_metrics w))\<rparr>\<rparr>,
                    p\<lparr>p_excluded := List.insert addr (p_excluded p), p_pc := RefreshAddrs\<rparr>))
    | _ \<Rightarrow> None)"

definition attempt_refresh :: "action \<Rightarrow> world \<Rightarrow> proc \<Rightarrow> (world \<times> proc) option" where
  "attempt_refresh a w p = (case a of
      RefreshGives parsed \<Rightarrow>
        (case refreshBuildkitAddrs parsed (w_pool w) of
           Inl e \<Rightarrow> Some (w, goto QueueMark p)
         | Inr (pool', changed) \<Rightarrow> Some (w\<lparr>w_pool := pool'\<rparr>, goto QueueMark p))
    | _ \<Rightarrow> None)"

definition runBuildTask_returned :: "strmap \<Rightarrow> go_error option \<Rightarrow> action \<Rightarrow> world \<Rightarrow> proc \<Rightarrow> (world \<times> proc) option" where
  "runBuildTask_returned exporter err a w p = (case a of
      Run now \<Rightarrow>
        (let p1 = p\<lparr>p_exporter := exporter\<rparr> in
         if err = None then Some (w, stepEnd None p1)
         else if w_ctx w (p_id p) \<noteq> None then
           Some (w, goto (Finish buildStatusCanceled exporter (w_ctx w (p_id p))) p1)
         else if isDeterministicBuildError err then Some (w, stepEnd err p1)
         else Some (w, p1\<lparr>p_attempt := wrap64 (p_attempt p + 1), p_pc := AttemptHead err\<rparr>))
    | _ \<Rightarrow> None)"

definition runBuildTask_finish ::
    "buildStatus \<Rightarrow> strmap \<Rightarrow> go_error option \<Rightarrow> action \<Rightarrow> world \<Rightarrow> proc \<Rightarrow> (world \<times> proc) option" where
  "runBuildTask_finish status exporter err a w p = (case a of
      Run now \<Rightarrow> Some (finishTask now (p_id p) status exporter err w, goto Defer p)
    | _ \<Rightarrow> None)"

definition close_done :: "string \<Rightarrow> world \<Rightarrow> world" where
  "close_done tid w = w\<lparr>w_closed := w_closed w @ [tid]\<rparr>"

definition runBuildTask_defer :: "action \<Rightarrow> world \<Rightarrow> proc \<Rightarrow> (world \<times> proc) option" where
  "runBuildTask_defer a w p = (case a of
      Run now \<Rightarrow>
        (let closes = (case store_get (w_store w) (p_id p) of None \<Rightarrow> False | Some t \<Rightarrow> t_done t);
             w1 = update_task (p_id p) done_upd w
         in Some (if closes then close_done (p_id p) w1 else w1, goto Exited p))
    | _ \<Rightarrow> None)"

text \<open>
  \<^verbatim>\<open>handleCancelBuild\<close> after \<^verbatim>\<open>store.cancel\<close>'s update: the call of the cancel function and
  \<^verbatim>\<open>finishTask\<close>; and the error path of \<^verbatim>\<open>handleCreateBuild\<close> when the task cannot be enqueued.
\<close>

definition handler_cancel :: "pc \<Rightarrow> action \<Rightarrow> world \<Rightarrow> proc \<Rightarrow> (world \<times> proc) option" where
  "handler_cancel next a w p = (case a of
      Run now \<Rightarrow> Some (cancel_ctx (p_id p) context_Canceled w, goto next p)
    | _ \<Rightarrow> None)"

definition handler_finish :: "pc \<Rightarrow> action \<Rightarrow> world \<Rightarrow> proc \<Rightarrow> (world \<times> proc) option" where
  "handler_finish next a w p = (case a of
      Run now \<Rightarrow> Some (finishTask now (p_id p) buildStatusCanceled [] (Some context_Canceled) w, goto next p)
    | _ \<Rightarrow> None)"

definition reject_close :: "action \<Rightarrow> world \<Rightarrow> proc \<Rightarrow> (world \<times> proc) option" where
  "reject_close a w p = (case a of
      Run now \<Rightarrow> Some (close_done (p_id p) w, goto RejectCleanup p)
    | _ \<Rightarrow> None)"

text \<open>
  \<^verbatim>\<open>cleanupTaskWorkDir\<close>: the directories given to \<^verbatim>\<open>os.RemoveAll\<close>; the world keeps them in order. An error
  of the removal is logged and changes nothing else. \<^verbatim>\<open>cleanupTask\<close> deletes the task from the store first.
\<close>

definition cleanupTaskWorkDir :: "buildTask option \<Rightarrow> string list" where
  "cleanupTaskWorkDir task = (case task of
      None \<Rightarrow> []
    | Some t \<Rightarrow> if trimSpace (t_WorkDir t) = '''' then [] else [t_WorkDir t])"

definition cleanupTask :: "string \<Rightarrow> world \<Rightarrow> world" where
  "cleanupTask tid w = w\<lparr>w_store := fst (store_delete tid (w_store w)),
     w_removed := w_removed w @ cleanupTaskWorkDir (snd (store_delete tid (w_store w)))\<rparr>"

definition reject_cleanup :: "action \<Rightarrow> world \<Rightarrow> proc \<Rightarrow> (world \<times> proc) option" where
  "reject_cleanup a w p = (case a of
      Run now \<Rightarrow> Some (cleanupTask (p_id p) w, goto Exited p)
    | _ \<Rightarrow> None)"

definition exec :: "reference_lib \<Rightarrow> action \<Rightarrow> world \<Rightarrow> proc \<Rightarrow> (world \<times> proc) option" where
  "exec lib a w p = (case p_pc p of
      RunStart \<Rightarrow> runBuildTask_start a w p
    | OpenLog \<Rightarrow> runBuildTask_openLog a w p
    | NextStep \<Rightarrow> runBuildTask_nextStep lib a w p
    | AttemptHead err \<Rightarrow> runBuildTask_attemptHead err a w p
    | RetryMark \<Rightarrow> runBuildTask_retryMark a w p
    | RetryWait \<Rightarrow> waitRetryInterval a w p
    | QueueMark \<Rightarrow> attempt_queueMark a w p
    | AcquireGlobal \<Rightarrow> acquireGlobalSlot a w p
    | AcquireAddr \<Rightarrow> acquireAddr_snapshot a w p
    | PickAddr qs slots \<Rightarrow> acquireAddr_pick qs slots a w p
    | WaitAddr slots \<Rightarrow> acquireAddr_wait slots a w p
    | Assign q \<Rightarrow> attempt_assign q a w p
    | Building q \<Rightarrow> attempt_building q a w p
    | ReleaseSlot q r \<Rightarrow> attempt_releaseSlot q r a w p
    | ReleaseGlobal r \<Rightarrow> attempt_releaseGlobal r a w p
    | CheckBuilt q ex err \<Rightarrow> attempt_checkBuilt q ex err a w p
    | RefreshAddrs \<Rightarrow> attempt_refresh a w p
    | Returned ex err \<Rightarrow> runBuildTask_returned ex err a w p
    | Finish st ex err \<Rightarrow> runBuildTask_finish st ex err a w p
    | Defer \<Rightarrow> runBuildTask_defer a w p
    | HandlerCancel \<Rightarrow> handler_cancel HandlerFinish a w p
    | HandlerFinish \<Rightarrow> handler_finish Exited a w p
    | RejectCancel \<Rightarrow> handler_cancel RejectFinish a w p
    | RejectFinish \<Rightarrow> handler_finish RejectClose a w p
    | RejectClose \<Rightarrow> reject_close a w p
    | RejectCleanup \<Rightarrow> reject_cleanup a w p
    | Exited \<Rightarrow> None)"

section \<open>Events\<close>

text \<open>
  \<open>Submit\<close> is the end of \<^verbatim>\<open>handleCreateBuild\<close> with a task the queue takes, \<open>SubmitRejected\<close> with
  one it refuses; \<open>Spawn\<close> starts \<^verbatim>\<open>runBuildTask\<close>, once per task, at once or from a mode worker;
  \<open>CtxEnds\<close> is a build's deadline or the end of a synchronous request; \<open>Reap\<close> and \<open>Refresh\<close> are the
  two periodic goroutines. Task ids are 16 random bytes: they are taken to be fresh.
\<close>

datatype event =
    Submit buildTask
  | SubmitRejected buildTask
  | Spawn string
  | CancelRequest string time
  | CtxEnds string go_error
  | Reap time duration
  | Refresh "buildkitAddr list result"
  | Proc nat action

definition new_task :: "buildTask \<Rightarrow> bool" where
  "new_task t \<longleftrightarrow> t_Status t = buildStatusQueued \<and> \<not> t_observed t \<and> t_BuildkitAddr t = '''' \<and>
     t_NodeIP t = '''' \<and> t_StartedAt t = None \<and> t_FinishedAt t = None \<and> t_done t \<and> 0 \<le> t_retry t"

definition new_proc :: "bool \<Rightarrow> pc \<Rightarrow> buildTask \<Rightarrow> string \<Rightarrow> proc" where
  "new_proc runner l task tid =
     \<lparr>p_runner = runner, p_id = tid, p_snap = task, p_steps = [], p_attempt = 0, p_exporter = [],
      p_excluded = [], p_pc = l\<rparr>"

definition submit_task :: "buildTask \<Rightarrow> world \<Rightarrow> world" where
  "submit_task task w =
     w\<lparr>w_store := store_add task (w_store w), w_issued := w_issued w @ [t_ID task]\<rparr>"

definition add_proc :: "proc \<Rightarrow> world \<Rightarrow> world" where
  "add_proc p w = w\<lparr>w_procs := w_procs w @ [p]\<rparr>"

definition runner_of :: "string \<Rightarrow> proc \<Rightarrow> bool" where
  "runner_of tid p \<longleftrightarrow> p_runner p \<and> p_id p = tid"

text \<open>The zero task stands for the snapshot variable before it is read.\<close>

definition zeroTask :: buildTask where
  "zeroTask = \<lparr>t_TraceID = '''', t_queuedAt = 0, t_observed = False, t_ID = '''', t_Status = buildStatusQueued,
     t_Image = '''', t_Mode = '''', t_RoutedTarget = '''', t_ImageType = '''', t_Target = '''',
     t_BuildkitAddr = '''', t_NodeIP = '''', t_CreatedAt = 0, t_StartedAt = None, t_FinishedAt = None,
     t_Error = '''', t_LogPath = '''', t_WorkDir = '''', t_ExporterResponse = [], t_contextDir = '''',
     t_scheduleKey = '''', t_routingDigest = '''', t_noCache = False, t_retry = 0, t_retryInterval = 0,
     t_buildArgs = [], t_done = False\<rparr>"

definition handleCancelBuild :: "string \<Rightarrow> time \<Rightarrow> world \<Rightarrow> world" where
  "handleCancelBuild tid now w =
     (let (s', snap, called) = store_cancel now tid (w_store w); w1 = w\<lparr>w_store := s'\<rparr> in
      case snap of
        None \<Rightarrow> w1
      | Some task \<Rightarrow>
          if called then add_proc (new_proc False HandlerCancel task (t_ID task)) w1
          else if t_Status task = buildStatusCanceled
            then add_proc (new_proc False HandlerFinish task (t_ID task)) w1
          else w1)"

definition cleanupExpiredTasks :: "time \<Rightarrow> duration \<Rightarrow> world \<Rightarrow> world" where
  "cleanupExpiredTasks now keepTTL w = w\<lparr>w_store := fst (deleteExpired now keepTTL (w_store w)),
     w_removed := w_removed w @ concat (map (\<lambda>task. cleanupTaskWorkDir (Some task)) (snd (deleteExpired now keepTTL (w_store w))))\<rparr>"

definition refreshTick :: "buildkitAddr list result \<Rightarrow> world \<Rightarrow> world" where
  "refreshTick parsed w = (case refreshBuildkitAddrs parsed (w_pool w) of
      Inl e \<Rightarrow> w
    | Inr (pool', changed) \<Rightarrow> w\<lparr>w_pool := pool'\<rparr>)"

definition world_step :: "reference_lib \<Rightarrow> event \<Rightarrow> world \<Rightarrow> world option" where
  "world_step lib ev w = (case ev of
      Submit task \<Rightarrow>
        if new_task task \<and> t_ID task \<notin> set (w_issued w) then Some (submit_task task w) else None
    | SubmitRejected task \<Rightarrow>
        if new_task task \<and> t_ID task \<notin> set (w_issued w)
        then Some (add_proc (new_proc True RejectCancel task (t_ID task)) (submit_task task w)) else None
    | Spawn tid \<Rightarrow>
        if tid \<in> set (w_issued w) \<and> \<not> list_ex (runner_of tid) (w_procs w)
        then Some (add_proc (new_proc True RunStart zeroTask tid) w) else None
    | CancelRequest tid now \<Rightarrow> Some (handleCancelBuild tid now w)
    | CtxEnds tid e \<Rightarrow> if tid \<in> set (w_issued w) then Some (cancel_ctx tid e w) else None
    | Reap now keepTTL \<Rightarrow> Some (cleanupExpiredTasks now keepTTL w)
    | Refresh parsed \<Rightarrow> Some (refreshTick parsed w)
    | Proc i a \<Rightarrow>
        if i < length (w_procs w) then
          map_option (\<lambda>(w', p'). w'\<lparr>w_procs := (w_procs w)[i := p']\<rparr>) (exec lib a w (w_procs w ! i))
        else None)"

definition server_start :: "world \<Rightarrow> bool" where
  "server_start w \<longleftrightarrow> (\<exists>maxConcurrency addrs addrConcurrency. w = init_world maxConcurrency addrs addrConcurrency)"

abbreviation reachable :: "reference_lib \<Rightarrow> world \<Rightarrow> bool" where
  "reachable lib \<equiv> reach server_start (world_step lib)"

end
