(* ===== verification/Build_Safety.thy ===== *)
theory Build_Safety
  imports Build_Machine
begin

text \<open>
  Safety of the build machine under every interleaving: exact accounting of the worker slots and of
  the global slots.
\<close>

section \<open>Which slots a goroutine holds\<close>

primrec holdsGlobal :: "pc \<Rightarrow> bool" where
  "holdsGlobal RunStart = False" | "holdsGlobal OpenLog = False" | "holdsGlobal NextStep = False"
| "holdsGlobal (AttemptHead err) = False" | "holdsGlobal RetryMark = False"
| "holdsGlobal RetryWait = False" | "holdsGlobal QueueMark = False"
| "holdsGlobal AcquireGlobal = False" | "holdsGlobal AcquireAddr = True"
| "holdsGlobal (PickAddr qs slots) = True" | "holdsGlobal (WaitAddr slots) = True"
| "holdsGlobal (Assign q) = True" | "holdsGlobal (Building q) = True"
| "holdsGlobal (ReleaseSlot q r) = True" | "holdsGlobal (ReleaseGlobal r) = True"
| "holdsGlobal (CheckBuilt q ex err) = False" | "holdsGlobal RefreshAddrs = False"
| "holdsGlobal (Returned ex err) = False" | "holdsGlobal (Finish st ex err) = False"
| "holdsGlobal Defer = False" | "holdsGlobal HandlerCancel = False"
| "holdsGlobal HandlerFinish = False" | "holdsGlobal RejectCancel = False"
| "holdsGlobal RejectFinish = False" | "holdsGlobal RejectClose = False"
| "holdsGlobal RejectCleanup = False" | "holdsGlobal Exited = False"

fun heldSlot :: "pc \<Rightarrow> slot_ptr option" where
  "heldSlot (Assign q) = Some q"
| "heldSlot (Building q) = Some q"
| "heldSlot (ReleaseSlot q r) = Some q"
| "heldSlot _ = None"

text \<open>The slots a program counter mentions.\<close>

fun pc_slots :: "pc \<Rightarrow> slot_ptr set" where
  "pc_slots (PickAddr qs slots) = set qs \<union> set slots"
| "pc_slots (WaitAddr slots) = set slots"
| "pc_slots (Assign q) = {q}"
| "pc_slots (Building q) = {q}"
| "pc_slots (ReleaseSlot q r) = insert q (case r of RetErr e \<Rightarrow> {} | RetBuilt q' ex err \<Rightarrow> {q'})"
| "pc_slots (ReleaseGlobal r) = (case r of RetErr e \<Rightarrow> {} | RetBuilt q' ex err \<Rightarrow> {q'})"
| "pc_slots (CheckBuilt q ex err) = {q}"
| "pc_slots _ = {}"

abbreviation holdsSlot :: "slot_ptr \<Rightarrow> proc \<Rightarrow> bool" where
  "holdsSlot q p \<equiv> heldSlot (p_pc p) = Some q"

lemmas exec_defs = exec_def runBuildTask_start_def runBuildTask_openLog_def runBuildTask_nextStep_def
  runBuildTask_attemptHead_def runBuildTask_retryMark_def waitRetryInterval_def attempt_queueMark_def
  acquireGlobalSlot_def acquireAddr_snapshot_def acquireAddr_wait_def attempt_assign_def
  attempt_building_def attempt_releaseSlot_def attempt_releaseGlobal_def attempt_checkBuilt_def
  attempt_refresh_def runBuildTask_returned_def runBuildTask_finish_def runBuildTask_defer_def
  handler_cancel_def handler_finish_def reject_close_def reject_cleanup_def cleanupTask_def stepEnd_def Let_def

lemmas exec_splits = action.splits option.splits if_splits list.splits sum.splits prod.splits
  after_release.splits

section \<open>What an operation leaves alone\<close>

lemma update_task_simps [simp]:
  "w_pool (update_task tid fn w) = w_pool w" "w_global (update_task tid fn w) = w_global w"
  "w_ctx (update_task tid fn w) = w_ctx w" "w_procs (update_task tid fn w) = w_procs w"
  "w_metrics (update_task tid fn w) = w_metrics w" "w_closed (update_task tid fn w) = w_closed w"
  "w_solves (update_task tid fn w) = w_solves w" "w_issued (update_task tid fn w) = w_issued w"
  "w_store (update_task tid fn w) = fst (store_update tid fn (w_store w))"
  by (simp_all add: update_task_def)

lemma finishTask_simps [simp]:
  "w_pool (finishTask now tid st ex err w) = w_pool w" "w_global (finishTask now tid st ex err w) = w_global w"
  "w_ctx (finishTask now tid st ex err w) = w_ctx w" "w_procs (finishTask now tid st ex err w) = w_procs w"
  "w_closed (finishTask now tid st ex err w) = w_closed w"
  "w_solves (finishTask now tid st ex err w) = w_solves w" "w_issued (finishTask now tid st ex err w) = w_issued w"
  by (simp_all add: finishTask_def Let_def split: option.splits)

lemma store_update_same: "map_of s tid = Some t \<Longrightarrow> fn t = t \<Longrightarrow> store_get (fst (store_update tid fn s)) = store_get s"
  by (auto simp: store_update_def store_get_conv update_conv')

lemma cancel_ctx_simps [simp]:
  "w_pool (cancel_ctx tid e w) = w_pool w" "w_global (cancel_ctx tid e w) = w_global w"
  "w_store (cancel_ctx tid e w) = w_store w" "w_procs (cancel_ctx tid e w) = w_procs w"
  "w_metrics (cancel_ctx tid e w) = w_metrics w" "w_closed (cancel_ctx tid e w) = w_closed w"
  "w_solves (cancel_ctx tid e w) = w_solves w" "w_issued (cancel_ctx tid e w) = w_issued w"
  by (simp_all add: cancel_ctx_def)

lemma close_done_simps [simp]:
  "w_pool (close_done tid w) = w_pool w" "w_global (close_done tid w) = w_global w"
  "w_store (close_done tid w) = w_store w" "w_procs (close_done tid w) = w_procs w"
  "w_ctx (close_done tid w) = w_ctx w" "w_metrics (close_done tid w) = w_metrics w"
  "w_closed (close_done tid w) = w_closed w @ [tid]"
  "w_solves (close_done tid w) = w_solves w" "w_issued (close_done tid w) = w_issued w"
  by (simp_all add: close_done_def)

lemma set_heap_simps [simp]:
  "w_pool (set_heap h w) = (w_pool w)\<lparr>ap_heap := h\<rparr>" "w_global (set_heap h w) = w_global w"
  "w_store (set_heap h w) = w_store w" "w_procs (set_heap h w) = w_procs w"
  "w_ctx (set_heap h w) = w_ctx w" "w_metrics (set_heap h w) = w_metrics w"
  "w_closed (set_heap h w) = w_closed w" "w_solves (set_heap h w) = w_solves w"
  "w_issued (set_heap h w) = w_issued w"
  by (simp_all add: set_heap_def)

lemma observeQueue_simps [simp]:
  "w_pool (observeQueue now tid w) = w_pool w" "w_global (observeQueue now tid w) = w_global w"
  "w_store (observeQueue now tid w) = w_store w" "w_procs (observeQueue now tid w) = w_procs w"
  "w_ctx (observeQueue now tid w) = w_ctx w" "w_closed (observeQueue now tid w) = w_closed w"
  "w_solves (observeQueue now tid w) = w_solves w" "w_issued (observeQueue now tid w) = w_issued w"
  "m_finished (w_metrics (observeQueue now tid w)) = m_finished (w_metrics w)"
  "m_succeeded (w_metrics (observeQueue now tid w)) = m_succeeded (w_metrics w)"
  "m_failed (w_metrics (observeQueue now tid w)) = m_failed (w_metrics w)"
  "m_canceled (w_metrics (observeQueue now tid w)) = m_canceled (w_metrics w)"
  by (simp_all add: observeQueue_def split: option.splits)

lemma observeAttempt_simps [simp]:
  "w_pool (observeAttempt f err w) = w_pool w" "w_global (observeAttempt f err w) = w_global w"
  "w_store (observeAttempt f err w) = w_store w" "w_procs (observeAttempt f err w) = w_procs w"
  "w_ctx (observeAttempt f err w) = w_ctx w" "w_closed (observeAttempt f err w) = w_closed w"
  "w_solves (observeAttempt f err w) = w_solves w" "w_issued (observeAttempt f err w) = w_issued w"
  "m_finished (w_metrics (observeAttempt f err w)) = m_finished (w_metrics w)"
  "m_succeeded (w_metrics (observeAttempt f err w)) = m_succeeded (w_metrics w)"
  "m_failed (w_metrics (observeAttempt f err w)) = m_failed (w_metrics w)"
  "m_canceled (w_metrics (observeAttempt f err w)) = m_canceled (w_metrics w)"
  by (simp_all add: observeAttempt_def)

lemma add_proc_simps [simp]:
  "w_pool (add_proc p w) = w_pool w" "w_global (add_proc p w) = w_global w"
  "w_store (add_proc p w) = w_store w" "w_procs (add_proc p w) = w_procs w @ [p]"
  "w_ctx (add_proc p w) = w_ctx w" "w_metrics (add_proc p w) = w_metrics w"
  "w_closed (add_proc p w) = w_closed w" "w_solves (add_proc p w) = w_solves w"
  "w_issued (add_proc p w) = w_issued w"
  by (simp_all add: add_proc_def)

lemma markTaskQueued_conv: "markTaskQueued now tid w = update_task tid (markTaskQueued_upd now) w"
  by (simp add: markTaskQueued_def)

lemma refreshBuildkitAddrs_Inr:
  "refreshBuildkitAddrs parsed p = Inr (p', changed) \<Longrightarrow> \<exists>addrs. p' = pool_replace p (map Some addrs)"
  by (auto simp: refreshBuildkitAddrs_def Let_def split: sum.splits)

lemma orderedAddrSlots_subset:
  "orderedAddrSlots snap key = Some slots \<Longrightarrow> set slots \<subseteq> set (snap_slots snap)"
  by (auto simp: orderedAddrSlots_def split: option.splits if_splits)

section \<open>The pool effect of a step\<close>

inductive pool_effect :: "proc \<Rightarrow> addrPool \<Rightarrow> proc \<Rightarrow> addrPool \<Rightarrow> bool" where
  keep: "heldSlot (p_pc p') = heldSlot (p_pc p) \<Longrightarrow> pool_effect p pool p' pool"
| take: "heldSlot (p_pc p) = None \<Longrightarrow> heldSlot (p_pc p') = Some q \<Longrightarrow> q \<in> pc_slots (p_pc p) \<Longrightarrow>
    tryAcquireAddrSlot (ap_heap pool) q = Some h \<Longrightarrow> pool_effect p pool p' (pool\<lparr>ap_heap := h\<rparr>)"
| give: "heldSlot (p_pc p) = Some q \<Longrightarrow> heldSlot (p_pc p') = None \<Longrightarrow>
    releaseAddrSlot (ap_heap pool) q = Some h \<Longrightarrow> pool_effect p pool p' (pool\<lparr>ap_heap := h\<rparr>)"
| replace: "heldSlot (p_pc p) = None \<Longrightarrow> heldSlot (p_pc p') = None \<Longrightarrow>
    pool_effect p pool p' (pool_replace pool (map Some addrs))"

lemma exec_pool_effect:
  assumes "exec lib a w p = Some (w', p')"
  shows "pool_effect p (w_pool w) p' (w_pool w')"
proof (cases "p_pc p")
  case (PickAddr qs slots)
  with assms show ?thesis
    by (cases qs)
       (fastforce simp: exec_def split: action.splits option.splits intro: pool_effect.keep pool_effect.take)+
next
  case (WaitAddr slots)
  with assms show ?thesis
    by (fastforce simp: exec_defs split: exec_splits intro: pool_effect.keep pool_effect.take)
next
  case (ReleaseSlot q r)
  with assms show ?thesis
    by (fastforce simp: exec_defs split: exec_splits intro: pool_effect.give)
next
  case RefreshAddrs
  with assms show ?thesis
    by (fastforce simp: exec_defs split: exec_splits dest: refreshBuildkitAddrs_Inr
        intro: pool_effect.keep pool_effect.replace)
qed (use assms in \<open>auto simp: exec_defs markTaskQueued_conv split: exec_splits intro!: pool_effect.keep\<close>)

text \<open>The slots a goroutine mentions stay in the heap.\<close>

lemma exec_slots:
  assumes "exec lib a w p = Some (w', p')" "pool_wf (w_pool w)"
  shows "pc_slots (p_pc p') \<subseteq> pc_slots (p_pc p) \<union> {..<length (w_heap w)}"
proof (cases "p_pc p")
  case AcquireAddr
  have "set ordered \<subseteq> {..<length (w_heap w)}"
    if "orderedAddrSlots (pool_snapshot (w_pool w)) key = Some ordered" for key ordered
    using orderedAddrSlots_subset [OF that] assms(2)
    by (auto simp: pool_wf_def pool_snapshot_def)
  with AcquireAddr assms show ?thesis
    by (fastforce simp: exec_defs filterExcludedAddrSlots_def split: exec_splits)
next
  case (PickAddr qs slots)
  with assms(1) show ?thesis
    by (cases qs) (auto simp: exec_def split: action.splits option.splits if_splits)
qed (use assms in \<open>auto simp: exec_defs split: exec_splits\<close>)

lemma setSem_len:
  assumes "ptr < length heap" "q < length heap"
  shows "sem_len (as_sem (setSem heap ptr s ! q)) = (if q = ptr then sem_len s else sem_len (as_sem (heap ! q)))"
  using assms by (simp add: as_sem_setSem)

text \<open>
  The balance of one step: what the semaphore of a slot gains is what the goroutine gains, and a slot
  that a replacement allocates is idle.
\<close>

lemma pool_effect_balance:
  assumes "pool_effect p pool p' pool'" "pool_wf pool" "pc_slots (p_pc p) \<subseteq> {..<length (ap_heap pool)}"
    and "heldSlot (p_pc p) = Some r \<Longrightarrow> 0 < sem_len (as_sem (ap_heap pool ! r))"
  shows "pool_wf pool' \<and> length (ap_heap pool) \<le> length (ap_heap pool') \<and>
    (\<forall>q < length (ap_heap pool'). sem_len (as_sem (ap_heap pool' ! q)) + of_bool (holdsSlot q p) =
       (if q < length (ap_heap pool) then sem_len (as_sem (ap_heap pool ! q)) else 0) + of_bool (holdsSlot q p'))"
  using assms
proof (cases rule: pool_effect.cases)
  case keep
  then show ?thesis using assms(2) by simp
next
  case (take q h)
  let ?s = "as_sem (ap_heap pool ! q)"
  have q: "q < length (ap_heap pool)" and len: "sem_len ?s < sem_cap ?s"
    and h: "h = setSem (ap_heap pool) q (?s\<lparr>sem_len := Suc (sem_len ?s)\<rparr>)"
    using take assms(3) by (auto simp: tryAcquireAddrSlot_Some)
  have "pool_wf (pool\<lparr>ap_heap := h\<rparr>)"
    unfolding h using len by (intro pool_setSem_wf assms(2) q) (auto simp: sem_ok_def)
  then show ?thesis using take q by (auto simp: h setSem_len)
next
  case (give q h)
  let ?s = "as_sem (ap_heap pool ! q)"
  have "q \<in> pc_slots (p_pc p)"
    using give(2) by (cases "p_pc p") auto
  then have q: "q < length (ap_heap pool)" and len: "0 < sem_len ?s"
    and h: "h = setSem (ap_heap pool) q (?s\<lparr>sem_len := sem_len ?s - 1\<rparr>)"
    using give assms(3) by (auto simp: releaseAddrSlot_Some)
  have "sem_ok ?s" using assms(2) q by (simp add: pool_wf_def)
  then have "pool_wf (pool\<lparr>ap_heap := h\<rparr>)"
    unfolding h by (intro pool_setSem_wf assms(2) q) (auto simp: sem_ok_def)
  then show ?thesis using give q len by (auto simp: h setSem_len)
next
  case (replace addrs)
  obtain fresh where f: "ap_heap pool' = ap_heap pool @ fresh"
    "\<forall>s \<in> set fresh. as_sem s = makeSem (ap_concurrency pool)"
    using pool_replace_heap replace(1) by metis
  then show ?thesis
    using replace pool_replace_wf [OF assms(2)] by (auto simp: nth_append makeSem_def)
qed

lemma heldSlot_in: "heldSlot l = Some q \<Longrightarrow> q \<in> pc_slots l"
  by (cases l) auto

section \<open>The accounting invariant\<close>

definition slots_counted :: "world \<Rightarrow> bool" where
  "slots_counted w \<longleftrightarrow> pool_wf (w_pool w) \<and>
     (\<forall>p \<in> set (w_procs w). pc_slots (p_pc p) \<subseteq> {..<length (w_heap w)}) \<and>
     (\<forall>q < length (w_heap w). sem_len (as_sem (w_heap w ! q)) = count_if (holdsSlot q) (w_procs w))"

lemma nth_update_mem: "i < length xs \<Longrightarrow> x \<in> set (xs[i := y]) \<Longrightarrow> x = y \<or> x \<in> set xs"
  using set_update_subset_insert [of xs i y] by auto

lemma slots_counted_exec:
  assumes inv: "slots_counted w" and i: "i < length (w_procs w)"
    and ex: "exec lib a w (w_procs w ! i) = Some (w', p')"
  shows "slots_counted (w'\<lparr>w_procs := (w_procs w)[i := p']\<rparr>)"
proof -
  let ?p = "w_procs w ! i" let ?ps = "(w_procs w)[i := p']"
  have wf: "pool_wf (w_pool w)" and sl: "pc_slots (p_pc ?p) \<subseteq> {..<length (w_heap w)}"
    using inv i by (auto simp: slots_counted_def)
  have pos: "0 < sem_len (as_sem (w_heap w ! r))" if r: "heldSlot (p_pc ?p) = Some r" for r
  proof -
    have "r < length (w_heap w)" using heldSlot_in [OF r] sl by auto
    then show ?thesis using inv count_if_pos [of i "w_procs w" "holdsSlot r"] i r
      by (simp add: slots_counted_def)
  qed
  note bal = pool_effect_balance [OF exec_pool_effect [OF ex] wf sl pos]
  have "sem_len (as_sem (w_heap w' ! q)) = count_if (holdsSlot q) ?ps" if q: "q < length (w_heap w')" for q
  proof -
    have "count_if (holdsSlot q) (w_procs w) = 0" if "\<not> q < length (w_heap w)"
      using inv that by (auto simp: slots_counted_def filter_empty_conv dest!: heldSlot_in)
    then have "(if q < length (w_heap w) then sem_len (as_sem (w_heap w ! q)) else 0)
        = count_if (holdsSlot q) (w_procs w)"
      using inv by (simp add: slots_counted_def)
    then show ?thesis
      using bal q count_if_update [OF i, of "holdsSlot q" p'] by auto
  qed
  moreover have "pc_slots (p_pc p) \<subseteq> {..<length (w_heap w')}" if "p \<in> set ?ps" for p
    using nth_update_mem [OF i that] bal exec_slots [OF ex wf] sl inv
    by (fastforce simp: slots_counted_def)
  ultimately show ?thesis using bal by (simp add: slots_counted_def)
qed

lemma slots_counted_pool_procs:
  "w_pool w' = w_pool w \<Longrightarrow> w_procs w' = w_procs w \<Longrightarrow> slots_counted w' = slots_counted w"
  by (simp add: slots_counted_def)

lemma slots_counted_add_proc [step_inv]:
  "slots_counted w \<Longrightarrow> heldSlot l = None \<Longrightarrow> pc_slots l = {} \<Longrightarrow> slots_counted (add_proc (new_proc r l t tid) w)"
  by (auto simp: slots_counted_def new_proc_def)

lemma slots_counted_replace [step_inv]:
  assumes "slots_counted w"
  shows "slots_counted (w\<lparr>w_pool := pool_replace (w_pool w) addrs\<rparr>)"
proof -
  obtain fresh where f: "ap_heap (pool_replace (w_pool w) addrs) = w_heap w @ fresh"
    "\<forall>s \<in> set fresh. as_sem s = makeSem (ap_concurrency (w_pool w))"
    using pool_replace_heap by metis
  have "count_if (holdsSlot q) (w_procs w) = 0" if "\<not> q < length (w_heap w)" for q
    using assms that by (auto simp: slots_counted_def filter_empty_conv dest!: heldSlot_in)
  then show ?thesis
    using assms f pool_replace_wf [of "w_pool w" addrs]
    by (fastforce simp: slots_counted_def nth_append makeSem_def)
qed

lemma handleCancelBuild_conv:
  "handleCancelBuild tid now w =
     (let w1 = w\<lparr>w_store := fst (store_update tid (cancel_upd now) (w_store w))\<rparr> in
      case store_get (w_store w) tid of
        None \<Rightarrow> w1
      | Some t \<Rightarrow>
          if \<not> terminal (t_Status t) then add_proc (new_proc False HandlerCancel (cancel_upd now t) (t_ID t)) w1
          else if t_Status t = buildStatusCanceled
            then add_proc (new_proc False HandlerFinish (cancel_upd now t) (t_ID t)) w1
          else w1)"
  by (auto simp: handleCancelBuild_def store_cancel_def store_update_def store_get_def Let_def
      cancel_upd_def active_iff split: option.splits)

lemma handleCancelBuild_cases:
  obtains (same) "w_procs (handleCancelBuild tid now w) = w_procs w"
  | (handler) l t where "w_procs (handleCancelBuild tid now w) = w_procs w @ [new_proc False l (cancel_upd now t) (t_ID t)]"
      "l = HandlerCancel \<or> l = HandlerFinish" "store_get (w_store w) tid = Some t"
      "terminal (t_Status (cancel_upd now t))"
proof (cases "store_get (w_store w) tid")
  case None
  then show thesis by (intro same) (simp add: handleCancelBuild_conv)
next
  case (Some t)
  have "terminal (t_Status (cancel_upd now t))" by (simp add: cancel_upd_def active_iff)
  with Some same handler show thesis
    by (cases "terminal (t_Status t)"; cases "t_Status t = buildStatusCanceled")
       (simp_all add: handleCancelBuild_conv Let_def)
qed

lemma handleCancelBuild_simps [simp]:
  "w_pool (handleCancelBuild tid now w) = w_pool w" "w_global (handleCancelBuild tid now w) = w_global w"
  "w_ctx (handleCancelBuild tid now w) = w_ctx w" "w_metrics (handleCancelBuild tid now w) = w_metrics w"
  "w_closed (handleCancelBuild tid now w) = w_closed w" "w_solves (handleCancelBuild tid now w) = w_solves w"
  "w_issued (handleCancelBuild tid now w) = w_issued w"
  "w_store (handleCancelBuild tid now w) = fst (store_update tid (cancel_upd now) (w_store w))"
  by (auto simp: handleCancelBuild_def store_cancel_def Let_def split: prod.splits option.splits)

lemma submit_task_simps [simp]:
  "w_pool (submit_task t w) = w_pool w" "w_global (submit_task t w) = w_global w"
  "w_ctx (submit_task t w) = w_ctx w" "w_procs (submit_task t w) = w_procs w"
  "w_metrics (submit_task t w) = w_metrics w" "w_closed (submit_task t w) = w_closed w"
  "w_solves (submit_task t w) = w_solves w" "w_issued (submit_task t w) = w_issued w @ [t_ID t]"
  "w_store (submit_task t w) = store_add t (w_store w)"
  by (simp_all add: submit_task_def)

lemma refreshTick_cases:
  obtains "refreshTick parsed w = w"
  | addrs where "refreshTick parsed w = w\<lparr>w_pool := pool_replace (w_pool w) (map Some addrs)\<rparr>"
proof (cases "refreshBuildkitAddrs parsed (w_pool w)")
  case (Inl e)
  then show thesis by (intro that(1)) (simp add: refreshTick_def)
next
  case (Inr r)
  obtain p' c where r: "r = (p', c)" by (cases r) auto
  with Inr obtain addrs where "p' = pool_replace (w_pool w) (map Some addrs)"
    using refreshBuildkitAddrs_Inr by blast
  with Inr r show thesis by (intro that(2) [of addrs]) (simp add: refreshTick_def)
qed

text \<open>The shape of a step of the machine, for the proofs of invariants.\<close>

lemma world_step_cases [consumes 1]:
  assumes "world_step lib ev w = Some w'"
  obtains (submit) t where "ev = Submit t" "new_task t" "t_ID t \<notin> set (w_issued w)" "w' = submit_task t w"
  | (reject) t where "ev = SubmitRejected t" "new_task t" "t_ID t \<notin> set (w_issued w)"
      "w' = add_proc (new_proc True RejectCancel t (t_ID t)) (submit_task t w)"
  | (spawn) tid where "ev = Spawn tid" "tid \<in> set (w_issued w)" "\<not> list_ex (runner_of tid) (w_procs w)"
      "w' = add_proc (new_proc True RunStart zeroTask tid) w"
  | (cancel) tid now where "ev = CancelRequest tid now" "w' = handleCancelBuild tid now w"
  | (ctx) tid e where "ev = CtxEnds tid e" "tid \<in> set (w_issued w)" "w' = cancel_ctx tid e w"
  | (reap) now ttl where "ev = Reap now ttl" "w' = cleanupExpiredTasks now ttl w"
  | (refresh) parsed where "ev = Refresh parsed" "w' = refreshTick parsed w"
  | (proc) i a w1 p' where "ev = Proc i a" "i < length (w_procs w)"
      "exec lib a w (w_procs w ! i) = Some (w1, p')" "w' = w1\<lparr>w_procs := (w_procs w)[i := p']\<rparr>"
  using assms by (cases ev) (auto simp: world_step_def split: if_splits)

lemma slots_counted_step:
  assumes "slots_counted w" "world_step lib ev w = Some w'"
  shows "slots_counted w'"
  using assms(2)
proof (cases rule: world_step_cases)
  case (submit t)
  then show ?thesis using assms(1) slots_counted_pool_procs [of w' w] by simp
next
  case (reject t)
  have "slots_counted (submit_task t w)"
    using assms(1) slots_counted_pool_procs [of "submit_task t w" w] by simp
  with reject show ?thesis by (simp add: slots_counted_add_proc)
next
  case (spawn tid)
  then show ?thesis using assms(1) by (simp add: slots_counted_add_proc)
next
  case (cancel tid now)
  then show ?thesis using assms(1)
    by (cases rule: handleCancelBuild_cases [of tid now w]) (auto simp: slots_counted_def new_proc_def)
next
  case (ctx tid e)
  then show ?thesis using assms(1) slots_counted_pool_procs [of w' w] by simp
next
  case (reap now ttl)
  then show ?thesis using assms(1) slots_counted_pool_procs [of w' w] by (simp add: cleanupExpiredTasks_def)
next
  case (refresh parsed)
  then show ?thesis using assms(1)
    by (cases rule: refreshTick_cases [of parsed w]) (auto simp: slots_counted_replace)
next
  case (proc i a w1 p')
  then show ?thesis using assms(1) by (simp add: slots_counted_exec)
qed

lemma slots_counted_start: "server_start w \<Longrightarrow> slots_counted w"
proof -
  assume "server_start w"
  then obtain m addrs c where w: "w = init_world m addrs c" by (auto simp: server_start_def)
  have "\<exists>fresh. ap_heap (newAddrPool (map Some addrs) c) = fresh \<and> (\<forall>s \<in> set fresh. as_sem s = makeSem c)"
    using pool_replace_heap [of "\<lparr>ap_concurrency = c, ap_slots = [], ap_hash = None, ap_heap = []\<rparr>" "map Some addrs"]
    by (simp add: newAddrPool_def)
  then show ?thesis
    unfolding slots_counted_def w by (auto simp: init_world_def newAddrPool_wf makeSem_def)
qed

interpretation slot_accounting: ts_invariant server_start "world_step lib" slots_counted for lib
  by unfold_locales (auto intro: slots_counted_start slots_counted_step)

section \<open>The global semaphore\<close>

definition global_counted :: "world \<Rightarrow> bool" where
  "global_counted w \<longleftrightarrow> (case w_global w of
      None \<Rightarrow> True
    | Some s \<Rightarrow> 0 < sem_cap s \<and> sem_ok s \<and> sem_len s = count_if (\<lambda>p. holdsGlobal (p_pc p)) (w_procs w))"

lemma exec_global:
  assumes "exec lib a w p = Some (w', p')"
  shows "(w_global w' = w_global w \<and> (w_global w \<noteq> None \<longrightarrow> holdsGlobal (p_pc p') = holdsGlobal (p_pc p))) \<or>
    (\<exists>s. w_global w = Some s \<and> sem_len s < sem_cap s \<and> w_global w' = Some (s\<lparr>sem_len := Suc (sem_len s)\<rparr>) \<and>
       \<not> holdsGlobal (p_pc p) \<and> holdsGlobal (p_pc p')) \<or>
    (\<exists>s. w_global w = Some s \<and> 0 < sem_len s \<and> w_global w' = Some (s\<lparr>sem_len := sem_len s - 1\<rparr>) \<and>
       holdsGlobal (p_pc p) \<and> \<not> holdsGlobal (p_pc p'))"
proof (cases "p_pc p")
  case (PickAddr qs slots)
  with assms show ?thesis
    by (cases qs) (auto simp: exec_def split: action.splits option.splits if_splits)
next
  case AcquireGlobal
  with assms show ?thesis by (auto simp: exec_defs split: exec_splits)
next
  case (ReleaseGlobal r)
  with assms show ?thesis by (auto simp: exec_defs releaseGlobal_def split: exec_splits)
qed (use assms in \<open>auto simp: exec_defs markTaskQueued_conv split: exec_splits\<close>)

lemma global_counted_step:
  assumes "global_counted w" "world_step lib ev w = Some w'"
  shows "global_counted w'"
  using assms(2)
proof (cases rule: world_step_cases)
  case (cancel tid now)
  then show ?thesis using assms(1)
    by (cases rule: handleCancelBuild_cases [of tid now w])
       (auto simp: global_counted_def new_proc_def split: option.splits)
next
  case (refresh parsed)
  then show ?thesis using assms(1)
    by (cases rule: refreshTick_cases [of parsed w]) (auto simp: global_counted_def split: option.splits)
next
  case (proc i a w1 p')
  have c: "count_if (\<lambda>p. holdsGlobal (p_pc p)) ((w_procs w)[i := p']) + of_bool (holdsGlobal (p_pc (w_procs w ! i))) =
      count_if (\<lambda>p. holdsGlobal (p_pc p)) (w_procs w) + of_bool (holdsGlobal (p_pc p'))"
    by (rule count_if_update [OF proc(2)])
  from exec_global [OF proc(3)] show ?thesis
    using assms(1) c by (auto simp: proc(4) global_counted_def sem_ok_def split: option.splits)
qed (use assms in \<open>auto simp: global_counted_def new_proc_def cleanupExpiredTasks_def split: option.splits\<close>)

lemma global_counted_start: "server_start w \<Longrightarrow> global_counted w"
  by (auto simp: server_start_def global_counted_def init_world_def newGlobalSem_def makeSem_def sem_ok_def)

interpretation global_accounting: ts_invariant server_start "world_step lib" global_counted for lib
  by unfold_locales (auto intro: global_counted_start global_counted_step)

end
