(* ===== verification/Build_Lifecycle.thy ===== *)
theory Build_Lifecycle
  imports Build_Safety
begin

text \<open>
  The life of a task under every interleaving: the store's invariant, terminal states, the single
  observation of a task's end, and the \<^verbatim>\<open>done\<close> channel.
\<close>

section \<open>The effect of a step on the store\<close>

fun finish_ok :: "pc \<Rightarrow> bool" where
  "finish_ok (Finish st ex err) = terminal st"
| "finish_ok _ = True"

text \<open>Program counters after the end of the task has been recorded.\<close>

fun ended_pc :: "pc \<Rightarrow> bool" where
  "ended_pc Defer = True" | "ended_pc Exited = True"
| "ended_pc HandlerCancel = True" | "ended_pc HandlerFinish = True"
| "ended_pc RejectClose = True" | "ended_pc RejectCleanup = True"
| "ended_pc _ = False"

inductive store_effect :: "proc \<Rightarrow> taskStore \<Rightarrow> taskStore \<Rightarrow> bool" where
  keep: "store_effect p s s"
| update: "task_update fn \<Longrightarrow> store_effect p s (fst (store_update (p_id p) fn s))"
| delete: "p_pc p = RejectCleanup \<Longrightarrow> store_effect p s (fst (store_delete (p_id p) s))"

lemma finishTask_store:
  "w_store (finishTask now tid st ex err w) = w_store w \<or>
   w_store (finishTask now tid st ex err w) = fst (store_update tid (finish_upd now st ex err) (w_store w))"
  by (auto simp: finishTask_def Let_def split: option.splits)

lemma exec_store_effect:
  assumes "exec lib a w p = Some (w', p')" "finish_ok (p_pc p)"
  shows "store_effect p (w_store w) (w_store w')"
proof (cases "p_pc p")
  case (PickAddr qs slots)
  with assms show ?thesis
    by (cases qs) (auto simp: exec_def split: action.splits option.splits intro: store_effect.keep)
next
  case (Finish st ex err)
  then have "task_update (finish_upd now st ex err)" for now
    using assms(2) by (simp add: finish_update)
  with Finish assms(1) show ?thesis
    using finishTask_store by (auto simp: exec_defs split: exec_splits) (metis store_effect.simps)
next
  case HandlerFinish
  have "task_update (finish_upd now buildStatusCanceled [] (Some context_Canceled))" for now
    by (simp add: finish_update)
  with HandlerFinish assms(1) show ?thesis
    using finishTask_store by (auto simp: exec_defs split: exec_splits) (metis store_effect.simps)
next
  case RejectFinish
  have "task_update (finish_upd now buildStatusCanceled [] (Some context_Canceled))" for now
    by (simp add: finish_update)
  with RejectFinish assms(1) show ?thesis
    using finishTask_store by (auto simp: exec_defs split: exec_splits) (metis store_effect.simps)
qed (use assms in \<open>auto simp: exec_defs markTaskQueued_conv split: exec_splits
  intro: store_effect.keep store_effect.delete intro!: store_effect.update
    assign.task_update_axioms mark_queued.task_update_axioms close_done.task_update_axioms\<close>)

lemma exec_keeps:
  assumes "exec lib a w p = Some (w', p')"
  shows "p_id p' = p_id p \<and> p_runner p' = p_runner p \<and> w_issued w' = w_issued w \<and> w_procs w' = w_procs w"
proof (cases "p_pc p")
  case (PickAddr qs slots)
  with assms show ?thesis
    by (cases qs) (auto simp: exec_def split: action.splits option.splits)
qed (use assms in \<open>auto simp: exec_defs markTaskQueued_conv split: exec_splits\<close>)

lemma exec_finish_ok:
  assumes "exec lib a w p = Some (w', p')"
  shows "finish_ok (p_pc p')"
proof (cases "p_pc p")
  case (PickAddr qs slots)
  with assms show ?thesis
    by (cases qs) (auto simp: exec_def split: action.splits option.splits)
qed (use assms in \<open>auto simp: exec_defs split: exec_splits\<close>)

section \<open>The store's invariant\<close>

definition store_ok :: "world \<Rightarrow> bool" where
  "store_ok w \<longleftrightarrow> store_rep (w_store w) \<and>
     (\<forall>tid t. store_get (w_store w) tid = Some t \<longrightarrow> task_ok t \<and> t_ID t = tid \<and> tid \<in> set (w_issued w)) \<and>
     (\<forall>p \<in> set (w_procs w). finish_ok (p_pc p) \<and> p_id p \<in> set (w_issued w))"

text \<open>How two states of the store are related by any number of steps.\<close>

definition task_progress :: "buildTask \<Rightarrow> buildTask \<Rightarrow> bool" where
  "task_progress t t' \<longleftrightarrow> task_request t' = task_request t \<and>
     (terminal (t_Status t) \<longrightarrow> t_Status t' = t_Status t) \<and> (t_observed t \<longrightarrow> t_observed t') \<and>
     (t_done t' \<longrightarrow> t_done t)"

definition lifecycle :: "world \<Rightarrow> world \<Rightarrow> bool" where
  "lifecycle w w' \<longleftrightarrow> set (w_issued w) \<subseteq> set (w_issued w') \<and>
     (\<forall>tid \<in> set (w_issued w). \<forall>t'. store_get (w_store w') tid = Some t' \<longrightarrow>
        (\<exists>t. store_get (w_store w) tid = Some t \<and> task_progress t t'))"

lemma task_progress_refl: "task_progress t t"
  by (simp add: task_progress_def)

lemma task_progress_trans: "task_progress t u \<Longrightarrow> task_progress u v \<Longrightarrow> task_progress t v"
  by (simp add: task_progress_def)

lemma lifecycle_refl: "lifecycle w w"
  by (auto simp: lifecycle_def intro: task_progress_refl)

lemma lifecycle_trans: "lifecycle u v \<Longrightarrow> lifecycle v w \<Longrightarrow> lifecycle u w"
  unfolding lifecycle_def by (meson subset_iff subset_trans task_progress_trans)

lemma task_update_progress: "task_update fn \<Longrightarrow> task_ok t \<Longrightarrow> task_progress t (fn t)"
  unfolding task_update_def task_progress_def by blast

lemma store_get_delete:
  "store_rep s \<Longrightarrow> store_get (fst (store_delete tid s)) = (store_get s)(tid := None)"
  by (auto simp: store_delete_def store_get_conv delete_conv' map_of_eq_None_iff split: option.splits)

lemma store_rep_delete: "store_rep s \<Longrightarrow> store_rep (fst (store_delete tid s))"
  by (auto simp: store_delete_def store_rep_def intro: distinct_delete split: option.splits)

text \<open>What a store effect leaves: each task it keeps has made progress from the one before.\<close>

lemma store_effect_rep: "store_effect p s s' \<Longrightarrow> store_rep s \<Longrightarrow> store_rep s'"
  by (induction rule: store_effect.induct) (auto intro: store_rep_update store_rep_delete)

lemma store_effect_get:
  assumes "store_effect p s s'" "store_rep s" "\<forall>tid t. store_get s tid = Some t \<longrightarrow> task_ok t"
    and "store_get s' tid = Some t'"
  shows "task_ok t' \<and> (\<exists>t. store_get s tid = Some t \<and> task_progress t t')"
  using assms
proof (cases rule: store_effect.cases)
  case (update fn)
  note fn = task_update.fn_ok [OF update(2)] task_update_progress [OF update(2)]
  from update(1) assms(2-) show ?thesis
    by (auto simp: store_get_update fn task_progress_refl split: option.splits if_splits)
qed (use assms(2-) in \<open>auto simp: store_get_delete task_progress_refl split: if_splits\<close>)

lemma new_task_ok: "new_task t \<Longrightarrow> task_ok t"
  by (simp add: new_task_def task_ok_def)

lemma store_ok_task: "store_ok w \<Longrightarrow> store_get (w_store w) tid = Some t \<Longrightarrow> task_ok t \<and> t_ID t = tid \<and> tid \<in> set (w_issued w)"
  by (simp add: store_ok_def)

lemma store_okI_lifecycle:
  assumes "store_ok w" "w_issued w' = w_issued w" "store_rep (w_store w')"
    and "\<And>tid t'. store_get (w_store w') tid = Some t' \<Longrightarrow>
      task_ok t' \<and> (\<exists>t. store_get (w_store w) tid = Some t \<and> task_progress t t')"
    and "\<And>p. p \<in> set (w_procs w') \<Longrightarrow> finish_ok (p_pc p) \<and> p_id p \<in> set (w_issued w)"
  shows "store_ok w' \<and> lifecycle w w'"
proof -
  have "t_ID t' = tid \<and> tid \<in> set (w_issued w)" if "store_get (w_store w') tid = Some t'" for tid t'
    using assms(4) [OF that] store_ok_task [OF assms(1)]
    by (fastforce simp: task_progress_def task_request_def)
  with assms show ?thesis by (auto simp: store_ok_def lifecycle_def)
qed

lemma store_ok_submit:
  assumes "store_ok w" "new_task t" "t_ID t \<notin> set (w_issued w)"
  shows "store_ok (submit_task t w) \<and> lifecycle w (submit_task t w)"
  using assms by (auto simp: store_ok_def lifecycle_def store_rep_add store_get_add new_task_ok task_progress_refl)

lemma store_ok_add_proc:
  "store_ok w \<Longrightarrow> finish_ok l \<Longrightarrow> tid \<in> set (w_issued w) \<Longrightarrow>
     store_ok (add_proc (new_proc r l t tid) w) \<and> lifecycle w (add_proc (new_proc r l t tid) w)"
  by (auto simp: store_ok_def lifecycle_def new_proc_def task_progress_refl)

lemma lifecycle_same: "w_store w' = w_store w \<Longrightarrow> w_issued w' = w_issued w \<Longrightarrow> lifecycle w w'"
  by (auto simp: lifecycle_def task_progress_refl)

lemma store_ok_same:
  "store_ok w \<Longrightarrow> w_store w' = w_store w \<Longrightarrow> w_issued w' = w_issued w \<Longrightarrow> w_procs w' = w_procs w \<Longrightarrow>
     store_ok w' \<and> lifecycle w w'"
  by (simp add: lifecycle_same store_ok_def)

lemma store_ok_cancel:
  assumes "store_ok w"
  shows "store_ok (handleCancelBuild tid now w) \<and> lifecycle w (handleCancelBuild tid now w)"
proof (rule store_okI_lifecycle [OF assms])
  fix k t'
  assume g: "store_get (w_store (handleCancelBuild tid now w)) k = Some t'"
  have "store_effect (new_proc False HandlerCancel zeroTask tid) (w_store w)
      (fst (store_update tid (cancel_upd now) (w_store w)))"
    using store_effect.update [OF cancel.task_update_axioms, of "new_proc False HandlerCancel zeroTask tid"]
    by (simp add: new_proc_def)
  from store_effect_get [OF this] g assms show "task_ok t' \<and> (\<exists>t. store_get (w_store w) k = Some t \<and> task_progress t t')"
    by (auto simp: store_ok_def)
next
  fix p
  assume "p \<in> set (w_procs (handleCancelBuild tid now w))"
  then show "finish_ok (p_pc p) \<and> p_id p \<in> set (w_issued w)"
    using assms store_ok_task [OF assms]
    by (cases rule: handleCancelBuild_cases [of tid now w]) (auto simp: store_ok_def new_proc_def)
qed (use assms in \<open>auto simp: store_ok_def store_rep_update\<close>)

lemma store_ok_reap:
  assumes "store_ok w"
  shows "store_ok (cleanupExpiredTasks now ttl w) \<and> lifecycle w (cleanupExpiredTasks now ttl w)"
  by (rule store_okI_lifecycle [OF assms])
     (use assms in \<open>auto simp: cleanupExpiredTasks_def store_ok_def store_rep_deleteExpired
        store_get_deleteExpired task_progress_refl split: option.splits if_splits\<close>)

lemma store_ok_exec:
  assumes "store_ok w" "i < length (w_procs w)" "exec lib a w (w_procs w ! i) = Some (w1, p')"
  shows "store_ok (w1\<lparr>w_procs := (w_procs w)[i := p']\<rparr>) \<and> lifecycle w (w1\<lparr>w_procs := (w_procs w)[i := p']\<rparr>)"
proof (rule store_okI_lifecycle [OF assms(1)])
  have fo: "finish_ok (p_pc (w_procs w ! i))" and "p_id (w_procs w ! i) \<in> set (w_issued w)"
    using assms(1,2) by (auto simp: store_ok_def)
  note eff = exec_store_effect [OF assms(3) fo]
  show "store_rep (w_store (w1\<lparr>w_procs := (w_procs w)[i := p']\<rparr>))"
    using store_effect_rep [OF eff] assms(1) by (simp add: store_ok_def)
  fix tid t'
  assume "store_get (w_store (w1\<lparr>w_procs := (w_procs w)[i := p']\<rparr>)) tid = Some t'"
  then show "task_ok t' \<and> (\<exists>t. store_get (w_store w) tid = Some t \<and> task_progress t t')"
    using store_effect_get [OF eff] assms(1) by (simp add: store_ok_def)
next
  fix p
  assume "p \<in> set (w_procs (w1\<lparr>w_procs := (w_procs w)[i := p']\<rparr>))"
  then have "p = p' \<or> p \<in> set (w_procs w)" using nth_update_mem [OF assms(2)] by simp
  then show "finish_ok (p_pc p) \<and> p_id p \<in> set (w_issued w)"
    using exec_finish_ok [OF assms(3)] exec_keeps [OF assms(3)] assms(1,2)
    by (auto simp: store_ok_def)
qed (use exec_keeps [OF assms(3)] in simp)

lemma store_ok_step:
  assumes "store_ok w" "world_step lib ev w = Some w'"
  shows "store_ok w' \<and> lifecycle w w'"
  using assms(2)
proof (cases rule: world_step_cases)
  case (submit t)
  then show ?thesis using store_ok_submit assms(1) by blast
next
  case (reject t)
  then have s: "store_ok (submit_task t w)" "lifecycle w (submit_task t w)"
    using store_ok_submit assms(1) by blast+
  with reject store_ok_add_proc [OF s(1), of RejectCancel "t_ID t" True t] show ?thesis
    by (auto intro: lifecycle_trans)
next
  case (spawn tid)
  then show ?thesis using store_ok_add_proc [OF assms(1), of RunStart tid] by auto
next
  case (cancel tid now)
  then show ?thesis using store_ok_cancel [OF assms(1)] by blast
next
  case (ctx tid e)
  then show ?thesis using store_ok_same [OF assms(1), of w'] by simp
next
  case (reap now ttl)
  then show ?thesis using store_ok_reap [OF assms(1)] by blast
next
  case (refresh parsed)
  then show ?thesis using store_ok_same [OF assms(1), of w']
    by (cases rule: refreshTick_cases [of parsed w]) auto
next
  case (proc i a w1 p')
  then show ?thesis using store_ok_exec [OF assms(1)] by blast
qed

lemma store_ok_start: "server_start w \<Longrightarrow> store_ok w"
  by (auto simp: server_start_def store_ok_def init_world_def newTaskStore_def store_rep_def store_get_def)

interpretation life: ts_history server_start "world_step lib" store_ok lifecycle for lib
  using store_ok_step
  by unfold_locales (auto intro: store_ok_start lifecycle_refl lifecycle_trans)

section \<open>Work directories\<close>

text \<open>A goroutine changes only by its own steps.\<close>

lemma other_events_keep:
  assumes "world_step lib ev w = Some w'" "i < length (w_procs w)" "\<forall>a. ev \<noteq> Proc i a"
  shows "w_procs w' ! i = w_procs w ! i \<and> i < length (w_procs w')"
  using assms(1)
proof (cases rule: world_step_cases)
  case (cancel tid now)
  then show ?thesis using assms(2)
    by (cases rule: handleCancelBuild_cases [of tid now w]) (auto simp: nth_append)
next
  case (refresh parsed)
  then show ?thesis using assms(2) by (cases rule: refreshTick_cases [of parsed w]) auto
qed (use assms(2,3) in \<open>auto simp: nth_append cleanupExpiredTasks_def\<close>)

lemma w_removed_simps [simp]:
  "w_removed (set_heap h w) = w_removed w" "w_removed (handleCancelBuild tid now w) = w_removed w"
  "w_removed (update_task tid fn w) = w_removed w" "w_removed (finishTask now tid st ex err w) = w_removed w"
  "w_removed (cancel_ctx tid e w) = w_removed w" "w_removed (close_done tid w) = w_removed w"
  "w_removed (observeQueue now tid w) = w_removed w" "w_removed (observeAttempt f err w) = w_removed w"
  "w_removed (add_proc p w) = w_removed w" "w_removed (submit_task t w) = w_removed w"
  by (auto simp: set_heap_def handleCancelBuild_def add_proc_def update_task_def finishTask_def cancel_ctx_def
      close_done_def observeQueue_def observeAttempt_def submit_task_def Let_def split: prod.split option.split)

lemma exec_removed:
  assumes "exec lib a w p = Some (w', p')"
  shows "w_removed w' = w_removed w \<and> p_pc p \<noteq> RejectCleanup \<or> p_pc p = RejectCleanup \<and> w' = cleanupTask (p_id p) w"
proof (cases "p_pc p")
  case (PickAddr qs slots)
  with assms show ?thesis
    by (cases qs) (auto simp: exec_def split: action.splits option.splits)
next
  case RejectCleanup
  with assms show ?thesis by (auto simp: exec_def reject_cleanup_def split: action.splits)
qed (use assms in \<open>auto simp: exec_defs markTaskQueued_conv split: exec_splits\<close>)

text \<open>A step that takes a task out of the store removes its work directory; no removal is forgotten.\<close>

lemma step_removes:
  assumes ok: "store_ok w" and st: "world_step lib ev w = Some w'" and t: "store_get (w_store w) tid = Some t"
    and gone: "store_get (w_store w') tid = None"
  shows "set (cleanupTaskWorkDir (Some t)) \<subseteq> set (w_removed w')"
  using st
proof (cases rule: world_step_cases)
  case (submit u)
  then show ?thesis using t gone ok store_ok_task [OF ok t]
    by (auto simp: store_ok_def submit_task_def store_get_add split: if_splits)
next
  case (reject u)
  then show ?thesis using t gone ok store_ok_task [OF ok t]
    by (auto simp: store_ok_def submit_task_def add_proc_def store_get_add split: if_splits)
next
  case (cancel k now)
  then show ?thesis using t gone ok
    by (auto simp: store_get_update store_ok_def split: if_splits option.splits)
next
  case (reap now ttl)
  have rep: "store_rep (w_store w)" using ok by (simp add: store_ok_def)
  have "t \<in> set (snd (deleteExpired now ttl (w_store w)))"
  proof -
    have "task_expired now ttl t" using t gone rep by (simp add: reap(2) cleanupExpiredTasks_def store_get_deleteExpired split: if_splits)
    moreover have "(tid, t) \<in> set (w_store w)" using t by (auto simp: store_get_def dest: map_of_SomeD)
    ultimately show ?thesis by (force simp: deleteExpired_def)
  qed
  then show ?thesis by (auto simp: reap(2) cleanupExpiredTasks_def)
next
  case (refresh parsed)
  then show ?thesis using t gone by (cases rule: refreshTick_cases [of parsed w]) auto
next
  case (proc i a w1 p')
  have fo: "finish_ok (p_pc (w_procs w ! i))" using ok proc(2) by (auto simp: store_ok_def)
  have rep: "store_rep (w_store w)" using ok by (simp add: store_ok_def)
  from exec_store_effect [OF proc(3) fo] show ?thesis
  proof (cases rule: store_effect.cases)
    case keep
    then show ?thesis using t gone proc(4) by simp
  next
    case (update fn)
    then show ?thesis using t gone proc(4) rep by (auto simp: store_get_update split: if_splits option.splits)
  next
    case delete
    then have w1: "w1 = cleanupTask (p_id (w_procs w ! i)) w" using exec_removed [OF proc(3)] by simp
    then have "p_id (w_procs w ! i) = tid"
      using t gone proc(4) rep by (auto simp: cleanupTask_def store_get_delete split: if_splits)
    then have "snd (store_delete (p_id (w_procs w ! i)) (w_store w)) = Some t"
      using t by (simp add: store_delete_def store_get_def)
    then show ?thesis using w1 proc(4) by (simp add: cleanupTask_def)
  qed
qed (use t gone in \<open>auto simp: add_proc_def\<close>)

lemma step_keeps_removed:
  assumes "world_step lib ev w = Some w'"
  shows "set (w_removed w) \<subseteq> set (w_removed w')"
  using assms
proof (cases rule: world_step_cases)
  case (cancel k now)
  then show ?thesis by simp
next
  case (refresh parsed)
  then show ?thesis by (cases rule: refreshTick_cases [of parsed w]) auto
next
  case (proc i a w1 p')
  then show ?thesis using exec_removed [OF proc(3)] by (auto simp: cleanupTask_def)
qed (auto simp: cleanupExpiredTasks_def)

text \<open>
  The way of a task that the scheduler refuses, at the goroutine \<open>i\<close>: while it is under way the task is in
  the store with its directory or the directory is removed; when it is over the task is gone.
\<close>

definition rejecting :: "nat \<Rightarrow> string \<Rightarrow> string \<Rightarrow> world \<Rightarrow> bool" where
  "rejecting i tid dir w \<longleftrightarrow> store_ok w \<and> tid \<in> set (w_issued w) \<and> i < length (w_procs w) \<and> p_id (w_procs w ! i) = tid \<and>
     (p_pc (w_procs w ! i) \<in> {RejectCancel, RejectFinish, RejectClose, RejectCleanup} \<or>
      p_pc (w_procs w ! i) = Exited \<and> store_get (w_store w) tid = None) \<and>
     (case store_get (w_store w) tid of Some t \<Rightarrow> t_WorkDir t = dir | None \<Rightarrow> dir \<in> set (w_removed w))"

lemma rejecting_dir:
  assumes "store_ok w" "world_step lib ev w = Some w'" "trimSpace dir \<noteq> ''''" "tid \<in> set (w_issued w)"
    and "case store_get (w_store w) tid of Some t \<Rightarrow> t_WorkDir t = dir | None \<Rightarrow> dir \<in> set (w_removed w)"
  shows "(case store_get (w_store w') tid of Some t \<Rightarrow> t_WorkDir t = dir | None \<Rightarrow> dir \<in> set (w_removed w')) \<and>
    (store_get (w_store w) tid = None \<longrightarrow> store_get (w_store w') tid = None)"
proof -
  have l: "lifecycle w w'" using store_ok_step [OF assms(1,2)] by blast
  have from_old: "\<exists>t. store_get (w_store w) tid = Some t \<and> t_WorkDir t' = t_WorkDir t" if "store_get (w_store w') tid = Some t'" for t'
    using l assms(4) that unfolding lifecycle_def task_progress_def task_request_def by fastforce
  show ?thesis
  proof (cases "store_get (w_store w') tid")
    case None
    show ?thesis
    proof (cases "store_get (w_store w) tid")
      case (Some t)
      then show ?thesis using step_removes [OF assms(1,2) Some None] assms(3,5) None by (simp add: cleanupTaskWorkDir_def)
    qed (use None assms(5) step_keeps_removed [OF assms(2)] in auto)
  next
    case (Some t')
    then show ?thesis using from_old [OF Some] assms(5) by auto
  qed
qed

lemma rejecting_step:
  assumes r: "rejecting i tid dir w" and st: "world_step lib ev w = Some w'" and d: "trimSpace dir \<noteq> ''''"
  shows "rejecting i tid dir w'"
proof -
  let ?p = "w_procs w ! i"
  have ok: "store_ok w" "tid \<in> set (w_issued w)" "i < length (w_procs w)" "p_id ?p = tid" using r by (auto simp: rejecting_def)
  have dir: "(case store_get (w_store w') tid of Some t \<Rightarrow> t_WorkDir t = dir | None \<Rightarrow> dir \<in> set (w_removed w')) \<and>
      (store_get (w_store w) tid = None \<longrightarrow> store_get (w_store w') tid = None)"
    using rejecting_dir [OF ok(1) st d ok(2)] r by (simp add: rejecting_def)
  have ok': "store_ok w'" "tid \<in> set (w_issued w')"
    using store_ok_step [OF ok(1) st] ok(2) by (auto simp: lifecycle_def)
  show ?thesis
  proof (cases "\<exists>a. ev = Proc i a")
    case False
    then have "w_procs w' ! i = ?p \<and> i < length (w_procs w')" using other_events_keep [OF st ok(3)] by blast
    then show ?thesis using r dir ok' unfolding rejecting_def by auto
  next
    case True
    then obtain a where a: "ev = Proc i a" by blast
    obtain w1 p' where ex: "exec lib a w ?p = Some (w1, p')" and w': "w' = w1\<lparr>w_procs := (w_procs w)[i := p']\<rparr>"
      using st ok(3) by (auto simp: a world_step_def)
    have p': "p_id p' = tid" "w_procs w' ! i = p'" "i < length (w_procs w')"
      using exec_keeps [OF ex] ok(3,4) by (auto simp: w')
    have "p_pc ?p \<noteq> Exited" using ex by (auto simp: exec_def)
    then consider "p_pc ?p \<in> {RejectCancel, RejectFinish, RejectClose}" | "p_pc ?p = RejectCleanup"
      using r by (auto simp: rejecting_def)
    then show ?thesis
    proof cases
      case 1
      then have "p_pc p' \<in> {RejectFinish, RejectClose, RejectCleanup}"
        using ex by (auto simp: exec_def handler_cancel_def handler_finish_def reject_close_def split: action.splits)
      then show ?thesis using p' ok' dir unfolding rejecting_def by auto
    next
      case 2
      then have "w1 = cleanupTask tid w" "p_pc p' = Exited"
        using ex ok(4) by (auto simp: exec_def reject_cleanup_def split: action.splits)
      then have "store_get (w_store w') tid = None"
        using ok(1) by (simp add: w' cleanupTask_def store_get_delete store_ok_def)
      then show ?thesis using p' ok' dir \<open>p_pc p' = Exited\<close> unfolding rejecting_def by auto
    qed
  qed
qed

lemma rejecting_runs:
  "runs (world_step lib) evs w = Some w' \<Longrightarrow> rejecting i tid dir w \<Longrightarrow> trimSpace dir \<noteq> '''' \<Longrightarrow> rejecting i tid dir w'"
  by (induction evs arbitrary: w) (auto split: option.splits intro: rejecting_step)

lemma rejecting_gone:
  "rejecting i tid dir w \<Longrightarrow> p_pc (w_procs w ! i) = Exited \<Longrightarrow> store_get (w_store w) tid = None \<and> dir \<in> set (w_removed w)"
  by (auto simp: rejecting_def)

lemma rejecting_enabled:
  assumes "rejecting i tid dir w" "p_pc (w_procs w ! i) \<noteq> Exited"
  shows "world_step lib (Proc i (Run now)) w \<noteq> None"
  using assms by (auto simp: rejecting_def world_step_def exec_def handler_cancel_def handler_finish_def reject_close_def reject_cleanup_def)

lemma rejecting_start:
  assumes "store_ok w" "new_task t" "t_ID t \<notin> set (w_issued w)"
  shows "rejecting (length (w_procs w)) (t_ID t) (t_WorkDir t) (add_proc (new_proc True RejectCancel t (t_ID t)) (submit_task t w))"
proof -
  note s = store_ok_submit [OF assms]
  have i: "t_ID t \<in> set (w_issued (submit_task t w))" by (simp add: submit_task_def)
  from store_ok_add_proc [of "submit_task t w" RejectCancel "t_ID t" True t] s i
  have "store_ok (add_proc (new_proc True RejectCancel t (t_ID t)) (submit_task t w))" by simp
  moreover have "store_get (w_store (submit_task t w)) (t_ID t) = Some t"
    using assms(1) by (simp add: submit_task_def store_get_add store_ok_def)
  ultimately show ?thesis using i by (simp add: rejecting_def add_proc_def new_proc_def submit_task_def)
qed

end
