(* ===== verification/Build_Outcomes.thy ===== *)
theory Build_Outcomes
  imports Build_Lifecycle
begin

text \<open>
  What the daemon reports of a task's end: the end is observed once, the counters agree with the
  observations and with the stored status, a goroutine that is done leaves a terminal task, and the
  \<^verbatim>\<open>done\<close> channel is closed once.
\<close>

section \<open>The end of a task is observed once\<close>

abbreviation w_finished :: "world \<Rightarrow> build_finished list" where
  "w_finished w \<equiv> m_finished (w_metrics w)"

definition observed_once :: "world \<Rightarrow> bool" where
  "observed_once w \<longleftrightarrow> store_ok w \<and>
     distinct (map bf_id (w_finished w)) \<and>
     (\<forall>e \<in> set (w_finished w). bf_id e \<in> set (w_issued w) \<and> terminal (bf_result e) \<and>
        (\<forall>t. store_get (w_store w) (bf_id e) = Some t \<longrightarrow> t_observed t \<and> t_Status t = bf_result e)) \<and>
     (\<forall>tid t. store_get (w_store w) tid = Some t \<longrightarrow> t_observed t \<longrightarrow> tid \<in> bf_id ` set (w_finished w))"

definition counters_agree :: "world \<Rightarrow> bool" where
  "counters_agree w \<longleftrightarrow>
     m_succeeded (w_metrics w) = count_if (\<lambda>e. bf_result e = buildStatusSucceeded) (w_finished w) \<and>
     m_failed (w_metrics w) = count_if (\<lambda>e. bf_result e = buildStatusFailed) (w_finished w) \<and>
     m_canceled (w_metrics w) = count_if (\<lambda>e. bf_result e = buildStatusCanceled) (w_finished w)"

text \<open>A step either leaves the observations alone or it is a \<^verbatim>\<open>finishTask\<close> that applies.\<close>

lemma observeTerminal_finished:
  "m_finished (observeTerminal t err m) = m_finished m @
     [\<lparr>bf_id = t_ID t, bf_mode = (if t_Mode t = '''' then defaultBuildMode else t_Mode t),
       bf_result = t_Status t, bf_class = outcome err, bf_worker = t_BuildkitAddr t\<rparr>]"
  by (simp add: observeTerminal_def Let_def)

lemma observeTerminal_counters:
  "m_succeeded (observeTerminal t err m) = m_succeeded m"
  "m_failed (observeTerminal t err m) = m_failed m"
  "m_canceled (observeTerminal t err m) = m_canceled m + of_bool (t_Status t = buildStatusCanceled)"
  by (simp_all add: observeTerminal_def Let_def)

inductive finish_effect :: "world \<Rightarrow> world \<Rightarrow> bool" where
  quiet: "w_finished w' = w_finished w \<Longrightarrow> m_succeeded (w_metrics w') = m_succeeded (w_metrics w) \<Longrightarrow>
    m_failed (w_metrics w') = m_failed (w_metrics w) \<Longrightarrow> m_canceled (w_metrics w') = m_canceled (w_metrics w) \<Longrightarrow>
    (\<And>tid t t'. store_get (w_store w) tid = Some t \<Longrightarrow> store_get (w_store w') tid = Some t' \<Longrightarrow>
      t_observed t' = t_observed t) \<Longrightarrow> finish_effect w w'"
| finishes: "store_get (w_store w) tid = Some t \<Longrightarrow> finishable st t \<Longrightarrow> terminal st \<Longrightarrow>
    w_finished w' = w_finished (finishTask now tid st ex err w) \<Longrightarrow>
    m_succeeded (w_metrics w') = m_succeeded (w_metrics (finishTask now tid st ex err w)) \<Longrightarrow>
    m_failed (w_metrics w') = m_failed (w_metrics (finishTask now tid st ex err w)) \<Longrightarrow>
    m_canceled (w_metrics w') = m_canceled (w_metrics (finishTask now tid st ex err w)) \<Longrightarrow>
    w_store w' = w_store (finishTask now tid st ex err w) \<Longrightarrow> finish_effect w w'"

lemma finishTask_None: "store_get (w_store w) tid = None \<Longrightarrow> finishTask now tid st ex err w = w"
  by (simp add: finishTask_def)

lemma finishTask_refused: "store_get (w_store w) tid = Some t \<Longrightarrow> \<not> finishable st t \<Longrightarrow> finishTask now tid st ex err w = w"
  by (simp add: finishTask_def)

lemma finish_effect_finishTask:
  assumes "terminal st"
  shows "finish_effect w (finishTask now tid st ex err w)"
proof (cases "\<exists>t. store_get (w_store w) tid = Some t \<and> finishable st t")
  case True
  then show ?thesis using assms by (auto intro: finish_effect.finishes)
next
  case False
  then have "finishTask now tid st ex err w = w"
    by (cases "store_get (w_store w) tid") (auto simp: finishTask_None finishTask_refused)
  then show ?thesis by (auto intro: finish_effect.quiet)
qed

lemma finish_effect_procs: "finish_effect w (w'\<lparr>w_procs := ps\<rparr>) = finish_effect w w'"
  by (simp add: finish_effect.simps)

lemma observed_mark: "t_observed (markTaskQueued_upd now t) = t_observed t"
  by (simp add: markTaskQueued_upd_def Let_def)

lemma observed_assign: "t_observed (assign_upd now ad ip t) = t_observed t"
  by (simp add: assign_upd_def)

lemma observed_done: "t_observed (done_upd t) = t_observed t"
  by (simp add: done_upd_def)

lemma observed_cancel: "t_observed (cancel_upd now t) = t_observed t"
  by (simp add: cancel_upd_def)

lemmas observed_upds = observed_mark observed_assign observed_done observed_cancel

lemma store_update_observed:
  assumes "store_rep s" "\<And>t. t_observed (fn t) = t_observed t"
    and "store_get s tid = Some t" "store_get (fst (store_update k fn s)) tid = Some t'"
  shows "t_observed t' = t_observed t"
  using assms by (auto simp: store_get_update split: option.splits if_splits)

lemma finish_effect_same: "w_store w' = w_store w \<Longrightarrow> w_metrics w' = w_metrics w \<Longrightarrow> finish_effect w w'"
  by (rule finish_effect.quiet) simp_all

lemma finish_effect_update:
  assumes "store_rep (w_store w)" "\<And>t. t_observed (fn t) = t_observed t"
    and "w_store w' = fst (store_update k fn (w_store w))" "w_finished w' = w_finished w"
    and "m_succeeded (w_metrics w') = m_succeeded (w_metrics w)" "m_failed (w_metrics w') = m_failed (w_metrics w)"
    and "m_canceled (w_metrics w') = m_canceled (w_metrics w)"
  shows "finish_effect w w'"
  using assms by (intro finish_effect.quiet) (auto dest: store_update_observed)

lemma exec_finish_effect:
  assumes "exec lib a w p = Some (w', p')" "finish_ok (p_pc p)" "store_rep (w_store w)"
  shows "finish_effect w w'"
proof (cases "p_pc p")
  case (PickAddr qs slots)
  with assms show ?thesis
    by (cases qs) (auto simp: exec_def split: action.splits option.splits intro: finish_effect_same)
next
  case (Finish st ex err)
  with assms(1,2) show ?thesis by (auto simp: exec_defs finish_effect_finishTask split: exec_splits)
next
  case HandlerFinish
  with assms(1) show ?thesis by (auto simp: exec_defs finish_effect_finishTask split: exec_splits)
next
  case RejectFinish
  with assms(1) show ?thesis by (auto simp: exec_defs finish_effect_finishTask split: exec_splits)
next
  case RejectCleanup
  with assms(1,3) show ?thesis
    by (auto simp: exec_defs store_get_delete split: action.splits if_splits intro!: finish_effect.quiet)
next
  case RetryMark
  with assms(1,3) show ?thesis
    by (auto simp: exec_defs markTaskQueued_conv split: action.splits
        intro!: finish_effect_update [OF assms(3) observed_mark])
next
  case QueueMark
  with assms(1,3) show ?thesis
    by (auto simp: exec_defs markTaskQueued_conv split: action.splits
        intro!: finish_effect_update [OF assms(3) observed_mark])
next
  case (Assign q)
  with assms(1,3) show ?thesis
    by (auto simp: exec_defs split: action.splits if_splits
        intro!: finish_effect_update [OF assms(3) observed_assign])
next
  case Defer
  with assms(1,3) show ?thesis
    by (auto simp: exec_defs split: action.splits
        intro!: finish_effect_update [OF assms(3) observed_done])
next
  case (CheckBuilt q ex err)
  with assms(1) show ?thesis
    by (auto simp: exec_defs split: action.splits if_splits intro!: finish_effect.quiet)
next
  case (Building q)
  with assms(1) show ?thesis
    by (auto simp: exec_defs split: action.splits intro!: finish_effect.quiet)
qed (use assms(1) in \<open>auto simp: exec_defs split: exec_splits intro: finish_effect_same\<close>)

text \<open>\<^verbatim>\<open>finishTask\<close> where it applies.\<close>

lemma finishTask_applies:
  assumes "store_get (w_store w) tid = Some t" "finishable st t"
  shows "w_finished (finishTask now tid st ex err w) = w_finished w @
      [\<lparr>bf_id = t_ID t, bf_mode = (if t_Mode t = '''' then defaultBuildMode else t_Mode t),
        bf_result = st, bf_class = outcome err, bf_worker = t_BuildkitAddr t\<rparr>]"
    and "w_store (finishTask now tid st ex err w) = fst (store_update tid (finish_upd now st ex err) (w_store w))"
    and "m_succeeded (w_metrics (finishTask now tid st ex err w)) =
      m_succeeded (w_metrics w) + of_bool (st = buildStatusSucceeded)"
    and "m_failed (w_metrics (finishTask now tid st ex err w)) =
      m_failed (w_metrics w) + of_bool (st = buildStatusFailed)"
    and "m_canceled (w_metrics (finishTask now tid st ex err w)) =
      m_canceled (w_metrics w) + of_bool (st = buildStatusCanceled)"
proof -
  have f: "finish_upd now st ex err t = t\<lparr>t_Status := st, t_FinishedAt := Some now, t_ExporterResponse := ex,
      t_Error := (case err of None \<Rightarrow> t_Error t | Some e \<Rightarrow> err_text e), t_observed := True\<rparr>"
    using assms(2) by (simp add: finish_upd_def)
  note d = finishTask_def assms(1) Let_def
  show "w_finished (finishTask now tid st ex err w) = w_finished w @
      [\<lparr>bf_id = t_ID t, bf_mode = (if t_Mode t = '''' then defaultBuildMode else t_Mode t),
        bf_result = st, bf_class = outcome err, bf_worker = t_BuildkitAddr t\<rparr>]"
    using assms(2) by (simp add: d observeTerminal_finished f)
  show "w_store (finishTask now tid st ex err w) = fst (store_update tid (finish_upd now st ex err) (w_store w))"
    using assms(2) by (simp add: d)
  show "m_succeeded (w_metrics (finishTask now tid st ex err w)) =
      m_succeeded (w_metrics w) + of_bool (st = buildStatusSucceeded)"
    using assms(2) by (simp add: d observeTerminal_counters)
  show "m_failed (w_metrics (finishTask now tid st ex err w)) =
      m_failed (w_metrics w) + of_bool (st = buildStatusFailed)"
    using assms(2) by (simp add: d observeTerminal_counters)
  show "m_canceled (w_metrics (finishTask now tid st ex err w)) =
      m_canceled (w_metrics w) + of_bool (st = buildStatusCanceled)"
    using assms(2) by (simp add: d observeTerminal_counters f)
qed

lemma counters_agree_effect:
  assumes "finish_effect w w'" "counters_agree w"
  shows "counters_agree w'"
  using assms
proof (cases rule: finish_effect.cases)
  case (finishes tid t st now ex err)
  note ap = finishTask_applies [OF finishes(1,2), of now ex err]
  show ?thesis
    using assms(2) unfolding counters_agree_def finishes(4-7) ap by simp
qed (simp add: counters_agree_def)

lemma observed_once_quiet:
  assumes o: "observed_once w" and ok: "store_ok w'" and l: "lifecycle w w'"
    and fin: "w_finished w' = w_finished w"
    and new: "\<And>tid t'. store_get (w_store w') tid = Some t' \<Longrightarrow> tid \<notin> set (w_issued w) \<Longrightarrow> \<not> t_observed t'"
    and same: "\<And>tid t t'. store_get (w_store w) tid = Some t \<Longrightarrow> store_get (w_store w') tid = Some t' \<Longrightarrow>
      t_observed t' = t_observed t"
  shows "observed_once w'"
proof -
  have "bf_id e \<in> set (w_issued w') \<and> terminal (bf_result e) \<and>
      (\<forall>t. store_get (w_store w') (bf_id e) = Some t \<longrightarrow> t_observed t \<and> t_Status t = bf_result e)"
    if e: "e \<in> set (w_finished w)" for e
  proof -
    have i: "bf_id e \<in> set (w_issued w)" and te: "terminal (bf_result e)"
      and g: "\<And>t. store_get (w_store w) (bf_id e) = Some t \<Longrightarrow> t_observed t \<and> t_Status t = bf_result e"
      using o e by (auto simp: observed_once_def)
    have "t_observed t' \<and> t_Status t' = bf_result e" if t': "store_get (w_store w') (bf_id e) = Some t'" for t'
    proof -
      obtain t where "store_get (w_store w) (bf_id e) = Some t" "task_progress t t'"
        using l i t' unfolding lifecycle_def by blast
      with g te show ?thesis by (auto simp: task_progress_def)
    qed
    with i te l show ?thesis by (auto simp: lifecycle_def)
  qed
  moreover have "tid \<in> bf_id ` set (w_finished w)"
    if g: "store_get (w_store w') tid = Some t'" "t_observed t'" for tid t'
  proof -
    have "tid \<in> set (w_issued w)" using new [OF g(1)] g(2) by blast
    then obtain t where t: "store_get (w_store w) tid = Some t" using l g(1) unfolding lifecycle_def by blast
    with same [OF t g(1)] g(2) o show ?thesis by (simp add: observed_once_def)
  qed
  ultimately show ?thesis
    using o ok by (simp add: observed_once_def fin)
qed

lemma observed_once_finishes:
  assumes o: "observed_once w" and ok: "store_ok w'"
    and t: "store_get (w_store w) tid = Some t" "finishable st t" "terminal st"
    and fin: "w_finished w' = w_finished (finishTask now tid st ex err w)"
    and st: "w_store w' = w_store (finishTask now tid st ex err w)" and iss: "w_issued w' = w_issued w"
  shows "observed_once w'"
proof -
  note ap = finishTask_applies [OF t(1,2), of now ex err]
  have rep: "store_rep (w_store w)" and tid: "t_ID t = tid" "tid \<in> set (w_issued w)"
    using o t(1) by (auto simp: observed_once_def store_ok_def)
  have g: "store_get (w_store w') = (store_get (w_store w))(tid \<mapsto> finish_upd now st ex err t)"
    using t(1) by (simp add: st ap(2) store_get_update [OF rep])
  have obs: "t_observed (finish_upd now st ex err t)" "t_Status (finish_upd now st ex err t) = st"
    using t(2) by (simp_all add: finish_upd_def)
  have "\<not> t_observed t" using t(2) by (simp add: finishable_def)
  then have "tid \<notin> bf_id ` set (w_finished w)"
    using o t(1) by (fastforce simp: observed_once_def)
  then show ?thesis
    using o ok t(3) unfolding observed_once_def fin ap(1) g iss
    by (auto simp: tid obs split: if_splits)
qed

lemma observed_once_step:
  assumes "observed_once w" "world_step lib ev w = Some w'"
  shows "observed_once w'"
proof -
  have ok: "store_ok w" using assms(1) by (simp add: observed_once_def)
  then have rep: "store_rep (w_store w)" by (simp add: store_ok_def)
  have ok': "store_ok w'" and l: "lifecycle w w'" using store_ok_step [OF ok assms(2)] by auto
  note quiet = observed_once_quiet [OF assms(1) ok' l]
  have out: "store_get (w_store w) tid = None" if "tid \<notin> set (w_issued w)" for tid
    using ok that store_ok_task by (metis option.exhaust)
  show ?thesis using assms(2)
  proof (cases rule: world_step_cases)
    case (submit t)
    then show ?thesis using out
      by (intro quiet) (auto simp: store_get_add rep new_task_def split: if_splits)
  next
    case (reject t)
    then show ?thesis using out
      by (intro quiet) (auto simp: store_get_add rep new_task_def split: if_splits)
  next
    case (spawn tid)
    then show ?thesis using out by (intro quiet) auto
  next
    case (cancel tid now)
    then show ?thesis using out
      by (intro quiet) (auto simp: store_get_update rep observed_cancel split: option.splits if_splits)
  next
    case (ctx tid e)
    then show ?thesis using out by (intro quiet) auto
  next
    case (reap now ttl)
    then show ?thesis using out
      by (intro quiet) (auto simp: cleanupExpiredTasks_def store_get_deleteExpired rep split: option.splits if_splits)
  next
    case (refresh parsed)
    then show ?thesis using out
      by (intro quiet) (cases rule: refreshTick_cases [of parsed w], auto)+
  next
    case (proc i a w1 p')
    have fo: "finish_ok (p_pc (w_procs w ! i))" using ok proc(2) by (simp add: store_ok_def)
    have iss: "w_issued w' = w_issued w" using exec_keeps [OF proc(3)] proc(4) by simp
    have "finish_effect w w'"
      using exec_finish_effect [OF proc(3) fo rep] by (simp add: proc(4) finish_effect_procs)
    then show ?thesis
    proof (cases rule: finish_effect.cases)
      case quiet': quiet
      show ?thesis
        by (rule quiet) (use quiet' ok' iss in \<open>auto simp: store_ok_def\<close>)
    next
      case (finishes tid t st now ex err)
      then show ?thesis using observed_once_finishes [OF assms(1) ok'] iss by blast
    qed
  qed
qed

lemma counters_agree_step:
  assumes "observed_once w \<and> counters_agree w" "world_step lib ev w = Some w'"
  shows "observed_once w' \<and> counters_agree w'"
proof -
  have "observed_once w'" using observed_once_step assms by blast
  moreover have "counters_agree w'"
    using assms(2)
  proof (cases rule: world_step_cases)
    case (proc i a w1 p')
    have "store_rep (w_store w)" "finish_ok (p_pc (w_procs w ! i))"
      using assms(1) proc(2) by (auto simp: observed_once_def store_ok_def)
    then have "finish_effect w w'"
      using exec_finish_effect [OF proc(3)] by (simp add: proc(4) finish_effect_procs)
    then show ?thesis using counters_agree_effect assms(1) by blast
  next
    case (refresh parsed)
    then show ?thesis using assms(1)
      by (cases rule: refreshTick_cases [of parsed w]) (auto simp: counters_agree_def)
  qed (use assms(1) in \<open>auto simp: counters_agree_def cleanupExpiredTasks_def\<close>)
  ultimately show ?thesis ..
qed

lemma observed_once_start: "server_start w \<Longrightarrow> observed_once w \<and> counters_agree w"
  using store_ok_start [of w]
  by (auto simp: server_start_def observed_once_def counters_agree_def init_world_def zeroMetrics_def
      newTaskStore_def store_get_def)

interpretation observation: ts_invariant server_start "world_step lib" "\<lambda>w. observed_once w \<and> counters_agree w" for lib
  by unfold_locales (rule observed_once_start counters_agree_step; assumption)+

section \<open>A goroutine that is done leaves a terminal task\<close>

abbreviation over :: "world \<Rightarrow> string \<Rightarrow> bool" where
  "over w tid \<equiv> (\<forall>t. store_get (w_store w) tid = Some t \<longrightarrow> terminal (t_Status t))"

definition ended_terminal :: "world \<Rightarrow> bool" where
  "ended_terminal w \<longleftrightarrow> store_ok w \<and> (\<forall>p \<in> set (w_procs w). ended_pc (p_pc p) \<longrightarrow> over w (p_id p))"

lemma over_lifecycle: "lifecycle w w' \<Longrightarrow> tid \<in> set (w_issued w) \<Longrightarrow> over w tid \<Longrightarrow> over w' tid"
  unfolding lifecycle_def task_progress_def by metis

lemma over_finishTask:
  assumes "store_ok w" "terminal st"
  shows "over (finishTask now tid st ex err w) tid"
proof (cases "\<exists>t. store_get (w_store w) tid = Some t \<and> finishable st t")
  case True
  then obtain t where t: "store_get (w_store w) tid = Some t" "finishable st t" by blast
  then show ?thesis
    using assms finish_upd_terminal
    by (auto simp: finishTask_applies [OF t] store_ok_def store_get_update)
next
  case False
  then have "finishTask now tid st ex err w = w"
    by (cases "store_get (w_store w) tid") (auto simp: finishTask_None finishTask_refused)
  then show ?thesis
    using False assms by (auto simp: store_ok_def finishable_def task_ok_def)
qed

lemma exec_ended:
  assumes ex: "exec lib a w p = Some (w', p')" and ok: "store_ok w" and e: "ended_pc (p_pc p')"
    and old: "ended_pc (p_pc p) \<Longrightarrow> over w (p_id p)" and fo: "finish_ok (p_pc p)"
  shows "over w (p_id p) \<or> over w' (p_id p)"
proof (cases "p_pc p")
  case RunStart
  with ex e show ?thesis by (auto simp: exec_defs split: exec_splits)
next
  case (PickAddr qs slots)
  with ex e show ?thesis by (cases qs) (auto simp: exec_def split: action.splits option.splits if_splits)
next
  case (Finish st exp err)
  with ex fo show ?thesis by (auto simp: exec_defs over_finishTask [OF ok] split: exec_splits)
next
  case RejectFinish
  with ex have "\<exists>now. w' = finishTask now (p_id p) buildStatusCanceled [] (Some context_Canceled) w"
    by (auto simp: exec_defs split: action.splits)
  then show ?thesis using over_finishTask [OF ok] by (metis terminal.simps(5))
next
  case HandlerFinish
  with old show ?thesis by simp
qed (use ex e old in \<open>auto simp: exec_defs split: exec_splits\<close>)

text \<open>A step from the point of view of one goroutine: what it is afterwards, or that it is new.\<close>

lemma world_step_procs:
  assumes "world_step lib ev w = Some w'" "p \<in> set (w_procs w')"
  obtains (old) "p \<in> set (w_procs w)"
  | (moved) i a w1 where "ev = Proc i a" "i < length (w_procs w)" "exec lib a w (w_procs w ! i) = Some (w1, p)"
      "w' = w1\<lparr>w_procs := (w_procs w)[i := p]\<rparr>"
  | (start) t tid where "p = new_proc True RunStart t tid"
  | (reject) t where "p = new_proc True RejectCancel t (t_ID t)"
  | (handler) t now l tid where "p = new_proc False l (cancel_upd now t) (t_ID t)" "l = HandlerCancel \<or> l = HandlerFinish"
      "store_get (w_store w) tid = Some t" "ev = CancelRequest tid now"
  using assms(1)
proof (cases rule: world_step_cases)
  case (cancel tid now)
  then show thesis using assms(2) old handler
    by (cases rule: handleCancelBuild_cases [of tid now w]) auto
next
  case (refresh parsed)
  then show thesis using assms(2) old
    by (cases rule: refreshTick_cases [of parsed w]) auto
next
  case (proc i a w1 p')
  then show thesis using assms(2) old moved nth_update_mem [OF proc(2)] by fastforce
qed (use assms(2) old start reject in \<open>auto simp: cleanupExpiredTasks_def\<close>)

lemma ended_terminal_step:
  assumes e: "ended_terminal w" and st: "world_step lib ev w = Some w'"
  shows "ended_terminal w'"
proof -
  have ok: "store_ok w" using e by (simp add: ended_terminal_def)
  have ok': "store_ok w'" and l: "lifecycle w w'" using store_ok_step [OF ok st] by auto
  have "over w' (p_id p)" if p: "p \<in> set (w_procs w')" and en: "ended_pc (p_pc p)" for p
    using st p
  proof (cases rule: world_step_procs)
    case old
    then have "p_id p \<in> set (w_issued w)" "over w (p_id p)"
      using e en ok by (auto simp: ended_terminal_def store_ok_def)
    then show ?thesis using over_lifecycle [OF l] by blast
  next
    case (moved i a w1)
    let ?q = "w_procs w ! i"
    have q: "?q \<in> set (w_procs w)" using moved(2) by simp
    then have fo: "finish_ok (p_pc ?q)" and iss: "p_id ?q \<in> set (w_issued w)"
      and old: "ended_pc (p_pc ?q) \<Longrightarrow> over w (p_id ?q)"
      using e ok by (auto simp: ended_terminal_def store_ok_def)
    have id: "p_id p = p_id ?q" using exec_keeps [OF moved(3)] by simp
    from exec_ended [OF moved(3) ok en old fo] show ?thesis
    proof
      assume "over w (p_id ?q)"
      then show ?thesis unfolding id by (rule over_lifecycle [OF l iss])
    next
      assume "over w1 (p_id ?q)"
      then show ?thesis unfolding id by (simp add: moved(4))
    qed
  next
    case (handler t now k tid)
    have "t_ID t = tid" using store_ok_task [OF ok handler(3)] by simp
    moreover have "w_store w' = fst (store_update tid (cancel_upd now) (w_store w))"
      using st by (auto simp: handler(4) world_step_def)
    ultimately show ?thesis
      using handler(1,3) ok by (auto simp: new_proc_def store_ok_def store_get_update cancel_upd_def active_iff)
  qed (use en in \<open>auto simp: new_proc_def\<close>)
  with ok' show ?thesis by (simp add: ended_terminal_def)
qed

lemma ended_terminal_start: "server_start w \<Longrightarrow> ended_terminal w"
  using store_ok_start [of w] by (auto simp: ended_terminal_def server_start_def init_world_def)

interpretation ending: ts_invariant server_start "world_step lib" ended_terminal for lib
  by unfold_locales (rule ended_terminal_start ended_terminal_step; assumption)+

section \<open>The done channel\<close>

definition one_runner :: "world \<Rightarrow> bool" where
  "one_runner w \<longleftrightarrow>
     (\<forall>i < length (w_procs w). \<forall>j < length (w_procs w).
        p_runner (w_procs w ! i) \<longrightarrow> p_runner (w_procs w ! j) \<longrightarrow>
        p_id (w_procs w ! i) = p_id (w_procs w ! j) \<longrightarrow> i = j)"

text \<open>The two kinds of goroutines: the runner of a task, and a handler that cancels one.\<close>

definition kind_ok :: "proc \<Rightarrow> bool" where
  "kind_ok p \<longleftrightarrow> (if p_runner p then p_pc p \<notin> {HandlerCancel, HandlerFinish}
     else p_pc p \<in> {HandlerCancel, HandlerFinish, Exited})"

definition done_or_closed :: "world \<Rightarrow> bool" where
  "done_or_closed w \<longleftrightarrow> (\<forall>tid t. store_get (w_store w) tid = Some t \<longrightarrow> t_done t \<or> tid \<in> set (w_closed w))"

definition exit_closed :: "world \<Rightarrow> proc \<Rightarrow> bool" where
  "exit_closed w p \<longleftrightarrow> (p_runner p \<longrightarrow> p_pc p = Exited \<longrightarrow>
     store_get (w_store w) (p_id p) = None \<or> p_id p \<in> set (w_closed w))"

definition closed_by :: "world \<Rightarrow> string \<Rightarrow> bool" where
  "closed_by w tid \<longleftrightarrow> (\<exists>p \<in> set (w_procs w). runner_of tid p \<and> p_pc p \<in> {Exited, RejectCleanup})"

definition done_closed :: "world \<Rightarrow> bool" where
  "done_closed w \<longleftrightarrow> store_ok w \<and> one_runner w \<and> distinct (w_closed w) \<and> done_or_closed w \<and>
     (\<forall>p \<in> set (w_procs w). kind_ok p \<and> exit_closed w p) \<and> (\<forall>tid \<in> set (w_closed w). closed_by w tid)"

lemma one_runner_append:
  assumes "one_runner w" "w_procs w' = w_procs w @ [p]"
    and "p_runner p \<Longrightarrow> \<not> list_ex (runner_of (p_id p)) (w_procs w)"
  shows "one_runner w'"
proof -
  have "p_runner (w_procs w ! j) \<longrightarrow> p_id (w_procs w ! j) \<noteq> p_id p" if "p_runner p" "j < length (w_procs w)" for j
    using assms(3) [OF that(1)] nth_mem [OF that(2)] by (auto simp: list_ex_iff runner_of_def)
  then show ?thesis
    using assms(1,2) unfolding one_runner_def by (fastforce simp: nth_append less_Suc_eq)
qed

lemma one_runner_update:
  assumes "one_runner w" "i < length (w_procs w)" "w_procs w' = (w_procs w)[i := p']"
    and "p_id p' = p_id (w_procs w ! i)" "p_runner p' = p_runner (w_procs w ! i)"
  shows "one_runner w'"
  using assms unfolding one_runner_def by (auto simp: nth_list_update)

lemma done_mark: "t_done (markTaskQueued_upd now t) = t_done t"
  by (simp add: markTaskQueued_upd_def Let_def)

lemma done_assign: "t_done (assign_upd now ad ip t) = t_done t"
  by (simp add: assign_upd_def)

lemma done_finish: "t_done (finish_upd now st ex err t) = t_done t"
  by (simp add: finish_upd_def)

lemma done_cancel: "t_done (cancel_upd now t) = t_done t"
  by (simp add: cancel_upd_def)

lemma done_or_closed_update:
  assumes "store_rep (w_store w)" "done_or_closed w" "\<And>t. t_done (fn t) = t_done t"
    and "w_store w' = fst (store_update k fn (w_store w))" "w_closed w' = w_closed w"
  shows "done_or_closed w'"
  using assms by (fastforce simp: done_or_closed_def store_get_update split: option.splits)

lemma done_or_closed_same:
  "done_or_closed w \<Longrightarrow> w_store w' = w_store w \<Longrightarrow> set (w_closed w) \<subseteq> set (w_closed w') \<Longrightarrow> done_or_closed w'"
  by (auto simp: done_or_closed_def)

lemma done_or_closed_finishTask:
  assumes "store_rep (w_store w)" "done_or_closed w"
  shows "done_or_closed (finishTask now tid st ex err w)"
  using finishTask_store [of now tid st ex err w]
proof
  assume "w_store (finishTask now tid st ex err w) = w_store w"
  then show ?thesis using done_or_closed_same [OF assms(2)] by simp
next
  assume "w_store (finishTask now tid st ex err w) = fst (store_update tid (finish_upd now st ex err) (w_store w))"
  then show ?thesis using done_or_closed_update [OF assms done_finish] by simp
qed

lemma exec_done_or_closed:
  assumes ex: "exec lib a w p = Some (w', p')" and rep: "store_rep (w_store w)" and d: "done_or_closed w"
  shows "done_or_closed w'"
proof (cases "p_pc p")
  case (PickAddr qs slots)
  with ex have "w_store w' = w_store w \<and> w_closed w' = w_closed w"
    by (cases qs) (auto simp: exec_def split: action.splits option.splits)
  with d show ?thesis by (simp add: done_or_closed_def)
next
  case RetryMark
  with ex have "\<exists>now. w_store w' = fst (store_update (p_id p) (markTaskQueued_upd now) (w_store w)) \<and> w_closed w' = w_closed w"
    by (auto simp: exec_defs markTaskQueued_conv split: action.splits)
  then show ?thesis by (elim exE conjE) (rule done_or_closed_update [OF rep d done_mark])
next
  case QueueMark
  with ex have "\<exists>now. w_store w' = fst (store_update (p_id p) (markTaskQueued_upd now) (w_store w)) \<and> w_closed w' = w_closed w"
    by (auto simp: exec_defs markTaskQueued_conv split: action.splits)
  then show ?thesis by (elim exE conjE) (rule done_or_closed_update [OF rep d done_mark])
next
  case (Assign q)
  with ex show ?thesis
    by (auto simp: exec_defs split: action.splits if_splits
        intro!: done_or_closed_update [OF rep d done_assign])
next
  case (Finish st exp err)
  with ex show ?thesis using done_or_closed_finishTask [OF rep d] by (auto simp: exec_defs split: action.splits)
next
  case HandlerFinish
  with ex show ?thesis using done_or_closed_finishTask [OF rep d] by (auto simp: exec_defs split: action.splits)
next
  case RejectFinish
  with ex show ?thesis using done_or_closed_finishTask [OF rep d] by (auto simp: exec_defs split: action.splits)
next
  case Defer
  with ex d show ?thesis
    by (fastforce simp: exec_defs done_or_closed_def store_get_update [OF rep] done_upd_def
        split: action.splits option.splits if_splits)
next
  case RejectCleanup
  with ex d show ?thesis
    by (fastforce simp: exec_defs done_or_closed_def store_get_delete [OF rep] split: action.splits if_splits)
qed (use ex d in \<open>auto simp: exec_defs split: exec_splits intro: done_or_closed_same\<close>)

text \<open>Which steps close the channel, and what holds when the goroutine exits.\<close>

lemma exec_closes:
  assumes "exec lib a w p = Some (w', p')"
  shows "w_closed w' = w_closed w \<or>
    (w_closed w' = w_closed w @ [p_id p] \<and> p_pc p \<in> {Defer, RejectClose} \<and> p_pc p' \<in> {Exited, RejectCleanup} \<and>
     (p_pc p = Defer \<longrightarrow> (\<exists>t. store_get (w_store w) (p_id p) = Some t \<and> t_done t)))"
proof (cases "p_pc p")
  case (PickAddr qs slots)
  with assms show ?thesis by (cases qs) (auto simp: exec_def split: action.splits option.splits)
qed (use assms in \<open>auto simp: exec_defs markTaskQueued_conv split: exec_splits\<close>)

lemma exec_exits:
  assumes ex: "exec lib a w p = Some (w', p')" and rep: "store_rep (w_store w)" and d: "done_or_closed w"
    and e: "p_pc p' = Exited" "p_pc p \<noteq> HandlerFinish"
  shows "store_get (w_store w') (p_id p) = None \<or> p_id p \<in> set (w_closed w')"
proof (cases "p_pc p")
  case (PickAddr qs slots)
  with ex e show ?thesis by (cases qs) (auto simp: exec_def split: action.splits option.splits if_splits)
next
  case Defer
  with ex d show ?thesis
    by (fastforce simp: exec_defs done_or_closed_def store_get_update [OF rep] split: action.splits option.splits if_splits)
next
  case RejectCleanup
  with ex show ?thesis by (auto simp: exec_defs store_get_delete [OF rep] split: action.splits)
qed (use ex e in \<open>auto simp: exec_defs split: exec_splits\<close>)

lemma exec_kind:
  assumes "exec lib a w p = Some (w', p')" "kind_ok p"
  shows "kind_ok p'"
proof (cases "p_pc p")
  case (PickAddr qs slots)
  with assms exec_keeps [OF assms(1)] show ?thesis
    by (cases qs) (auto simp: exec_def kind_ok_def split: action.splits option.splits if_splits)
qed (use assms exec_keeps [OF assms(1)] in \<open>auto simp: exec_defs kind_ok_def split: exec_splits\<close>)

lemma exec_closed_pc:
  "exec lib a w p = Some (w', p') \<Longrightarrow> p_pc p \<in> {Exited, RejectCleanup} \<Longrightarrow> p_pc p' \<in> {Exited, RejectCleanup}"
  by (auto simp: exec_defs split: action.splits)

lemma closed_by_update:
  assumes "closed_by w tid" "i < length (w_procs w)" "exec lib a w (w_procs w ! i) = Some (w1, p')"
    and "w_procs w' = (w_procs w)[i := p']"
  shows "closed_by w' tid"
proof -
  obtain j where j: "j < length (w_procs w)" "runner_of tid (w_procs w ! j)" "p_pc (w_procs w ! j) \<in> {Exited, RejectCleanup}"
    using assms(1) by (auto simp: closed_by_def in_set_conv_nth)
  have "runner_of tid (w_procs w' ! j) \<and> p_pc (w_procs w' ! j) \<in> {Exited, RejectCleanup}"
    using j assms(2,4) exec_keeps [OF assms(3)] exec_closed_pc [OF assms(3)]
    by (cases "i = j") (auto simp: runner_of_def)
  moreover have "w_procs w' ! j \<in> set (w_procs w')" using j(1) assms(4) by simp
  ultimately show ?thesis unfolding closed_by_def by blast
qed

lemma exit_closed_stable:
  assumes "exit_closed w p" "p_id p \<in> set (w_issued w)" "lifecycle w w'" "set (w_closed w) \<subseteq> set (w_closed w')"
  shows "exit_closed w' p"
proof -
  have "store_get (w_store w') (p_id p) = None" if "store_get (w_store w) (p_id p) = None"
    using assms(2,3) that unfolding lifecycle_def by (metis option.distinct(1) option.exhaust)
  with assms(1,4) show ?thesis by (auto simp: exit_closed_def)
qed

lemma done_closed_exec:
  assumes dc: "done_closed w" and i: "i < length (w_procs w)"
    and ex: "exec lib a w (w_procs w ! i) = Some (w1, p')" and w': "w' = w1\<lparr>w_procs := (w_procs w)[i := p']\<rparr>"
    and ok': "store_ok w'" and l: "lifecycle w w'"
  shows "done_closed w'"
proof -
  let ?p = "w_procs w ! i"
  have p: "?p \<in> set (w_procs w)" using i by simp
  have ok: "store_ok w" and one: "one_runner w" and dis: "distinct (w_closed w)" and d: "done_or_closed w"
    and kind: "\<And>p. p \<in> set (w_procs w) \<Longrightarrow> kind_ok p" and ext: "\<And>p. p \<in> set (w_procs w) \<Longrightarrow> exit_closed w p"
    and who: "\<And>tid. tid \<in> set (w_closed w) \<Longrightarrow> closed_by w tid"
    using dc by (auto simp: done_closed_def)
  have rep: "store_rep (w_store w)" using ok by (simp add: store_ok_def)
  have k: "p_id p' = p_id ?p" "p_runner p' = p_runner ?p" using exec_keeps [OF ex] by auto
  have sub: "set (w_closed w) \<subseteq> set (w_closed w1)" using exec_closes [OF ex] by auto
  have new: "p_runner ?p \<and> p_id ?p \<notin> set (w_closed w)" if "p_pc ?p \<in> {Defer, RejectClose}"
  proof -
    have r: "p_runner ?p" using kind [OF p] that by (auto simp: kind_ok_def split: if_splits)
    have "j = i" if "j < length (w_procs w)" "runner_of (p_id ?p) (w_procs w ! j)" for j
      using that one i r by (auto simp: one_runner_def runner_of_def)
    then have "\<not> closed_by w (p_id ?p)"
      using that by (fastforce simp: closed_by_def in_set_conv_nth)
    then show ?thesis using r who by blast
  qed
  have "distinct (w_closed w')"
    using exec_closes [OF ex] dis new by (auto simp: w')
  moreover have "closed_by w' tid" if tid: "tid \<in> set (w_closed w')" for tid
  proof (cases "tid \<in> set (w_closed w)")
    case True
    then show ?thesis using closed_by_update [OF who i ex] by (simp add: w')
  next
    case False
    then have "tid = p_id ?p" "p_pc ?p \<in> {Defer, RejectClose}" "p_pc p' \<in> {Exited, RejectCleanup}"
      using exec_closes [OF ex] tid by (auto simp: w')
    then have "runner_of tid p' \<and> p_pc p' \<in> {Exited, RejectCleanup}" using new k by (simp add: runner_of_def)
    moreover have "p' \<in> set (w_procs w')" using i by (simp add: w' set_update_memI)
    ultimately show ?thesis unfolding closed_by_def by blast
  qed
  moreover have "kind_ok q \<and> exit_closed w' q" if "q \<in> set (w_procs w')" for q
  proof -
    have "q = p' \<or> q \<in> set (w_procs w)" using nth_update_mem [OF i] that by (simp add: w')
    then show ?thesis
    proof
      assume q: "q = p'"
      have "exit_closed w1 p'"
        using exec_exits [OF ex rep d] kind [OF p] k by (auto simp: exit_closed_def kind_ok_def split: if_splits)
      then show ?thesis using exec_kind [OF ex kind [OF p]] by (simp add: q w' exit_closed_def)
    next
      assume q: "q \<in> set (w_procs w)"
      then show ?thesis
        using kind exit_closed_stable [OF ext [OF q] _ l] ok sub by (simp add: w' store_ok_def)
    qed
  qed
  moreover have "done_or_closed w'"
    using exec_done_or_closed [OF ex rep d] by (simp add: w' done_or_closed_def)
  moreover have "one_runner w'" using one_runner_update [OF one i _ k, of w'] by (simp add: w')
  ultimately show ?thesis using ok' by (simp add: done_closed_def)
qed

lemma done_closed_append:
  assumes dc: "done_closed w" and ok': "store_ok w'" and l: "lifecycle w w'"
    and ps: "w_procs w' = w_procs w \<or>
      (\<exists>p. w_procs w' = w_procs w @ [p] \<and> kind_ok p \<and> p_pc p \<noteq> Exited \<and>
         (p_runner p \<longrightarrow> \<not> list_ex (runner_of (p_id p)) (w_procs w)))"
    and cl: "w_closed w' = w_closed w" and d: "done_or_closed w'"
  shows "done_closed w'"
proof -
  have ok: "store_ok w" using dc by (simp add: done_closed_def)
  have "one_runner w'"
    using ps dc one_runner_append [of w w'] by (auto simp: done_closed_def one_runner_def)
  moreover have "closed_by w' tid" if "tid \<in> set (w_closed w')" for tid
    using that dc ps cl by (auto simp: done_closed_def closed_by_def)
  moreover have "kind_ok p \<and> exit_closed w' p" if "p \<in> set (w_procs w')" for p
  proof (cases "p \<in> set (w_procs w)")
    case True
    then show ?thesis
      using dc ok l cl exit_closed_stable [of w p w'] by (auto simp: done_closed_def store_ok_def)
  next
    case False
    then show ?thesis using that ps by (auto simp: exit_closed_def)
  qed
  ultimately show ?thesis using dc ok' d cl by (simp add: done_closed_def)
qed

lemma done_closed_step:
  assumes dc: "done_closed w" and st: "world_step lib ev w = Some w'"
  shows "done_closed w'"
proof -
  have ok: "store_ok w" using dc by (simp add: done_closed_def)
  then have rep: "store_rep (w_store w)" by (simp add: store_ok_def)
  have ok': "store_ok w'" and l: "lifecycle w w'" using store_ok_step [OF ok st] by auto
  have d: "done_or_closed w" using dc by (simp add: done_closed_def)
  note app = done_closed_append [OF dc ok' l]
  show ?thesis using st
  proof (cases rule: world_step_cases)
    case (submit t)
    then show ?thesis using d
      by (intro app) (auto simp: done_or_closed_def store_get_add rep new_task_def)
  next
    case (reject t)
    moreover have "\<not> list_ex (runner_of (t_ID t)) (w_procs w)"
      using ok reject(3) by (auto simp: list_ex_iff runner_of_def store_ok_def)
    ultimately show ?thesis using d
      by (intro app) (auto simp: done_or_closed_def store_get_add rep new_task_def new_proc_def kind_ok_def)
  next
    case (spawn tid)
    then show ?thesis using d
      by (intro app) (auto simp: done_or_closed_def new_proc_def kind_ok_def)
  next
    case (cancel tid now)
    have "done_or_closed w'" using done_or_closed_update [OF rep d done_cancel] cancel by simp
    moreover have "w_procs w' = w_procs w \<or> (\<exists>p. w_procs w' = w_procs w @ [p] \<and> kind_ok p \<and> p_pc p \<noteq> Exited \<and>
        (p_runner p \<longrightarrow> \<not> list_ex (runner_of (p_id p)) (w_procs w)))"
      using cancel
      by (cases rule: handleCancelBuild_cases [of tid now w]) (auto simp: new_proc_def kind_ok_def)
    ultimately show ?thesis using cancel by (intro app) simp_all
  next
    case (ctx tid e)
    then show ?thesis using d by (intro app) (auto simp: done_or_closed_def)
  next
    case (reap now ttl)
    then show ?thesis using d
      by (intro app) (auto simp: done_or_closed_def cleanupExpiredTasks_def store_get_deleteExpired rep
          split: option.splits if_splits)
  next
    case (refresh parsed)
    then have "w_procs w' = w_procs w" "w_closed w' = w_closed w" "w_store w' = w_store w"
      by (cases rule: refreshTick_cases [of parsed w], auto)+
    then show ?thesis using d by (intro app) (auto simp: done_or_closed_def)
  next
    case (proc i a w1 p')
    then show ?thesis using done_closed_exec [OF dc] ok' l by blast
  qed
qed

lemma done_closed_start: "server_start w \<Longrightarrow> done_closed w"
  using store_ok_start [of w]
  by (auto simp: server_start_def done_closed_def init_world_def one_runner_def done_or_closed_def
      newTaskStore_def store_get_def)

interpretation done_channel: ts_invariant server_start "world_step lib" done_closed for lib
  by unfold_locales (rule done_closed_start done_closed_step; assumption)+

end
