(* ===== verification/Build_Progress.thy ===== *)
theory Build_Progress
  imports Build_Outcomes "HOL-Library.Infinite_Set"
begin

text \<open>
  Progress of the build machine: a worker that failed is not tried again within an attempt, every
  goroutine takes finitely many steps as long as the workers come from a finite set, the machine has
  no deadlock, and a canceled build is never blocked.
\<close>

section \<open>Local invariants of a goroutine\<close>

text \<open>Inside an attempt: from the loop head of \<^verbatim>\<open>runBuildStepAttempt\<close> to its return.\<close>

fun in_attempt :: "pc \<Rightarrow> bool" where
  "in_attempt RetryMark = True" | "in_attempt RetryWait = True"
| "in_attempt QueueMark = True" | "in_attempt AcquireGlobal = True" | "in_attempt AcquireAddr = True"
| "in_attempt (PickAddr qs slots) = True" | "in_attempt (WaitAddr slots) = True"
| "in_attempt (Assign q) = True" | "in_attempt (Building q) = True" | "in_attempt (ReleaseSlot q r) = True"
| "in_attempt (ReleaseGlobal r) = True" | "in_attempt (CheckBuilt q ex err) = True"
| "in_attempt RefreshAddrs = True" | "in_attempt (Returned ex err) = True"
| "in_attempt _ = False"

text \<open>
  The loop over the attempts counts in a 64-bit \<^verbatim>\<open>int\<close>: with the largest number as the number of retries
  its condition is always true and the counter wraps around. Below that number it does not wrap.
\<close>

definition retry_bounded :: "proc \<Rightarrow> bool" where
  "retry_bounded p \<longleftrightarrow> t_retry (p_snap p) < 2 ^ 63 - 1"

definition attempt_ok :: "proc \<Rightarrow> bool" where
  "attempt_ok p \<longleftrightarrow>
     (in_attempt (p_pc p) \<longrightarrow> p_steps p \<noteq> [] \<and> p_attempt p \<le> t_retry (p_snap p)) \<and>
     (\<forall>err. p_pc p = AttemptHead err \<longrightarrow> p_steps p \<noteq> []) \<and>
     (retry_bounded p \<longrightarrow> (in_attempt (p_pc p) \<or> (\<exists>err. p_pc p = AttemptHead err)) \<longrightarrow> 0 \<le> p_attempt p) \<and>
     (\<forall>slots. p_pc p = WaitAddr slots \<longrightarrow> slots \<noteq> [])"

lemma exec_attempt_ok:
  assumes "exec lib a w p = Some (w', p')" "attempt_ok p"
  shows "attempt_ok p'"
proof (cases "p_pc p")
  case (PickAddr qs slots)
  with assms show ?thesis
    by (cases qs) (auto simp: exec_def attempt_ok_def retry_bounded_def split: action.splits option.splits if_splits)
next
  case (Returned ex err)
  with assms show ?thesis
    by (auto simp: exec_defs attempt_ok_def retry_bounded_def wrap64_id split: action.splits option.splits if_splits)
qed (use assms in \<open>auto simp: exec_defs attempt_ok_def retry_bounded_def split: exec_splits\<close>)

text \<open>The slots that an attempt may still use belong to workers it has not excluded.\<close>

definition fresh_workers :: "world \<Rightarrow> proc \<Rightarrow> bool" where
  "fresh_workers w p \<longleftrightarrow> distinct (p_excluded p) \<and>
     pc_slots (p_pc p) \<subseteq> {q. q < length (w_heap w) \<and> slot_key (w_heap w) q \<notin> set (p_excluded p)}"

lemma slot_key_take: "tryAcquireAddrSlot heap q = Some heap' \<Longrightarrow> slot_key heap' r = slot_key heap r"
  by (simp add: tryAcquireAddrSlot_Some)

lemma slot_key_give: "releaseAddrSlot heap q = Some heap' \<Longrightarrow> slot_key heap' r = slot_key heap r"
  by (auto simp: releaseAddrSlot_Some)

lemma length_take_heap: "tryAcquireAddrSlot heap q = Some heap' \<Longrightarrow> length heap' = length heap"
  by (simp add: tryAcquireAddrSlot_Some)

lemma length_give_heap: "releaseAddrSlot heap q = Some heap' \<Longrightarrow> length heap' = length heap"
  by (auto simp: releaseAddrSlot_Some)

text \<open>The heap of slots only grows and a slot keeps its address.\<close>

definition heap_extends :: "addrSlot list \<Rightarrow> addrSlot list \<Rightarrow> bool" where
  "heap_extends h h' \<longleftrightarrow> length h \<le> length h' \<and> (\<forall>q < length h. slot_key h' q = slot_key h q)"

lemma heap_extends_replace: "heap_extends (ap_heap pool) (ap_heap (pool_replace pool addrs))"
  using pool_replace_heap [of pool addrs] by (auto simp: heap_extends_def nth_append)

lemma pool_effect_extends:
  assumes "pool_effect p pool p' pool'"
  shows "heap_extends (ap_heap pool) (ap_heap pool')"
  using assms
proof (cases rule: pool_effect.cases)
  case (replace addrs)
  then show ?thesis using heap_extends_replace by simp
qed (auto simp: heap_extends_def slot_key_take slot_key_give length_take_heap length_give_heap)

lemma exec_extends: "exec lib a w p = Some (w', p') \<Longrightarrow> heap_extends (w_heap w) (w_heap w')"
  by (rule pool_effect_extends [OF exec_pool_effect])

lemma world_step_extends:
  assumes "world_step lib ev w = Some w'"
  shows "heap_extends (w_heap w) (w_heap w')"
  using assms
proof (cases rule: world_step_cases)
  case (refresh parsed)
  then show ?thesis
    using heap_extends_replace [of "w_pool w"]
    by (cases rule: refreshTick_cases [of parsed w]) (auto simp: heap_extends_def)
next
  case (proc i a w1 p')
  then show ?thesis using exec_extends by simp
qed (auto simp: heap_extends_def cleanupExpiredTasks_def)

lemma fresh_workers_extends: "heap_extends (w_heap w) (w_heap w') \<Longrightarrow> fresh_workers w p \<Longrightarrow> fresh_workers w' p"
  by (fastforce simp: fresh_workers_def heap_extends_def)

lemma exec_fresh_workers:
  assumes ex: "exec lib a w p = Some (w', p')" and wf: "pool_wf (w_pool w)" and f: "fresh_workers w p"
  shows "fresh_workers w p'"
proof (cases "p_pc p")
  case AcquireAddr
  with ex obtain key ordered where o: "orderedAddrSlots (pool_snapshot (w_pool w)) key = Some ordered"
    and p': "p' = goto (PickAddr (filterExcludedAddrSlots (w_heap w) ordered (p_excluded p))
        (filterExcludedAddrSlots (w_heap w) ordered (p_excluded p))) p"
    by (auto simp: exec_defs split: action.splits)
  have "set ordered \<subseteq> {..<length (w_heap w)}"
    using orderedAddrSlots_subset [OF o] wf by (auto simp: pool_wf_def pool_snapshot_def)
  with f show ?thesis
    by (auto simp: p' fresh_workers_def set_filterExcluded)
next
  case (PickAddr qs slots)
  with ex f show ?thesis
    by (cases qs) (auto simp: exec_def fresh_workers_def split: action.splits option.splits if_splits)
qed (use ex f in \<open>auto simp: exec_defs fresh_workers_def split: exec_splits\<close>)

definition procs_ok :: "world \<Rightarrow> bool" where
  "procs_ok w \<longleftrightarrow> slots_counted w \<and> (\<forall>p \<in> set (w_procs w). attempt_ok p \<and> fresh_workers w p)"

lemma procs_ok_step:
  assumes ok: "procs_ok w" and st: "world_step lib ev w = Some w'"
  shows "procs_ok w'"
proof -
  have sc: "slots_counted w" using ok by (simp add: procs_ok_def)
  then have wf: "pool_wf (w_pool w)" by (simp add: slots_counted_def)
  have "attempt_ok p \<and> fresh_workers w' p" if p: "p \<in> set (w_procs w')" for p
    using st p
  proof (cases rule: world_step_procs)
    case old
    then show ?thesis using ok fresh_workers_extends [OF world_step_extends [OF st]] by (simp add: procs_ok_def)
  next
    case (moved i a w1)
    have "w_procs w ! i \<in> set (w_procs w)" using moved(2) by simp
    then have "attempt_ok p" "fresh_workers w p"
      using ok exec_attempt_ok [OF moved(3)] exec_fresh_workers [OF moved(3) wf] by (auto simp: procs_ok_def)
    then show ?thesis using fresh_workers_extends [OF world_step_extends [OF st]] by blast
  qed (auto simp: new_proc_def attempt_ok_def fresh_workers_def)
  then show ?thesis using slots_counted_step [OF sc st] by (simp add: procs_ok_def)
qed

lemma procs_ok_start: "server_start w \<Longrightarrow> procs_ok w"
  using slots_counted_start [of w] by (auto simp: procs_ok_def server_start_def init_world_def)

interpretation local_state: ts_invariant server_start "world_step lib" procs_ok for lib
  by unfold_locales (rule procs_ok_start procs_ok_step; assumption)+

section \<open>Which goroutines can move\<close>

definition enabled :: "reference_lib \<Rightarrow> world \<Rightarrow> proc \<Rightarrow> bool" where
  "enabled lib w p \<longleftrightarrow> (\<exists>a. exec lib a w p \<noteq> None)"

lemma enabledI: "exec lib a w p \<noteq> None \<Longrightarrow> enabled lib w p"
  unfolding enabled_def by blast

fun may_block :: "pc \<Rightarrow> bool" where
  "may_block AcquireGlobal = True" | "may_block AcquireAddr = True" | "may_block (WaitAddr slots) = True"
| "may_block (ReleaseSlot q r) = True" | "may_block (ReleaseGlobal r) = True" | "may_block Exited = True"
| "may_block _ = False"

lemma enabled_free:
  assumes "\<not> may_block (p_pc p)"
  shows "enabled lib w p"
proof (cases "p_pc p")
  case NextStep
  show ?thesis
  proof (cases "\<exists>step rest. p_steps p = step # rest \<and> bs_BaseImage step \<noteq> ''''")
    case True
    with NextStep have "exec lib (FsResult None None) w p \<noteq> None"
      by (auto simp: exec_defs split: sum.splits)
    then show ?thesis unfolding enabled_def by blast
  next
    case False
    with NextStep have "exec lib (Run 0) w p \<noteq> None" by (auto simp: exec_defs split: list.splits)
    then show ?thesis unfolding enabled_def by blast
  qed
next
  case RetryWait
  then have "exec lib (Run 0) w p \<noteq> None \<or> exec lib TimerFires w p \<noteq> None" by (simp add: exec_defs)
  then show ?thesis unfolding enabled_def by blast
next
  case (PickAddr qs slots)
  then have "exec lib (Run 0) w p \<noteq> None" by (cases qs) (auto simp: exec_def split: option.splits)
  then show ?thesis unfolding enabled_def by blast
next
  case (Building q)
  then have "exec lib (BuildReturns [] None) w p \<noteq> None" by (simp add: exec_defs)
  then show ?thesis unfolding enabled_def by blast
next
  case RefreshAddrs
  then have "exec lib (RefreshGives (Inl noBuildkitdAddrs)) w p \<noteq> None"
    by (simp add: exec_defs refreshBuildkitAddrs_def)
  then show ?thesis unfolding enabled_def by blast
qed (use assms in \<open>auto simp: exec_defs split: option.splits intro!: enabledI [where a = "Run 0"]\<close>)

lemma enabled_acquireAddr:
  assumes "p_pc p = AcquireAddr" "pool_wf (w_pool w)" "pool_ring_complete (w_pool w)"
  shows "enabled lib w p"
proof -
  obtain slots where "orderedAddrSlots (pool_snapshot (w_pool w)) (t_scheduleKey (p_snap p)) = Some slots"
    using orderedAddrSlots_pool [OF assms(2,3)] by blast
  then have "exec lib (Run 0) w p \<noteq> None" using assms(1) by (simp add: exec_defs)
  then show ?thesis unfolding enabled_def by blast
qed

lemma enabled_releaseSlot:
  assumes "slots_counted w" "p \<in> set (w_procs w)" "p_pc p = ReleaseSlot q r"
  shows "enabled lib w p"
proof -
  have "pc_slots (p_pc p) \<subseteq> {..<length (w_heap w)}" using assms(1,2) by (simp add: slots_counted_def)
  then have "q < length (w_heap w)" using assms(3) by simp
  then have "0 < sem_len (as_sem (w_heap w ! q))"
    using assms by (auto simp: slots_counted_def filter_empty_conv intro!: bexI [of _ p])
  then have "exec lib (Run 0) w p \<noteq> None"
    using assms(3) by (simp add: exec_defs releaseAddrSlot_def sem_recv_def)
  then show ?thesis unfolding enabled_def by blast
qed

lemma enabled_releaseGlobal:
  assumes "global_counted w" "p \<in> set (w_procs w)" "p_pc p = ReleaseGlobal r"
  shows "enabled lib w p"
proof (cases "w_global w")
  case None
  then have "exec lib (Run 0) w p \<noteq> None" using assms(3) by (simp add: exec_defs releaseGlobal_def)
  then show ?thesis unfolding enabled_def by blast
next
  case (Some s)
  have "holdsGlobal (p_pc p)" using assms(3) by simp
  then have "0 < sem_len s" using assms(1,2) Some by (auto simp: global_counted_def filter_empty_conv)
  then have "exec lib (Run 0) w p \<noteq> None"
    using assms(3) Some by (simp add: exec_defs releaseGlobal_def sem_recv_def)
  then show ?thesis unfolding enabled_def by blast
qed

text \<open>A goroutine that holds a worker slot can always move.\<close>

lemma enabled_holder:
  assumes "slots_counted w" "p \<in> set (w_procs w)" "heldSlot (p_pc p) = Some q"
  shows "enabled lib w p"
proof (cases "p_pc p")
  case (ReleaseSlot q' r)
  then show ?thesis using enabled_releaseSlot assms(1,2) by blast
qed (use assms(3) in \<open>auto intro!: enabled_free\<close>)

lemma waiter_or_holder:
  assumes sc: "slots_counted w" and p: "p \<in> set (w_procs w)" "p_pc p = WaitAddr slots" "slots \<noteq> []"
    and c: "0 < ap_concurrency (w_pool w)"
  shows "enabled lib w p \<or> (\<exists>p' \<in> set (w_procs w). heldSlot (p_pc p') \<noteq> None)"
proof -
  obtain q where q: "q \<in> set slots" using p(3) by (cases slots) auto
  have "pc_slots (p_pc p) \<subseteq> {..<length (w_heap w)}" using sc p(1) by (simp add: slots_counted_def)
  then have ql: "q < length (w_heap w)" using p(2) q by auto
  show ?thesis
  proof (cases "tryAcquireAddrSlot (w_heap w) q")
    case None
    then have "0 < sem_len (as_sem (w_heap w ! q))"
      using sc c ql nth_mem [OF ql] by (auto simp: slots_counted_def pool_wf_def tryAcquireAddrSlot_None)
    then have "0 < count_if (holdsSlot q) (w_procs w)" using sc ql by (simp add: slots_counted_def)
    then show ?thesis by (auto simp: filter_empty_conv)
  next
    case (Some h)
    then have "exec lib (SendSlot q) w p \<noteq> None" using p(2) q by (simp add: exec_defs)
    then show ?thesis unfolding enabled_def by blast
  qed
qed

text \<open>
  No deadlock: while some goroutine has not exited, some goroutine can move. A goroutine waits for a
  global slot only while another holds one, and for a worker only while another builds on it.
\<close>

text \<open>A goroutine with a global slot is not blocked, or another one with its worker's slot is not.\<close>

lemma global_holder_enabled:
  assumes ok: "procs_ok w" and g: "global_counted w" and r: "pool_ring_complete (w_pool w)"
    and c: "0 < ap_concurrency (w_pool w)" and q: "q \<in> set (w_procs w)" "holdsGlobal (p_pc q)"
  shows "\<exists>p' \<in> set (w_procs w). enabled lib w p'"
proof -
  have sc: "slots_counted w" and wf: "pool_wf (w_pool w)"
    using ok by (auto simp: procs_ok_def slots_counted_def)
  show ?thesis
  proof (cases "p_pc q")
    case (WaitAddr slots)
    then have "slots \<noteq> []" using ok q(1) by (auto simp: procs_ok_def attempt_ok_def)
    from waiter_or_holder [OF sc q(1) WaitAddr this c] show ?thesis
      using enabled_holder [OF sc] q(1) by blast
  next
    case AcquireAddr
    then show ?thesis using enabled_acquireAddr [OF _ wf r] q(1) by blast
  next
    case (ReleaseSlot x y)
    then show ?thesis using enabled_releaseSlot [OF sc] q(1) by blast
  next
    case (ReleaseGlobal x)
    then show ?thesis using enabled_releaseGlobal [OF g] q(1) by blast
  qed (use q in \<open>auto intro!: bexI [of _ q] enabled_free\<close>)
qed

lemma some_enabled:
  assumes ok: "procs_ok w" and g: "global_counted w" and r: "pool_ring_complete (w_pool w)"
    and c: "0 < ap_concurrency (w_pool w)" and p: "p \<in> set (w_procs w)" "p_pc p \<noteq> Exited"
  shows "\<exists>p' \<in> set (w_procs w). enabled lib w p'"
proof -
  note holders = global_holder_enabled [OF ok g r c]
  consider (waits) s where "w_global w = Some s" "p_pc p = AcquireGlobal" | (passes) "w_global w = None" "p_pc p = AcquireGlobal"
    | (holds) "holdsGlobal (p_pc p)" | (free) "\<not> may_block (p_pc p)"
    using p(2) by (cases "p_pc p"; cases "w_global w") auto
  then show ?thesis
  proof cases
    case waits
    show ?thesis
    proof (cases "sem_len s < sem_cap s")
      case True
      then have "exec lib SendGlobal w p \<noteq> None" using waits by (simp add: exec_defs sem_trySend_def)
      then show ?thesis using p(1) unfolding enabled_def by blast
    next
      case False
      then have "0 < count_if (\<lambda>p. holdsGlobal (p_pc p)) (w_procs w)"
        using g waits(1) by (auto simp: global_counted_def)
      then show ?thesis using holders by (auto simp: filter_empty_conv)
    qed
  next
    case passes
    then have "exec lib (Run 0) w p \<noteq> None" by (auto simp: exec_defs split: option.splits)
    then show ?thesis using p(1) unfolding enabled_def by blast
  next
    case holds
    then show ?thesis using holders p(1) by blast
  next
    case free
    then show ?thesis using enabled_free p(1) by blast
  qed
qed

text \<open>A goroutine whose context is done is never blocked.\<close>

lemma canceled_enabled:
  assumes ok: "procs_ok w" and g: "global_counted w" and r: "pool_ring_complete (w_pool w)"
    and p: "p \<in> set (w_procs w)" "p_pc p \<noteq> Exited" and ctx: "w_ctx w (p_id p) = Some e"
  shows "enabled lib w p"
proof -
  have sc: "slots_counted w" and wf: "pool_wf (w_pool w)"
    using ok by (auto simp: procs_ok_def slots_counted_def)
  show ?thesis
  proof (cases "p_pc p")
    case AcquireGlobal
    then have "exec lib (Run 0) w p \<noteq> None \<or> exec lib CtxDone w p \<noteq> None"
      using ctx by (auto simp: exec_defs split: option.splits)
    then show ?thesis unfolding enabled_def by blast
  next
    case (WaitAddr slots)
    then have "exec lib CtxDone w p \<noteq> None" using ctx by (simp add: exec_defs)
    then show ?thesis unfolding enabled_def by blast
  qed (use p enabled_acquireAddr [OF _ wf r] enabled_releaseSlot [OF sc p(1)] enabled_releaseGlobal [OF g p(1)] in
    \<open>auto intro!: enabled_free\<close>)
qed

section \<open>Every goroutine ends\<close>

fun stage :: "pc \<Rightarrow> nat" where
  "stage RunStart = 5" | "stage OpenLog = 4" | "stage (Finish st ex err) = 2" | "stage Defer = 1"
| "stage Exited = 0" | "stage HandlerCancel = 2" | "stage HandlerFinish = 1" | "stage RejectCancel = 4"
| "stage RejectFinish = 3" | "stage RejectClose = 2" | "stage RejectCleanup = 1" | "stage _ = 3"

fun phase :: "pc \<Rightarrow> nat" where
  "phase (AttemptHead err) = 4" | "phase RetryMark = 3" | "phase RetryWait = 2"
| "phase (Returned ex err) = 0" | "phase _ = 1"

fun position :: "pc \<Rightarrow> nat" where
  "position RefreshAddrs = 12" | "position QueueMark = 11" | "position AcquireGlobal = 10"
| "position AcquireAddr = 9" | "position (PickAddr qs slots) = 8" | "position (WaitAddr slots) = 7"
| "position (Assign q) = 6" | "position (Building q) = 5" | "position (ReleaseSlot q r) = 4"
| "position (ReleaseGlobal r) = 3" | "position (CheckBuilt q ex err) = 2" | "position _ = 0"

fun to_probe :: "pc \<Rightarrow> nat" where
  "to_probe (PickAddr qs slots) = length qs" | "to_probe _ = 0"

text \<open>
  The order in which a goroutine goes down, given the finite set \<open>A\<close> of the workers' addresses:
  stage of the task, steps left, attempts left, phase of the attempt, workers not yet excluded,
  position in the acquisition loop, slots left to probe.
\<close>

definition proc_order :: "string set \<Rightarrow> (proc \<times> proc) set" where
  "proc_order A = measures
     [\<lambda>p. stage (p_pc p),
      \<lambda>p. 2 * length (p_steps p) + (if p_pc p = NextStep then 1 else 0),
      \<lambda>p. nat (t_retry (p_snap p) + 2 - p_attempt p),
      \<lambda>p. phase (p_pc p),
      \<lambda>p. card (A - set (p_excluded p)),
      \<lambda>p. position (p_pc p),
      \<lambda>p. to_probe (p_pc p)]"

lemma wf_proc_order: "wf (proc_order A)"
  by (simp add: proc_order_def)

abbreviation heap_addrs :: "world \<Rightarrow> string set" where
  "heap_addrs w \<equiv> slot_key (w_heap w) ` {..<length (w_heap w)}"

lemma exec_descends:
  assumes ex: "exec lib a w p = Some (w', p')" and ok: "attempt_ok p" "retry_bounded p" and f: "fresh_workers w p"
    and A: "finite A" "heap_addrs w \<subseteq> A"
  shows "(p', p) \<in> proc_order A"
proof (cases "p_pc p")
  case (PickAddr qs slots)
  with ex show ?thesis
    by (cases qs) (auto simp: exec_def proc_order_def split: action.splits option.splits if_splits)
next
  case (CheckBuilt q exp err)
  have "q < length (w_heap w)" "slot_key (w_heap w) q \<notin> set (p_excluded p)"
    using f CheckBuilt by (auto simp: fresh_workers_def)
  then have "A - set (List.insert (slot_key (w_heap w) q) (p_excluded p)) \<subset> A - set (p_excluded p)"
    using A(2) by auto
  then have "card (A - set (List.insert (slot_key (w_heap w) q) (p_excluded p))) < card (A - set (p_excluded p))"
    using A(1) by (intro psubset_card_mono) auto
  with ex CheckBuilt show ?thesis
    by (auto simp: exec_defs proc_order_def simp del: set_insert split: action.splits if_splits)
next
  case (Returned exp err)
  then have "wrap64 (p_attempt p + 1) = p_attempt p + 1" "p_attempt p \<le> t_retry (p_snap p)" "p_steps p \<noteq> []"
    using ok by (auto simp: attempt_ok_def retry_bounded_def intro!: wrap64_id)
  with ex Returned show ?thesis
    by (cases "p_steps p") (auto simp: exec_defs proc_order_def split: action.splits option.splits if_splits)
next
  case (AttemptHead err)
  with ex ok show ?thesis
    by (cases "p_steps p") (auto simp: exec_defs proc_order_def attempt_ok_def split: action.splits option.splits if_splits)
qed (use ex in \<open>auto simp: exec_defs proc_order_def split: exec_splits\<close>)

lemma wf_finitely_often:
  fixes m :: "nat \<Rightarrow> 'a"
  assumes wf: "wf r" and down: "\<And>n. n \<in> S \<Longrightarrow> (m (Suc n), m n) \<in> r" and same: "\<And>n. n \<notin> S \<Longrightarrow> m (Suc n) = m n"
  shows "finite S"
proof (rule ccontr)
  assume inf: "infinite S"
  have le: "m (n + k) = m n \<or> (m (n + k), m n) \<in> r\<^sup>+" for n k
  proof (induction k)
    case (Suc k)
    then show ?case
      using down [of "n + k"] same [of "n + k"] by (cases "n + k \<in> S") (auto intro: trancl_into_trancl2)
  qed simp
  let ?g = "\<lambda>k. m (enumerate S k)"
  have "(?g (Suc k), ?g k) \<in> r\<^sup>+" for k
  proof -
    let ?n = "enumerate S k"
    have S: "?n \<in> S" by (rule enumerate_in_set [OF inf])
    have "Suc ?n \<le> enumerate S (Suc k)" using enumerate_step [OF inf, of k] by simp
    then obtain d where d: "enumerate S (Suc k) = Suc ?n + d" using le_Suc_ex by blast
    from le [of "Suc ?n" d] have "m (enumerate S (Suc k)) = m (Suc ?n) \<or> (m (enumerate S (Suc k)), m (Suc ?n)) \<in> r\<^sup>+"
      by (simp add: d)
    with down [OF S] show ?thesis by (auto intro: trancl_into_trancl)
  qed
  with wf_trancl [OF wf] show False by (meson wf_iff_no_infinite_down_chain)
qed

text \<open>
  Along an infinite run with addresses from a finite set, each goroutine whose number of retries is
  below the largest \<^verbatim>\<open>int\<close> takes finitely many steps.
\<close>

lemma goroutine_ends:
  assumes run: "\<And>n. world_step lib (ev n) (w n) = Some (w (Suc n))"
    and ok: "procs_ok (w 0)" and A: "finite A" "\<And>n. heap_addrs (w n) \<subseteq> A"
    and R: "\<And>n. i < length (w_procs (w n)) \<Longrightarrow> retry_bounded (w_procs (w n) ! i)"
  shows "finite {n. \<exists>a. ev n = Proc i a}"
proof (cases "\<exists>n. i < length (w_procs (w n))")
  case False
  have "ev n \<noteq> Proc i a" for n a
    using run [of n] False by (auto simp: world_step_def)
  then show ?thesis by simp
next
  case True
  then obtain n0 where n0: "i < length (w_procs (w n0))" ..
  have okn: "procs_ok (w n)" for n
    by (induction n) (use ok procs_ok_step [OF _ run] in auto)
  have keep: "i < length (w_procs (w (Suc n)))" if "i < length (w_procs (w n))" for n
    using run [of n]
  proof (cases rule: world_step_cases)
    case (proc j a w1 p')
    then show ?thesis using that by simp
  next
    case (cancel tid now)
    then show ?thesis using that
      by (cases rule: handleCancelBuild_cases [of tid now "w n"]) auto
  next
    case (refresh parsed)
    then show ?thesis using that by (cases rule: refreshTick_cases [of parsed "w n"]) auto
  qed (use that in \<open>auto simp: cleanupExpiredTasks_def\<close>)
  have len: "i < length (w_procs (w (n0 + k)))" for k
    by (induction k) (use n0 keep in auto)
  let ?S = "{k. \<exists>a. ev (n0 + k) = Proc i a}"
  have "finite ?S"
  proof (rule wf_finitely_often [OF wf_proc_order [of A], of _ "\<lambda>k. w_procs (w (n0 + k)) ! i"])
    fix k assume "k \<in> ?S"
    then obtain a where a: "ev (n0 + k) = Proc i a" by blast
    obtain w1 p' where ex: "exec lib a (w (n0 + k)) (w_procs (w (n0 + k)) ! i) = Some (w1, p')"
      and w': "w (Suc (n0 + k)) = w1\<lparr>w_procs := (w_procs (w (n0 + k)))[i := p']\<rparr>"
      using run [of "n0 + k"] len [of k] by (auto simp: a world_step_def)
    have "w_procs (w (n0 + k)) ! i \<in> set (w_procs (w (n0 + k)))" using len by simp
    then have "(p', w_procs (w (n0 + k)) ! i) \<in> proc_order A"
      using okn [of "n0 + k"] R [OF len [of k]] by (intro exec_descends [OF ex _ _ _ A(1) A(2)]) (auto simp: procs_ok_def)
    then show "(w_procs (w (n0 + Suc k)) ! i, w_procs (w (n0 + k)) ! i) \<in> proc_order A"
      using len [of k] by (simp add: w')
  next
    fix k assume "k \<notin> ?S"
    then show "w_procs (w (n0 + Suc k)) ! i = w_procs (w (n0 + k)) ! i"
      using other_events_keep [OF run [of "n0 + k"] len [of k]] by simp
  qed
  moreover have "{n. \<exists>a. ev n = Proc i a} \<subseteq> {..<n0} \<union> (+) n0 ` ?S"
  proof
    fix n assume n: "n \<in> {n. \<exists>a. ev n = Proc i a}"
    show "n \<in> {..<n0} \<union> (+) n0 ` ?S"
    proof (cases "n < n0")
      case False
      then obtain k where "n = n0 + k" using le_Suc_ex by (metis not_less)
      then show ?thesis using n by auto
    qed simp
  qed
  ultimately show ?thesis by (meson finite_UnI finite_imageI finite_lessThan finite_subset)
qed

end
