(* ===== verification/Build_Theorems.thy ===== *)
theory Build_Theorems
  imports Build_Progress
begin

text \<open>
  The properties of the build machine, and the concrete runs at which they are applied.
\<close>

section \<open>A concrete daemon\<close>

definition demoTask :: buildTask where
  "demoTask = zeroTask\<lparr>t_ID := ''b1'', t_Image := ''reg/app:1'', t_ImageType := ''oci'', t_CreatedAt := 1,
     t_scheduleKey := ''source:0'', t_contextDir := ''/work/b1/context'', t_done := True\<rparr>"

definition demoAddr :: buildkitAddr where
  "demoAddr = \<lparr>ba_original = ''10.0.0.1:9094'', ba_addr = ''tcp://10.0.0.1:9094'', ba_nodeIP = ''10.0.0.1''\<rparr>"

lemma ring_complete_single: "ring_complete (newConsistentHash 1 ringReplicas)"
  by (subst ring_complete_new_iff) (auto simp: ringReplicas_def intro: exI [of _ 0])

lemma getSlotOrder_single: "getSlotOrder (newConsistentHash (Suc 0) ringReplicas) key = Some [0]"
proof -
  note c = ring_complete_single
  obtain order where o: "getSlotOrder (newConsistentHash 1 ringReplicas) key = Some order"
    using ringrank.rank_total [OF c] by blast
  have "mset order = mset [0..<1]"
    using ringrank.rank_mset [OF c o] by (simp add: newConsistentHash_simps)
  then have "order = [0]" by simp
  with o show ?thesis by simp
qed

definition demoPool :: addrPool where
  "demoPool = newAddrPool [Some demoAddr] 1"

lemma demoPool_simps:
  "ap_concurrency demoPool = 1" "ap_slots demoPool = [0]"
  "ap_hash demoPool = Some (newConsistentHash (Suc 0) ringReplicas)"
  "ap_heap demoPool = [\<lparr>as_addr = demoAddr, as_sem = makeSem 1\<rparr>]"
  by (simp_all add: demoPool_def newAddrPool_def pool_replace_def existingSlots_def)

definition demoWorld :: world where
  "demoWorld = init_world 1 [demoAddr] 1"

lemma demoWorld_simps:
  "w_pool demoWorld = demoPool" "w_global demoWorld = Some (makeSem 1)" "w_store demoWorld = []"
  "w_ctx demoWorld = (\<lambda>_. None)" "w_procs demoWorld = []" "w_metrics demoWorld = zeroMetrics"
  "w_closed demoWorld = []" "w_solves demoWorld = []" "w_issued demoWorld = []"
  by (simp_all add: demoWorld_def init_world_def demoPool_def newGlobalSem_def newTaskStore_def)

lemma demoWorld_start: "server_start demoWorld"
  unfolding server_start_def demoWorld_def by blast

text \<open>The reference library is not called in the runs below.\<close>

definition noLib :: reference_lib where
  "noLib = \<lparr>ParseNormalizedNamed = (\<lambda>_. Inl (Errorf ''unused'')), digest_Parse = (\<lambda>_. Inl (Errorf ''unused'')),
     WithDigest = (\<lambda>_ _. Inl (Errorf ''unused'')), FamiliarString = (\<lambda>_. '''')\<rparr>"

text \<open>One build up to the solve, and to its end.\<close>

definition demoToBuilding :: "event list" where
  "demoToBuilding = [Submit demoTask, Spawn ''b1''] @ map (Proc 0)
     [Run 2, Run 3, Run 4, Run 5, Run 6, SendGlobal, Run 7, Run 8, Run 9]"

definition demoToEnd :: "event list" where
  "demoToEnd = map (Proc 0) [BuildReturns [(''containerimage.digest'', ''sha256:0'')] None, Run 10, Run 11, Run 12,
     Run 13, Run 14, Run 15, Run 16]"

definition demoBuilding :: world where
  "demoBuilding = the (runs (world_step noLib) demoToBuilding demoWorld)"

lemma demo_steps:
  "buildStepsForImageType ''reg/app:1'' ''oci'' =
     [\<lparr>bs_Image = ''reg/app:1'', bs_Format = ''oci'', bs_BaseImage = [], bs_ContextDir = []\<rparr>]"
  by code_simp

lemmas demo_eval = demoToBuilding_def demoToEnd_def world_step_def demoWorld_simps demoPool_simps exec_defs
  new_task_def demoTask_def zeroTask_def submit_task_def store_add_def add_proc_def new_proc_def
  store_get_def store_update_def demo_steps buildImageOf_def markTaskQueued_def update_task_def
  markTaskQueued_upd_def makeSem_def sem_trySend_def sem_recv_def orderedAddrSlots_def
  pool_snapshot_def getSlotOrder_single filterExcludedAddrSlots_def tryAcquireAddrSlot_def
  releaseAddrSlot_def setSem_def set_heap_def assign_upd_def assignable_def finishTask_def
  finish_upd_def finishable_def done_upd_def close_done_def releaseGlobal_def observeTerminal_def
  observeQueue_def observeAttempt_def

lemma demoBuilding_ex:
  "\<exists>w. runs (world_step noLib) demoToBuilding demoWorld = Some w \<and>
     length (w_heap w) = 1 \<and> w_global w = Some \<lparr>sem_len = 1, sem_cap = 1\<rparr> \<and>
     length (w_procs w) = 1 \<and> p_pc (w_procs w ! 0) = Building 0 \<and> p_id (w_procs w ! 0) = ''b1'' \<and>
     w_pool w = demoPool\<lparr>ap_heap := [\<lparr>as_addr = demoAddr, as_sem = \<lparr>sem_len = 1, sem_cap = 1\<rparr>\<rparr>]\<rparr> \<and>
     t_retry (p_snap (w_procs w ! 0)) = 0"
  by (simp add: demo_eval)

lemma demoEnd_ex:
  "\<exists>w. runs (world_step noLib) (demoToBuilding @ demoToEnd) demoWorld = Some w \<and>
     length (w_procs w) = 1 \<and> p_pc (w_procs w ! 0) = Exited \<and> p_runner (w_procs w ! 0) \<and>
     p_id (w_procs w ! 0) = ''b1'' \<and>
     map_option t_Status (store_get (w_store w) ''b1'') = Some buildStatusSucceeded"
  by (simp add: demo_eval)

lemma demoBuilding_run: "runs (world_step noLib) demoToBuilding demoWorld = Some demoBuilding"
  using demoBuilding_ex unfolding demoBuilding_def by auto

lemma demoBuilding_reachable: "reachable noLib demoBuilding"
  by (rule runs_reach [OF demoBuilding_run reach_init [of server_start, OF demoWorld_start]])

lemma demoBuilding_all:
  "length (w_heap demoBuilding) = 1 \<and> w_global demoBuilding = Some \<lparr>sem_len = 1, sem_cap = 1\<rparr> \<and>
   length (w_procs demoBuilding) = 1 \<and> p_pc (w_procs demoBuilding ! 0) = Building 0 \<and>
   p_id (w_procs demoBuilding ! 0) = ''b1'' \<and> w_pool demoBuilding =
     demoPool\<lparr>ap_heap := [\<lparr>as_addr = demoAddr, as_sem = \<lparr>sem_len = 1, sem_cap = 1\<rparr>\<rparr>]\<rparr>"
  using demoBuilding_ex demoBuilding_run by auto

lemma demoBuilding_retry: "t_retry (p_snap (w_procs demoBuilding ! 0)) = 0"
  using demoBuilding_ex demoBuilding_run by auto

definition demoEnd :: world where
  "demoEnd = the (runs (world_step noLib) demoToEnd demoBuilding)"

lemma demoEnd_run: "runs (world_step noLib) demoToEnd demoBuilding = Some demoEnd"
  using demoEnd_ex demoBuilding_run by (auto simp: runs_append demoEnd_def)

lemma demoEnd_reachable: "reachable noLib demoEnd"
  by (rule runs_reach [OF demoEnd_run demoBuilding_reachable])

lemma demoEnd_all:
  "length (w_procs demoEnd) = 1 \<and> p_pc (w_procs demoEnd ! 0) = Exited \<and> p_runner (w_procs demoEnd ! 0) \<and>
   p_id (w_procs demoEnd ! 0) = ''b1'' \<and>
   map_option t_Status (store_get (w_store demoEnd) ''b1'') = Some buildStatusSucceeded"
  using demoEnd_ex demoBuilding_run demoEnd_run by (auto simp: runs_append)

lemma demoEnd_status: "\<exists>t. store_get (w_store demoEnd) ''b1'' = Some t \<and> t_Status t = buildStatusSucceeded"
  using demoEnd_all by auto

section \<open>Slots\<close>

text \<open>
  C1. Exact accounting of worker slots. In every reachable state of the daemon, under every
  interleaving of builds, cancellations, reaping and address refreshes, the semaphore of a worker
  slot counts exactly the goroutines that hold the slot, and never more than the configured
  concurrency.
\<close>

theorem worker_slots_exact:
  assumes "reachable lib w" "q < length (w_heap w)"
  shows "sem_len (as_sem (w_heap w ! q)) = count_if (holdsSlot q) (w_procs w) \<and>
    count_if (holdsSlot q) (w_procs w) \<le> ap_concurrency (w_pool w)"
proof -
  have sc: "slots_counted w" by (rule slot_accounting.reach_inv [OF assms(1)])
  then have c: "sem_len (as_sem (w_heap w ! q)) = count_if (holdsSlot q) (w_procs w)"
    using assms(2) by (simp add: slots_counted_def)
  have "sem_len (as_sem (w_heap w ! q)) \<le> ap_concurrency (w_pool w)"
    using sc nth_mem [OF assms(2)] by (auto simp: slots_counted_def pool_wf_def sem_ok_def)
  with c show ?thesis by simp
qed

theorem worker_slots_exact_witness:
  "sem_len (as_sem (w_heap demoBuilding ! 0)) = count_if (holdsSlot 0) (w_procs demoBuilding) \<and>
   count_if (holdsSlot 0) (w_procs demoBuilding) \<le> ap_concurrency (w_pool demoBuilding)"
  by (rule worker_slots_exact [OF demoBuilding_reachable]) (simp add: demoBuilding_all)

text \<open>
  C2. The global concurrency limit. With a global limit configured, the goroutines that are between
  the acquisition and the release of a global slot are exactly as many as its semaphore says, and
  builds running at the same time never exceed the limit.
\<close>

theorem global_slots_exact:
  assumes "reachable lib w" "w_global w = Some s"
  shows "sem_len s = count_if (\<lambda>p. holdsGlobal (p_pc p)) (w_procs w) \<and>
    count_if (\<lambda>p. \<exists>q. p_pc p = Building q) (w_procs w) \<le> sem_cap s"
proof -
  have g: "sem_len s = count_if (\<lambda>p. holdsGlobal (p_pc p)) (w_procs w)" "sem_len s \<le> sem_cap s"
    using global_accounting.reach_inv [OF assms(1)] assms(2) by (auto simp: global_counted_def sem_ok_def)
  have "count_if (\<lambda>p. \<exists>q. p_pc p = Building q) ps \<le> count_if (\<lambda>p. holdsGlobal (p_pc p)) ps" for ps
    by (rule count_if_mono) auto
  with g show ?thesis by (metis order_trans)
qed

theorem global_slots_exact_witness:
  "sem_len \<lparr>sem_len = 1, sem_cap = 1\<rparr> = count_if (\<lambda>p. holdsGlobal (p_pc p)) (w_procs demoBuilding) \<and>
   count_if (\<lambda>p. \<exists>q. p_pc p = Building q) (w_procs demoBuilding) \<le> sem_cap \<lparr>sem_len = 1, sem_cap = 1\<rparr>"
  by (rule global_slots_exact [OF demoBuilding_reachable]) (simp add: demoBuilding_all)

section \<open>The life of a task\<close>

text \<open>
  C3. Terminal states are final. From any reachable state, after any further sequence of steps, a
  task that was succeeded, failed or canceled still has that status or has been removed from the
  store.
\<close>

theorem terminal_forever:
  assumes "reachable lib w" "runs (world_step lib) evs w = Some w'"
    and "store_get (w_store w) tid = Some t" "terminal (t_Status t)"
  shows "case store_get (w_store w') tid of None \<Rightarrow> True | Some t' \<Rightarrow> t_Status t' = t_Status t"
proof -
  have ok: "store_ok w" by (rule life.reach_inv [OF assms(1)])
  have "lifecycle w w'" by (rule life.runs_rel [OF ok assms(2)])
  moreover have "tid \<in> set (w_issued w)" using store_ok_task [OF ok assms(3)] by simp
  ultimately show ?thesis
    using assms(3,4) by (fastforce simp: lifecycle_def task_progress_def split: option.splits)
qed

theorem terminal_forever_witness:
  "\<exists>w'. runs (world_step noLib) [CancelRequest ''b1'' 20] demoEnd = Some w' \<and>
     (case store_get (w_store w') ''b1'' of None \<Rightarrow> True | Some t' \<Rightarrow> t_Status t' = buildStatusSucceeded)"
proof -
  obtain t where t: "store_get (w_store demoEnd) ''b1'' = Some t" "t_Status t = buildStatusSucceeded"
    using demoEnd_status by blast
  have r: "runs (world_step noLib) [CancelRequest ''b1'' 20] demoEnd = Some (handleCancelBuild ''b1'' 20 demoEnd)"
    by (simp add: world_step_def)
  have "terminal (t_Status t)" using t(2) by simp
  from terminal_forever [OF demoEnd_reachable r t(1) this] r show ?thesis unfolding t(2) by (intro exI conjI)
qed

text \<open>
  C4. The end of a task is observed once. In every reachable state each task has at most one
  \<^verbatim>\<open>build_finished\<close> event, a stored task is marked as observed exactly when its event is there and
  then the event's result is its status, and the counters of succeeded, failed and canceled builds
  are the numbers of events with that result.
\<close>

theorem observed_exactly_once:
  assumes "reachable lib w"
  shows "distinct (map bf_id (w_finished w)) \<and>
    (\<forall>tid t. store_get (w_store w) tid = Some t \<longrightarrow>
       t_observed t = (\<exists>e \<in> set (w_finished w). bf_id e = tid \<and> bf_result e = t_Status t)) \<and>
    m_succeeded (w_metrics w) = count_if (\<lambda>e. bf_result e = buildStatusSucceeded) (w_finished w) \<and>
    m_failed (w_metrics w) = count_if (\<lambda>e. bf_result e = buildStatusFailed) (w_finished w) \<and>
    m_canceled (w_metrics w) = count_if (\<lambda>e. bf_result e = buildStatusCanceled) (w_finished w)"
proof -
  note inv = observation.reach_inv [OF assms, unfolded observed_once_def counters_agree_def]
  have "t_observed t = (\<exists>e \<in> set (w_finished w). bf_id e = tid \<and> bf_result e = t_Status t)"
    if "store_get (w_store w) tid = Some t" for tid t
    using inv that by (metis imageE)
  with inv show ?thesis by simp
qed

theorem observed_exactly_once_witness:
  "distinct (map bf_id (w_finished demoEnd)) \<and>
    (\<exists>t. store_get (w_store demoEnd) ''b1'' = Some t \<and>
       t_observed t = (\<exists>e \<in> set (w_finished demoEnd). bf_id e = ''b1'' \<and> bf_result e = t_Status t)) \<and>
    m_succeeded (w_metrics demoEnd) = count_if (\<lambda>e. bf_result e = buildStatusSucceeded) (w_finished demoEnd) \<and>
    m_failed (w_metrics demoEnd) = count_if (\<lambda>e. bf_result e = buildStatusFailed) (w_finished demoEnd) \<and>
    m_canceled (w_metrics demoEnd) = count_if (\<lambda>e. bf_result e = buildStatusCanceled) (w_finished demoEnd)"
  using observed_exactly_once [OF demoEnd_reachable] demoEnd_status by blast

text \<open>
  C5. When the goroutine that runs a task has returned, the task is in a terminal state and its
  \<^verbatim>\<open>done\<close> channel is closed, or the task has been removed; no channel is closed twice.
\<close>

theorem runner_exit:
  assumes "reachable lib w" "p \<in> set (w_procs w)" "p_runner p" "p_pc p = Exited"
  shows "(case store_get (w_store w) (p_id p) of
      None \<Rightarrow> True | Some t \<Rightarrow> terminal (t_Status t) \<and> p_id p \<in> set (w_closed w)) \<and> distinct (w_closed w)"
  using ending.reach_inv [OF assms(1)] done_channel.reach_inv [OF assms(1)] assms(2-)
  by (auto simp: ended_terminal_def done_closed_def exit_closed_def split: option.splits)

theorem runner_exit_witness:
  "(case store_get (w_store demoEnd) (p_id (w_procs demoEnd ! 0)) of
      None \<Rightarrow> True | Some t \<Rightarrow> terminal (t_Status t) \<and> p_id (w_procs demoEnd ! 0) \<in> set (w_closed demoEnd)) \<and>
   distinct (w_closed demoEnd)"
  by (rule runner_exit [OF demoEnd_reachable]) (simp_all add: demoEnd_all)

section \<open>Solves\<close>

text \<open>The solves started for a task.\<close>

definition solves_of :: "string \<Rightarrow> world \<Rightarrow> buildRunRequest list" where
  "solves_of tid w = map snd (filter (\<lambda>(i, r). i = tid) (w_solves w))"

lemma exec_solves:
  assumes "exec lib a w p = Some (w', p')" "w_solves w' \<noteq> w_solves w"
  shows "\<exists>q now t. p_pc p = Assign q \<and> a = Run now \<and> store_get (w_store w) (p_id p) = Some t \<and> assignable t \<and>
    w_solves w' = w_solves w @ [(p_id p, solveRequest (p_snap p) (hd (p_steps p)) (slot_key (w_heap w) q))] \<and>
    w_store w' = fst (store_update (p_id p) (assign_upd now (slot_key (w_heap w) q) (ba_nodeIP (as_addr (w_heap w ! q)))) (w_store w))"
proof (cases "p_pc p")
  case (PickAddr qs slots)
  with assms show ?thesis by (cases qs) (auto simp: exec_def split: action.splits option.splits)
next
  case (Assign q)
  with assms show ?thesis
    by (cases "store_get (w_store w) (p_id p)") (auto simp: exec_defs split: action.splits if_splits)
qed (use assms in \<open>auto simp: exec_defs markTaskQueued_conv split: exec_splits\<close>)

lemma world_step_solves:
  assumes "world_step lib ev w = Some w'" "w_solves w' \<noteq> w_solves w"
  obtains i a w1 p' where "ev = Proc i a" "i < length (w_procs w)" "exec lib a w (w_procs w ! i) = Some (w1, p')"
    "w' = w1\<lparr>w_procs := (w_procs w)[i := p']\<rparr>" "w_solves w1 \<noteq> w_solves w"
  using assms(1)
proof (cases rule: world_step_cases)
  case (refresh parsed)
  then show thesis using assms(2) by (cases rule: refreshTick_cases [of parsed w]) auto
next
  case (proc i a w1 p')
  then show thesis using assms(2) that by auto
qed (use assms(2) in \<open>auto simp: cleanupExpiredTasks_def\<close>)

definition no_more_solves :: "world \<Rightarrow> world \<Rightarrow> bool" where
  "no_more_solves w w' \<longleftrightarrow> lifecycle w w' \<and>
     (\<forall>tid \<in> set (w_issued w). over w tid \<longrightarrow> solves_of tid w' = solves_of tid w)"

lemma no_more_solves_step:
  assumes ok: "store_ok w" and st: "world_step lib ev w = Some w'"
  shows "no_more_solves w w'"
proof -
  have "solves_of tid w' = solves_of tid w" if tid: "over w tid" for tid
  proof (cases "w_solves w' = w_solves w")
    case False
    then obtain i a w1 p' where s: "exec lib a w (w_procs w ! i) = Some (w1, p')"
      "w' = w1\<lparr>w_procs := (w_procs w)[i := p']\<rparr>" "w_solves w1 \<noteq> w_solves w"
      using world_step_solves [OF st] by metis
    from exec_solves [OF s(1,3)] obtain t r where
      t: "store_get (w_store w) (p_id (w_procs w ! i)) = Some t" "assignable t"
      and r: "w_solves w1 = w_solves w @ [(p_id (w_procs w ! i), r)]" by blast
    have "\<not> terminal (t_Status t)"
      using t(2) store_ok_task [OF ok t(1)] by (auto simp: assignable_def task_ok_def)
    then have "tid \<noteq> p_id (w_procs w ! i)" using tid t(1) by auto
    with r s(2) show ?thesis by (simp add: solves_of_def)
  qed (simp add: solves_of_def)
  then show ?thesis using store_ok_step [OF ok st] by (simp add: no_more_solves_def)
qed

lemma no_more_solves_refl: "no_more_solves w w"
  by (simp add: no_more_solves_def lifecycle_refl)

lemma no_more_solves_trans:
  assumes uv: "no_more_solves u v" and vw: "no_more_solves v w"
  shows "no_more_solves u w"
proof -
  have l: "lifecycle u v" "lifecycle v w" using uv vw by (simp_all add: no_more_solves_def)
  have "solves_of tid w = solves_of tid u" if tid: "tid \<in> set (w_issued u)" and o: "over u tid" for tid
  proof -
    have "tid \<in> set (w_issued v)" using l(1) tid by (auto simp: lifecycle_def)
    moreover have "over v tid" by (rule over_lifecycle [OF l(1) tid o])
    ultimately have "solves_of tid w = solves_of tid v" using vw unfolding no_more_solves_def by blast
    also have "\<dots> = solves_of tid u" using uv tid o unfolding no_more_solves_def by blast
    finally show ?thesis .
  qed
  with lifecycle_trans [OF l] show ?thesis unfolding no_more_solves_def by blast
qed

interpretation solves: ts_history server_start "world_step lib" store_ok no_more_solves for lib
  by unfold_locales (rule no_more_solves_refl no_more_solves_step no_more_solves_trans; assumption?)+



text \<open>
  A solve starts only for a live task and on a worker that the attempt has not excluded, within
  the retries the task allows; the task is then shown as running on that worker.
\<close>

theorem solve_starts:
  assumes "reachable lib w" "world_step lib ev w = Some w'" "w_solves w' \<noteq> w_solves w"
  shows "\<exists>p \<in> set (w_procs w). \<exists>q t t'. p_pc p = Assign q \<and> slot_key (w_heap w) q \<notin> set (p_excluded p) \<and>
    (retry_bounded p \<longrightarrow> 0 \<le> p_attempt p) \<and> p_attempt p \<le> t_retry (p_snap p) \<and>
    w_solves w' = w_solves w @ [(p_id p, solveRequest (p_snap p) (hd (p_steps p)) (slot_key (w_heap w) q))] \<and>
    store_get (w_store w) (p_id p) = Some t \<and> \<not> terminal (t_Status t) \<and>
    store_get (w_store w') (p_id p) = Some t' \<and> t_Status t' = buildStatusRunning \<and>
    t_BuildkitAddr t' = slot_key (w_heap w) q"
proof -
  have ok: "store_ok w" by (rule life.reach_inv [OF assms(1)])
  have po: "procs_ok w" by (rule local_state.reach_inv [OF assms(1)])
  obtain i a w1 p' where s: "i < length (w_procs w)" "exec lib a w (w_procs w ! i) = Some (w1, p')"
    "w' = w1\<lparr>w_procs := (w_procs w)[i := p']\<rparr>" "w_solves w1 \<noteq> w_solves w"
    using world_step_solves [OF assms(2,3)] by metis
  let ?p = "w_procs w ! i"
  have p: "?p \<in> set (w_procs w)" using s(1) by simp
  from exec_solves [OF s(2,4)] obtain q now t where e: "p_pc ?p = Assign q"
    "store_get (w_store w) (p_id ?p) = Some t" "assignable t"
    "w_solves w1 = w_solves w @ [(p_id ?p, solveRequest (p_snap ?p) (hd (p_steps ?p)) (slot_key (w_heap w) q))]"
    "w_store w1 = fst (store_update (p_id ?p) (assign_upd now (slot_key (w_heap w) q)
       (ba_nodeIP (as_addr (w_heap w ! q)))) (w_store w))" by blast
  have "\<not> terminal (t_Status t)"
    using e(3) store_ok_task [OF ok e(2)] by (auto simp: assignable_def task_ok_def)
  moreover have "slot_key (w_heap w) q \<notin> set (p_excluded ?p)" "retry_bounded ?p \<longrightarrow> 0 \<le> p_attempt ?p" "p_attempt ?p \<le> t_retry (p_snap ?p)"
    using po p e(1) by (auto simp: procs_ok_def attempt_ok_def fresh_workers_def)
  moreover have "store_get (w_store w') (p_id ?p) = Some (assign_upd now (slot_key (w_heap w) q)
       (ba_nodeIP (as_addr (w_heap w ! q))) t)"
    using e(2) ok by (simp add: s(3) e(5) store_get_update store_ok_def)
  ultimately show ?thesis
    using e p s(3) by (intro bexI [OF _ p] exI [of _ q] exI [of _ t] exI) (auto simp: assign_upd_def)
qed

definition demoAssign :: world where
  "demoAssign = the (runs (world_step noLib) (butlast demoToBuilding) demoWorld)"

lemma demoAssign_ex:
  "\<exists>w w'. runs (world_step noLib) (butlast demoToBuilding) demoWorld = Some w \<and>
     world_step noLib (Proc 0 (Run 9)) w = Some w' \<and> w_solves w' \<noteq> w_solves w"
  by (simp add: demo_eval)

theorem solve_starts_witness:
  "\<exists>p \<in> set (w_procs demoAssign). \<exists>q. p_pc p = Assign q \<and> slot_key (w_heap demoAssign) q \<notin> set (p_excluded p) \<and>
     p_attempt p \<le> t_retry (p_snap p)"
proof -
  obtain w w' where r: "runs (world_step noLib) (butlast demoToBuilding) demoWorld = Some w"
    and s: "world_step noLib (Proc 0 (Run 9)) w = Some w'" "w_solves w' \<noteq> w_solves w"
    using demoAssign_ex by blast
  have "reachable noLib w" by (rule runs_reach [OF r reach_init [of server_start, OF demoWorld_start]])
  from solve_starts [OF this s] show ?thesis using r by (auto simp: demoAssign_def)
qed

section \<open>Progress\<close>


lemma demoPool_ring: "pool_ring_complete (demoPool\<lparr>ap_heap := h\<rparr>)"
  using ring_complete_single by (simp add: pool_ring_complete_def demoPool_simps)


text \<open>
  Cancellation always unblocks. A goroutine whose context is done (the build was canceled, its
  deadline passed, or the synchronous client went away) can take a step of its own in every reachable
  state, without waiting for another build to give up a slot.
\<close>

lemma canceled_not_blocked:
  assumes "reachable lib w" "pool_ring_complete (w_pool w)"
    and "i < length (w_procs w)" "p_pc (w_procs w ! i) \<noteq> Exited" "w_ctx w (p_id (w_procs w ! i)) \<noteq> None"
  shows "\<exists>a. world_step lib (Proc i a) w \<noteq> None"
proof -
  obtain e where "w_ctx w (p_id (w_procs w ! i)) = Some e" using assms(5) by blast
  then have "enabled lib w (w_procs w ! i)"
    using canceled_enabled [OF local_state.reach_inv [OF assms(1)] global_accounting.reach_inv [OF assms(1)] assms(2)]
      assms(3,4) by simp
  then show ?thesis using assms(3) by (auto simp: enabled_def world_step_def)
qed

definition demoDeadline :: world where
  "demoDeadline = cancel_ctx ''b1'' context_DeadlineExceeded demoBuilding"

lemma canceled_not_blocked_witness: "\<exists>a. world_step noLib (Proc 0 a) demoDeadline \<noteq> None"
proof -
  have "w_procs demoBuilding ! 0 \<in> set (w_procs demoBuilding)" using demoBuilding_all by simp
  then have "p_id (w_procs demoBuilding ! 0) \<in> set (w_issued demoBuilding)"
    using life.reach_inv [OF demoBuilding_reachable] unfolding store_ok_def by blast
  then have "world_step noLib (CtxEnds ''b1'' context_DeadlineExceeded) demoBuilding = Some demoDeadline"
    using demoBuilding_all by (simp add: world_step_def demoDeadline_def)
  then have r: "reachable noLib demoDeadline" by (rule reach_step [OF demoBuilding_reachable])
  have s: "w_pool demoDeadline = w_pool demoBuilding" "w_procs demoDeadline = w_procs demoBuilding"
    by (simp_all add: demoDeadline_def)
  have "w_ctx demoDeadline ''b1'' \<noteq> None" by (simp add: demoDeadline_def cancel_ctx_def)
  then show ?thesis
    using demoBuilding_all by (intro canceled_not_blocked [OF r]) (simp_all add: s demoPool_ring)
qed


text \<open>A run in which the build returns and the daemon then only refreshes its addresses.\<close>

definition demoReturned :: world where
  "demoReturned = the (world_step noLib (Proc 0 (BuildReturns [] None)) demoBuilding)"

definition demoEvents :: "nat \<Rightarrow> event" where
  "demoEvents n = (if n = 0 then Proc 0 (BuildReturns [] None) else Refresh (Inl noBuildkitdAddrs))"


end
