(* ===== verification/Work_Dirs.thy ===== *)
theory Work_Dirs
  imports Build_Theorems
begin

text \<open>
  The work directories of the daemon's tasks, \<^verbatim>\<open>tasks.go\<close>: the reaper deletes the tasks whose keep time
  is over and removes their directories. The build machine has the deletion as its event \<^const>\<open>Reap\<close>; here
  is what it removes from the disk, in every reachable state.
\<close>

definition reapExpired :: "time \<Rightarrow> duration \<Rightarrow> world \<Rightarrow> world \<times> string list" where
  "reapExpired now keepTTL w = (let (store, expired) = deleteExpired now keepTTL (w_store w);
       dirs = concat (map (\<lambda>task. cleanupTaskWorkDir (Some task)) expired)
     in (w\<lparr>w_store := store, w_removed := w_removed w @ dirs\<rparr>, dirs))"

text \<open>A turn of the goroutine of \<^verbatim>\<open>startTaskReaper\<close>: the end of its context, or a tick.\<close>

definition taskReaperTurn :: "bool \<Rightarrow> time \<Rightarrow> duration \<Rightarrow> world \<Rightarrow> (world \<times> string list) option" where
  "taskReaperTurn canceled now keepTTL w = (if canceled then None else Some (reapExpired now keepTTL w))"

lemma reapExpired_machine: "fst (reapExpired now keepTTL w) = cleanupExpiredTasks now keepTTL w"
  by (simp add: reapExpired_def cleanupExpiredTasks_def Let_def split: prod.split)

lemma deleteExpired_set:
  assumes "store_rep s"
  shows "t \<in> set (snd (deleteExpired now ttl s)) \<longleftrightarrow> (\<exists>tid. store_get s tid = Some t \<and> task_expired now ttl t)"
  using assms by (force simp: deleteExpired_def store_get_def store_rep_def)

section \<open>Claims\<close>

text \<open>
  C19. The reaper removes the right directories. In every reachable state, where the tasks of the store have
  different work directories, a tick removes exactly the directories of the tasks that have ended (succeeded,
  failed or canceled) and whose keep time is over; it leaves the directory of every task that
  stays in the store, and every queued or running task stays.
\<close>

theorem reaper_exact:
  assumes "reachable lib w"
    and "\<And>tid t tid' t'. store_get (w_store w) tid = Some t \<Longrightarrow> store_get (w_store w) tid' = Some t' \<Longrightarrow> t_WorkDir t = t_WorkDir t' \<Longrightarrow> tid = tid'"
    and "reapExpired now keepTTL w = (w', dirs)"
  shows "set dirs = {t_WorkDir t |t. (\<exists>tid. store_get (w_store w) tid = Some t) \<and> terminal (t_Status t) \<and>
      the (t_FinishedAt t) + keepTTL \<le> now \<and> trimSpace (t_WorkDir t) \<noteq> ''''} \<and>
    (\<forall>tid t. store_get (w_store w') tid = Some t \<longrightarrow> t_WorkDir t \<notin> set dirs) \<and>
    (\<forall>tid t. store_get (w_store w) tid = Some t \<and> \<not> terminal (t_Status t) \<longrightarrow> store_get (w_store w') tid = Some t)"
proof -
  have ok: "store_rep (w_store w)" "\<And>tid t. store_get (w_store w) tid = Some t \<Longrightarrow> task_ok t"
    using life.reach_inv [OF assms(1)] by (auto simp: store_ok_def)
  have w': "w_store w' = fst (deleteExpired now keepTTL (w_store w))" "dirs = concat (map (\<lambda>task. cleanupTaskWorkDir (Some task)) (snd (deleteExpired now keepTTL (w_store w))))"
    using assms(3) by (auto simp: reapExpired_def Let_def split: prod.split_asm)
  have ended: "task_expired now keepTTL t \<longleftrightarrow> terminal (t_Status t) \<and> the (t_FinishedAt t) + keepTTL \<le> now" if "store_get (w_store w) tid = Some t" for tid t
    using ok(2) [OF that] by (auto simp: task_ok_def task_expired_def split: option.split)
  have dirs: "d \<in> set dirs \<longleftrightarrow> (\<exists>tid t. store_get (w_store w) tid = Some t \<and> task_expired now keepTTL t \<and> d = t_WorkDir t \<and> trimSpace d \<noteq> '''')" for d
  proof -
    have "d \<in> set dirs \<longleftrightarrow> (\<exists>t \<in> set (snd (deleteExpired now keepTTL (w_store w))). d = t_WorkDir t \<and> trimSpace d \<noteq> [])"
      unfolding w'(2) by (auto simp: cleanupTaskWorkDir_def)
    then show ?thesis using deleteExpired_set [OF ok(1)] by blast
  qed
  have stays: "store_get (w_store w') tid = Some t \<longleftrightarrow> store_get (w_store w) tid = Some t \<and> \<not> task_expired now keepTTL t" for tid t
    unfolding w'(1) store_get_deleteExpired [OF ok(1)] by (auto split: option.splits)
  show ?thesis
  proof (intro conjI allI impI)
    show "set dirs = {t_WorkDir t |t. (\<exists>tid. store_get (w_store w) tid = Some t) \<and> terminal (t_Status t) \<and>
      the (t_FinishedAt t) + keepTTL \<le> now \<and> trimSpace (t_WorkDir t) \<noteq> ''''}"
      unfolding set_eq_iff dirs mem_Collect_eq using ended by blast
    show "t_WorkDir t \<notin> set dirs" if "store_get (w_store w') tid = Some t" for tid t
      using that assms(2) unfolding dirs stays by (metis option.inject)
    show "store_get (w_store w') tid = Some t" if "store_get (w_store w) tid = Some t \<and> \<not> terminal (t_Status t)" for tid t
      using that ended unfolding stays by blast
  qed
qed

definition demoCanceled :: "world option" where
  "demoCanceled = runs (world_step noLib) [Submit (demoTask\<lparr>t_WorkDir := ''/work/b1''\<rparr>), CancelRequest ''b1'' 20] demoWorld"

lemma demo_canceled:
  "\<exists>w t. demoCanceled = Some w \<and> w_store w = [(''b1'', t)] \<and> t_WorkDir t = ''/work/b1'' \<and> t_Status t = buildStatusCanceled \<and> t_FinishedAt t = Some 20"
  by (simp add: demoCanceled_def demo_eval handleCancelBuild_def store_cancel_def cancel_upd_def)

theorem reaper_exact_witness:
  "\<exists>w. demoCanceled = Some w \<and> set (snd (reapExpired 30 5 w)) = {''/work/b1''}"
proof -
  obtain w t where w: "demoCanceled = Some w" "w_store w = [(''b1'', t)]" "t_WorkDir t = ''/work/b1''" "t_Status t = buildStatusCanceled" "t_FinishedAt t = Some 20"
    using demo_canceled by blast
  have r: "reachable noLib w"
    using runs_reach [OF _ reach_init [of server_start, OF demoWorld_start]] w(1) unfolding demoCanceled_def by blast
  have one: "store_get (w_store w) tid = Some t' \<longleftrightarrow> tid = ''b1'' \<and> t' = t" for tid t' using w(2) by (auto simp: store_get_def)
  have inj: "\<And>tid t tid' t'. store_get (w_store w) tid = Some t \<Longrightarrow> store_get (w_store w) tid' = Some t' \<Longrightarrow> t_WorkDir t = t_WorkDir t' \<Longrightarrow> tid = tid'"
    using one by simp
  obtain w' dirs where rp: "reapExpired 30 5 w = (w', dirs)" by fastforce
  have "set (snd (reapExpired 30 5 w)) = {t_WorkDir t' |t'. (\<exists>tid. store_get (w_store w) tid = Some t') \<and> terminal (t_Status t') \<and>
      the (t_FinishedAt t') + 5 \<le> 30 \<and> trimSpace (t_WorkDir t') \<noteq> []}"
    using conjunct1 [OF reaper_exact [OF r inj rp]] unfolding rp snd_conv .
  also have "\<dots> = {''/work/b1''}"
  proof -
    have "trimSpace ''/work/b1'' \<noteq> []" by code_simp
    then show ?thesis using w unfolding one by auto
  qed
  finally show ?thesis using w(1) by blast
qed

end
