(* ===== verification/Mode_Scheduler.thy ===== *)
theory Mode_Scheduler
  imports Build_Machine
begin

text \<open>
  \<^verbatim>\<open>internal/builddaemon/mode_scheduler.go\<close>: the build modes of the configuration, the queue of each
  mode and the workers that run its tasks.

  The JSON text of the modes enters as the outcome of its decoding (\<open>modes_json\<close>): the decoder's
  error, or the decoded map, in some order, with whether further data follows it. The sum of the
  concurrencies is a 64-bit \<^verbatim>\<open>int\<close>. A worker blocked in \<^verbatim>\<open>cond.Wait\<close> is a worker whose pop step
  is not enabled: \<^verbatim>\<open>pop\<close> tests its condition again after every wake-up, so which waiter a signal
  wakes does not matter.
\<close>

section \<open>Modes\<close>

record buildModeConfig =
  mc_Concurrency :: int
  mc_RoutingEnabled :: bool

record buildModes =
  bm_defaultMode :: string
  bm_configs :: "(string \<times> buildModeConfig) list"
  bm_explicit :: bool

datatype modes_json =
    DecodeError go_error
  | Decoded "(string \<times> buildModeConfig) list" bool

definition modeNameChar :: "char \<Rightarrow> bool" where
  "modeNameChar c = (let n = (of_char c :: nat) in
     97 \<le> n \<and> n \<le> 122 \<or> 65 \<le> n \<and> n \<le> 90 \<or> 48 \<le> n \<and> n \<le> 57 \<or> c = CHR ''_'' \<or> c = CHR ''-'')"

definition validBuildModeName :: "string \<Rightarrow> bool" where
  "validBuildModeName name \<longleftrightarrow> name \<noteq> '''' \<and> list_all modeNameChar name"

text \<open>The loop over the decoded modes: the total, or the first error.\<close>

fun checkModes :: "int \<Rightarrow> (string \<times> buildModeConfig) list \<Rightarrow> int result" where
  "checkModes acc [] = Inr acc"
| "checkModes acc ((name, cfg) # rest) =
     (if \<not> validBuildModeName name then
        Inl (Errorf (''build mode '' @ quoteStr name @ '' must contain only letters, digits, underscores, or hyphens''))
      else if mc_Concurrency cfg \<le> 0 then
        Inl (Errorf (''build mode '' @ quoteStr name @ '' concurrency must be positive''))
      else checkModes (wrap64 (acc + mc_Concurrency cfg)) rest)"

definition parseBuildModes :: "modes_json \<Rightarrow> string \<Rightarrow> string \<Rightarrow> int \<Rightarrow> buildModes result" where
  "parseBuildModes decoded raw defaultModeRaw maxConcurrency =
     (let trimmed = trimSpace defaultModeRaw;
          defaultMode = (if trimmed = '''' then defaultBuildMode else trimmed) in
      if \<not> validBuildModeName defaultMode then
        Inl (Errorf (''default build mode '' @ quoteStr defaultMode @ '' must contain only letters, digits, underscores, or hyphens''))
      else if trimSpace raw = '''' then
        Inr \<lparr>bm_defaultMode = defaultMode,
             bm_configs = [(defaultMode, \<lparr>mc_Concurrency = 0, mc_RoutingEnabled = False\<rparr>)], bm_explicit = False\<rparr>
      else case decoded of
        DecodeError e \<Rightarrow> Inl (wrapErr ''parse --modes-json'' e)
      | Decoded configs trailing \<Rightarrow>
          if trailing then Inl (Errorf ''parse --modes-json: unexpected trailing JSON data'')
          else if configs = [] then Inl (Errorf ''--modes-json must define at least one mode'')
          else
            (case checkModes 0 configs of
               Inl e \<Rightarrow> Inl e
             | Inr totalConcurrency \<Rightarrow>
                 if map_of configs defaultMode = None then
                   Inl (Errorf (''default build mode '' @ quoteStr defaultMode @ '' is not defined in --modes-json''))
                 else if maxConcurrency > 0 \<and> totalConcurrency > maxConcurrency then
                   Inl (Errorf (''sum of build mode concurrency ('' @ showInt totalConcurrency @
                     '') exceeds --max-concurrency ('' @ showInt maxConcurrency @ '')''))
                 else Inr \<lparr>bm_defaultMode = defaultMode, bm_configs = configs, bm_explicit = True\<rparr>))"

definition resolve :: "buildModes option \<Rightarrow> string \<Rightarrow> (string \<times> buildModeConfig) result" where
  "resolve mo raw = (case mo of
      None \<Rightarrow> Inl (Errorf ''build modes are not configured'')
    | Some ms \<Rightarrow>
        (let trimmed = trimSpace raw; name = (if trimmed = '''' then bm_defaultMode ms else trimmed) in
         case map_of (bm_configs ms) name of
           None \<Rightarrow> Inl (Errorf (''unknown build mode '' @ quoteStr name))
         | Some cfg \<Rightarrow> Inr (name, cfg)))"

definition modeNames :: "buildModes option \<Rightarrow> string list" where
  "modeNames mo = (case mo of None \<Rightarrow> [] | Some ms \<Rightarrow> sort (map fst (bm_configs ms)))"

definition routingRequired :: "buildModes option \<Rightarrow> bool" where
  "routingRequired mo = (case mo of None \<Rightarrow> False | Some ms \<Rightarrow> list_ex (\<lambda>(n, c). mc_RoutingEnabled c) (bm_configs ms))"

section \<open>The queue of a mode\<close>

record buildTaskQueue =
  tq_ids :: "string list"
  tq_closed :: bool

definition newBuildTaskQueue :: buildTaskQueue where
  "newBuildTaskQueue = \<lparr>tq_ids = [], tq_closed = False\<rparr>"

definition errModeSchedulerClosed :: go_error where
  "errModeSchedulerClosed = GoError ''build mode scheduler is closed'' [ModeSchedulerClosed]"

definition tq_push :: "string \<Rightarrow> buildTaskQueue \<Rightarrow> buildTaskQueue result" where
  "tq_push tid q = (if tq_closed q then Inl errModeSchedulerClosed else Inr (q\<lparr>tq_ids := tq_ids q @ [tid]\<rparr>))"

text \<open>\<^const>\<open>None\<close>: the caller waits; otherwise the id, or the \<^verbatim>\<open>false\<close> of a closed queue.\<close>

definition tq_pop :: "buildTaskQueue \<Rightarrow> (buildTaskQueue \<times> string option) option" where
  "tq_pop q =
     (if tq_ids q = [] \<and> \<not> tq_closed q then None
      else if tq_closed q then Some (q, None)
      else Some (q\<lparr>tq_ids := tl (tq_ids q)\<rparr>, Some (hd (tq_ids q))))"

definition tq_close :: "buildTaskQueue \<Rightarrow> buildTaskQueue" where
  "tq_close q = q\<lparr>tq_closed := True, tq_ids := []\<rparr>"

section \<open>The scheduler\<close>

datatype worker_state = WIdle | WBusy string | WStopped

text \<open>
  A scheduler with the goroutines it started. \<open>sc_pushed\<close> and \<open>sc_started\<close> record, per event, the
  mode and id of every accepted push and of every task handed to \<^verbatim>\<open>run\<close>.
\<close>

record buildModeScheduler =
  sc_queues :: "(string \<times> buildTaskQueue) list"
  sc_workers :: "(string \<times> worker_state) list"
  sc_once :: bool
  sc_pushed :: "(string \<times> string) list"
  sc_started :: "(string \<times> string) list"

definition newBuildModeScheduler :: "buildModes option \<Rightarrow> bool \<Rightarrow> buildModeScheduler option result" where
  "newBuildModeScheduler mo hasRun = (case mo of
      None \<Rightarrow> Inr None
    | Some ms \<Rightarrow>
        if \<not> bm_explicit ms then Inr None
        else if \<not> hasRun then Inl (Errorf ''build mode scheduler requires a task runner'')
        else Inr (Some
          \<lparr>sc_queues = map (\<lambda>n. (n, newBuildTaskQueue)) (modeNames mo),
           sc_workers = concat (map (\<lambda>n. case map_of (bm_configs ms) n of
               None \<Rightarrow> [] | Some cfg \<Rightarrow> replicate (nat (mc_Concurrency cfg)) (n, WIdle)) (modeNames mo)),
           sc_once = False, sc_pushed = [], sc_started = []\<rparr>))"

definition enqueue :: "string \<Rightarrow> string \<Rightarrow> buildModeScheduler option \<Rightarrow> buildModeScheduler result" where
  "enqueue mode tid so = (case so of
      None \<Rightarrow> Inl (Errorf ''build mode scheduler is not configured'')
    | Some s \<Rightarrow>
        (case map_of (sc_queues s) mode of
           None \<Rightarrow> Inl (Errorf (''unknown build mode '' @ quoteStr mode))
         | Some q \<Rightarrow>
             (case tq_push tid q of
                Inl e \<Rightarrow> Inl e
              | Inr q' \<Rightarrow> Inr (s\<lparr>sc_queues := AList.update mode q' (sc_queues s),
                                 sc_pushed := sc_pushed s @ [(mode, tid)]\<rparr>))))"

definition sched_close :: "buildModeScheduler \<Rightarrow> buildModeScheduler" where
  "sched_close s = (if sc_once s then s
     else s\<lparr>sc_once := True, sc_queues := map (\<lambda>(n, q). (n, tq_close q)) (sc_queues s)\<rparr>)"

text \<open>One turn of \<^verbatim>\<open>runWorker\<close>: the pop, and the return from \<^verbatim>\<open>run\<close>.\<close>

definition runWorker :: "nat \<Rightarrow> buildModeScheduler \<Rightarrow> buildModeScheduler option" where
  "runWorker i s =
     (if i < length (sc_workers s) then
        (case sc_workers s ! i of
           (mode, WIdle) \<Rightarrow>
             (case map_of (sc_queues s) mode of
                None \<Rightarrow> None
              | Some q \<Rightarrow>
                  (case tq_pop q of
                     None \<Rightarrow> None
                   | Some (q', None) \<Rightarrow> Some (s\<lparr>sc_workers := (sc_workers s)[i := (mode, WStopped)]\<rparr>)
                   | Some (q', Some tid) \<Rightarrow>
                       Some (s\<lparr>sc_queues := AList.update mode q' (sc_queues s),
                               sc_workers := (sc_workers s)[i := (mode, WBusy tid)],
                               sc_started := sc_started s @ [(mode, tid)]\<rparr>)))
         | (mode, WBusy tid) \<Rightarrow> Some (s\<lparr>sc_workers := (sc_workers s)[i := (mode, WIdle)]\<rparr>)
         | (mode, WStopped) \<Rightarrow> None)
      else None)"

datatype sched_event = SEnqueue string string | SClose | SWorker nat

definition sched_step :: "sched_event \<Rightarrow> buildModeScheduler \<Rightarrow> buildModeScheduler option" where
  "sched_step ev s = (case ev of
      SEnqueue mode tid \<Rightarrow> (case enqueue mode tid (Some s) of Inl e \<Rightarrow> None | Inr s' \<Rightarrow> Some s')
    | SClose \<Rightarrow> Some (sched_close s)
    | SWorker i \<Rightarrow> runWorker i s)"

definition sched_start :: "buildModes \<Rightarrow> buildModeScheduler \<Rightarrow> bool" where
  "sched_start ms s \<longleftrightarrow> distinct (map fst (bm_configs ms)) \<and> newBuildModeScheduler (Some ms) True = Inr (Some s)"

section \<open>The queue as a FIFO list\<close>

text \<open>
  What the scheduler relies on: a queue is a list that grows at its end and shrinks at its front,
  and once closed it takes and gives nothing.
\<close>

locale fifo_queue =
  fixes push :: "'x \<Rightarrow> 'q \<Rightarrow> 'e + 'q"
    and pop :: "'q \<Rightarrow> ('q \<times> 'x option) option"
    and items :: "'q \<Rightarrow> 'x list"
    and is_closed :: "'q \<Rightarrow> bool"
  assumes push_open: "\<not> is_closed q \<Longrightarrow> \<exists>q'. push x q = Inr q' \<and> items q' = items q @ [x] \<and> \<not> is_closed q'"
    and push_closed: "is_closed q \<Longrightarrow> \<exists>e. push x q = Inl e"
    and pop_open: "\<not> is_closed q \<Longrightarrow> items q = x # xs \<Longrightarrow>
      \<exists>q'. pop q = Some (q', Some x) \<and> items q' = xs \<and> \<not> is_closed q'"
    and pop_empty: "\<not> is_closed q \<Longrightarrow> items q = [] \<Longrightarrow> pop q = None"
    and pop_closed: "is_closed q \<Longrightarrow> pop q = Some (q, None)"
begin

lemma push_Inr: "push x q = Inr q' \<Longrightarrow> \<not> is_closed q \<and> items q' = items q @ [x] \<and> \<not> is_closed q'"
  using push_open push_closed by (metis Inl_Inr_False Inr_inject)

lemma pop_Some: "pop q = Some (q', Some x) \<Longrightarrow> \<not> is_closed q \<and> items q = x # items q' \<and> \<not> is_closed q'"
  using pop_open pop_empty pop_closed
  by (cases "is_closed q"; cases "items q") (fastforce)+

text \<open>Two pushes come out in the order they went in.\<close>

lemma push_push_order:
  assumes "push x q = Inr q1" "push y q1 = Inr q2" "items q = []"
  obtains q3 q4 where "pop q2 = Some (q3, Some x)" "pop q3 = Some (q4, Some y)"
proof -
  have "items q2 = [x, y]" "\<not> is_closed q2" using push_Inr assms by fastforce+
  then obtain q3 where "pop q2 = Some (q3, Some x)" "items q3 = [y]" "\<not> is_closed q3" using pop_open by blast
  moreover from this obtain q4 where "pop q3 = Some (q4, Some y)" using pop_open by blast
  ultimately show thesis using that by blast
qed

end

interpretation mode_queue: fifo_queue tq_push tq_pop tq_ids tq_closed
  by unfold_locales (auto simp: tq_push_def tq_pop_def)

section \<open>Lemmas on modes\<close>

lemma checkModes_ok:
  assumes "checkModes acc configs = Inr t" "0 \<le> acc" "acc + (\<Sum>(n, c) \<leftarrow> configs. mc_Concurrency c) < 2 ^ 63"
  shows "t = acc + (\<Sum>(n, c) \<leftarrow> configs. mc_Concurrency c) \<and>
    (\<forall>(n, c) \<in> set configs. validBuildModeName n \<and> 0 < mc_Concurrency c)"
  using assms
proof (induction acc configs rule: checkModes.induct)
  case (2 acc name cfg rest)
  from "2.prems"(1) have ok: "validBuildModeName name" "0 < mc_Concurrency cfg"
    and r: "checkModes (wrap64 (acc + mc_Concurrency cfg)) rest = Inr t" by (auto split: if_splits)
  have pos: "\<forall>(n, c) \<in> set rest. 0 < mc_Concurrency c" using r
    by (induction "wrap64 (acc + mc_Concurrency cfg)" rest arbitrary: acc cfg rule: checkModes.induct)
       (auto split: if_splits)
  then have "0 \<le> (\<Sum>(n, c) \<leftarrow> rest. mc_Concurrency c)"
    by (intro sum_list_nonneg) auto
  then have w: "wrap64 (acc + mc_Concurrency cfg) = acc + mc_Concurrency cfg"
    using "2.prems"(2,3) ok(2) by (intro wrap64_id) auto
  with "2.IH" ok r "2.prems"(2,3) show ?case by auto
qed simp

section \<open>Lemmas on the scheduler\<close>

definition of_mode :: "string \<Rightarrow> (string \<times> string) list \<Rightarrow> string list" where
  "of_mode mode log = map snd (filter (\<lambda>(n, tid). n = mode) log)"

lemma of_mode_append [simp]:
  "of_mode mode (log @ [(n, tid)]) = of_mode mode log @ (if n = mode then [tid] else [])"
  by (simp add: of_mode_def)

text \<open>
  The invariant: the modes' queues and the workers of each mode are those the scheduler started with;
  what was pushed to an open queue is what was started followed by what waits, in order.
\<close>

definition sched_inv :: "buildModes \<Rightarrow> buildModeScheduler \<Rightarrow> bool" where
  "sched_inv ms s \<longleftrightarrow>
     distinct (map fst (sc_queues s)) \<and>
     (\<forall>mode cfg. map_of (bm_configs ms) mode = Some cfg \<longrightarrow>
        count_if (\<lambda>wk. fst wk = mode) (sc_workers s) = nat (mc_Concurrency cfg)) \<and>
     (\<forall>mode q. map_of (sc_queues s) mode = Some q \<longrightarrow>
        (if tq_closed q then tq_ids q = [] \<and> prefix (of_mode mode (sc_started s)) (of_mode mode (sc_pushed s))
         else of_mode mode (sc_pushed s) = of_mode mode (sc_started s) @ tq_ids q)) \<and>
     (\<forall>mode. map_of (sc_queues s) mode = None \<longrightarrow> of_mode mode (sc_started s) = [])"

lemma sched_inv_start:
  assumes "sched_start ms s"
  shows "sched_inv ms s"
proof -
  have d: "distinct (map fst (bm_configs ms))"
    and s: "s = \<lparr>sc_queues = map (\<lambda>n. (n, newBuildTaskQueue)) (modeNames (Some ms)),
           sc_workers = concat (map (\<lambda>n. case map_of (bm_configs ms) n of
               None \<Rightarrow> [] | Some cfg \<Rightarrow> replicate (nat (mc_Concurrency cfg)) (n, WIdle)) (modeNames (Some ms))),
           sc_once = False, sc_pushed = [], sc_started = []\<rparr>"
    using assms by (auto simp: sched_start_def newBuildModeScheduler_def split: if_splits)
  have names: "distinct (modeNames (Some ms))" "set (modeNames (Some ms)) = fst ` set (bm_configs ms)"
    using d by (auto simp: modeNames_def)
  have cnt: "count_if (\<lambda>wk. fst wk = mode) (concat (map (\<lambda>n. case map_of (bm_configs ms) n of
        None \<Rightarrow> [] | Some cfg \<Rightarrow> replicate (nat (mc_Concurrency cfg)) (n, WIdle)) ns)) =
      (if mode \<in> set ns then (case map_of (bm_configs ms) mode of None \<Rightarrow> 0 | Some cfg \<Rightarrow> nat (mc_Concurrency cfg)) else 0)"
    if "distinct ns" for ns mode
    using that by (induction ns) (auto simp: filter_replicate split: option.splits)
  have "mode \<in> set (modeNames (Some ms))" if "map_of (bm_configs ms) mode = Some cfg" for mode cfg
    using that names(2) by (metis map_of_SomeD image_eqI fst_conv)
  then show ?thesis
    using names cnt [OF names(1)]
    by (auto simp: sched_inv_def s of_mode_def newBuildTaskQueue_def map_of_map_restrict comp_def
        restrict_map_def split: if_splits)
qed

lemma count_fst_update:
  "i < length ws \<Longrightarrow> fst (ws ! i) = m \<Longrightarrow>
     count_if (\<lambda>wk. fst wk = mode) (ws[i := (m, st)]) = count_if (\<lambda>wk. fst wk = mode) ws"
  by (rule count_if_update_same) auto

lemma sched_inv_enqueue:
  assumes inv: "sched_inv ms s" and st: "sched_step (SEnqueue mode tid) s = Some s'"
  shows "sched_inv ms s'"
proof -
  obtain q q' where q: "map_of (sc_queues s) mode = Some q" "tq_push tid q = Inr q'"
    and s': "s' = s\<lparr>sc_queues := AList.update mode q' (sc_queues s), sc_pushed := sc_pushed s @ [(mode, tid)]\<rparr>"
    using st by (auto simp: sched_step_def enqueue_def split: option.splits sum.splits)
  show ?thesis using inv q(1) mode_queue.push_Inr [OF q(2)]
    unfolding sched_inv_def s' by (auto simp: update_conv' distinct_update split: if_splits)
qed

lemma sched_inv_close:
  assumes inv: "sched_inv ms s" and st: "sched_step SClose s = Some s'"
  shows "sched_inv ms s'"
proof (cases "sc_once s")
  case True
  then show ?thesis using inv st by (simp add: sched_step_def sched_close_def)
next
  case False
  have m: "map_of (map (\<lambda>(n, q). (n, tq_close q)) qs) mode = map_option tq_close (map_of qs mode)" for qs mode
    by (induction qs) auto
  have f: "map fst (map (\<lambda>(n, q). (n, tq_close q)) qs) = map fst qs" for qs :: "(string \<times> buildTaskQueue) list"
    by (induction qs) auto
  from False have q: "sc_queues s' = map (\<lambda>(n, q). (n, tq_close q)) (sc_queues s)"
    and same: "sc_workers s' = sc_workers s" "sc_started s' = sc_started s" "sc_pushed s' = sc_pushed s"
    using st by (auto simp: sched_step_def sched_close_def)
  have c: "tq_closed (tq_close q)" "tq_ids (tq_close q) = []" for q by (simp_all add: tq_close_def)
  have pre: "prefix (of_mode mode (sc_started s)) (of_mode mode (sc_pushed s))"
    if "map_of (sc_queues s) mode = Some q" for mode q
    using inv that unfolding sched_inv_def by (cases "tq_closed q") auto
  show ?thesis
    unfolding sched_inv_def q m f same
    using inv pre c unfolding sched_inv_def by (simp add: option.case_eq_if) (metis option.collapse option.map_disc_iff)
qed

lemma sched_inv_worker:
  assumes inv: "sched_inv ms s" and st: "sched_step (SWorker i) s = Some s'"
  shows "sched_inv ms s'"
proof -
  have i: "i < length (sc_workers s)" and r: "runWorker i s = Some s'"
    using st by (auto simp: sched_step_def runWorker_def split: if_splits)
  obtain mode ws where w: "sc_workers s ! i = (mode, ws)" by (cases "sc_workers s ! i")
  note cf = count_fst_update [OF i, of mode]
  consider (pop) q q' tid where "ws = WIdle" "map_of (sc_queues s) mode = Some q" "tq_pop q = Some (q', Some tid)"
      "s' = s\<lparr>sc_queues := AList.update mode q' (sc_queues s), sc_workers := (sc_workers s)[i := (mode, WBusy tid)],
        sc_started := sc_started s @ [(mode, tid)]\<rparr>"
    | (set) ws' where "s' = s\<lparr>sc_workers := (sc_workers s)[i := (mode, ws')]\<rparr>"
    using r i w by (auto simp: runWorker_def split: worker_state.splits option.splits prod.splits)
  then show ?thesis
  proof cases
    case pop
    show ?thesis using inv pop(2) mode_queue.pop_Some [OF pop(3)] cf w
      unfolding sched_inv_def pop(4) by (auto simp: update_conv' distinct_update split: if_splits)
  next
    case set
    then show ?thesis using inv cf w by (simp add: sched_inv_def)
  qed
qed

lemma sched_inv_step: "sched_inv ms s \<Longrightarrow> sched_step ev s = Some s' \<Longrightarrow> sched_inv ms s'"
  by (cases ev) (blast intro: sched_inv_enqueue sched_inv_close sched_inv_worker)+

interpretation sched: ts_invariant "sched_start ms" sched_step "sched_inv ms" for ms
  by unfold_locales (rule sched_inv_start sched_inv_step; assumption)+

section \<open>Properties\<close>

definition demoModes :: buildModes where
  "demoModes = \<lparr>bm_defaultMode = ''slow'', bm_configs =
     [(''slow'', \<lparr>mc_Concurrency = 1, mc_RoutingEnabled = False\<rparr>),
      (''fast'', \<lparr>mc_Concurrency = 2, mc_RoutingEnabled = True\<rparr>)], bm_explicit = True\<rparr>"

definition demoSched :: buildModeScheduler where
  "demoSched = \<lparr>sc_queues = [(''fast'', newBuildTaskQueue), (''slow'', newBuildTaskQueue)],
     sc_workers = [(''fast'', WIdle), (''fast'', WIdle), (''slow'', WIdle)], sc_once = False,
     sc_pushed = [], sc_started = []\<rparr>"

lemma demoSched_start: "sched_start demoModes demoSched"
  by code_simp

definition demoSchedRun :: buildModeScheduler where
  "demoSchedRun = the (runs sched_step [SEnqueue ''slow'' ''a'', SEnqueue ''slow'' ''b'', SWorker 2] demoSched)"

lemma demoSched_run:
  "runs sched_step [SEnqueue ''slow'' ''a'', SEnqueue ''slow'' ''b'', SWorker 2] demoSched = Some demoSchedRun"
  unfolding demoSchedRun_def by code_simp

lemma demoSched_reach: "reach (sched_start demoModes) sched_step demoSchedRun"
  by (rule runs_reach [OF demoSched_run reach_init [of "sched_start demoModes", OF demoSched_start]])

text \<open>
  C9. First in, first out, and once each. In every reachable state of the mode scheduler the tasks
  of a mode that were handed to a worker are, in order, an initial part of the tasks that were
  enqueued for the mode; so when the enqueued ids are distinct no task is run twice.
\<close>

theorem mode_fifo:
  assumes "reach (sched_start ms) sched_step s"
  shows "prefix (of_mode mode (sc_started s)) (of_mode mode (sc_pushed s)) \<and>
    (distinct (of_mode mode (sc_pushed s)) \<longrightarrow> distinct (of_mode mode (sc_started s)))"
proof -
  have inv: "sched_inv ms s" by (rule sched.reach_inv [OF assms])
  have p: "prefix (of_mode mode (sc_started s)) (of_mode mode (sc_pushed s))"
  proof (cases "map_of (sc_queues s) mode")
    case None
    then show ?thesis using inv by (simp add: sched_inv_def)
  next
    case (Some q)
    then show ?thesis using inv unfolding sched_inv_def by (cases "tq_closed q") auto
  qed
  then show ?thesis by (auto simp: prefix_def)
qed

theorem mode_fifo_witness:
  "prefix (of_mode ''slow'' (sc_started demoSchedRun)) (of_mode ''slow'' (sc_pushed demoSchedRun)) \<and>
   distinct (of_mode ''slow'' (sc_started demoSchedRun))"
proof -
  have "distinct (of_mode ''slow'' (sc_pushed demoSchedRun))"
    unfolding demoSchedRun_def by code_simp
  then show ?thesis using mode_fifo [OF demoSched_reach, of "''slow''"] by blast
qed

text \<open>
  C10. The concurrency of a mode. In every reachable state at most as many tasks of a mode run as its
  configured concurrency allows.
\<close>

theorem mode_concurrency:
  assumes "reach (sched_start ms) sched_step s" "map_of (bm_configs ms) mode = Some cfg"
  shows "count_if (\<lambda>wk. \<exists>tid. wk = (mode, WBusy tid)) (sc_workers s) \<le> nat (mc_Concurrency cfg)"
proof -
  have "count_if (\<lambda>wk. \<exists>tid. wk = (mode, WBusy tid)) ws \<le> count_if (\<lambda>wk. fst wk = mode) ws" for ws
    by (induction ws) auto
  moreover have "count_if (\<lambda>wk. fst wk = mode) (sc_workers s) = nat (mc_Concurrency cfg)"
    using sched.reach_inv [OF assms(1)] assms(2) by (simp add: sched_inv_def)
  ultimately show ?thesis by metis
qed

theorem mode_concurrency_witness:
  "count_if (\<lambda>wk. \<exists>tid. wk = (''slow'', WBusy tid)) (sc_workers demoSchedRun) \<le> 1"
  using mode_concurrency [OF demoSched_reach, of "''slow''" "\<lparr>mc_Concurrency = 1, mc_RoutingEnabled = False\<rparr>"]
  by (simp add: demoModes_def)

text \<open>
  Accepted mode configurations fit the global limit. When the modes are parsed from JSON without
  an error, every mode has a valid name and a positive concurrency, the default mode is one of them,
  and with a limit configured the concurrencies add up to at most the limit, provided that their sum
  is in the range of a 64-bit integer.
\<close>

theorem parseBuildModes_fits:
  assumes "parseBuildModes (Decoded configs trailing) raw def maxConcurrency = Inr ms" "trimSpace raw \<noteq> ''''"
    and "(\<Sum>(n, c) \<leftarrow> configs. mc_Concurrency c) < 2 ^ 63"
  shows "bm_configs ms = configs \<and> (\<forall>(n, c) \<in> set configs. validBuildModeName n \<and> 0 < mc_Concurrency c) \<and>
    map_of configs (bm_defaultMode ms) \<noteq> None \<and>
    (0 < maxConcurrency \<longrightarrow> (\<Sum>(n, c) \<leftarrow> configs. mc_Concurrency c) \<le> maxConcurrency)"
proof -
  obtain t where t: "checkModes 0 configs = Inr t" "map_of configs (bm_defaultMode ms) \<noteq> None"
    "\<not> (0 < maxConcurrency \<and> maxConcurrency < t)" "bm_configs ms = configs"
    using assms(1,2) by (auto simp: parseBuildModes_def Let_def split: if_splits sum.splits)
  from checkModes_ok [OF t(1)] assms(3) t(2-) show ?thesis by auto
qed

theorem parseBuildModes_fits_witness:
  "list_all (\<lambda>(n, c). validBuildModeName n \<and> 0 < mc_Concurrency c) (bm_configs demoModes) \<and>
   map_of (bm_configs demoModes) (bm_defaultMode demoModes) \<noteq> None \<and>
   (\<Sum>(n, c) \<leftarrow> bm_configs demoModes. mc_Concurrency c) \<le> 3"
proof -
  have "parseBuildModes (Decoded (bm_configs demoModes) False) ''modes'' ''slow'' 3 = Inr demoModes"
    "trimSpace ''modes'' \<noteq> ''''" "(\<Sum>(n, c) \<leftarrow> bm_configs demoModes. mc_Concurrency c) < 2 ^ 63" by code_simp+
  from parseBuildModes_fits [OF this] show ?thesis by (simp add: list_all_iff)
qed

text \<open>
  The proviso of the last property is needed: the total is a 64-bit integer, so two modes whose
  concurrencies add up to \<open>2 ^ 63\<close> pass the test against a limit of 10.
\<close>

lemma parseBuildModes_overflow:
  "isl (parseBuildModes (Decoded [(''a'', \<lparr>mc_Concurrency = 2 ^ 62, mc_RoutingEnabled = False\<rparr>),
      (''b'', \<lparr>mc_Concurrency = 2 ^ 62, mc_RoutingEnabled = False\<rparr>)] False) ''json'' ''a'' 10) = False"
  by code_simp

end
