(* ===== verification/Target_Router.thy ===== *)
theory Target_Router
  imports Build_Steps
begin

text \<open>
  \<^verbatim>\<open>internal/builddaemon/target_router.go\<close>: the routing of an image to one of several registries by
  rendezvous hashing of the build context's digest.

  The reference library is the parameter \<open>lib\<close>; \<^verbatim>\<open>reference.Domain\<close>, \<^verbatim>\<open>Path\<close>, the tag and the
  digest are fields of what it returns. SHA-256 is the parameter \<open>sha256\<close>, whose 32 bytes compare as
  \<^verbatim>\<open>bytes.Compare\<close> does. The JSON list of prefixes enters as the outcome of its decoding.
\<close>

section \<open>Targets\<close>

definition minRoutingTargets :: nat where "minRoutingTargets = 2"
definition maxRoutingTargets :: nat where "maxRoutingTargets = 32"

record registryRoutingTarget =
  rt_prefix :: string
  rt_host :: string
  rt_pathPrefix :: string

definition probeRepository :: string where
  "probeRepository = ''buildctl-route-probe''"

definition parseRoutingTarget :: "reference_lib \<Rightarrow> string \<Rightarrow> registryRoutingTarget result" where
  "parseRoutingTarget lib raw =
     (let pre = trimRightFunc (\<lambda>c. c = CHR ''/'') (trimSpace raw);
          invalid = ''invalid routing target '' @ quoteStr raw in
      if pre = '''' \<or> containsStr pre ''://'' then Inl (Errorf invalid)
      else
        let firstComponent = fst (cutByte CHR ''/'' pre) in
        if firstComponent \<noteq> ''localhost'' \<and> \<not> containsStr firstComponent ''.'' \<and> \<not> containsStr firstComponent '':''
        then Inl (Errorf invalid)
        else case ParseNormalizedNamed lib (pre @ ''/'' @ probeRepository @ '':latest'') of
          Inl e \<Rightarrow> Inl (wrapErr invalid e)
        | Inr probe \<Rightarrow>
            (let host = rn_domain probe; path = rn_path probe;
                 trimmed = trimSuffix path (''/'' @ probeRepository) in
             if path \<noteq> probeRepository \<and> trimmed = path then Inl (Errorf invalid)
             else
               let pathPrefix = (if path = probeRepository then '''' else trimmed) in
               Inr \<lparr>rt_prefix = (if pathPrefix \<noteq> '''' then host @ ''/'' @ pathPrefix else host),
                    rt_host = host, rt_pathPrefix = pathPrefix\<rparr>))"

text \<open>The loop over the prefixes: \<open>unique\<close> holds the normalized prefixes so far.\<close>

fun parseTargetsLoop :: "reference_lib \<Rightarrow> string list \<Rightarrow> registryRoutingTarget list \<Rightarrow> string list \<Rightarrow>
    registryRoutingTarget list result" where
  "parseTargetsLoop lib unique targets [] = Inr targets"
| "parseTargetsLoop lib unique targets (rawPrefix # rest) =
     (case parseRoutingTarget lib rawPrefix of
        Inl e \<Rightarrow> Inl e
      | Inr target \<Rightarrow>
          if rt_prefix target \<in> set unique then Inl (Errorf (''duplicate routing target '' @ quoteStr rawPrefix))
          else parseTargetsLoop lib (rt_prefix target # unique) (targets @ [target]) rest)"

definition parseRoutingTargets ::
    "reference_lib \<Rightarrow> string list result \<Rightarrow> string \<Rightarrow> registryRoutingTarget list option result" where
  "parseRoutingTargets lib decoded raw =
     (if trimSpace raw = '''' then Inr None
      else case decoded of
        Inl e \<Rightarrow> Inl (wrapErr ''parse --routing-targets-json'' e)
      | Inr rawPrefixes \<Rightarrow>
          if length rawPrefixes < minRoutingTargets \<or> maxRoutingTargets < length rawPrefixes then
            Inl (Errorf ''routing targets must contain between 2 and 32 registry prefixes'')
          else
            (case parseTargetsLoop lib [] [] rawPrefixes of
               Inl e \<Rightarrow> Inl e
             | Inr targets \<Rightarrow> Inr (Some (sort_key rt_prefix targets))))"

section \<open>Routing\<close>

definition isLowerHex :: "char \<Rightarrow> bool" where
  "isLowerHex c = (let n = (of_char c :: nat) in 48 \<le> n \<and> n \<le> 57 \<or> 97 \<le> n \<and> n \<le> 102)"

definition normalizeContextSHA256 :: "string \<Rightarrow> string result" where
  "normalizeContextSHA256 raw = (let v = toLower (trimSpace raw) in
     if length v \<noteq> 64 \<or> \<not> list_all isLowerHex v
     then Inl (Errorf ''context_sha256 must be a 64-character hexadecimal digest'')
     else Inr v)"

definition rendezvousScore :: "(string \<Rightarrow> string) \<Rightarrow> string \<Rightarrow> string \<Rightarrow> string" where
  "rendezvousScore sha256 registryPrefix contextSHA256 = sha256 (registryPrefix @ [CHR 0x00] @ contextSHA256)"

definition selectTarget :: "(string \<Rightarrow> string) \<Rightarrow> string \<Rightarrow> registryRoutingTarget list \<Rightarrow> registryRoutingTarget" where
  "selectTarget sha256 digest targets =
     arg_max_from (\<lambda>t. rendezvousScore sha256 (rt_prefix t) digest) (hd targets) (tl targets)"

definition routedPath :: "registryRoutingTarget \<Rightarrow> string \<Rightarrow> string" where
  "routedPath target path =
     (if rt_pathPrefix target \<noteq> '''' \<and> path \<noteq> rt_pathPrefix target \<and> \<not> hasPrefix path (rt_pathPrefix target @ ''/'')
      then rt_pathPrefix target @ ''/'' @ path else path)"

definition routedName :: "registryRoutingTarget \<Rightarrow> reference_named \<Rightarrow> string" where
  "routedName target named =
     rt_host target @ ''/'' @ routedPath target (rn_path named) @
     (case rn_tag named of None \<Rightarrow> '''' | Some tag \<Rightarrow> '':'' @ tag) @
     (case rn_digest named of None \<Rightarrow> '''' | Some d \<Rightarrow> ''@'' @ d)"

definition Route :: "reference_lib \<Rightarrow> (string \<Rightarrow> string) \<Rightarrow> registryRoutingTarget list option \<Rightarrow> string \<Rightarrow> string \<Rightarrow> string result" where
  "Route lib sha256 router img contextSHA256 = (case router of
      None \<Rightarrow> Inl (Errorf ''routing targets are not configured'')
    | Some targets \<Rightarrow>
        if targets = [] then Inl (Errorf ''routing targets are not configured'')
        else case normalizeContextSHA256 contextSHA256 of
          Inl e \<Rightarrow> Inl e
        | Inr digest \<Rightarrow>
            (case ParseNormalizedNamed lib (trimSpace img) of
               Inl e \<Rightarrow> Inl (wrapErr ''parse image for registry routing'' e)
             | Inr named \<Rightarrow> Inr (routedName (selectTarget sha256 digest targets) named)))"

section \<open>Lemmas on the selection\<close>

lemma arg_max_from_better:
  "f b \<le> f t \<Longrightarrow> arg_max_from f t ys = t \<or> arg_max_from f t ys = arg_max_from f b ys"
proof (induction ys arbitrary: b)
  case (Cons y ys)
  show ?case
  proof (cases "f t < f y")
    case True
    with Cons.prems show ?thesis by (simp add: le_less_trans)
  next
    case False
    then have "f (if f b < f y then y else b) \<le> f t" using Cons.prems by (simp add: not_less)
    from Cons.IH [OF this] False show ?thesis by simp
  qed
qed simp

lemma arg_max_from_insert:
  "arg_max_from f b (xs @ t # ys) = t \<or> arg_max_from f b (xs @ t # ys) = arg_max_from f b (xs @ ys)"
proof (induction xs arbitrary: b)
  case Nil
  show ?case using arg_max_from_better [of f b t ys] by simp
qed simp

text \<open>One more target takes a build for itself or leaves it where it was.\<close>

lemma selectTarget_insert:
  assumes "ts = xs @ ys" "ts' = xs @ t # ys" "ts \<noteq> []"
  shows "selectTarget h d ts' = t \<or> selectTarget h d ts' = selectTarget h d ts"
proof (cases xs)
  case Nil
  then obtain y zs where y: "ys = y # zs" using assms by (cases ys) auto
  let ?f = "\<lambda>t. rendezvousScore h (rt_prefix t) d"
  show ?thesis
  proof (cases "?f t < ?f y")
    case True
    then show ?thesis using assms Nil y by (simp add: selectTarget_def)
  next
    case False
    then have "?f y \<le> ?f t" by (simp add: not_less)
    from arg_max_from_better [of ?f y t zs, OF this] show ?thesis
      using assms Nil y False by (simp add: selectTarget_def)
  qed
next
  case (Cons x zs)
  then show ?thesis
    using assms arg_max_from_insert [of "\<lambda>t. rendezvousScore h (rt_prefix t) d" x zs t ys]
    by (simp add: selectTarget_def)
qed

lemma selectTarget_max:
  assumes "ts \<noteq> []"
  shows "selectTarget h d ts \<in> set ts"
    and "t \<in> set ts \<Longrightarrow> rendezvousScore h (rt_prefix t) d \<le> rendezvousScore h (rt_prefix (selectTarget h d ts)) d"
proof -
  have ts: "hd ts # tl ts = ts" using assms by simp
  let ?f = "\<lambda>t. rendezvousScore h (rt_prefix t) d"
  show "selectTarget h d ts \<in> set ts"
    using arg_max_from_mem [of ?f "hd ts" "tl ts"] unfolding ts selectTarget_def .
  show "?f t \<le> ?f (selectTarget h d ts)" if "t \<in> set ts"
    using that arg_max_from_ge [of t "hd ts" "tl ts" ?f] unfolding ts selectTarget_def by simp
qed

section \<open>Lemmas on the configuration\<close>

lemma parseTargetsLoop_Inr:
  assumes "parseTargetsLoop lib unique targets raws = Inr ts"
  shows "\<exists>new. ts = targets @ new \<and> list_all2 (\<lambda>raw t. parseRoutingTarget lib raw = Inr t) raws new \<and>
    distinct (map rt_prefix new) \<and> set (map rt_prefix new) \<inter> set unique = {}"
  using assms
proof (induction lib unique targets raws rule: parseTargetsLoop.induct)
  case (2 lib unique targets raw rest)
  then obtain t where t: "parseRoutingTarget lib raw = Inr t" "rt_prefix t \<notin> set unique"
    and r: "parseTargetsLoop lib (rt_prefix t # unique) (targets @ [t]) rest = Inr ts"
    by (auto split: sum.splits if_splits)
  from "2.IH" [OF t r] obtain new where
    "ts = (targets @ [t]) @ new" "list_all2 (\<lambda>raw t. parseRoutingTarget lib raw = Inr t) rest new"
    "distinct (map rt_prefix new)" "set (map rt_prefix new) \<inter> set (rt_prefix t # unique) = {}" by blast
  with t show ?case by (intro exI [of _ "t # new"]) auto
qed simp

lemma list_all2_parse_map:
  "list_all2 (\<lambda>raw t. parseRoutingTarget lib raw = Inr t) raws ts \<Longrightarrow>
     ts = map (\<lambda>raw. projr (parseRoutingTarget lib raw)) raws"
  by (induction rule: list_all2_induct) auto

text \<open>The parsed router is sorted by prefix and has no duplicates, whatever the order of the JSON list.\<close>

lemma parseRoutingTargets_Some:
  assumes "parseRoutingTargets lib (Inr rawPrefixes) raw = Inr (Some ts)"
  shows "sorted (map rt_prefix ts)" "distinct (map rt_prefix ts)" "2 \<le> length ts" "length ts \<le> 32"
    "mset ts = mset (map (\<lambda>raw. projr (parseRoutingTarget lib raw)) rawPrefixes)"
proof -
  obtain us where l: "2 \<le> length rawPrefixes" "length rawPrefixes \<le> 32"
    and us: "parseTargetsLoop lib [] [] rawPrefixes = Inr us" and ts: "ts = sort_key rt_prefix us"
    using assms
    by (auto simp: parseRoutingTargets_def minRoutingTargets_def maxRoutingTargets_def split: if_splits sum.splits)
  obtain new where new: "us = new" "list_all2 (\<lambda>raw t. parseRoutingTarget lib raw = Inr t) rawPrefixes new"
    "distinct (map rt_prefix new)"
    using parseTargetsLoop_Inr [OF us] by auto
  have n: "new = map (\<lambda>raw. projr (parseRoutingTarget lib raw)) rawPrefixes"
    by (rule list_all2_parse_map [OF new(2)])
  show "sorted (map rt_prefix ts)" by (simp add: ts)
  have "mset (map rt_prefix ts) = mset (map rt_prefix new)" by (simp add: ts new(1))
  then show "distinct (map rt_prefix ts)" using new(3) by (metis mset_eq_imp_distinct_iff)
  show "2 \<le> length ts" "length ts \<le> 32" using l n by (simp_all add: ts new(1))
  show "mset ts = mset (map (\<lambda>raw. projr (parseRoutingTarget lib raw)) rawPrefixes)"
    using n by (simp add: ts new(1))
qed

lemma sorted_by_key_unique:
  assumes "sorted (map f xs)" "sorted (map f ys)" "distinct (map f xs)" "mset xs = mset ys"
  shows "xs = ys"
proof -
  have "inj_on f (set xs)" using assms(3) by (simp add: distinct_map)
  moreover have "set xs = set ys" using assms(4) by (rule mset_eq_setD)
  moreover have "map f xs = map f ys"
    using assms by (metis mset_map properties_for_sort sorted_sort_id)
  ultimately show ?thesis by (metis inj_on_map_eq_map Un_absorb)
qed

section \<open>Properties\<close>

text \<open>A reference library for a few names, and a hash, to apply the properties to.\<close>

definition demoLib :: reference_lib where
  "demoLib = \<lparr>ParseNormalizedNamed = (\<lambda>s. case cutByte CHR ''/'' s of
      (host, rest, True) \<Rightarrow> (case cutByte CHR '':'' rest of
          (path, tag, True) \<Rightarrow> Inr \<lparr>rn_domain = host, rn_path = path, rn_tag = Some tag, rn_digest = None\<rparr>
        | (path, _, False) \<Rightarrow> Inr \<lparr>rn_domain = host, rn_path = path, rn_tag = None, rn_digest = None\<rparr>)
    | _ \<Rightarrow> Inl (Errorf ''invalid reference'')),
     digest_Parse = Inr, WithDigest = (\<lambda>n d. Inr (n\<lparr>rn_digest := Some d\<rparr>)),
     FamiliarString = (\<lambda>n. rn_domain n @ ''/'' @ rn_path n)\<rparr>"

definition demoSha :: "string \<Rightarrow> string" where
  "demoSha s = rev s"

definition demoDigest :: string where
  "demoDigest = replicate 64 CHR ''a''"

definition demoTargets :: "registryRoutingTarget list" where
  "demoTargets = [\<lparr>rt_prefix = ''a.io/x'', rt_host = ''a.io'', rt_pathPrefix = ''x''\<rparr>,
     \<lparr>rt_prefix = ''b.io'', rt_host = ''b.io'', rt_pathPrefix = ''''\<rparr>]"

text \<open>
  The order of the configured registries does not matter. Two JSON lists that are permutations of
  each other and are both accepted give the same router, so every image is routed the same way.
\<close>

theorem routing_order_irrelevant:
  assumes "parseRoutingTargets lib (Inr xs) raw = Inr r" "parseRoutingTargets lib (Inr ys) raw = Inr r'"
    and "mset xs = mset ys"
  shows "r = r'"
proof (cases "trimSpace raw = ''''")
  case True
  then show ?thesis using assms(1,2) by (simp add: parseRoutingTargets_def)
next
  case False
  then obtain ts us where r: "r = Some ts" "r' = Some us"
    using assms(1,2) by (auto simp: parseRoutingTargets_def split: if_splits sum.splits)
  note t = parseRoutingTargets_Some [OF assms(1) [unfolded r]]
    and u = parseRoutingTargets_Some [OF assms(2) [unfolded r]]
  have "mset ts = mset us" using t(5) u(5) assms(3) by simp
  then have "ts = us" by (rule sorted_by_key_unique [OF t(1) u(1) t(2)])
  with r show ?thesis by simp
qed

theorem routing_order_irrelevant_witness:
  "parseRoutingTargets demoLib (Inr [''a.io/x/'', ''b.io'']) ''json'' =
   parseRoutingTargets demoLib (Inr [''b.io'', ''a.io/x/'']) ''json''"
proof -
  have a: "parseRoutingTargets demoLib (Inr [''a.io/x/'', ''b.io'']) ''json'' = Inr (Some demoTargets)" by code_simp
  have b: "\<not> isl (parseRoutingTargets demoLib (Inr [''b.io'', ''a.io/x/'']) ''json'')" by code_simp
  then obtain r where r: "parseRoutingTargets demoLib (Inr [''b.io'', ''a.io/x/'']) ''json'' = Inr r"
    by (cases "parseRoutingTargets demoLib (Inr [''b.io'', ''a.io/x/'']) ''json''") auto
  have "Some demoTargets = r" by (rule routing_order_irrelevant [OF a r]) simp
  with a r show ?thesis by simp
qed

text \<open>
  C11. Rendezvous hashing. An image goes to the registry with the greatest score for its context, and
  adding one registry to the router leaves every image where it was or moves it to the new registry;
  read the other way round, removing a registry moves only the images that it had.
\<close>

theorem routing_minimal_disruption:
  assumes "Route lib sha (Some (xs @ ys)) img digest = Inr ref" "Route lib sha (Some (xs @ t # ys)) img digest = Inr ref'"
  shows "\<exists>named d s. ParseNormalizedNamed lib (trimSpace img) = Inr named \<and> normalizeContextSHA256 digest = Inr d \<and>
    s \<in> set (xs @ ys) \<and> (\<forall>u \<in> set (xs @ ys). rendezvousScore sha (rt_prefix u) d \<le> rendezvousScore sha (rt_prefix s) d) \<and>
    ref = routedName s named \<and> (ref' = ref \<or> ref' = routedName t named)"
proof -
  have ne: "xs @ ys \<noteq> []" using assms(1) by (auto simp: Route_def)
  obtain named d where nd: "ParseNormalizedNamed lib (trimSpace img) = Inr named" "normalizeContextSHA256 digest = Inr d"
    "ref = routedName (selectTarget sha d (xs @ ys)) named" "ref' = routedName (selectTarget sha d (xs @ t # ys)) named"
    using assms ne by (auto simp: Route_def split: sum.splits if_splits)
  have "selectTarget sha d (xs @ t # ys) = t \<or> selectTarget sha d (xs @ t # ys) = selectTarget sha d (xs @ ys)"
    by (rule selectTarget_insert [OF refl refl ne])
  with nd selectTarget_max [OF ne, where h = sha and d = d] show ?thesis
    by (intro exI [of _ named] exI [of _ d] exI [of _ "selectTarget sha d (xs @ ys)"]) auto
qed

theorem routing_minimal_disruption_witness:
  "\<exists>ref ref'. Route demoLib demoSha (Some demoTargets) ''hub.io/app:1'' demoDigest = Inr ref \<and>
     Route demoLib demoSha (Some (demoTargets @ [\<lparr>rt_prefix = ''c.io'', rt_host = ''c.io'', rt_pathPrefix = ''''\<rparr>]))
       ''hub.io/app:1'' demoDigest = Inr ref' \<and>
     (ref' = ref \<or> ref' = ''c.io/app:1'')"
proof -
  let ?c = "\<lparr>rt_prefix = ''c.io'', rt_host = ''c.io'', rt_pathPrefix = ''''\<rparr>"
  have "\<not> isl (Route demoLib demoSha (Some demoTargets) ''hub.io/app:1'' demoDigest)"
    "\<not> isl (Route demoLib demoSha (Some (demoTargets @ ?c # [])) ''hub.io/app:1'' demoDigest)" by code_simp+
  then obtain ref ref' where r: "Route demoLib demoSha (Some demoTargets) ''hub.io/app:1'' demoDigest = Inr ref"
    "Route demoLib demoSha (Some (demoTargets @ ?c # [])) ''hub.io/app:1'' demoDigest = Inr ref'"
    by (metis Inl_Inr_False isl_def sum.exhaust_sel sum.disc(1) sum.collapse(2))
  have n: "ParseNormalizedNamed demoLib (trimSpace ''hub.io/app:1'') =
      Inr \<lparr>rn_domain = ''hub.io'', rn_path = ''app'', rn_tag = Some ''1'', rn_digest = None\<rparr>" by code_simp
  have c: "routedName ?c \<lparr>rn_domain = ''hub.io'', rn_path = ''app'', rn_tag = Some ''1'', rn_digest = None\<rparr> = ''c.io/app:1''"
    by code_simp
  from routing_minimal_disruption [of demoLib demoSha demoTargets "[]" "''hub.io/app:1''" demoDigest ref ?c ref'] r n c
  show ?thesis by auto
qed

text \<open>
  A routed image lies under the registry it was routed to: its repository path is the target's
  path prefix or starts with it, and routing the path again changes nothing.
\<close>

lemma routed_under_target:
  "(rt_pathPrefix t = '''' \<or> routedPath t path = rt_pathPrefix t \<or> hasPrefix (routedPath t path) (rt_pathPrefix t @ ''/'')) \<and>
   routedPath t (routedPath t path) = routedPath t path"
proof -
  have "hasPrefix (rt_pathPrefix t @ ''/'' @ path) (rt_pathPrefix t @ ''/'')"
    unfolding hasPrefix_iff by (intro exI [of _ path]) simp
  then show ?thesis by (auto simp: routedPath_def)
qed

end
