(* ===== verification/Workspace.thy ===== *)
theory Workspace
  imports Build_Steps
begin

text \<open>
  \<^verbatim>\<open>internal/builddaemon/workspace.go\<close>: the upload and its extraction within limits, the log writer,
  the search for the build context, the scheduling key and the tail of a log.

  The file system enters through what it returns (contents of files and archives, results of system
  calls, each with its error) and leaves as the list of the calls that change it (\<open>fs_op\<close>), in order.
  A \<^verbatim>\<open>MkdirAll\<close> is in the list also when it fails: it may have made some of the directories on the way. A
  reader is the bytes it yields and the error it ends with, none standing for the end of the file.
  SHA-256 is the parameter \<open>sha256\<close>.
\<close>

section \<open>Readers and copies\<close>

record reader =
  rd_data :: string
  rd_err :: "go_error option"

text \<open>
  \<^verbatim>\<open>copyWithLimit\<close>: the bytes written, whether more follow, the error. \<open>wErr\<close> is the writer's error with
  the number of bytes it takes before failing.
\<close>

definition copyWithLimit :: "(nat \<times> go_error) option \<Rightarrow> reader \<Rightarrow> int \<Rightarrow> string \<times> bool \<times> go_error option" where
  "copyWithLimit wErr src limit =
     (let chunk = take (nat limit) (rd_data src) in
      case wErr of
        Some (n, e) \<Rightarrow>
          if n < length chunk then (take n chunk, False, Some e)
          else if length (rd_data src) < nat limit \<and> rd_err src \<noteq> None then (chunk, False, rd_err src)
          else if nat limit < length (rd_data src) then (chunk, True, None)
          else (chunk, False, rd_err src)
      | None \<Rightarrow>
          if nat limit < length (rd_data src) then (chunk, True, None)
          else (chunk, False, rd_err src))"

definition errArchiveLimit :: "string \<Rightarrow> go_error" where
  "errArchiveLimit detail = GoError (''archive exceeds configured limit: '' @ detail) [ArchiveLimit]"

text \<open>The changes to the file system.\<close>

datatype fs_op =
    MkdirAll string
  | WriteFile string nat string
  | RemoveFile string

fun op_path :: "fs_op \<Rightarrow> string" where
  "op_path (MkdirAll p) = p"
| "op_path (WriteFile p m c) = p"
| "op_path (RemoveFile p) = p"

fun op_bytes :: "fs_op \<Rightarrow> nat" where
  "op_bytes (WriteFile p m c) = length c"
| "op_bytes _ = 0"

definition saveUploadedFile ::
    "int \<Rightarrow> go_error option \<Rightarrow> go_error option \<Rightarrow> (nat \<times> go_error) option \<Rightarrow> reader \<Rightarrow> string \<Rightarrow> int \<Rightarrow>
     fs_op list \<times> go_error option" where
  "saveUploadedFile uploadSize openErr createErr wErr src dst maxBytes =
     (let limitErr = errArchiveLimit (''compressed upload exceeds '' @ showInt maxBytes @ '' bytes'') in
      if uploadSize > maxBytes then ([], Some limitErr)
      else case openErr of
        Some e \<Rightarrow> ([], Some (wrapErr ''open upload'' e))
      | None \<Rightarrow>
      (case createErr of
        Some e \<Rightarrow> ([], Some (wrapErr ''create upload file'' e))
      | None \<Rightarrow>
          (case copyWithLimit wErr src maxBytes of
             (written, exceeded, err) \<Rightarrow>
               ([WriteFile dst 420 written],
                case err of
                  Some e \<Rightarrow> Some (wrapErr ''save upload'' e)
                | None \<Rightarrow> if exceeded then Some limitErr else None))))"

section \<open>Archives\<close>

text \<open>\<^verbatim>\<open>filepath.Clean(filepath.FromSlash(name))\<close> on a system whose separator is the slash.\<close>

definition validateBuildArchivePath :: "string \<Rightarrow> unit result" where
  "validateBuildArchivePath name =
     (let invalid = Inl (Errorf (''invalid zip path '' @ quoteStr name)) in
      if name = '''' \<or> hasPrefix name ''/'' \<or> isAbs name then invalid
      else
        let clean = pathClean name in
        if clean = ''.'' \<or> clean = ''..'' \<or> hasPrefix clean ''../'' then invalid else Inr ())"

text \<open>\<^verbatim>\<open>filepath.Dir\<close>: the cleaned path up to and including its last slash.\<close>

definition filepathDir :: "string \<Rightarrow> string" where
  "filepathDir p = pathClean (rev (dropWhile (\<lambda>c. c \<noteq> CHR ''/'') (rev p)))"

record zipEntry =
  ze_Name :: string
  ze_IsDir :: bool
  ze_UncompressedSize :: nat
  ze_Perm :: nat
  ze_Reader :: reader
  ze_MkdirErr :: "go_error option"
  ze_OpenErr :: "go_error option"
  ze_CreateErr :: "go_error option"
  ze_WriteErr :: "(nat \<times> go_error) option"
  ze_CloseErr :: "go_error option"

definition zipMaxExtractedFileMode :: nat where
  "zipMaxExtractedFileMode = 493"

definition extractedMode :: "nat \<Rightarrow> nat" where
  "extractedMode perm = (if perm = 0 \<or> zipMaxExtractedFileMode < perm then 420 else perm)"

definition extractLimitErr :: "int \<Rightarrow> go_error" where
  "extractLimitErr maxExtractedBytes =
     errArchiveLimit (''extracted content exceeds '' @ showInt maxExtractedBytes @ '' bytes'')"

fun extractLoop :: "string \<Rightarrow> int \<Rightarrow> int \<Rightarrow> zipEntry list \<Rightarrow> fs_op list \<times> go_error option" where
  "extractLoop dst maxExtractedBytes extractedBytes [] = ([], None)"
| "extractLoop dst maxExtractedBytes extractedBytes (file # files) =
     (case validateBuildArchivePath (ze_Name file) of
        Inl e \<Rightarrow> ([], Some e)
      | Inr _ \<Rightarrow>
          (let target = filepathJoin dst (ze_Name file) in
           if ze_IsDir file then
             (case ze_MkdirErr file of
                Some e \<Rightarrow> ([MkdirAll target], Some e)
              | None \<Rightarrow>
                  (let (ops, err) = extractLoop dst maxExtractedBytes extractedBytes files
                   in (MkdirAll target # ops, err)))
           else
             (let remaining = maxExtractedBytes - extractedBytes in
              if remaining < 0 \<or> nat remaining < ze_UncompressedSize file
              then ([], Some (extractLimitErr maxExtractedBytes))
              else case ze_MkdirErr file of
                Some e \<Rightarrow> ([MkdirAll (filepathDir target)], Some e)
              | None \<Rightarrow>
                  (let parent = MkdirAll (filepathDir target) in
                   case ze_OpenErr file of
                     Some e \<Rightarrow> ([parent], Some e)
                   | None \<Rightarrow>
                   (case ze_CreateErr file of
                     Some e \<Rightarrow> ([parent], Some e)
                   | None \<Rightarrow>
                       (case copyWithLimit (ze_WriteErr file) (ze_Reader file) remaining of
                          (written, exceeded, copyErr) \<Rightarrow>
                            (let put = WriteFile target (extractedMode (ze_Perm file)) written in
                             if copyErr \<noteq> None then ([parent, put], copyErr)
                             else if exceeded
                               then ([parent, put, RemoveFile target], Some (extractLimitErr maxExtractedBytes))
                             else if ze_CloseErr file \<noteq> None then ([parent, put], ze_CloseErr file)
                             else
                               (let (ops, err) = extractLoop dst maxExtractedBytes
                                     (extractedBytes + int (length written)) files
                                in (parent # put # ops, err)))))))))"

definition extractZip :: "zipEntry list result \<Rightarrow> string \<Rightarrow> int \<Rightarrow> int \<Rightarrow> fs_op list \<times> go_error option" where
  "extractZip archive dst maxExtractedBytes maxArchiveFiles = (case archive of
      Inl e \<Rightarrow> ([], Some (wrapErr ''open zip'' e))
    | Inr files \<Rightarrow>
        if int (length files) > maxArchiveFiles then
          ([], Some (errArchiveLimit (''archive has '' @ showNat (length files) @ '' entries, maximum is '' @
             showInt maxArchiveFiles)))
        else extractLoop dst maxExtractedBytes 0 files)"

section \<open>The log writer\<close>

text \<open>
  \<open>out\<close> is what the underlying writer has taken so far, \<open>wr\<close> its answer to a write: the number of
  bytes taken and the error.
\<close>

record limitedLogWriter =
  lw_out :: string
  lw_remaining :: int

definition logWrite ::
    "(string \<Rightarrow> nat \<times> go_error option) \<Rightarrow> string \<Rightarrow> limitedLogWriter \<Rightarrow> limitedLogWriter \<times> nat \<times> go_error option" where
  "logWrite wr data0 w =
     (let originalLength = length data0 in
      if lw_remaining w \<le> 0 \<or> originalLength = 0 then (w, originalLength, None)
      else
        let data1 = (if int (length data0) > lw_remaining w then take (nat (lw_remaining w)) data0 else data0);
            (written, err) = wr data1;
            w' = w\<lparr>lw_out := lw_out w @ take written data1, lw_remaining := lw_remaining w - int written\<rparr>
        in if err \<noteq> None then (w', written, err)
           else if written \<noteq> length data1 then (w', written, Some errShortWrite)
           else (w', originalLength, None))"

section \<open>The build context\<close>

definition findBuildContext :: "(string \<Rightarrow> bool) \<Rightarrow> (string \<times> bool) list result \<Rightarrow> string \<Rightarrow> string result" where
  "findBuildContext fileExists readDir root =
     (if fileExists (filepathJoin root ''Dockerfile'') then Inr root
      else case readDir of
        Inl e \<Rightarrow> Inl e
      | Inr entries \<Rightarrow>
          (let candidates = filter (\<lambda>c. fileExists (filepathJoin c ''Dockerfile''))
                 (map (\<lambda>(name, isDir). filepathJoin root name) (filter snd entries)) in
           case candidates of
             [c] \<Rightarrow> Inr c
           | _ \<Rightarrow> Inl (Errorf ''zip must contain Dockerfile at root or in one top-level directory'')))"

text \<open>
  \<^verbatim>\<open>readImageMetadata\<close>: \<open>file\<close> is the result of reading \<^verbatim>\<open>metadata.json\<close>, \<open>target\<close> the decoder that
  gives its \<^verbatim>\<open>target\<close> field.
\<close>

definition readImageMetadata :: "string result \<Rightarrow> (string \<Rightarrow> string result) \<Rightarrow> string result" where
  "readImageMetadata file target = (case file of
      Inl e \<Rightarrow>
        if errors_Is e NotExist then Inl (Errorf ''image is required when metadata.json is missing'')
        else Inl (wrapErr ''read metadata.json'' e)
    | Inr raw \<Rightarrow>
        (case target raw of
           Inl e \<Rightarrow> Inl (wrapErr ''parse metadata.json'' e)
         | Inr t \<Rightarrow> Inr t))"

definition resolveBuildImage :: "string result \<Rightarrow> (string \<Rightarrow> string result) \<Rightarrow> string \<Rightarrow> string result" where
  "resolveBuildImage file target imageOverride =
     (if trimSpace imageOverride \<noteq> '''' then Inr (trimSpace imageOverride)
      else case readImageMetadata file target of
        Inl e \<Rightarrow> Inl e
      | Inr t \<Rightarrow>
          if trimSpace t = '''' then Inl (Errorf ''image is required when metadata.json target is empty'')
          else Inr (trimSpace t))"

text \<open>What \<^verbatim>\<open>filepath.WalkDir\<close> hands to its callback.\<close>

record context_file =
  cf_OpenErr :: "go_error option"
  cf_Content :: "string result"
  cf_CloseErr :: "go_error option"

datatype walk_entry =
    WalkFails go_error
  | WalkDirectory
  | WalkNonRegular "int result"
  | WalkRegular string "int result" context_file

fun directorySizeLoop :: "int \<Rightarrow> walk_entry list \<Rightarrow> int \<times> go_error option" where
  "directorySizeLoop acc [] = (acc, None)"
| "directorySizeLoop acc (WalkFails e # es) =
     (if errors_Is e NotExist then directorySizeLoop acc es else (acc, Some e))"
| "directorySizeLoop acc (WalkDirectory # es) = directorySizeLoop acc es"
| "directorySizeLoop acc (WalkNonRegular info # es) =
     (case info of Inl e \<Rightarrow> (acc, Some e) | Inr n \<Rightarrow> directorySizeLoop (wrap64 (acc + n)) es)"
| "directorySizeLoop acc (WalkRegular rel info content # es) =
     (case info of Inl e \<Rightarrow> (acc, Some e) | Inr n \<Rightarrow> directorySizeLoop (wrap64 (acc + n)) es)"

definition directorySize :: "walk_entry list \<Rightarrow> int \<times> go_error option" where
  "directorySize es = directorySizeLoop 0 es"

text \<open>The files of the context, relative to it, in the order of the walk.\<close>

fun contextFiles :: "walk_entry list \<Rightarrow> (string \<times> context_file) list result" where
  "contextFiles [] = Inr []"
| "contextFiles (WalkFails e # es) = Inl e"
| "contextFiles (WalkDirectory # es) = contextFiles es"
| "contextFiles (WalkNonRegular info # es) = (case info of Inl e \<Rightarrow> Inl e | Inr _ \<Rightarrow> contextFiles es)"
| "contextFiles (WalkRegular rel info content # es) =
     (case info of
        Inl e \<Rightarrow> Inl e
      | Inr _ \<Rightarrow> (case contextFiles es of Inl e \<Rightarrow> Inl e | Inr fs \<Rightarrow> Inr ((rel, content) # fs)))"

fun hashInput :: "(string \<times> context_file) list \<Rightarrow> string result" where
  "hashInput [] = Inr []"
| "hashInput ((rel, f) # fs) =
     (case cf_OpenErr f of
        Some e \<Rightarrow> Inl (wrapErr (''open source context file '' @ rel) e)
      | None \<Rightarrow>
          (case cf_Content f of
             Inl e \<Rightarrow> Inl (wrapErr (''hash source context file '' @ rel) e)
           | Inr c \<Rightarrow>
               (case cf_CloseErr f of
                  Some e \<Rightarrow> Inl (wrapErr (''close source context file '' @ rel) e)
                | None \<Rightarrow>
                    (case hashInput fs of
                       Inl e \<Rightarrow> Inl e
                     | Inr rest \<Rightarrow> Inr (rel @ [CHR 0x00] @ c @ [CHR 0x00] @ rest)))))"

definition sourceContextContentHash :: "(string \<Rightarrow> string) \<Rightarrow> walk_entry list \<Rightarrow> string result" where
  "sourceContextContentHash sha256hex walk = (case contextFiles walk of
      Inl e \<Rightarrow> Inl (wrapErr ''walk source context for scheduling hash'' e)
    | Inr files \<Rightarrow>
        (case hashInput (sort_key fst files) of
           Inl e \<Rightarrow> Inl e
         | Inr input \<Rightarrow> Inr (''source:'' @ sha256hex input)))"

definition shortScheduleKey :: "string \<Rightarrow> string" where
  "shortScheduleKey key =
     (if length key \<le> length ''source:'' + 12 \<or> \<not> hasPrefix key ''source:'' then key
      else take (length ''source:'' + 12) key)"

definition defaultMaxLogBytes :: int where
  "defaultMaxLogBytes = 2 ^ 20"

definition tailFile :: "string result \<Rightarrow> int \<Rightarrow> string result" where
  "tailFile file maxBytes0 =
     (let maxBytes = (if maxBytes0 \<le> 0 then defaultMaxLogBytes else maxBytes0) in
      case file of
        Inl e \<Rightarrow> if errors_Is e NotExist then Inr '''' else Inl e
      | Inr content \<Rightarrow>
          (let start = (if int (length content) > maxBytes then int (length content) - maxBytes else 0)
           in Inr (drop (nat start) content)))"

text \<open>\<^verbatim>\<open>newTaskID\<close>: 16 random bytes in hexadecimal.\<close>

definition hexDigit :: "nat \<Rightarrow> char" where
  "hexDigit n = (if n < 10 then char_of (48 + n) else char_of (87 + n))"

definition hexEncode :: "string \<Rightarrow> string" where
  "hexEncode bytes = concat (map (\<lambda>c. let n = (of_char c :: nat) in [hexDigit (n div 16), hexDigit (n mod 16)]) bytes)"

definition newTaskID :: "string result \<Rightarrow> string result" where
  "newTaskID random = (case random of Inl e \<Rightarrow> Inl e | Inr bytes \<Rightarrow> Inr (hexEncode bytes))"

section \<open>Paths below a directory\<close>

definition plain :: "string \<Rightarrow> bool" where
  "plain c \<longleftrightarrow> c \<noteq> '''' \<and> c \<noteq> ''.'' \<and> c \<noteq> ''..'' \<and> CHR ''/'' \<notin> set c"

definition below :: "string \<Rightarrow> string \<Rightarrow> bool" where
  "below dst p \<longleftrightarrow> p = dst \<or> (\<exists>cs. cs \<noteq> [] \<and> list_all plain cs \<and> p = dst @ ''/'' @ joinStr ''/'' cs)"

lemma cleanStep_set: "set (cleanStep r stack c) \<subseteq> insert c (set stack)" "c \<in> {'''', ''.''} \<Longrightarrow> cleanStep r stack c = stack"
  by (cases stack; simp add: cleanStep_def subset_insertI2; fail) (auto simp: cleanStep_def)

lemma cleanStep_plain:
  assumes "\<forall>c \<in> set stack. c \<noteq> '''' \<and> c \<noteq> ''.''" "x \<in> set (cleanStep r stack c)"
  shows "x \<noteq> '''' \<and> x \<noteq> ''.''"
proof (cases "c \<in> {'''', ''.''}")
  case True
  then show ?thesis using assms cleanStep_set(2) [of c r stack] by simp
next
  case False
  then show ?thesis using assms cleanStep_set(1) [of r stack c] by blast
qed

lemma cleanStack_plain:
  "\<forall>c \<in> set stack. c \<noteq> '''' \<and> c \<noteq> ''.'' \<Longrightarrow> x \<in> set (cleanStack r stack cs) \<Longrightarrow> x \<noteq> '''' \<and> x \<noteq> ''.''"
proof (induction cs arbitrary: stack)
  case (Cons c cs)
  have "\<forall>y \<in> set (cleanStep r stack c). y \<noteq> '''' \<and> y \<noteq> ''.''"
    using cleanStep_plain [OF Cons.prems(1)] by blast
  with Cons show ?case by simp
qed simp

lemma cleanStack_push: "list_all plain cs \<Longrightarrow> cleanStack r stack cs = rev cs @ stack"
  by (induction cs arbitrary: stack) (auto simp: plain_def cleanStep_def)

lemma joinStr_plain_hd:
  assumes "cs \<noteq> []" "list_all plain cs"
  shows "joinStr ''/'' cs \<noteq> ''''" "hd (joinStr ''/'' cs) \<noteq> CHR ''/''"
proof -
  obtain c ds where cs: "cs = c # ds" using assms(1) by (cases cs) auto
  obtain x c' where c: "c = x # c'" "x \<noteq> CHR ''/''" using assms(2) cs by (cases c) (auto simp: plain_def)
  show "joinStr ''/'' cs \<noteq> ''''" "hd (joinStr ''/'' cs) \<noteq> CHR ''/''"
    using c by (simp_all add: cs joinStr_Cons_Cons)
qed

lemma not_isAbs_plain: "cs \<noteq> [] \<Longrightarrow> list_all plain cs \<Longrightarrow> \<not> isAbs (joinStr ''/'' cs)"
  using joinStr_plain_hd [of cs] by (cases "joinStr ''/'' cs") (auto simp: isAbs_def hasPrefix_def)

lemma splitByte_plain: "cs \<noteq> [] \<Longrightarrow> list_all plain cs \<Longrightarrow> splitByte CHR ''/'' (joinStr ''/'' cs) = cs"
  by (rule splitByte_joinStr) (auto simp: list_all_iff plain_def)

lemma pathClean_plain:
  assumes "cs \<noteq> []" "list_all plain cs"
  shows "pathClean (joinStr ''/'' cs) = joinStr ''/'' cs"
  using assms by (simp add: pathClean_def not_isAbs_plain splitByte_plain cleanStack_push renderPath_def)

lemma joinStr_plain_not_climbs:
  assumes "cs \<noteq> []" "list_all plain cs"
  shows "joinStr ''/'' cs \<noteq> ''.''" "\<not> climbs (joinStr ''/'' cs)"
proof -
  have s: "splitByte CHR ''/'' (joinStr ''/'' cs) = cs" by (rule splitByte_plain [OF assms])
  show "joinStr ''/'' cs \<noteq> ''.''"
  proof
    assume "joinStr ''/'' cs = ''.''"
    then have "cs = [''.'']" using s by simp
    then show False using assms(2) by (simp add: plain_def)
  qed
  have "splitByte CHR ''/'' (''../'' @ t) = ''..'' # splitByte CHR ''/'' t" for t by simp
  then show "\<not> climbs (joinStr ''/'' cs)"
    using s assms(2) by (auto simp: climbs_def hasPrefix_iff plain_def)
qed

lemma join_plain_below:
  assumes "pathClean dst = dst" "dst \<noteq> ''.''" "dst \<noteq> ''/''" "cs \<noteq> []" "list_all plain cs"
  shows "pathClean (dst @ ''/'' @ joinStr ''/'' cs) = dst @ ''/'' @ joinStr ''/'' cs"
proof -
  have "filepathJoin dst (joinStr ''/'' cs) = dst @ ''/'' @ pathClean (joinStr ''/'' cs)"
    using assms joinStr_plain_hd joinStr_plain_not_climbs
    by (intro filepathJoin_below) (auto simp: not_isAbs_plain pathClean_plain)
  moreover have "dst \<noteq> ''''" using assms(1) pathClean_Nil by auto
  ultimately show ?thesis
    using joinStr_plain_hd(1) [OF assms(4,5)] by (simp add: filepathJoin_def pathClean_plain [OF assms(4,5)])
qed

lemma pathClean_slash: "p \<noteq> '''' \<Longrightarrow> pathClean (p @ ''/'') = pathClean p"
proof -
  assume "p \<noteq> ''''"
  then have "isAbs (p @ ''/'') = isAbs p" by (cases p) (auto simp: isAbs_def hasPrefix_def)
  then show ?thesis
    using splitByte_append [of "CHR ''/''" p "[]"]
    by (simp add: pathClean_def cleanStack_append cleanStep_def)
qed

lemma dropWhile_rev_last:
  assumes "CHR ''/'' \<notin> set c"
  shows "rev (dropWhile (\<lambda>x. x \<noteq> CHR ''/'') (rev (p @ ''/'' @ c))) = p @ ''/''"
proof -
  have "dropWhile (\<lambda>x. x \<noteq> CHR ''/'') (rev c @ CHR ''/'' # rev p) = CHR ''/'' # rev p"
    using assms by (subst dropWhile_append2) auto
  then show ?thesis by simp
qed

lemma filepathDir_below:
  assumes dst: "pathClean dst = dst" "dst \<noteq> ''.''" "dst \<noteq> ''/''" and cs: "cs \<noteq> []" "list_all plain cs"
  shows "below dst (filepathDir (dst @ ''/'' @ joinStr ''/'' cs))"
proof -
  obtain bs c where b: "cs = bs @ [c]" using cs(1) by (cases cs rule: rev_cases) auto
  have c: "CHR ''/'' \<notin> set c" and bs: "list_all plain bs" using cs(2) b by (auto simp: plain_def)
  have ne: "dst \<noteq> ''''" using dst(1) pathClean_Nil by auto
  show ?thesis
  proof (cases "bs = []")
    case True
    then show ?thesis
      using dropWhile_rev_last [OF c, of dst] dst(1) pathClean_slash [OF ne]
      by (simp add: b filepathDir_def below_def)
  next
    case False
    let ?p = "dst @ ''/'' @ joinStr ''/'' bs"
    have "dst @ ''/'' @ joinStr ''/'' cs = ?p @ ''/'' @ c" using False by (simp add: b joinStr_append)
    then have "filepathDir (dst @ ''/'' @ joinStr ''/'' cs) = pathClean (?p @ ''/'')"
      unfolding filepathDir_def by (simp only: dropWhile_rev_last [OF c])
    also have "\<dots> = ?p" using pathClean_slash [of ?p] join_plain_below [OF dst False bs] by simp
    finally show ?thesis using False bs unfolding below_def by blast
  qed
qed

lemma clean_names_plain:
  assumes n: "\<not> isAbs name" "pathClean name \<noteq> ''.''" "\<not> climbs (pathClean name)"
  obtains cs where "cs \<noteq> []" "list_all plain cs" "pathClean name = joinStr ''/'' cs"
proof -
  let ?s = "cleanStack False [] (splitByte CHR ''/'' name)"
  note s = relative_clean_names [OF n]
  have "list_all plain (rev ?s)"
  proof (unfold list_all_iff, intro ballI)
    fix c assume "c \<in> set (rev ?s)"
    then have c: "c \<in> set ?s" by simp
    have "c \<noteq> '''' \<and> c \<noteq> ''.''" using cleanStack_plain [of "[]", OF _ c] by simp
    moreover have "c \<noteq> ''..''" using c s(2) by blast
    moreover have "CHR ''/'' \<notin> set c"
      using cleanStack_components [OF c] splitByte_no_sep by auto
    ultimately show "plain c" by (simp add: plain_def)
  qed
  moreover have "pathClean name = joinStr ''/'' (rev ?s)"
    using n(1) s(1) by (simp add: pathClean_def renderPath_def)
  ultimately show thesis using that [of "rev ?s"] s(1) by simp
qed

lemma valid_target:
  assumes v: "validateBuildArchivePath name = Inr u" and dst: "pathClean dst = dst" "dst \<noteq> ''.''" "dst \<noteq> ''/''"
  obtains cs where "cs \<noteq> []" "list_all plain cs" "filepathJoin dst name = dst @ ''/'' @ joinStr ''/'' cs"
proof -
  have n: "name \<noteq> ''''" "\<not> isAbs name" "pathClean name \<noteq> ''.''" "\<not> climbs (pathClean name)"
    using v by (auto simp: validateBuildArchivePath_def Let_def climbs_def split: if_splits)
  from n(2-4) show thesis
    by (rule clean_names_plain) (use that filepathJoin_below [OF dst n] in simp)
qed

section \<open>Extraction\<close>

lemma copyWithLimit_length: "copyWithLimit wErr src limit = (written, exceeded, err) \<Longrightarrow> length written \<le> nat limit"
  by (auto simp: copyWithLimit_def Let_def split: option.splits if_splits)

lemma copyWithLimit_complete:
  assumes "copyWithLimit wErr src limit = (written, False, None)"
  shows "written = rd_data src \<and> length (rd_data src) \<le> nat limit"
  using assms by (auto simp: copyWithLimit_def Let_def split: option.splits if_splits)

text \<open>The cases of one entry, for the proofs about the loop.\<close>

lemma extractLoop_Cons_cases:
  assumes "extractLoop dst m x (file # files) = (ops, err)"
  obtains (stop) "err \<noteq> None" "set ops \<subseteq> {MkdirAll p |p. validateBuildArchivePath (ze_Name file) = Inr () \<and>
        p \<in> {filepathJoin dst (ze_Name file), filepathDir (filepathJoin dst (ze_Name file))}}"
  | (dir) ops' where "validateBuildArchivePath (ze_Name file) = Inr ()" "ze_IsDir file"
      "extractLoop dst m x files = (ops', err)" "ops = MkdirAll (filepathJoin dst (ze_Name file)) # ops'"
  | (failed) written exceeded cerr tail where "validateBuildArchivePath (ze_Name file) = Inr ()"
      "\<not> ze_IsDir file" "err \<noteq> None" "x \<le> m"
      "copyWithLimit (ze_WriteErr file) (ze_Reader file) (m - x) = (written, exceeded, cerr)"
      "ops = MkdirAll (filepathDir (filepathJoin dst (ze_Name file))) # tail"
      "set tail \<subseteq> {WriteFile (filepathJoin dst (ze_Name file)) (extractedMode (ze_Perm file)) written,
         RemoveFile (filepathJoin dst (ze_Name file))}" "sum_list (map op_bytes tail) \<le> length written"
  | (kept) written ops' where "validateBuildArchivePath (ze_Name file) = Inr ()" "\<not> ze_IsDir file" "x \<le> m"
      "copyWithLimit (ze_WriteErr file) (ze_Reader file) (m - x) = (written, False, None)"
      "extractLoop dst m (x + int (length written)) files = (ops', err)"
      "ops = MkdirAll (filepathDir (filepathJoin dst (ze_Name file))) #
         WriteFile (filepathJoin dst (ze_Name file)) (extractedMode (ze_Perm file)) written # ops'"
proof (cases "validateBuildArchivePath (ze_Name file)")
  case (Inl e)
  then show thesis using assms by (intro stop) auto
next
  case (Inr u)
  obtain written exceeded cerr where c:
    "copyWithLimit (ze_WriteErr file) (ze_Reader file) (m - x) = (written, exceeded, cerr)"
    by (metis prod_cases3)
  show thesis
  proof (cases "ze_IsDir file")
    case True
    show thesis
    proof (cases "ze_MkdirErr file")
      case (Some e)
      then have "ops = [MkdirAll (filepathJoin dst (ze_Name file))] \<and> err = Some e" using assms Inr True by auto
      then show thesis using Inr by (intro stop) auto
    next
      case None
      obtain ops' err' where "extractLoop dst m x files = (ops', err')" by fastforce
      with None show thesis using assms Inr True by (intro dir [of ops']) auto
    qed
  next
    case nd: False
    show thesis
    proof (cases "m - x < 0 \<or> nat (m - x) < ze_UncompressedSize file \<or> ze_MkdirErr file \<noteq> None")
      case True
      then have "set ops \<subseteq> {MkdirAll (filepathDir (filepathJoin dst (ze_Name file)))} \<and> err \<noteq> None"
        using assms Inr nd by (auto simp: Let_def split: if_splits dest!: sym [of "Some _"])
      then show thesis using Inr by (intro stop) auto
    next
      case False
      show thesis
      proof (cases "ze_OpenErr file = None \<and> ze_CreateErr file = None \<and> cerr = None \<and> \<not> exceeded \<and> ze_CloseErr file = None")
        case True
        obtain ops' err' where r: "extractLoop dst m (x + int (length written)) files = (ops', err')" by fastforce
        show thesis
          by (rule kept [of written ops']) (use assms Inr nd False True c r in \<open>auto simp: Let_def\<close>)
      next
        case bad: False
        show thesis
          by (rule failed [of written exceeded cerr "tl ops"])
             (use assms Inr nd False bad c in \<open>auto simp: Let_def split: option.splits if_splits
                dest!: sym [of "Some _"]\<close>)
      qed
    qed
  qed
qed

lemma extractLoop_below:
  assumes dst: "pathClean dst = dst" "dst \<noteq> ''.''" "dst \<noteq> ''/''"
  shows "extractLoop dst m x files = (ops, err) \<Longrightarrow> op \<in> set ops \<Longrightarrow> below dst (op_path op)"
proof (induction files arbitrary: x ops)
  case (Cons f fs)
  have t: "below dst (filepathJoin dst (ze_Name f))" "below dst (filepathDir (filepathJoin dst (ze_Name f)))"
    if "validateBuildArchivePath (ze_Name f) = Inr ()"
    using valid_target [OF that dst] filepathDir_below [OF dst] unfolding below_def by metis+
  from Cons.prems(1) show ?case
  proof (cases rule: extractLoop_Cons_cases)
    case stop
    then obtain p where "op = MkdirAll p" "validateBuildArchivePath (ze_Name f) = Inr ()"
      "p \<in> {filepathJoin dst (ze_Name f), filepathDir (filepathJoin dst (ze_Name f))}"
      using Cons.prems(2) by blast
    then show ?thesis using t by auto
  next
    case (dir ops')
    then show ?thesis using Cons.prems(2) Cons.IH [OF dir(3)] t by auto
  next
    case (failed w ex ce tail)
    then show ?thesis using Cons.prems(2) t by auto
  next
    case (kept w ops')
    then show ?thesis using Cons.prems(2) Cons.IH [OF kept(5)] t by auto
  qed
qed simp

lemma extractLoop_bytes:
  "extractLoop dst m x files = (ops, err) \<Longrightarrow> 0 \<le> x \<Longrightarrow> x \<le> m \<Longrightarrow>
     int (sum_list (map op_bytes ops)) \<le> m - x"
proof (induction files arbitrary: x ops)
  case (Cons f fs)
  from Cons.prems(1) show ?case
  proof (cases rule: extractLoop_Cons_cases)
    case stop
    then have "\<forall>op \<in> set ops. op_bytes op = 0" by auto
    then have "int (sum_list (map op_bytes ops)) = 0" by simp
    then show ?thesis using Cons.prems(3) by linarith
  next
    case (dir ops')
    then show ?thesis using Cons.IH [OF dir(3)] Cons.prems by simp
  next
    case (failed w ex ce tail)
    then show ?thesis using copyWithLimit_length [OF failed(5)] by simp
  next
    case (kept w ops')
    have w: "int (length w) \<le> m - x" using copyWithLimit_length [OF kept(4)] kept(3) by simp
    then show ?thesis using Cons.IH [OF kept(5)] Cons.prems(2,3) by (simp add: kept(6))
  qed
qed simp

lemma extractZip_bytes:
  assumes "extractZip archive dst maxBytes maxFiles = (ops, err)" "0 \<le> maxBytes"
  shows "int (sum_list (map op_bytes ops)) \<le> maxBytes"
proof (cases archive)
  case (Inr files)
  then show ?thesis
    using assms extractLoop_bytes [of dst maxBytes 0 files ops err]
    by (auto simp: extractZip_def split: if_splits)
qed (use assms in \<open>auto simp: extractZip_def\<close>)

text \<open>
  An archive that can be extracted. The name of each entry is valid and no call fails on it: its
  directory is made, its data is read and written to its end, its file is closed. The files before an
  entry leave room for its declared and for its real size. The operations of such an entry make its
  directory and write its whole content.
\<close>

definition entryBytes :: "zipEntry \<Rightarrow> nat" where
  "entryBytes f = (if ze_IsDir f then 0 else length (rd_data (ze_Reader f)))"

definition healthyEntry :: "zipEntry \<Rightarrow> bool" where
  "healthyEntry f \<longleftrightarrow> validateBuildArchivePath (ze_Name f) = Inr () \<and> ze_MkdirErr f = None \<and>
     (ze_IsDir f \<or> ze_OpenErr f = None \<and> ze_CreateErr f = None \<and> ze_CloseErr f = None \<and> rd_err (ze_Reader f) = None \<and>
        (\<forall>n e. ze_WriteErr f = Some (n, e) \<longrightarrow> length (rd_data (ze_Reader f)) \<le> n))"

definition archiveFits :: "int \<Rightarrow> zipEntry list \<Rightarrow> bool" where
  "archiveFits m files \<longleftrightarrow> (\<forall>i < length files. \<not> ze_IsDir (files ! i) \<longrightarrow>
     int (sum_list (map entryBytes (take i files))) + int (max (ze_UncompressedSize (files ! i)) (entryBytes (files ! i))) \<le> m)"

definition entryOps :: "string \<Rightarrow> zipEntry \<Rightarrow> fs_op list" where
  "entryOps dst f = (let target = filepathJoin dst (ze_Name f) in
     if ze_IsDir f then [MkdirAll target]
     else [MkdirAll (filepathDir target), WriteFile target (extractedMode (ze_Perm f)) (rd_data (ze_Reader f))])"

lemma archiveFits_Nil [simp]: "archiveFits m []"
  by (simp add: archiveFits_def)

lemma archiveFits_Cons [simp]:
  "archiveFits m (f # fs) \<longleftrightarrow>
     (ze_IsDir f \<or> int (ze_UncompressedSize f) \<le> m \<and> int (entryBytes f) \<le> m) \<and> archiveFits (m - int (entryBytes f)) fs"
  unfolding archiveFits_def by (simp add: All_less_Suc2) (auto simp: algebra_simps)

text \<open>With the sizes that the archive declares being the real ones, the room is that of all files together.\<close>

lemma archiveFits_honest:
  assumes "\<forall>f \<in> set files. ze_IsDir f \<or> ze_UncompressedSize f = entryBytes f" "0 \<le> m"
  shows "archiveFits m files \<longleftrightarrow> int (sum_list (map entryBytes files)) \<le> m"
  using assms
proof (induction files arbitrary: m)
  case (Cons f fs)
  show ?case
  proof (cases "int (entryBytes f) \<le> m")
    case True
    then show ?thesis using Cons by auto
  next
    case False
    then have "\<not> ze_IsDir f" using Cons.prems(2) by (auto simp: entryBytes_def)
    then show ?thesis using False by auto
  qed
qed simp

lemma copyWithLimit_healthy:
  assumes "0 \<le> limit"
  shows "copyWithLimit wErr src limit = (written, False, None) \<longleftrightarrow>
    written = rd_data src \<and> int (length (rd_data src)) \<le> limit \<and> rd_err src = None \<and>
    (\<forall>n e. wErr = Some (n, e) \<longrightarrow> length (rd_data src) \<le> n)"
  using assms by (auto simp: copyWithLimit_def Let_def min_def split: option.splits if_splits)

lemma extractLoop_entry:
  "extractLoop dst m x (f # fs) = (ops, None) \<longleftrightarrow>
     healthyEntry f \<and> (ze_IsDir f \<or> x + int (ze_UncompressedSize f) \<le> m \<and> x + int (entryBytes f) \<le> m) \<and>
     (\<exists>ops'. extractLoop dst m (x + int (entryBytes f)) fs = (ops', None) \<and> ops = entryOps dst f @ ops')"
proof (cases "validateBuildArchivePath (ze_Name f) = Inr () \<and> ze_MkdirErr f = None")
  case False
  then show ?thesis
    by (cases "validateBuildArchivePath (ze_Name f)") (auto simp: healthyEntry_def Let_def split: option.splits if_splits)
next
  case ok: True
  show ?thesis
  proof (cases "ze_IsDir f")
    case True
    then show ?thesis using ok by (auto simp: healthyEntry_def entryOps_def entryBytes_def Let_def split: prod.splits)
  next
    case False
    obtain w exc cerr where c: "copyWithLimit (ze_WriteErr f) (ze_Reader f) (m - x) = (w, exc, cerr)"
      by (metis prod_cases3)
    have "extractLoop dst m x (f # fs) = (ops, None) \<longleftrightarrow>
        x + int (ze_UncompressedSize f) \<le> m \<and> ze_OpenErr f = None \<and> ze_CreateErr f = None \<and> ze_CloseErr f = None \<and>
        copyWithLimit (ze_WriteErr f) (ze_Reader f) (m - x) = (w, False, None) \<and>
        (\<exists>ops'. extractLoop dst m (x + int (length w)) fs = (ops', None) \<and> ops =
           MkdirAll (filepathDir (filepathJoin dst (ze_Name f))) #
           WriteFile (filepathJoin dst (ze_Name f)) (extractedMode (ze_Perm f)) w # ops')"
      using ok False c by (auto simp: Let_def split: option.splits if_splits prod.splits)
    also have "\<dots> \<longleftrightarrow> healthyEntry f \<and> (x + int (ze_UncompressedSize f) \<le> m \<and> x + int (entryBytes f) \<le> m) \<and>
        (\<exists>ops'. extractLoop dst m (x + int (entryBytes f)) fs = (ops', None) \<and> ops = entryOps dst f @ ops')"
    proof (cases "x \<le> m")
      case True
      note h = copyWithLimit_healthy [of "m - x" "ze_WriteErr f" "ze_Reader f"]
      have hw: "(w, exc, cerr) = (w, False, None) \<longleftrightarrow> w = rd_data (ze_Reader f) \<and> int (length (rd_data (ze_Reader f))) \<le> m - x \<and>
          rd_err (ze_Reader f) = None \<and> (\<forall>n e. ze_WriteErr f = Some (n, e) \<longrightarrow> length (rd_data (ze_Reader f)) \<le> n)"
        using h [of w] True c by simp
      show ?thesis
      proof (cases "exc \<or> cerr \<noteq> None")
        case bad: True
        have "\<not> (int (length (rd_data (ze_Reader f))) \<le> m - x \<and>
          rd_err (ze_Reader f) = None \<and> (\<forall>n e. ze_WriteErr f = Some (n, e) \<longrightarrow> length (rd_data (ze_Reader f)) \<le> n))"
          using h [of "rd_data (ze_Reader f)"] True c bad by auto
        then show ?thesis using bad c False by (auto simp: healthyEntry_def entryBytes_def)
      next
        case good: False
        then show ?thesis using c hw ok False by (auto simp: healthyEntry_def entryBytes_def entryOps_def Let_def)
      qed
    qed auto
    finally show ?thesis using False by simp
  qed
qed

lemma extractLoop_exact:
  "extractLoop dst m x files = (ops, None) \<longleftrightarrow>
     list_all healthyEntry files \<and> archiveFits (m - x) files \<and> ops = concat (map (entryOps dst) files)"
proof (induction files arbitrary: x ops)
  case (Cons f fs)
  have "archiveFits (m - x - int (entryBytes f)) fs \<longleftrightarrow> archiveFits (m - (x + int (entryBytes f))) fs"
    by (simp add: algebra_simps)
  then show ?case by (subst extractLoop_entry) (auto simp: Cons)
qed auto

section \<open>The log\<close>

text \<open>
  The contract of the destination of a build's output: it answers every write with its full length
  and keeps an initial part of everything written.
\<close>

locale bounded_sink =
  fixes emit :: "string \<Rightarrow> 'w \<Rightarrow> 'w \<times> nat \<times> go_error option"
    and contents :: "'w \<Rightarrow> string"
    and room :: "'w \<Rightarrow> nat"
  assumes write_ok: "emit d w = (w', n, e) \<Longrightarrow> n = length d \<and> e = None"
    and write_contents: "emit d w = (w', n, e) \<Longrightarrow> contents w' = contents w @ take (room w) d"
    and write_room: "emit d w = (w', n, e) \<Longrightarrow> room w' = room w - length d"
begin

definition write_all :: "string list \<Rightarrow> 'w \<Rightarrow> 'w" where
  "write_all ds w = foldl (\<lambda>w d. fst (emit d w)) w ds"

lemma write_all_contents: "contents (write_all ds w) = contents w @ take (room w) (concat ds)"
proof (induction ds arbitrary: w)
  case (Cons d ds)
  obtain w' n e where w: "emit d w = (w', n, e)" by (metis prod_cases3)
  have "write_all (d # ds) w = write_all ds w'" by (simp add: write_all_def w)
  then show ?case
    using Cons [of w'] write_contents [OF w] write_room [OF w] by simp
qed (simp add: write_all_def)

end

abbreviation healthy :: "string \<Rightarrow> nat \<times> go_error option" where
  "healthy d \<equiv> (length d, None)"

interpretation build_log: bounded_sink "logWrite healthy" lw_out "\<lambda>w. nat (lw_remaining w)"
  by unfold_locales (auto simp: logWrite_def Let_def split: if_splits)

lemma logWrite_bound:
  assumes "\<And>d. fst (wr d) \<le> length d" "logWrite wr d w = (w', n, e)" "0 \<le> lw_remaining w"
  shows "0 \<le> lw_remaining w' \<and> int (length (lw_out w')) + lw_remaining w' = int (length (lw_out w)) + lw_remaining w"
proof (cases "lw_remaining w \<le> 0 \<or> d = []")
  case True
  then show ?thesis using assms(2,3) by (auto simp: logWrite_def)
next
  case False
  let ?d = "if int (length d) > lw_remaining w then take (nat (lw_remaining w)) d else d"
  obtain k er where k: "wr ?d = (k, er)" by fastforce
  have le: "k \<le> length ?d" using assms(1) [of ?d] k by simp
  have "w' = w\<lparr>lw_out := lw_out w @ take k ?d, lw_remaining := lw_remaining w - int k\<rparr>"
    using assms(2) False k by (auto simp: logWrite_def Let_def split: if_splits)
  moreover have "length (take k ?d) = k" using le by simp
  moreover have "int k \<le> lw_remaining w" using le False by (auto split: if_splits)
  ultimately show ?thesis by simp
qed

section \<open>Properties\<close>

definition demoEntry :: "string \<Rightarrow> string \<Rightarrow> zipEntry" where
  "demoEntry name content = \<lparr>ze_Name = name, ze_IsDir = False, ze_UncompressedSize = length content, ze_Perm = 420,
     ze_Reader = \<lparr>rd_data = content, rd_err = None\<rparr>, ze_MkdirErr = None, ze_OpenErr = None,
     ze_CreateErr = None, ze_WriteErr = None, ze_CloseErr = None\<rparr>"

lemma validateBuildArchivePath_a: "validateBuildArchivePath ''a'' = Inr ()"
  by code_simp

text \<open>
  C12. Extraction stays in its directory. Whatever the names in an uploaded archive, every directory
  made, file written and file removed by the extraction is the destination or lies below it, with no
  parent component on the way, for a destination that is a clean path other than the root or the
  working directory.
\<close>

theorem extractZip_contained:
  assumes "extractZip archive dst maxBytes maxFiles = (ops, err)" "op \<in> set ops"
    and "pathClean dst = dst" "dst \<noteq> ''.''" "dst \<noteq> ''/''"
  shows "op_path op = dst \<or>
    (\<exists>cs. cs \<noteq> [] \<and> list_all plain cs \<and> op_path op = dst @ ''/'' @ joinStr ''/'' cs)"
proof -
  obtain files where "extractLoop dst maxBytes 0 files = (ops, err)"
    using assms(1,2) by (auto simp: extractZip_def split: sum.splits if_splits)
  from extractLoop_below [OF assms(3-5) this assms(2)] show ?thesis by (simp add: below_def)
qed

theorem extractZip_contained_witness:
  "\<exists>ops err. extractZip (Inr [demoEntry ''a/./b'' ''xy'']) ''/w/1'' 10 5 = (ops, err) \<and>
     WriteFile ''/w/1/a/b'' 420 ''xy'' \<in> set ops \<and> below ''/w/1'' (op_path (WriteFile ''/w/1/a/b'' 420 ''xy''))"
proof -
  have r: "extractZip (Inr [demoEntry ''a/./b'' ''xy'']) ''/w/1'' 10 5 =
      ([MkdirAll ''/w/1/a'', WriteFile ''/w/1/a/b'' 420 ''xy''], None)" by code_simp
  moreover have "below ''/w/1'' (op_path (WriteFile ''/w/1/a/b'' 420 ''xy''))"
    unfolding below_def by (rule extractZip_contained [OF r]) (simp, code_simp+)
  ultimately show ?thesis by simp
qed

text \<open>
  The byte limit of an extraction. The bytes an extraction writes, also when it ends with an
  error in the middle of a file, never exceed the limit, whatever sizes the archive declares.
\<close>

theorem extractZip_bounded:
  assumes "extractZip archive dst maxBytes maxFiles = (ops, err)" "0 \<le> maxBytes"
  shows "int (sum_list (map op_bytes ops)) \<le> maxBytes"
  by (rule extractZip_bytes [OF assms])

theorem extractZip_bounded_witness:
  "int (sum_list (map op_bytes (fst (extractZip (Inr [demoEntry ''a'' ''xyz'', demoEntry ''b'' ''uvw'']) ''/w/1'' 4 5)))) \<le> 4"
  by (rule extractZip_bounded) (rule prod.collapse [symmetric], simp)

text \<open>
  C13. Exactly the healthy archives within the limits are extracted, and completely. An extraction
  returns no error with the operations \<open>ops\<close> exactly when the archive opens, has at most as many entries
  as allowed, each entry has a valid name and no call fails on it, each file fits with its declared and
  its real size into what the files before it leave of the byte limit, and \<open>ops\<close> make the directory
  of each directory entry and write the whole content of each file at its own place under its mode, in
  the order of the archive, and nothing else. If the declared sizes are the real ones, the files fit
  exactly when they do all together.
\<close>

theorem extractZip_complete:
  "(extractZip archive dst maxBytes maxFiles = (ops, None) \<longleftrightarrow>
     (\<exists>files. archive = Inr files \<and> int (length files) \<le> maxFiles \<and> list_all healthyEntry files \<and>
        archiveFits maxBytes files \<and> ops = concat (map (entryOps dst) files))) \<and>
   ((\<forall>f \<in> set files. ze_IsDir f \<or> ze_UncompressedSize f = entryBytes f) \<and> 0 \<le> maxBytes \<longrightarrow>
     (archiveFits maxBytes files \<longleftrightarrow> int (sum_list (map entryBytes files)) \<le> maxBytes))"
  using extractLoop_exact [of dst maxBytes 0 _ ops] archiveFits_honest [of files maxBytes]
  by (auto simp: extractZip_def not_less split: sum.splits if_splits)

theorem extractZip_complete_witness:
  "extractZip (Inr [demoEntry ''a'' ''xyz'']) ''/w/1'' 3 5 = ([MkdirAll ''/w/1'', WriteFile ''/w/1/a'' 420 ''xyz''], None)"
proof -
  let ?fs = "[demoEntry ''a'' ''xyz'']"
  have ops: "entryOps ''/w/1'' (demoEntry ''a'' ''xyz'') = [MkdirAll ''/w/1'', WriteFile ''/w/1/a'' 420 ''xyz'']" by code_simp
  have "list_all healthyEntry ?fs"
    using validateBuildArchivePath_a by (simp add: healthyEntry_def demoEntry_def)
  moreover have "archiveFits 3 ?fs"
    using extractZip_complete [of "Inr ?fs" "''/w/1''" 3 5 "[]" ?fs] by (simp add: demoEntry_def entryBytes_def)
  ultimately show ?thesis
    using extractZip_complete [of "Inr ?fs" "''/w/1''" 3 5 "[MkdirAll ''/w/1'', WriteFile ''/w/1/a'' 420 ''xyz'']"] ops by auto
qed

text \<open>
  The build log keeps the beginning of the output. Over a writer that takes what it is given, any
  sequence of writes leaves exactly the first bytes of the output up to the limit, and every write
  reports its full length, so that a long log never fails a build.
\<close>

theorem log_keeps_prefix:
  "lw_out (foldl (\<lambda>w d. fst (logWrite healthy d w)) \<lparr>lw_out = '''', lw_remaining = n\<rparr> ds) = take (nat n) (concat ds) \<and>
   snd (logWrite healthy d w) = (length d, None)"
proof -
  obtain w' k e where r: "logWrite healthy d w = (w', k, e)" by (metis prod_cases3)
  show ?thesis
    using build_log.write_all_contents [of ds "\<lparr>lw_out = '''', lw_remaining = n\<rparr>"] build_log.write_ok [OF r] r
    by (simp add: build_log.write_all_def)
qed

text \<open>
  The tail of a log is its last bytes: what \<^verbatim>\<open>tailFile\<close> returns is an end part of the file, as long
  as the limit or the whole file, whichever is shorter.
\<close>

lemma tailFile_suffix:
  assumes "tailFile (Inr content) maxBytes = Inr out" "0 < maxBytes"
  shows "suffix out content \<and> int (length out) = min maxBytes (int (length content))"
  using assms by (auto simp: tailFile_def Let_def suffix_drop)

text \<open>
  The scheduling key is a function of the context's files: two walks that find the same files,
  with the same contents, in any order, give the same key.
\<close>

theorem schedule_key_order_irrelevant:
  assumes "contextFiles walk = Inr files" "contextFiles walk' = Inr files'" "mset files = mset files'"
    and "distinct (map fst files)"
  shows "sourceContextContentHash sha walk = sourceContextContentHash sha walk'"
proof -
  have "sort_key fst files = sort_key fst files'"
  proof (rule properties_for_sort_key [symmetric])
    show "mset (sort_key fst files) = mset files'" using assms(3) by simp
    fix k assume "k \<in> set (sort_key fst files)"
    show "filter (\<lambda>x. fst k = fst x) (sort_key fst files) = filter (\<lambda>x. fst k = fst x) files'"
    proof -
      have one: "filter (\<lambda>x. fst k = fst x) xs = [k]" if "k \<in> set xs" "distinct (map fst xs)" for xs :: "(string \<times> context_file) list"
        using that by (induction xs) (auto simp: filter_empty_conv image_iff)
      have "k \<in> set files" using \<open>k \<in> set (sort_key fst files)\<close> by simp
      moreover have "distinct (map fst files')"
        using assms(3,4) by (metis mset_eq_imp_distinct_iff mset_map)
      moreover have "distinct (map fst (sort_key fst files))"
        using assms(4) by (metis mset_eq_imp_distinct_iff mset_map mset_sort)
      ultimately show ?thesis
        using one [of files'] one [of "sort_key fst files"] mset_eq_setD [OF assms(3)] by simp
    qed
  qed simp
  then show ?thesis using assms(1,2) by (simp add: sourceContextContentHash_def)
qed

definition demoFile :: "string \<Rightarrow> string \<Rightarrow> walk_entry" where
  "demoFile rel content = WalkRegular rel (Inr (int (length content)))
     \<lparr>cf_OpenErr = None, cf_Content = Inr content, cf_CloseErr = None\<rparr>"

theorem schedule_key_order_irrelevant_witness:
  "sourceContextContentHash rev [demoFile ''a'' ''x'', demoFile ''b'' ''y''] =
   sourceContextContentHash rev [demoFile ''b'' ''y'', demoFile ''a'' ''x'']"
proof -
  let ?f = "\<lambda>c. \<lparr>cf_OpenErr = None, cf_Content = Inr c, cf_CloseErr = None\<rparr> :: context_file"
  have "contextFiles [demoFile ''a'' ''x'', demoFile ''b'' ''y''] = Inr [(''a'', ?f ''x''), (''b'', ?f ''y'')]"
    "contextFiles [demoFile ''b'' ''y'', demoFile ''a'' ''x''] = Inr [(''b'', ?f ''y''), (''a'', ?f ''x'')]"
    by (simp_all add: demoFile_def)
  then show ?thesis by (rule schedule_key_order_irrelevant) simp_all
qed

text \<open>
  The key does not separate all contexts: file names and contents are joined by zero bytes, which a
  file may contain, so one file can look like two.
\<close>

lemma schedule_key_collision:
  "sourceContextContentHash sha [demoFile ''a'' ''x'', demoFile ''b'' ''y''] =
   sourceContextContentHash sha [demoFile ''a'' [CHR ''x'', CHR 0x00, CHR ''b'', CHR 0x00, CHR ''y'']]"
  by (simp add: sourceContextContentHash_def demoFile_def)

end
