(* ===== verification/Heredoc.thy ===== *)
theory Heredoc
  imports Build_Steps
begin

text \<open>
  The Dockerfile preprocessor of \<^verbatim>\<open>pkg/dockerfilepreprocess\<close>, which both programs run on a Dockerfile
  before a build: it rewrites a \<^verbatim>\<open>RUN cat > path <<EOF\<close> instruction to a \<^verbatim>\<open>COPY <<EOF path\<close> and
  refuses the heredocs it cannot rewrite.

  BuildKit's Dockerfile parser and word lexer, the shell parser and the JSON validator are libraries;
  \<open>dockerfile_lib\<close> holds what the code calls of them. The three regular expressions are matched from
  left to right by the functions below: each repeated character class is disjoint from what follows
  it, so the leftmost greedy match is the only one. The loop over line indices is a recursion over the
  remaining lines.
\<close>

section \<open>The libraries\<close>

record heredoc =
  hd_Name :: string
  hd_Chomp :: bool

text \<open>
  \<open>dl_ParseLine\<close>: the stateful directive parser, with the name and value of a directive.
  \<open>dl_Parse\<close>: for each instruction of a parsed Dockerfile, whether it is in JSON form.
  \<open>dl_Redirects\<close>: the operator and the word of each heredoc redirection in the syntax tree of a
  command, in the order of the walk, and the error of the parser.
\<close>

record 'd dockerfile_lib =
  dl_ParseLine :: "'d \<Rightarrow> string \<Rightarrow> ('d \<times> (string \<times> string) option) result"
  dl_jsonValid :: "string \<Rightarrow> bool"
  dl_Parse :: "string \<Rightarrow> bool list result"
  dl_Redirects :: "string \<Rightarrow> (string \<times> string) list \<times> go_error option"
  dl_ParseHeredoc :: "string \<Rightarrow> heredoc option result"
  dl_ProcessWords :: "string \<Rightarrow> string list result"

section \<open>Lines and instructions\<close>

definition isBlank :: "char \<Rightarrow> bool" where
  "isBlank c \<longleftrightarrow> c = CHR '' '' \<or> c = CHR 0x09"

definition newline :: char where
  "newline = CHR 0x0A"

text \<open>\<^verbatim>\<open>strings.SplitAfter(content, "\n")\<close> without the empty part after a final newline.\<close>

fun splitDockerfileLines :: "string \<Rightarrow> string list" where
  "splitDockerfileLines [] = []"
| "splitDockerfileLines (c # s) =
     (if c = newline then [c] # splitDockerfileLines s
      else case splitDockerfileLines s of [] \<Rightarrow> [[c]] | l # ls \<Rightarrow> (c # l) # ls)"

definition splitInstruction :: "string \<Rightarrow> string \<times> string" where
  "splitInstruction header0 =
     (let header = trimSpace header0; word = takeWhile (\<lambda>c. \<not> isBlank c) header in
      if length word < length header then (toUpper word, trimSpace (drop (Suc (length word)) header))
      else (toUpper header, ''''))"

text \<open>
  \<^verbatim>\<open>instructionHeader\<close>: the joined header and the number of lines it takes; \<open>first\<close> tells whether the
  loop is at its first line.
\<close>

fun headerLoop :: "char \<Rightarrow> bool \<Rightarrow> string \<Rightarrow> string list \<Rightarrow> string \<times> nat" where
  "headerLoop escape first header [] = (header, 0)"
| "headerLoop escape first header (l # ls) =
     (let line = trimRightFunc (\<lambda>c. c = CHR 0x0D \<or> c = newline) l in
      if hasPrefix (trimSpace line) ''#'' \<or> trimSpace line = '''' then
        (if first then (line, 1) else (case headerLoop escape False header ls of (h, n) \<Rightarrow> (h, Suc n)))
      else
        let trimmed = trimRightFunc isBlank line; n = length trimmed in
        if 0 < n \<and> trimmed ! (n - 1) = escape \<and> (n = 1 \<or> trimmed ! (n - 2) \<noteq> escape) then
          (case headerLoop escape False (header @ take (n - 1) trimmed) ls of (h, k) \<Rightarrow> (h, Suc k))
        else (header @ line, 1))"

definition instructionHeader :: "char \<Rightarrow> string list \<Rightarrow> string \<times> nat" where
  "instructionHeader escape lines = headerLoop escape True '''' lines"

fun findHeredocEnd :: "string \<Rightarrow> bool \<Rightarrow> string list \<Rightarrow> nat option" where
  "findHeredocEnd delimiter stripTabs [] = None"
| "findHeredocEnd delimiter stripTabs (l # ls) =
     (let line = trimSuffix (trimSuffix l [newline]) [CHR 0x0D];
          candidate = (if stripTabs then dropWhile (\<lambda>c. c = CHR 0x09) line else line)
      in if candidate = delimiter then Some 0 else map_option Suc (findHeredocEnd delimiter stripTabs ls))"

text \<open>The loop over the heredocs of an instruction: the lines their bodies take, or the delimiter that is missing.\<close>

fun skipHeredocs :: "heredoc list \<Rightarrow> string list \<Rightarrow> string + nat" where
  "skipHeredocs [] ls = Inr 0"
| "skipHeredocs (d # ds) ls = (case findHeredocEnd (hd_Name d) (hd_Chomp d) ls of
      None \<Rightarrow> Inl (hd_Name d)
    | Some e \<Rightarrow> (case skipHeredocs ds (drop (Suc e) ls) of Inl n \<Rightarrow> Inl n | Inr k \<Rightarrow> Inr (Suc e + k)))"

section \<open>The patterns\<close>

definition isIdentStart :: "char \<Rightarrow> bool" where
  "isIdentStart c \<longleftrightarrow> (let n = (of_char c :: nat) in 65 \<le> n \<and> n \<le> 90 \<or> 97 \<le> n \<and> n \<le> 122) \<or> c = CHR ''_''"

definition isIdentChar :: "char \<Rightarrow> bool" where
  "isIdentChar c \<longleftrightarrow> isIdentStart c \<or> isDigit c"

text \<open>
  Pieces of the patterns; each returns what it matched and the rest. \<open>literal\<close>: the text itself.
  \<open>blanks1\<close>: one or more blanks. \<open>blanks\<close>: any number. \<open>word1\<close>: one or more other characters.
\<close>

definition literal :: "string \<Rightarrow> string \<Rightarrow> string option" where
  "literal p s = (if hasPrefix s p then Some (drop (length p) s) else None)"

definition blanks1 :: "string \<Rightarrow> string option" where
  "blanks1 s = (case s of c # _ \<Rightarrow> if isBlank c then Some (dropWhile isBlank s) else None | [] \<Rightarrow> None)"

definition word1 :: "string \<Rightarrow> (string \<times> string) option" where
  "word1 s = (case s of
      c # _ \<Rightarrow> if isBlank c then None else Some (takeWhile (\<lambda>c. \<not> isBlank c) s, dropWhile (\<lambda>c. \<not> isBlank c) s)
    | [] \<Rightarrow> None)"

definition optQuote :: "string \<Rightarrow> string \<times> string" where
  "optQuote s = (case s of
      c # cs \<Rightarrow> if c = CHR 0x27 \<or> c = CHR 0x22 then ([c], cs) else ([], s)
    | [] \<Rightarrow> ([], s))"

text \<open>\<open><<(-?)[ \t]*(['"]?)(ident)(['"]?)\<close>: the dash, the two quotes, the name and the rest.\<close>

definition heredocOperator :: "string \<Rightarrow> (string \<times> string \<times> string \<times> string \<times> string) option" where
  "heredocOperator s = (case literal ''<<'' s of
      None \<Rightarrow> None
    | Some s1 \<Rightarrow>
        (let (dash, s2) = (case literal ''-'' s1 of Some r \<Rightarrow> (''-'', r) | None \<Rightarrow> ('''', s1));
             (q1, s3) = optQuote (dropWhile isBlank s2) in
         case s3 of
           [] \<Rightarrow> None
         | c # cs \<Rightarrow>
             if \<not> isIdentStart c then None
             else
               let (q2, s4) = optQuote (dropWhile isIdentChar s3)
               in Some (dash, q1, takeWhile isIdentChar s3, q2, s4)))"

definition runCat :: "string \<Rightarrow> (string \<times> string) option" where
  "runCat line = (case literal ''RUN'' (dropWhile isBlank line) of
      None \<Rightarrow> None
    | Some s1 \<Rightarrow> (case blanks1 s1 of None \<Rightarrow> None
    | Some s2 \<Rightarrow> (case literal ''cat'' s2 of None \<Rightarrow> None
    | Some s3 \<Rightarrow> (case blanks1 s3 of None \<Rightarrow> None
    | Some s4 \<Rightarrow> Some (takeWhile isBlank line, s4)))))"

record legacyHeredocSpec =
  lh_indent :: string
  lh_target :: string
  lh_delimiterToken :: string

text \<open>The matches of the three patterns: \<open>RUN cat > target <<EOF\<close>, \<open>RUN cat <<EOF > target\<close> and \<open>RUN cat >> target <<\<close>.\<close>

definition runCatRedirectHeredoc :: "string \<Rightarrow> (string \<times> string \<times> string \<times> string \<times> string \<times> string) option" where
  "runCatRedirectHeredoc line = (case runCat line of None \<Rightarrow> None
    | Some (indent, s1) \<Rightarrow> (case literal ''>'' s1 of None \<Rightarrow> None
    | Some s2 \<Rightarrow> (case blanks1 s2 of None \<Rightarrow> None
    | Some s3 \<Rightarrow> (case word1 s3 of None \<Rightarrow> None
    | Some (target, s4) \<Rightarrow> (case blanks1 s4 of None \<Rightarrow> None
    | Some s5 \<Rightarrow> (case heredocOperator s5 of None \<Rightarrow> None
    | Some (dash, q1, name, q2, s6) \<Rightarrow>
        if dropWhile isBlank s6 = '''' then Some (indent, target, dash, q1, name, q2) else None))))))"

definition runCatHeredocRedirect :: "string \<Rightarrow> (string \<times> string \<times> string \<times> string \<times> string \<times> string) option" where
  "runCatHeredocRedirect line = (case runCat line of None \<Rightarrow> None
    | Some (indent, s1) \<Rightarrow> (case heredocOperator s1 of None \<Rightarrow> None
    | Some (dash, q1, name, q2, s2) \<Rightarrow> (case blanks1 s2 of None \<Rightarrow> None
    | Some s3 \<Rightarrow> (case literal ''>'' s3 of None \<Rightarrow> None
    | Some s4 \<Rightarrow> (case blanks1 s4 of None \<Rightarrow> None
    | Some s5 \<Rightarrow> (case word1 s5 of None \<Rightarrow> None
    | Some (target, s6) \<Rightarrow>
        if dropWhile isBlank s6 = '''' then Some (indent, target, dash, q1, name, q2) else None))))))"

definition runCatAppendHeredoc :: "string \<Rightarrow> bool" where
  "runCatAppendHeredoc line = (case runCat line of None \<Rightarrow> False
    | Some (indent, s1) \<Rightarrow> (case literal ''>>'' s1 of None \<Rightarrow> False
    | Some s2 \<Rightarrow> (case blanks1 s2 of None \<Rightarrow> False
    | Some s3 \<Rightarrow> (case word1 s3 of None \<Rightarrow> False
    | Some (target, s4) \<Rightarrow> (case blanks1 s4 of None \<Rightarrow> False
    | Some s5 \<Rightarrow> literal ''<<'' s5 \<noteq> None)))))"

definition parseLegacyCatHeredoc :: "string \<Rightarrow> nat \<Rightarrow> legacyHeredocSpec option result" where
  "parseLegacyCatHeredoc line lineNumber =
     (let mismatch = Inl (Errorf (''line '' @ showNat lineNumber @ '': mismatched heredoc delimiter quotes''));
          spec = (\<lambda>(indent, target, dash, q1, name, q2).
            if q1 \<noteq> q2 then mismatch
            else Inr (Some \<lparr>lh_indent = indent, lh_target = target, lh_delimiterToken = dash @ q1 @ name @ q2\<rparr>))
      in case runCatRedirectHeredoc line of
           Some m \<Rightarrow> spec m
         | None \<Rightarrow> (case runCatHeredocRedirect line of Some m \<Rightarrow> spec m | None \<Rightarrow> Inr None))"

section \<open>Heredocs of an instruction\<close>

definition jsonCommand :: "'d dockerfile_lib \<Rightarrow> string \<Rightarrow> bool" where
  "jsonCommand lib command =
     (if dl_jsonValid lib command then True
      else if \<not> hasPrefix command ''--'' \<or> \<not> containsStr command ''['' then False
      else case dl_Parse lib (''RUN '' @ command @ [newline]) of
        Inl e \<Rightarrow> False
      | Inr children \<Rightarrow> length children = 1 \<and> children ! 0)"

text \<open>The callback of the walk: the documents found and the last error of the heredoc parser.\<close>

fun walkRedirects :: "'d dockerfile_lib \<Rightarrow> (string \<times> string) list \<Rightarrow> heredoc list \<times> go_error option" where
  "walkRedirects lib [] = ([], None)"
| "walkRedirects lib ((op0, word) # rs) =
     (let (docs, err) = walkRedirects lib rs in
      case dl_ParseHeredoc lib (op0 @ '' '' @ word) of
        Inl e \<Rightarrow> (docs, if err = None then Some e else err)
      | Inr None \<Rightarrow> (docs, err)
      | Inr (Some d) \<Rightarrow> (d # docs, err))"

definition instructionHeredocs :: "'d dockerfile_lib \<Rightarrow> string \<Rightarrow> heredoc list result" where
  "instructionHeredocs lib command =
     (if \<not> containsStr command ''<<'' \<or> jsonCommand lib command then Inr []
      else
        let (redirects, shellErr) = dl_Redirects lib command; (docs, parseErr) = walkRedirects lib redirects in
        case (docs, shellErr) of
          ([], Some e) \<Rightarrow> Inl (GoError (''cannot validate heredoc header: '' @ err_text e @
              ''; use native COPY heredoc with separate RUN instructions'') (err_chain e))
        | _ \<Rightarrow> (case parseErr of Some e \<Rightarrow> Inl e | None \<Rightarrow> Inr docs))"

fun parseWordHeredocs :: "'d dockerfile_lib \<Rightarrow> string list \<Rightarrow> heredoc list result" where
  "parseWordHeredocs lib [] = Inr []"
| "parseWordHeredocs lib (word # ws) = (case dl_ParseHeredoc lib word of
      Inl e \<Rightarrow> Inl e
    | Inr doc \<Rightarrow>
        (case parseWordHeredocs lib ws of
           Inl e \<Rightarrow> Inl e
         | Inr docs \<Rightarrow> Inr ((case doc of Some d \<Rightarrow> [d] | None \<Rightarrow> []) @ docs)))"

definition dockerfileHeredocs :: "'d dockerfile_lib \<Rightarrow> string \<Rightarrow> heredoc list result" where
  "dockerfileHeredocs lib command =
     (if \<not> containsStr command ''<<'' \<or> jsonCommand lib command then Inr []
      else case dl_ProcessWords lib command of
        Inl e \<Rightarrow> Inl e
      | Inr words \<Rightarrow> parseWordHeredocs lib words)"

definition nativeRunHeredoc :: "'d dockerfile_lib \<Rightarrow> string \<Rightarrow> bool" where
  "nativeRunHeredoc lib command = (case dl_ProcessWords lib command of
      Inl e \<Rightarrow> False
    | Inr words \<Rightarrow>
        (case dropWhile (\<lambda>w. hasPrefix w ''--'') words of
           [] \<Rightarrow> False
         | w # _ \<Rightarrow> hasPrefix w ''<<'' \<and> \<not> hasPrefix w ''<<<''))"

section \<open>The transformation\<close>

definition shellSyntax :: string where
  "shellSyntax = ''$`'' @ [CHR 0x5C, CHR 0x22, CHR 0x27] @ ''~*?[]{};&|<>()''"

definition lineErr :: "nat \<Rightarrow> go_error \<Rightarrow> go_error" where
  "lineErr start e = wrapErr (''Dockerfile line '' @ showNat (Suc start)) e"

definition copyLine :: "legacyHeredocSpec \<Rightarrow> string" where
  "copyLine spec = lh_indent spec @ ''COPY <<'' @ lh_delimiterToken spec @ '' '' @ lh_target spec @ [newline]"

definition unsupportedHeredoc :: "string \<Rightarrow> go_error" where
  "unsupportedHeredoc name = Errorf (''unsupported RUN heredoc '' @ quoteStr name @
     ''; shell command chains, append redirects and other complex forms cannot be safely rewritten; '' @
     ''split file creation into a standalone RUN cat > /path <<'' @ [CHR 0x27] @ ''EOF'' @ [CHR 0x27] @
     '', or use native COPY <<'' @ [CHR 0x27] @ ''EOF'' @ [CHR 0x27] @ '' /path with separate RUN instructions'')"

text \<open>
  What the loop does with the instruction at the head of the remaining lines: the lines it emits,
  how many lines it takes, and whether it rewrote them. \<open>start\<close> is the index of the first line.
\<close>

definition transformInstruction ::
    "'d dockerfile_lib \<Rightarrow> char \<Rightarrow> nat \<Rightarrow> string list \<Rightarrow> (string list \<times> nat \<times> bool) result" where
  "transformInstruction lib escape start lines =
     (let (plain0, n) = instructionHeader escape lines;
          (instruction0, command0) = splitInstruction plain0;
          onbuild = (instruction0 = ''ONBUILD'');
          (instruction, command) = (if onbuild then splitInstruction command0 else (instruction0, command0)) in
      if instruction \<noteq> ''RUN'' \<and> instruction \<noteq> ''COPY'' \<and> instruction \<noteq> ''ADD''
      then Inr (take n lines, n, False)
      else
        let plain = takeWhile isBlank plain0 @ instruction @ '' '' @ trimSpace command in
        if runCatAppendHeredoc plain then
          Inl (Errorf (''line '' @ showNat (Suc start) @ '': append heredoc with cat >> is not supported; '' @
            ''use Dockerfile COPY heredoc or split the append into an explicit RUN''))
        else case parseLegacyCatHeredoc plain (Suc start) of
          Inl e \<Rightarrow> Inl e
        | Inr found \<Rightarrow>
            (let spec = (case found of
                 Some s \<Rightarrow> if onbuild \<or> containsAny (lh_target s) shellSyntax then None else Some s
               | None \<Rightarrow> None) in
             case (if instruction = ''RUN'' then instructionHeredocs lib command else dockerfileHeredocs lib command) of
               Inl e \<Rightarrow> Inl (lineErr start e)
             | Inr docs \<Rightarrow>
                 if instruction = ''RUN'' \<and> docs \<noteq> [] \<and> spec = None \<and> \<not> nativeRunHeredoc lib command then
                   Inl (lineErr start (unsupportedHeredoc (hd_Name (hd docs))))
                 else case skipHeredocs docs (drop n lines) of
                   Inl name \<Rightarrow> Inl (lineErr start (Errorf (''heredoc delimiter '' @ quoteStr name @ '' was not found'')))
                 | Inr k \<Rightarrow>
                     (case spec of
                        Some s \<Rightarrow> Inr (copyLine s # take k (drop n lines), n + k, True)
                      | None \<Rightarrow> Inr (take (n + k) lines, n + k, False))))"

lemma headerLoop_count: "lines \<noteq> [] \<Longrightarrow> 0 < snd (headerLoop escape first header lines)"
  by (cases lines) (auto simp: Let_def split: prod.split)

lemma case_Inr_iff:
  "(case r of Inl e \<Rightarrow> Inl (f e) | Inr x \<Rightarrow> g x) = Inr y \<longleftrightarrow> (\<exists>x. r = Inr x \<and> g x = Inr y)"
  by (cases r) auto

lemma if_Inr_iff: "(if b then Inl e else r) = Inr y \<longleftrightarrow> \<not> b \<and> r = Inr y"
  by simp

text \<open>What an instruction that is not refused becomes.\<close>

lemma transformInstruction_Inr:
  assumes "transformInstruction lib escape start lines = Inr (out, k, changed)"
  shows "\<exists>j. k = snd (instructionHeader escape lines) + j \<and>
    (if changed then \<exists>plain s. parseLegacyCatHeredoc plain (Suc start) = Inr (Some s) \<and>
        \<not> containsAny (lh_target s) shellSyntax \<and> out = copyLine s # take j (drop (snd (instructionHeader escape lines)) lines)
     else out = take k lines)"
proof -
  obtain plain0 m where h: "instructionHeader escape lines = (plain0, m)" by fastforce
  obtain i0 c0 where s0: "splitInstruction plain0 = (i0, c0)" by fastforce
  obtain i c where s: "(if i0 = ''ONBUILD'' then splitInstruction c0 else (i0, c0)) = (i, c)" by fastforce
  from assms show ?thesis
    by (auto simp: transformInstruction_def h s0 s Let_def case_Inr_iff split: if_splits option.split_asm)
qed

lemma transformInstruction_progress:
  assumes "transformInstruction lib escape start lines = Inr (out, k, changed)" "lines \<noteq> []"
  shows "0 < k"
  using transformInstruction_Inr [OF assms(1)] headerLoop_count [OF assms(2)]
  by (auto simp: instructionHeader_def trans_less_add1)

function transformLoop ::
    "'d dockerfile_lib \<Rightarrow> 'd \<Rightarrow> char \<Rightarrow> nat \<Rightarrow> string list \<Rightarrow> (string list \<times> bool) result" where
  "transformLoop lib directives escape start [] = Inr ([], False)"
| "transformLoop lib directives escape start (l # ls) = (case dl_ParseLine lib directives (trimSpace l) of
      Inl e \<Rightarrow> Inl (lineErr start e)
    | Inr (directives', directive) \<Rightarrow>
        (let escape' = (case directive of
               Some (name, v) \<Rightarrow> if name = ''escape'' \<and> (v = [CHR 0x5C] \<or> v = ''`'') then hd v else escape
             | None \<Rightarrow> escape) in
         case transformInstruction lib escape' start (l # ls) of
           Inl e \<Rightarrow> Inl e
         | Inr (out, k, changed) \<Rightarrow>
             (case transformLoop lib directives' escape' (start + k) (drop k (l # ls)) of
                Inl e \<Rightarrow> Inl e
              | Inr (out', changed') \<Rightarrow> Inr (out @ out', changed \<or> changed'))))"
  by pat_completeness auto

termination
proof (relation "measure (\<lambda>(lib, directives, escape, start, lines). length lines)")
qed (auto dest!: transformInstruction_progress)

definition TransformLegacyHeredocs :: "'d dockerfile_lib \<Rightarrow> 'd \<Rightarrow> string \<Rightarrow> (string \<times> bool) result" where
  "TransformLegacyHeredocs lib directives raw =
     (case transformLoop lib directives CHR 0x5C 0 (splitDockerfileLines raw) of
        Inl e \<Rightarrow> Inl e
      | Inr (out, changed) \<Rightarrow> if \<not> changed then Inr (raw, False) else Inr (concat out, True))"

text \<open>
  \<^verbatim>\<open>PreprocessDockerfile\<close>: the result of reading the file, of \<^verbatim>\<open>stat\<close> and of writing are arguments; the
  first component of the answer is what is written to the file.
\<close>

definition PreprocessDockerfile ::
    "'d dockerfile_lib \<Rightarrow> 'd \<Rightarrow> string result \<Rightarrow> go_error option \<Rightarrow> go_error option \<Rightarrow> string option \<times> bool result" where
  "PreprocessDockerfile lib directives file statErr writeErr = (case file of
      Inl e \<Rightarrow> (None, Inl e)
    | Inr raw \<Rightarrow>
        (case TransformLegacyHeredocs lib directives raw of
           Inl e \<Rightarrow> (None, Inl e)
         | Inr (processed, changed) \<Rightarrow>
             if \<not> changed then (None, Inr False)
             else case statErr of
               Some e \<Rightarrow> (None, Inl e)
             | None \<Rightarrow> (case writeErr of Some e \<Rightarrow> (None, Inl e) | None \<Rightarrow> (Some processed, Inr True))))"

section \<open>The specification\<close>

text \<open>
  The header of an instruction in a Dockerfile. A line that is blank or a comment is skipped inside a
  header; a line whose last character other than blanks is a single escape character goes on with the
  next line. The relation takes the lines of the header, its text and the lines after it.
\<close>

definition lineText :: "string \<Rightarrow> string" where
  "lineText l = trimRightFunc (\<lambda>c. c = CHR 0x0D \<or> c = newline) l"

definition skippedLine :: "string \<Rightarrow> bool" where
  "skippedLine l \<longleftrightarrow> hasPrefix (trimSpace (lineText l)) ''#'' \<or> trimSpace (lineText l) = ''''"

definition continuedLine :: "char \<Rightarrow> string \<Rightarrow> string \<Rightarrow> bool" where
  "continuedLine escape l t \<longleftrightarrow> trimRightFunc isBlank (lineText l) = t @ [escape] \<and> (t = [] \<or> last t \<noteq> escape)"

inductive headerLines :: "char \<Rightarrow> string list \<Rightarrow> string \<Rightarrow> string list \<Rightarrow> bool" for escape where
  hl_end: "headerLines escape [] '''' []"
| hl_skip: "skippedLine l \<Longrightarrow> headerLines escape ls t rest \<Longrightarrow> headerLines escape (l # ls) t rest"
| hl_continued: "\<not> skippedLine l \<Longrightarrow> continuedLine escape l t \<Longrightarrow> headerLines escape ls t' rest \<Longrightarrow>
    headerLines escape (l # ls) (t @ t') rest"
| hl_last: "\<not> skippedLine l \<Longrightarrow> \<nexists>t. continuedLine escape l t \<Longrightarrow> headerLines escape [l] (lineText l) rest"

definition instructionLines :: "char \<Rightarrow> string list \<Rightarrow> string \<Rightarrow> string list \<Rightarrow> bool" where
  "instructionLines escape header text rest \<longleftrightarrow> header \<noteq> [] \<and>
     (if skippedLine (hd header) then header = [hd header] \<and> text = lineText (hd header)
      else headerLines escape header text rest)"

text \<open>
  A legacy heredoc: \<^verbatim>\<open>cat > target <<EOF\<close> or \<^verbatim>\<open>cat <<EOF > target\<close>, with a dash or without, the name plain
  or in quotes, the target free of blanks and of shell syntax, as the whole command of a \<^verbatim>\<open>RUN\<close>
  instruction, the keyword in any case.
\<close>

abbreviation blankText :: "string \<Rightarrow> bool" where
  "blankText \<equiv> list_all isBlank"

definition heredocToken :: "string \<Rightarrow> string \<Rightarrow> bool" where
  "heredocToken s token \<longleftrightarrow> (\<exists>dash b q name. s = dash @ b @ q @ name @ q \<and> token = dash @ q @ name @ q \<and>
     dash \<in> {'''', ''-''} \<and> blankText b \<and> q \<in> {'''', [CHR 0x27], [CHR 0x22]} \<and>
     name \<noteq> '''' \<and> isIdentStart (hd name) \<and> list_all isIdentChar name)"

definition legacyCommand :: "string \<Rightarrow> string \<Rightarrow> string \<Rightarrow> bool" where
  "legacyCommand command token target \<longleftrightarrow>
     target \<noteq> '''' \<and> list_all (\<lambda>c. \<not> isBlank c) target \<and>
     (\<exists>b1 b2 b3 b4 doc. blankText b1 \<and> blankText b2 \<and> blankText b3 \<and> blankText b4 \<and>
        b1 \<noteq> '''' \<and> b2 \<noteq> '''' \<and> b3 \<noteq> '''' \<and> heredocToken doc token \<and>
        (command = ''cat'' @ b1 @ ''>'' @ b2 @ target @ b3 @ ''<<'' @ doc @ b4 \<or>
         command = ''cat'' @ b1 @ ''<<'' @ doc @ b2 @ ''>'' @ b3 @ target @ b4))"

definition legacyHeader :: "string \<Rightarrow> string \<Rightarrow> string \<Rightarrow> string \<Rightarrow> bool" where
  "legacyHeader text indent token target \<longleftrightarrow> indent = takeWhile isBlank text \<and>
     list_all (\<lambda>c. c \<notin> set shellSyntax) target \<and>
     (\<exists>keyword b command. trimSpace text = keyword @ b # command \<and> isBlank b \<and> list_all (\<lambda>c. \<not> isBlank c) keyword \<and>
        toUpper keyword = ''RUN'' \<and> legacyCommand (trimSpace command) token target)"

text \<open>
  The bodies of heredocs: each goes up to the first line that is its delimiter. Which heredocs an
  instruction has is what the libraries find in its command.
\<close>

definition endsHeredoc :: "heredoc \<Rightarrow> string \<Rightarrow> bool" where
  "endsHeredoc d l \<longleftrightarrow> (let line = trimSuffix (trimSuffix l [newline]) [CHR 0x0D] in
     (if hd_Chomp d then dropWhile (\<lambda>c. c = CHR 0x09) line else line) = hd_Name d)"

primrec heredocBodies :: "heredoc list \<Rightarrow> string list \<Rightarrow> bool" where
  "heredocBodies [] body \<longleftrightarrow> body = []"
| "heredocBodies (d # ds) body \<longleftrightarrow> (\<exists>xs e ys. body = xs @ e # ys \<and> (\<forall>x \<in> set xs. \<not> endsHeredoc d x) \<and>
     endsHeredoc d e \<and> heredocBodies ds ys)"

definition headerHeredocs :: "'d dockerfile_lib \<Rightarrow> string \<Rightarrow> heredoc list result" where
  "headerHeredocs lib text =
     (let (i0, c0) = splitInstruction text; (i, c) = (if i0 = ''ONBUILD'' then splitInstruction c0 else (i0, c0)) in
      if i = ''RUN'' then instructionHeredocs lib c
      else if i = ''COPY'' \<or> i = ''ADD'' then dockerfileHeredocs lib c
      else Inr [])"

definition nextEscape :: "char \<Rightarrow> (string \<times> string) option \<Rightarrow> char" where
  "nextEscape escape directive = (case directive of
      Some (name, v) \<Rightarrow> if name = ''escape'' \<and> (v = [CHR 0x5C] \<or> v = ''`'') then hd v else escape
    | None \<Rightarrow> escape)"

text \<open>
  The rewriting of a Dockerfile, instruction by instruction: the header of a legacy heredoc becomes one
  \<^verbatim>\<open>COPY\<close> line, every other header and all bodies stay. The last argument is the number of rewritten
  headers.
\<close>

inductive rewritten :: "'d dockerfile_lib \<Rightarrow> 'd \<Rightarrow> char \<Rightarrow> string list \<Rightarrow> string list \<Rightarrow> nat \<Rightarrow> bool" for lib where
  rw_end: "rewritten lib directives escape [] [] 0"
| rw_keep: "dl_ParseLine lib directives (trimSpace (hd header)) = Inr (directives', directive) \<Longrightarrow>
    escape' = nextEscape escape directive \<Longrightarrow> instructionLines escape' header text (body @ ls) \<Longrightarrow>
    headerHeredocs lib text = Inr docs \<Longrightarrow> heredocBodies docs body \<Longrightarrow>
    \<nexists>indent token target. legacyHeader text indent token target \<Longrightarrow>
    rewritten lib directives' escape' ls out n \<Longrightarrow>
    rewritten lib directives escape (header @ body @ ls) (header @ body @ out) n"
| rw_copy: "dl_ParseLine lib directives (trimSpace (hd header)) = Inr (directives', directive) \<Longrightarrow>
    escape' = nextEscape escape directive \<Longrightarrow> instructionLines escape' header text (body @ ls) \<Longrightarrow>
    headerHeredocs lib text = Inr docs \<Longrightarrow> heredocBodies docs body \<Longrightarrow>
    legacyHeader text indent token target \<Longrightarrow>
    rewritten lib directives' escape' ls out n \<Longrightarrow>
    rewritten lib directives escape (header @ body @ ls)
      ((indent @ ''COPY <<'' @ token @ '' '' @ target @ [newline]) # body @ out) (Suc n)"

lemma concat_splitDockerfileLines [simp]: "concat (splitDockerfileLines s) = s"
  by (induction s) (auto split: list.splits)

lemma list_all_takeWhile: "list_all p (takeWhile p s)"
  by (induction s) auto

subsection \<open>Headers and bodies\<close>

lemma continued_iff:
  "(\<exists>t. continuedLine escape l t) \<longleftrightarrow> (let trimmed = trimRightFunc isBlank (lineText l); n = length trimmed in
     0 < n \<and> trimmed ! (n - 1) = escape \<and> (n = 1 \<or> trimmed ! (n - 2) \<noteq> escape))" (is "?l \<longleftrightarrow> ?r")
  "continuedLine escape l t \<Longrightarrow> t = take (length (trimRightFunc isBlank (lineText l)) - 1) (trimRightFunc isBlank (lineText l))"
proof -
  let ?s = "trimRightFunc isBlank (lineText l)"
  show "?l \<longleftrightarrow> ?r"
  proof (cases ?s rule: rev_cases)
    case Nil
    then show ?thesis by (simp add: continuedLine_def)
  next
    case (snoc ys y)
    then show ?thesis
      by (cases ys rule: rev_cases) (auto simp: continuedLine_def Let_def nth_append)
  qed
  show "t = take (length ?s - 1) ?s" if "continuedLine escape l t"
    using that by (simp add: continuedLine_def)
qed

lemma headerLoop_lines:
  assumes "headerLoop escape first header lines = (text, n)" "first \<longrightarrow> lines \<noteq> [] \<and> \<not> skippedLine (hd lines)"
  shows "n \<le> length lines \<and> (\<exists>t. text = header @ t \<and> headerLines escape (take n lines) t (drop n lines))"
  using assms
proof (induction lines arbitrary: first header "text" n)
  case Nil
  then show ?case by (auto intro: hl_end)
next
  case (Cons l ls)
  let ?t = "trimRightFunc isBlank (lineText l)"
  show ?case
  proof (cases "skippedLine l")
    case True
    then have "\<not> first" using Cons.prems(2) by auto
    then obtain m where m: "headerLoop escape False header ls = (text, m)" "n = Suc m"
      using Cons.prems(1) True by (auto simp: skippedLine_def lineText_def split: prod.splits)
    with Cons.IH [OF m(1)] True show ?thesis by (auto intro: hl_skip)
  next
    case False
    show ?thesis
    proof (cases "\<exists>t. continuedLine escape l t")
      case True
      then obtain t where t: "continuedLine escape l t" by blast
      have e: "t = take (length ?t - 1) ?t" by (rule continued_iff(2) [OF t])
      obtain m where m: "headerLoop escape False (header @ t) ls = (text, m)" "n = Suc m"
        using Cons.prems(1) False True [unfolded continued_iff(1)]
        by (auto simp: skippedLine_def lineText_def e Let_def split: prod.splits)
      with Cons.IH [OF m(1)] False t show ?thesis by (auto intro: hl_continued)
    next
      case last: False
      then have "text = header @ lineText l \<and> n = 1"
        using Cons.prems(1) False last [unfolded continued_iff(1)]
        by (auto simp: skippedLine_def lineText_def Let_def split: if_splits)
      then show ?thesis using hl_last [OF False last] by simp
    qed
  qed
qed

lemma instructionHeader_lines:
  assumes "instructionHeader escape lines = (text, n)" "lines \<noteq> []"
  shows "0 < n \<and> n \<le> length lines \<and> instructionLines escape (take n lines) text (drop n lines)"
proof -
  have n: "0 < n" using headerLoop_count [OF assms(2), of escape True "''''"] assms(1) by (simp add: instructionHeader_def)
  then have h: "hd (take n lines) = hd lines" using assms(2) by (cases lines; cases n) auto
  show ?thesis
  proof (cases "skippedLine (hd lines)")
    case True
    then have "text = lineText (hd lines) \<and> n = 1"
      using assms by (cases lines) (auto simp: instructionHeader_def skippedLine_def lineText_def)
    then show ?thesis using True assms(2) by (cases lines) (auto simp: instructionLines_def)
  next
    case False
    then show ?thesis
      using headerLoop_lines [of escape True "''''" lines "text" n] assms n h
      by (auto simp: instructionHeader_def instructionLines_def)
  qed
qed

lemma findHeredocEnd_Some:
  "findHeredocEnd (hd_Name d) (hd_Chomp d) ls = Some e \<Longrightarrow>
     e < length ls \<and> (\<forall>x \<in> set (take e ls). \<not> endsHeredoc d x) \<and> endsHeredoc d (ls ! e)"
  by (induction ls arbitrary: e) (auto simp: endsHeredoc_def Let_def split: if_splits)

lemma skipHeredocs_bodies:
  "skipHeredocs docs ls = Inr k \<Longrightarrow> k \<le> length ls \<and> heredocBodies docs (take k ls)"
proof (induction docs arbitrary: ls k)
  case (Cons d ds)
  then obtain e m where e: "findHeredocEnd (hd_Name d) (hd_Chomp d) ls = Some e"
    and m: "skipHeredocs ds (drop (Suc e) ls) = Inr m" and k: "k = Suc e + m"
    by (auto split: option.splits sum.splits)
  note f = findHeredocEnd_Some [OF e] and IH = Cons.IH [OF m]
  have "take k ls = take e ls @ ls ! e # take m (drop (Suc e) ls)"
    using f unfolding k by (metis append.assoc append_Cons append_Nil take_Suc_conv_app_nth take_add)
  then show ?case using f IH k by (simp only: heredocBodies.simps) auto
qed simp

subsection \<open>The patterns\<close>

lemma literal_Some: "literal p s = Some r \<longleftrightarrow> s = p @ r"
  by (auto simp: literal_def hasPrefix_iff)

lemma blanks1_Some:
  "blanks1 s = Some r \<longleftrightarrow> (\<exists>b. s = b @ r \<and> b \<noteq> '''' \<and> blankText b) \<and> (r = '''' \<or> \<not> isBlank (hd r))"
proof
  assume "blanks1 s = Some r"
  then have "r = dropWhile isBlank s" "s \<noteq> ''''" "isBlank (hd s)" by (auto simp: blanks1_def split: list.splits if_splits)
  then show "(\<exists>b. s = b @ r \<and> b \<noteq> '''' \<and> blankText b) \<and> (r = '''' \<or> \<not> isBlank (hd r))"
    using hd_dropWhile [of isBlank s]
    by (intro conjI exI [of _ "takeWhile isBlank s"]) (auto simp: list_all_takeWhile takeWhile_eq_Nil_iff)
next
  assume "(\<exists>b. s = b @ r \<and> b \<noteq> '''' \<and> blankText b) \<and> (r = '''' \<or> \<not> isBlank (hd r))"
  then obtain b where b: "s = b @ r" "b \<noteq> ''''" "blankText b" "r = '''' \<or> \<not> isBlank (hd r)" by blast
  then have "dropWhile isBlank s = dropWhile isBlank r" by (simp add: dropWhile_append2 list_all_iff)
  also have "\<dots> = r" using b(4) by (cases r) auto
  finally show "blanks1 s = Some r" using b by (cases b) (auto simp: blanks1_def)
qed

lemma word1_iff:
  "word1 s = Some (w, r) \<longleftrightarrow> s = w @ r \<and> w \<noteq> '''' \<and> list_all (\<lambda>c. \<not> isBlank c) w \<and> (r = '''' \<or> isBlank (hd r))"
proof
  assume a: "word1 s = Some (w, r)"
  then have "w = takeWhile (\<lambda>c. \<not> isBlank c) s" "r = dropWhile (\<lambda>c. \<not> isBlank c) s" "w \<noteq> ''''"
    by (auto simp: word1_def split: list.splits if_splits)
  moreover have "r = '''' \<or> isBlank (hd r)" using hd_dropWhile [of "\<lambda>c. \<not> isBlank c" s] calculation(2) by blast
  ultimately show "s = w @ r \<and> w \<noteq> '''' \<and> list_all (\<lambda>c. \<not> isBlank c) w \<and> (r = '''' \<or> isBlank (hd r))"
    by (simp add: list_all_takeWhile)
next
  assume a: "s = w @ r \<and> w \<noteq> '''' \<and> list_all (\<lambda>c. \<not> isBlank c) w \<and> (r = '''' \<or> isBlank (hd r))"
  then have "takeWhile (\<lambda>c. \<not> isBlank c) s = w @ takeWhile (\<lambda>c. \<not> isBlank c) r"
    "dropWhile (\<lambda>c. \<not> isBlank c) s = dropWhile (\<lambda>c. \<not> isBlank c) r"
    by (simp_all add: takeWhile_append2 dropWhile_append2 list_all_iff)
  moreover have "takeWhile (\<lambda>c. \<not> isBlank c) r = ''''" "dropWhile (\<lambda>c. \<not> isBlank c) r = r" using a by (cases r; simp)+
  ultimately show "word1 s = Some (w, r)" using a by (cases w) (auto simp: word1_def)
qed

lemma optQuote_form: "optQuote s = (q, r) \<Longrightarrow> s = q @ r \<and> q \<in> {'''', [CHR 0x27], [CHR 0x22]}"
  by (auto simp: optQuote_def split: list.splits if_splits)

lemma dropWhile_blanks: "blankText b \<Longrightarrow> dropWhile isBlank (b @ s) = dropWhile isBlank s"
  by (simp add: dropWhile_append2 list_all_iff)

lemma takeWhile_blanks: "blankText b \<Longrightarrow> takeWhile isBlank (b @ s) = b @ takeWhile isBlank s"
  by (simp add: takeWhile_append2 list_all_iff)

lemma isBlank_chars [simp]:
  "isBlank CHR '' ''" "\<not> isBlank CHR ''R''" "\<not> isBlank CHR ''C''" "\<not> isBlank CHR ''A''" "\<not> isBlank CHR ''c''" "\<not> isBlank CHR ''>''"
  "\<not> isBlank CHR ''<''" "\<not> isBlank CHR ''-''" "\<not> isBlank CHR 0x27" "\<not> isBlank CHR 0x22"
  by (simp_all add: isBlank_def)

lemma isIdentChar_plain: "isIdentChar c \<Longrightarrow> \<not> isBlank c \<and> c \<noteq> CHR 0x27 \<and> c \<noteq> CHR 0x22 \<and> c \<noteq> CHR ''-''"
  by (auto simp: isIdentChar_def isIdentStart_def isBlank_def isDigit_def)

lemma heredocOperator_sound:
  assumes "heredocOperator s = Some (dash, q, name, q, r)"
  shows "\<exists>doc. s = ''<<'' @ doc @ r \<and> heredocToken doc (dash @ q @ name @ q)"
proof -
  obtain s1 where s1: "literal ''<<'' s = Some s1" using assms by (auto simp: heredocOperator_def split: option.splits)
  obtain d s2 where d: "(case literal ''-'' s1 of Some r \<Rightarrow> (''-'', r) | None \<Rightarrow> ('''', s1)) = (d, s2)" by fastforce
  obtain q1 s3 where q: "optQuote (dropWhile isBlank s2) = (q1, s3)" by fastforce
  obtain c cs where c: "s3 = c # cs" using assms by (cases s3) (auto simp: heredocOperator_def s1 d q)
  obtain q2 s4 where q2: "optQuote (dropWhile isIdentChar s3) = (q2, s4)" by fastforce
  have e: "isIdentStart c" "dash = d" "q = q1" "q = q2" "name = takeWhile isIdentChar s3" "r = s4"
    using assms q2 by (auto simp: heredocOperator_def s1 d q c Let_def split: if_splits prod.splits)
  have "s1 = d @ s2 \<and> d \<in> {'''', ''-''}" using d by (auto simp: literal_Some split: option.splits)
  have s2: "takeWhile isBlank s2 @ q1 @ s3 = s2" using optQuote_form [OF q] takeWhile_dropWhile_id [of isBlank s2] by simp
  have s3: "name @ q2 @ s4 = s3" using optQuote_form [OF q2] e(5) takeWhile_dropWhile_id [of isIdentChar s3] by simp
  have "''<<'' @ (dash @ takeWhile isBlank s2 @ q @ name @ q) @ r = ''<<'' @ d @ (takeWhile isBlank s2 @ q1 @ (name @ q2 @ s4))"
    using e(2,3,4,6) by simp
  also have "\<dots> = s" unfolding s3 s2 using s1 \<open>s1 = d @ s2 \<and> d \<in> {'''', ''-''}\<close> by (simp add: literal_Some)
  finally have s: "s = ''<<'' @ (dash @ takeWhile isBlank s2 @ q @ name @ q) @ r" ..
  have "isIdentChar c" using e(1) by (simp add: isIdentChar_def)
  then have "name \<noteq> '''' \<and> isIdentStart (hd name) \<and> list_all isIdentChar name"
    using e(1) by (auto simp: e(5) c list_all_takeWhile)
  moreover have "dash \<in> {'''', ''-''}" "q \<in> {'''', [CHR 0x27], [CHR 0x22]}"
    using \<open>s1 = d @ s2 \<and> d \<in> {'''', ''-''}\<close> optQuote_form [OF q] e(2,3) by auto
  ultimately have "heredocToken (dash @ takeWhile isBlank s2 @ q @ name @ q) (dash @ q @ name @ q)"
    unfolding heredocToken_def using list_all_takeWhile [of isBlank s2] by blast
  with s show ?thesis by blast
qed

lemma heredocOperator_complete:
  assumes "heredocToken doc token" "r = '''' \<or> isBlank (hd r)"
  shows "\<exists>dash q name. heredocOperator (''<<'' @ doc @ r) = Some (dash, q, name, q, r) \<and> token = dash @ q @ name @ q"
proof -
  obtain dash b q c cs where f: "doc = dash @ b @ q @ (c # cs) @ q" "token = dash @ q @ (c # cs) @ q" "dash \<in> {'''', ''-''}"
    "blankText b" "q \<in> {'''', [CHR 0x27], [CHR 0x22]}" "isIdentStart c" "list_all isIdentChar (c # cs)"
    using assms(1) unfolding heredocToken_def by (metis list.exhaust_sel)
  let ?name = "c # cs"
  have c: "isIdentChar c" "isIdentStart c" using f(6) by (auto simp: isIdentChar_def)
  note cp = isIdentChar_plain [OF c(1)]
  let ?rest = "b @ q @ c # cs @ q @ r"
  have "(case literal ''-'' (dash @ ?rest) of Some r \<Rightarrow> (''-'', r) | None \<Rightarrow> ('''', dash @ ?rest)) = (dash, ?rest)"
    using f(3,4,5) cp by (cases b) (auto simp: literal_def hasPrefix_def)
  moreover have "dropWhile isBlank ?rest = q @ ?name @ q @ r"
    using f(5) cp by (auto simp: dropWhile_blanks [OF f(4)])
  moreover have "optQuote (q @ ?name @ q @ r) = (q, ?name @ q @ r)"
    using f(5) cp by (auto simp: optQuote_def)
  moreover have qr: "q @ r = '''' \<or> \<not> isIdentChar (hd (q @ r))"
    using f(5) assms(2) by (cases r) (auto dest: isIdentChar_plain)
  then have "takeWhile isIdentChar (?name @ q @ r) = ?name" "dropWhile isIdentChar (?name @ q @ r) = q @ r"
    using f(7) by (cases "q @ r"; simp add: takeWhile_append2 dropWhile_append2 list_all_iff)+
  moreover have "optQuote (q @ r) = (q, r)"
    using f(5) assms(2) by (cases r) (auto simp: optQuote_def isBlank_def)
  moreover have "literal ''<<'' (''<<'' @ doc @ r) = Some (dash @ ?rest)" by (simp add: literal_Some f(1))
  ultimately have "heredocOperator (''<<'' @ doc @ r) = Some (dash, q, ?name, q, r)"
    using c(2) by (simp add: heredocOperator_def)
  with f(2) show ?thesis by blast
qed

text \<open>The patterns on the text that the transformation matches: blanks, the instruction, one blank and the command.\<close>

lemma runCat_other:
  assumes "blankText indent" "i = ''COPY'' \<or> i = ''ADD''"
  shows "runCat (indent @ i @ '' '' @ command) = None"
proof -
  have "dropWhile isBlank (indent @ i @ '' '' @ command) = i @ '' '' @ command"
    using assms(2) by (auto simp: dropWhile_blanks [OF assms(1)])
  then show ?thesis using assms(2) by (auto simp: runCat_def literal_def hasPrefix_def)
qed

lemma runCat_run:
  assumes "blankText indent" "command = '''' \<or> \<not> isBlank (hd command)"
  shows "runCat (indent @ ''RUN'' @ '' '' @ command) = Some (i, s) \<longleftrightarrow>
    i = indent \<and> (\<exists>b. command = ''cat'' @ b @ s \<and> b \<noteq> '''' \<and> blankText b) \<and> (s = '''' \<or> \<not> isBlank (hd s))"
proof -
  have d: "dropWhile isBlank (indent @ ''RUN'' @ '' '' @ command) = ''RUN'' @ '' '' @ command"
    "takeWhile isBlank (indent @ ''RUN'' @ '' '' @ command) = indent"
    by (simp_all add: dropWhile_blanks [OF assms(1)] takeWhile_blanks [OF assms(1)])
  have l: "literal ''RUN'' (''RUN'' @ '' '' @ command) = Some ('' '' @ command)" by (simp add: literal_Some)
  have b: "blanks1 ('' '' @ command) = Some command"
    using assms(2) by (auto simp: blanks1_Some intro: exI [of _ "'' ''"])
  have "runCat (indent @ ''RUN'' @ '' '' @ command) = (case literal ''cat'' command of None \<Rightarrow> None
      | Some s3 \<Rightarrow> (case blanks1 s3 of None \<Rightarrow> None | Some s4 \<Rightarrow> Some (indent, s4)))"
    unfolding runCat_def d l option.case b ..
  then have "runCat (indent @ ''RUN'' @ '' '' @ command) = Some (i, s) \<longleftrightarrow>
      i = indent \<and> (\<exists>s3. literal ''cat'' command = Some s3 \<and> blanks1 s3 = Some s)"
    by (auto split: option.splits)
  then show ?thesis by (auto simp: blanks1_Some literal_Some)
qed

lemma blankText_end: "blankText b \<Longrightarrow> dropWhile isBlank b = ''''" "dropWhile isBlank b = '''' \<Longrightarrow> blankText b"
  by (auto simp: list_all_iff)

lemma blank_first: "blankText b \<Longrightarrow> b \<noteq> '''' \<Longrightarrow> isBlank (hd (b @ r))" "blankText b \<Longrightarrow> b = '''' \<or> isBlank (hd b)"
  by (cases b; auto)+

lemma word_first: "list_all (\<lambda>c. \<not> isBlank c) w \<Longrightarrow> w \<noteq> '''' \<Longrightarrow> \<not> isBlank (hd (w @ r))"
  by (cases w) auto

lemma legacyCommandI:
  assumes "target \<noteq> ''''" "list_all (\<lambda>c. \<not> isBlank c) target" "b1 \<noteq> ''''" "blankText b1" "b2 \<noteq> ''''" "blankText b2"
    "b3 \<noteq> ''''" "blankText b3" "blankText b4" "heredocToken doc token"
  shows "legacyCommand (''cat'' @ b1 @ ''>'' @ b2 @ target @ b3 @ ''<<'' @ doc @ b4) token target"
    "legacyCommand (''cat'' @ b1 @ ''<<'' @ doc @ b2 @ ''>'' @ b3 @ target @ b4) token target"
  unfolding legacyCommand_def using assms by blast+

lemma parseLegacy_sound:
  assumes "parseLegacyCatHeredoc (indent @ ''RUN'' @ '' '' @ command) n = Inr (Some s)" "blankText indent"
    and "command = '''' \<or> \<not> isBlank (hd command)"
  shows "lh_indent s = indent \<and> legacyCommand command (lh_delimiterToken s) (lh_target s)"
proof -
  let ?p = "indent @ ''RUN'' @ '' '' @ command"
  note rc = runCat_run [OF assms(2,3)]
  obtain i target dash q name where
    m: "runCatRedirectHeredoc ?p = Some (i, target, dash, q, name, q) \<or> runCatHeredocRedirect ?p = Some (i, target, dash, q, name, q)"
    and s: "s = \<lparr>lh_indent = i, lh_target = target, lh_delimiterToken = dash @ q @ name @ q\<rparr>"
    using assms(1) by (auto simp: parseLegacyCatHeredoc_def Let_def split: option.split_asm prod.split_asm if_split_asm) blast
  from m show ?thesis
  proof
    assume "runCatRedirectHeredoc ?p = Some (i, target, dash, q, name, q)"
    then obtain s1 s2 s3 s4 s5 s6 where r: "runCat ?p = Some (i, s1)" "literal ''>'' s1 = Some s2" "blanks1 s2 = Some s3"
      "word1 s3 = Some (target, s4)" "blanks1 s4 = Some s5" "heredocOperator s5 = Some (dash, q, name, q, s6)"
      "dropWhile isBlank s6 = ''''"
      by (auto simp: runCatRedirectHeredoc_def split: option.split_asm if_split_asm)
    obtain doc where doc: "s5 = ''<<'' @ doc @ s6" "heredocToken doc (dash @ q @ name @ q)"
      using heredocOperator_sound [OF r(6)] by blast
    from r(1) obtain b1 where b1: "i = indent" "command = ''cat'' @ b1 @ s1" "b1 \<noteq> ''''" "blankText b1"
      unfolding rc by blast
    from r(3) obtain b2 where b2: "s2 = b2 @ s3" "b2 \<noteq> ''''" "blankText b2" unfolding blanks1_Some by blast
    from r(5) obtain b3 where b3: "s4 = b3 @ s5" "b3 \<noteq> ''''" "blankText b3" unfolding blanks1_Some by blast
    have "command = ''cat'' @ b1 @ ''>'' @ b2 @ target @ b3 @ ''<<'' @ doc @ s6"
      using r(2,4) b1 b2 b3 doc by (simp add: literal_Some word1_iff)
    moreover have "target \<noteq> '''' \<and> list_all (\<lambda>c. \<not> isBlank c) target" using r(4) by (simp add: word1_iff)
    ultimately show ?thesis
      using b1(1) legacyCommandI(1) [OF _ _ b1(3,4) b2(2,3) b3(2,3) blankText_end(2) [OF r(7)] doc(2)] by (simp add: s)
  next
    assume "runCatHeredocRedirect ?p = Some (i, target, dash, q, name, q)"
    then obtain s1 s2 s3 s4 s5 s6 where r: "runCat ?p = Some (i, s1)" "heredocOperator s1 = Some (dash, q, name, q, s2)"
      "blanks1 s2 = Some s3" "literal ''>'' s3 = Some s4" "blanks1 s4 = Some s5" "word1 s5 = Some (target, s6)"
      "dropWhile isBlank s6 = ''''"
      by (auto simp: runCatHeredocRedirect_def split: option.split_asm if_split_asm)
    obtain doc where doc: "s1 = ''<<'' @ doc @ s2" "heredocToken doc (dash @ q @ name @ q)"
      using heredocOperator_sound [OF r(2)] by blast
    from r(1) obtain b1 where b1: "i = indent" "command = ''cat'' @ b1 @ s1" "b1 \<noteq> ''''" "blankText b1"
      unfolding rc by blast
    from r(3) obtain b2 where b2: "s2 = b2 @ s3" "b2 \<noteq> ''''" "blankText b2" unfolding blanks1_Some by blast
    from r(5) obtain b3 where b3: "s4 = b3 @ s5" "b3 \<noteq> ''''" "blankText b3" unfolding blanks1_Some by blast
    have "command = ''cat'' @ b1 @ ''<<'' @ doc @ b2 @ ''>'' @ b3 @ target @ s6"
      using r(4,6) b1 b2 b3 doc by (simp add: literal_Some word1_iff)
    moreover have "target \<noteq> '''' \<and> list_all (\<lambda>c. \<not> isBlank c) target" using r(6) by (simp add: word1_iff)
    ultimately show ?thesis
      using b1(1) legacyCommandI(2) [OF _ _ b1(3,4) b2(2,3) b3(2,3) blankText_end(2) [OF r(7)] doc(2)] by (simp add: s)
  qed
qed

lemma parseLegacy_complete:
  assumes "legacyCommand command token target" "blankText indent"
  shows "parseLegacyCatHeredoc (indent @ ''RUN'' @ '' '' @ command) n =
    Inr (Some \<lparr>lh_indent = indent, lh_target = target, lh_delimiterToken = token\<rparr>)"
proof -
  let ?p = "indent @ ''RUN'' @ '' '' @ command"
  obtain b1 b2 b3 b4 doc where b: "blankText b1" "blankText b2" "blankText b3" "blankText b4" "b1 \<noteq> ''''" "b2 \<noteq> ''''" "b3 \<noteq> ''''"
    "heredocToken doc token" and t: "target \<noteq> ''''" "list_all (\<lambda>c. \<not> isBlank c) target"
    and form: "command = ''cat'' @ b1 @ ''>'' @ b2 @ target @ b3 @ ''<<'' @ doc @ b4 \<or>
      command = ''cat'' @ b1 @ ''<<'' @ doc @ b2 @ ''>'' @ b3 @ target @ b4"
    using assms(1) unfolding legacyCommand_def by blast
  have c: "command = '''' \<or> \<not> isBlank (hd command)" using form by (auto simp: isBlank_def)
  note rc = runCat_run [OF assms(2) c]
  from form show ?thesis
  proof
    assume f: "command = ''cat'' @ b1 @ ''>'' @ b2 @ target @ b3 @ ''<<'' @ doc @ b4"
    obtain dash q name where h: "heredocOperator (''<<'' @ doc @ b4) = Some (dash, q, name, q, b4)" "token = dash @ q @ name @ q"
      using heredocOperator_complete [OF b(8) blank_first(2) [OF b(4)]] by blast
    have r: "runCat ?p = Some (indent, ''>'' @ b2 @ target @ b3 @ ''<<'' @ doc @ b4)"
      unfolding rc using f b by (auto simp: isBlank_def)
    have "literal ''>'' (''>'' @ b2 @ target @ b3 @ ''<<'' @ doc @ b4) = Some (b2 @ target @ b3 @ ''<<'' @ doc @ b4)"
      by (simp add: literal_Some)
    moreover have "blanks1 (b2 @ target @ b3 @ ''<<'' @ doc @ b4) = Some (target @ b3 @ ''<<'' @ doc @ b4)"
      unfolding blanks1_Some using b word_first [OF t(2,1)] by blast
    moreover have "word1 (target @ b3 @ ''<<'' @ doc @ b4) = Some (target, b3 @ ''<<'' @ doc @ b4)"
      unfolding word1_iff using t blank_first(1) [OF b(3,7)] by blast
    moreover have "blanks1 (b3 @ ''<<'' @ doc @ b4) = Some (''<<'' @ doc @ b4)"
      unfolding blanks1_Some using b by (auto simp: isBlank_def)
    ultimately have "runCatRedirectHeredoc ?p = Some (indent, target, dash, q, name, q)"
      using h(1) blankText_end(1) [OF b(4)] by (simp only: runCatRedirectHeredoc_def r option.case prod.case if_True simp_thms)
    then show ?thesis by (simp add: parseLegacyCatHeredoc_def h(2))
  next
    assume f: "command = ''cat'' @ b1 @ ''<<'' @ doc @ b2 @ ''>'' @ b3 @ target @ b4"
    let ?rest = "b2 @ ''>'' @ b3 @ target @ b4"
    have "?rest = '''' \<or> isBlank (hd ?rest)" using blank_first(1) [OF b(2,6)] by blast
    then obtain dash q name where h: "heredocOperator (''<<'' @ doc @ ?rest) = Some (dash, q, name, q, ?rest)" "token = dash @ q @ name @ q"
      using heredocOperator_complete [OF b(8)] by blast
    have r: "runCat ?p = Some (indent, ''<<'' @ doc @ ?rest)"
      unfolding rc using f b by (auto simp: isBlank_def)
    have "literal ''>'' (''<<'' @ doc @ ?rest) = None" by (simp add: literal_def hasPrefix_def)
    then have no: "runCatRedirectHeredoc ?p = None" by (simp only: runCatRedirectHeredoc_def r option.case prod.case)
    have "blanks1 ?rest = Some (''>'' @ b3 @ target @ b4)"
      unfolding blanks1_Some using b by (auto simp: isBlank_def)
    moreover have "literal ''>'' (''>'' @ b3 @ target @ b4) = Some (b3 @ target @ b4)" by (simp add: literal_Some)
    moreover have "blanks1 (b3 @ target @ b4) = Some (target @ b4)"
      unfolding blanks1_Some using b word_first [OF t(2,1)] by blast
    moreover have "word1 (target @ b4) = Some (target, b4)"
      unfolding word1_iff using t blank_first(2) [OF b(4)] by blast
    ultimately have "runCatHeredocRedirect ?p = Some (indent, target, dash, q, name, q)"
      using h(1) blankText_end(1) [OF b(4)] by (simp only: runCatHeredocRedirect_def r option.case prod.case if_True simp_thms)
    then show ?thesis using no by (simp add: parseLegacyCatHeredoc_def h(2))
  qed
qed

lemma legacyHeader_iff:
  "legacyHeader text indent token target \<longleftrightarrow> indent = takeWhile isBlank text \<and>
     list_all (\<lambda>c. c \<notin> set shellSyntax) target \<and>
     fst (splitInstruction text) = ''RUN'' \<and> legacyCommand (snd (splitInstruction text)) token target"
proof -
  let ?h = "trimSpace text"
  let ?w = "takeWhile (\<lambda>c. \<not> isBlank c) ?h"
  have no: "\<not> legacyCommand '''' token target" by (simp add: legacyCommand_def)
  have "(\<exists>keyword b command. ?h = keyword @ b # command \<and> isBlank b \<and> list_all (\<lambda>c. \<not> isBlank c) keyword \<and>
      toUpper keyword = ''RUN'' \<and> legacyCommand (trimSpace command) token target) \<longleftrightarrow>
    fst (splitInstruction text) = ''RUN'' \<and> legacyCommand (snd (splitInstruction text)) token target" (is "?l \<longleftrightarrow> ?r")
  proof
    assume ?l
    then obtain keyword b command where k: "?h = keyword @ b # command" "isBlank b" "list_all (\<lambda>c. \<not> isBlank c) keyword"
      "toUpper keyword = ''RUN''" "legacyCommand (trimSpace command) token target" by blast
    have "?w = keyword" using k(1-3) by (simp add: takeWhile_append2 list_all_iff)
    then show ?r using k by (simp add: splitInstruction_def)
  next
    assume r: ?r
    then have l: "length ?w < length ?h" using no by (auto simp: splitInstruction_def Let_def split: if_splits)
    have "?h = ?w @ ?h ! length ?w # drop (Suc (length ?w)) ?h"
      using l by (metis Cons_nth_drop_Suc append_take_drop_id takeWhile_eq_take)
    moreover have "isBlank (?h ! length ?w)" using nth_length_takeWhile [OF l] by simp
    moreover have "toUpper ?w = ''RUN''" "legacyCommand (trimSpace (drop (Suc (length ?w)) ?h)) token target"
      using r l by (simp_all add: splitInstruction_def Let_def)
    ultimately show ?l using list_all_takeWhile [of "\<lambda>c. \<not> isBlank c" ?h] by blast
  qed
  then show ?thesis by (simp add: legacyHeader_def)
qed

lemma splitInstruction_command: "trimSpace (snd (splitInstruction s)) = snd (splitInstruction s)"
  by (simp add: splitInstruction_def Let_def)

lemma command_first: "snd (splitInstruction s) = '''' \<or> \<not> isBlank (hd (snd (splitInstruction s)))"
  using trimSpace_ends [of "snd (splitInstruction s)"] by (auto simp: splitInstruction_command isBlank_def isSpace_def)

subsection \<open>The transformation implements it\<close>

lemma transformInstruction_lines:
  assumes t: "transformInstruction lib escape start lines = Inr (out, k, changed)" and l: "lines \<noteq> []"
  shows "\<exists>header text body docs. lines = header @ body @ drop k lines \<and>
    instructionLines escape header text (body @ drop k lines) \<and> headerHeredocs lib text = Inr docs \<and> heredocBodies docs body \<and>
    (if changed then \<exists>indent token target. legacyHeader text indent token target \<and>
         out = (indent @ ''COPY <<'' @ token @ '' '' @ target @ [newline]) # body
     else (\<nexists>indent token target. legacyHeader text indent token target) \<and> out = header @ body)"
proof -
  obtain "text" n where h: "instructionHeader escape lines = (text, n)" by fastforce
  note hl = instructionHeader_lines [OF h l]
  obtain i0 c0 where s0: "splitInstruction text = (i0, c0)" by fastforce
  obtain i c where s: "(if i0 = ''ONBUILD'' then splitInstruction c0 else (i0, c0)) = (i, c)" by fastforce
  have leg: "legacyHeader text indent token target \<longleftrightarrow> indent = takeWhile isBlank text \<and>
      list_all (\<lambda>c. c \<notin> set shellSyntax) target \<and> i0 = ''RUN'' \<and> legacyCommand c0 token target" for indent token target
    by (simp add: legacyHeader_iff s0)
  have c0: "trimSpace c0 = c0" "c0 = '''' \<or> \<not> isBlank (hd c0)"
    using splitInstruction_command [of "text"] command_first [of "text"] by (simp_all add: s0)
  show ?thesis
  proof (cases "i = ''RUN'' \<or> i = ''COPY'' \<or> i = ''ADD''")
    case False
    then have "out = take n lines \<and> k = n \<and> \<not> changed"
      using t by (auto simp: transformInstruction_def h s0 s)
    moreover have "headerHeredocs lib text = Inr []" using False by (simp add: headerHeredocs_def s0 s)
    moreover have "i0 \<noteq> ''RUN''" using False s by auto
    ultimately show ?thesis
      using hl by (intro exI [of _ "take n lines"] exI [of _ "text"] exI [of _ "[]"]) (auto simp: leg)
  next
    case True
    let ?plain = "takeWhile isBlank text @ i @ '' '' @ trimSpace c"
    obtain found docs k' where f: "parseLegacyCatHeredoc ?plain (Suc start) = Inr found"
      "(if i = ''RUN'' then instructionHeredocs lib c else dockerfileHeredocs lib c) = Inr docs"
      "skipHeredocs docs (drop n lines) = Inr k'"
      and r: "(out, k, changed) = (case (case found of
          Some sp \<Rightarrow> if i0 = ''ONBUILD'' \<or> containsAny (lh_target sp) shellSyntax then None else Some sp | None \<Rightarrow> None) of
          Some sp \<Rightarrow> (copyLine sp # take k' (drop n lines), n + k', True)
        | None \<Rightarrow> (take (n + k') lines, n + k', False))"
    proof -
      have cond: "(i \<noteq> ''RUN'' \<and> i \<noteq> ''COPY'' \<and> i \<noteq> ''ADD'') = False" using True by blast
      note u = t [unfolded transformInstruction_def h s0 Let_def prod.case s cond if_False]
      have na: "\<not> runCatAppendHeredoc ?plain" using u by (metis sum.distinct(1))
      from u [unfolded if_not_P [OF na] case_Inr_iff if_Inr_iff] obtain found docs k' where
        p: "parseLegacyCatHeredoc ?plain (Suc start) = Inr found"
        and d: "(if i = ''RUN'' then instructionHeredocs lib c else dockerfileHeredocs lib c) = Inr docs"
        and k: "skipHeredocs docs (drop n lines) = Inr k'"
        and e: "(case (case found of
          Some sp \<Rightarrow> if i0 = ''ONBUILD'' \<or> containsAny (lh_target sp) shellSyntax then None else Some sp | None \<Rightarrow> None) of
          Some sp \<Rightarrow> Inr (copyLine sp # take k' (drop n lines), n + k', True)
        | None \<Rightarrow> Inr (take (n + k') lines, n + k', False)) = (Inr (out, k, changed) :: (string list \<times> nat \<times> bool) result)"
        by blast
      show thesis by (rule that [OF p d k]) (use e in \<open>auto split: if_splits option.splits\<close>)
    qed
    note sk = skipHeredocs_bodies [OF f(3)]
    let ?body = "take k' (drop n lines)"
    have k: "k = n + k'" using r by (auto split: option.splits)
    have sp: "lines = take n lines @ ?body @ drop k lines" "drop n lines = ?body @ drop k lines"
      unfolding k by (metis append_take_drop_id drop_drop add.commute)+
    have docs: "headerHeredocs lib text = Inr docs" using f(2) True by (auto simp: headerHeredocs_def s0 s)
    have bl: "blankText (takeWhile isBlank text)" by (rule list_all_takeWhile)
    have "if changed then \<exists>indent token target. legacyHeader text indent token target \<and>
         out = (indent @ ''COPY <<'' @ token @ '' '' @ target @ [newline]) # ?body
       else (\<nexists>indent token target. legacyHeader text indent token target) \<and> out = take n lines @ ?body"
    proof (cases changed)
      case ch: True
      then obtain sp where sp: "found = Some sp" "i0 \<noteq> ''ONBUILD''" "\<not> containsAny (lh_target sp) shellSyntax" "out = copyLine sp # ?body"
        using r by (auto split: option.splits if_splits)
      have ic: "i = i0" "c = c0" using s sp(2) by auto
      have i: "i = ''RUN''"
        using f(1) sp(1) True runCat_other [OF bl, of i "trimSpace c"]
        by (auto simp: parseLegacyCatHeredoc_def runCatRedirectHeredoc_def runCatHeredocRedirect_def)
      have "lh_indent sp = takeWhile isBlank text \<and> legacyCommand c0 (lh_delimiterToken sp) (lh_target sp)"
        using parseLegacy_sound [OF f(1) [unfolded sp(1) i] bl] c0 ic by simp
      then show ?thesis
        using ch sp(3,4) i ic
        by (auto simp: leg copyLine_def containsAny_def list_all_iff list_ex_iff)
    next
      case ch: False
      have "\<not> legacyHeader text indent token target" for indent token target
      proof
        assume "legacyHeader text indent token target"
        then have lg: "list_all (\<lambda>c. c \<notin> set shellSyntax) target" "i0 = ''RUN''" "legacyCommand c0 token target" by (auto simp: leg)
        then have "i = ''RUN''" "c = c0" using s by auto
        with parseLegacy_complete [OF lg(3) bl] f(1) c0(1) lg(1,2) r ch show False
          by (auto simp: containsAny_def list_all_iff list_ex_iff split: if_splits)
      qed
      moreover have "out = take n lines @ ?body" using r ch by (auto simp: take_add split: option.splits)
      ultimately show ?thesis using ch by simp
    qed
    then show ?thesis
      using hl sk docs sp by (intro exI [of _ "take n lines"] exI [of _ "text"] exI [of _ ?body] exI [of _ docs]) auto
  qed
qed

lemma transformLoop_out:
  assumes "transformLoop lib directives escape start lines = Inr (out, changed)"
  shows "\<exists>n. rewritten lib directives escape lines out n \<and> (changed \<longleftrightarrow> 0 < n) \<and> (\<not> changed \<longrightarrow> out = lines)"
  using assms
proof (induction lines arbitrary: directives escape start out changed rule: length_induct)
  case (1 lines)
  show ?case
  proof (cases lines)
    case Nil
    then show ?thesis using "1.prems" rw_end by fastforce
  next
    case (Cons l ls)
    obtain d' dir where d: "dl_ParseLine lib directives (trimSpace l) = Inr (d', dir)"
      using "1.prems" Cons by (auto simp: case_Inr_iff)
    let ?esc = "nextEscape escape dir"
    have t0: "(case transformInstruction lib ?esc start lines of Inl e \<Rightarrow> Inl e
        | Inr (o1, k, c1) \<Rightarrow> (case transformLoop lib d' ?esc (start + k) (drop k lines) of Inl e \<Rightarrow> Inl e
          | Inr (o2, c2) \<Rightarrow> Inr (o1 @ o2, c1 \<or> c2))) = Inr (out, changed)"
      using "1.prems" Cons d by (simp add: nextEscape_def Let_def)
    then obtain o1 k c1 where t: "transformInstruction lib ?esc start lines = Inr (o1, k, c1)" by auto
    with t0 obtain o2 c2 where r: "transformLoop lib d' ?esc (start + k) (drop k lines) = Inr (o2, c2)"
      and res: "out = o1 @ o2" "changed \<longleftrightarrow> c1 \<or> c2" by auto
    have "0 < k" using transformInstruction_progress [OF t] Cons by simp
    then have "length (drop k lines) < length lines" using Cons by simp
    with "1.IH" r obtain n where IH: "rewritten lib d' ?esc (drop k lines) o2 n" "c2 \<longleftrightarrow> 0 < n" "\<not> c2 \<longrightarrow> o2 = drop k lines"
      by blast
    obtain header "text" body docs where i: "lines = header @ body @ drop k lines"
      "instructionLines ?esc header text (body @ drop k lines)" "headerHeredocs lib text = Inr docs" "heredocBodies docs body"
      "if c1 then \<exists>indent token target. legacyHeader text indent token target \<and>
         o1 = (indent @ ''COPY <<'' @ token @ '' '' @ target @ [newline]) # body
       else (\<nexists>indent token target. legacyHeader text indent token target) \<and> o1 = header @ body"
      using transformInstruction_lines [OF t] Cons by blast
    have "hd header = l" using i(1,2) Cons by (cases header) (auto simp: instructionLines_def)
    then have d: "dl_ParseLine lib directives (trimSpace (hd header)) = Inr (d', dir)" using d by simp
    show ?thesis
    proof (cases c1)
      case False
      then have "rewritten lib directives escape (header @ body @ drop k lines) (header @ body @ o2) n"
        using rw_keep [OF d refl i(2-4) _ IH(1)] i(5) by simp
      then show ?thesis using False IH i res by auto
    next
      case True
      then obtain indent token target where "legacyHeader text indent token target"
        "o1 = (indent @ ''COPY <<'' @ token @ '' '' @ target @ [newline]) # body" using i(5) by auto
      then have "rewritten lib directives escape (header @ body @ drop k lines) (o1 @ o2) (Suc n)"
        using rw_copy [OF d refl i(2-4) _ IH(1)] by simp
      then show ?thesis using True i(1) res by auto
    qed
  qed
qed

section \<open>Text without heredocs\<close>

definition no_less :: "string \<Rightarrow> bool" where
  "no_less s \<longleftrightarrow> CHR ''<'' \<notin> set s"

lemma set_trimRightFunc: "set (trimRightFunc p s) \<subseteq> set s"
  unfolding trimRightFunc_def using set_dropWhileD by fastforce

lemma set_trimSpace: "set (trimSpace s) \<subseteq> set s"
  using set_trimRightFunc [of isSpace "trimLeftFunc isSpace s"] set_dropWhileD [of _ isSpace s]
  by (auto simp: trimSpace_def trimLeftFunc_def)

lemma no_less_append [simp]: "no_less (s @ t) \<longleftrightarrow> no_less s \<and> no_less t"
  by (simp add: no_less_def)

lemma no_less_take: "no_less s \<Longrightarrow> no_less (take n s)"
  by (auto simp: no_less_def dest: in_set_takeD)

lemma no_less_trimRight: "no_less s \<Longrightarrow> no_less (trimRightFunc p s)"
  using set_trimRightFunc [of p s] by (auto simp: no_less_def)

lemma no_less_trimSpace: "no_less s \<Longrightarrow> no_less (trimSpace s)"
  using set_trimSpace [of s] by (auto simp: no_less_def)

lemma no_less_headerLoop:
  "no_less header \<Longrightarrow> \<forall>l \<in> set lines. no_less l \<Longrightarrow> no_less (fst (headerLoop escape first header lines))"
proof (induction lines arbitrary: first header)
  case (Cons l ls)
  have IH: "no_less h \<Longrightarrow> no_less (fst (headerLoop escape False h ls))" for h
    using Cons.IH Cons.prems(2) by simp
  have line: "no_less (trimRightFunc p l)" for p
    using Cons.prems(2) by (simp add: no_less_trimRight)
  have "no_less (take n (trimRightFunc q (trimRightFunc p l)))" for n p q
    by (intro no_less_take no_less_trimRight [OF line])
  with Cons.prems(1) line IH show ?case by (simp add: Let_def split_beta del: One_nat_def)
qed simp

lemma no_less_splitInstruction:
  assumes "no_less s"
  shows "no_less (snd (splitInstruction s))"
proof -
  have "no_less (drop n (trimSpace s))" for n
    using no_less_trimSpace [OF assms] by (auto simp: no_less_def dest: in_set_dropD)
  then have "no_less (trimSpace (drop n (trimSpace s)))" for n by (rule no_less_trimSpace)
  then show ?thesis by (simp add: splitInstruction_def Let_def) (simp add: no_less_def)
qed

lemma no_less_contains: "no_less s \<Longrightarrow> \<not> containsStr s ''<<''"
  by (induction s) (auto simp: no_less_def hasPrefix_def)

lemma literal_less: "literal ''<<'' s = Some r \<Longrightarrow> \<not> no_less s"
  by (auto simp: literal_def hasPrefix_iff no_less_def split: if_splits)

lemma literal_set: "literal p s = Some r \<Longrightarrow> set r \<subseteq> set s"
  by (auto simp: literal_def dest: in_set_dropD split: if_splits)

lemma blanks1_set: "blanks1 s = Some r \<Longrightarrow> set r \<subseteq> set s"
  by (auto simp: blanks1_def dest: set_dropWhileD split: list.splits if_splits)

lemma word1_set: "word1 s = Some (w, r) \<Longrightarrow> set r \<subseteq> set s"
  by (auto simp: word1_def dest: set_dropWhileD split: list.splits if_splits)

lemma runCat_set: "runCat s = Some (i, r) \<Longrightarrow> set r \<subseteq> set s"
  by (auto simp: runCat_def split: option.split_asm dest!: literal_set blanks1_set dest: set_dropWhileD)

lemmas pattern_sets = literal_set blanks1_set word1_set runCat_set

lemma heredocOperator_less: "no_less s \<Longrightarrow> heredocOperator s = None"
  by (auto simp: heredocOperator_def dest: literal_less split: option.splits)

lemma no_less_subset: "no_less s \<Longrightarrow> set r \<subseteq> set s \<Longrightarrow> no_less r"
  by (auto simp: no_less_def)
lemma pattern_less:
  "literal p s = Some r \<Longrightarrow> no_less s \<Longrightarrow> no_less r"
  "blanks1 s = Some r \<Longrightarrow> no_less s \<Longrightarrow> no_less r"
  "word1 s = Some (w, r) \<Longrightarrow> no_less s \<Longrightarrow> no_less r"
  "runCat s = Some (i, r) \<Longrightarrow> no_less s \<Longrightarrow> no_less r"
  by (auto intro: no_less_subset dest: pattern_sets)

lemma patterns_less:
  assumes "no_less line"
  shows "\<not> runCatAppendHeredoc line" "parseLegacyCatHeredoc line k = Inr None"
proof -
  have no: "literal ''<<'' s = None" if "no_less s" for s using literal_less that by (cases "literal ''<<'' s") auto
  show "\<not> runCatAppendHeredoc line"
    unfolding runCatAppendHeredoc_def using assms by (auto split: option.splits dest!: pattern_less dest: no)
  have "runCatRedirectHeredoc line = None" "runCatHeredocRedirect line = None"
    unfolding runCatRedirectHeredoc_def runCatHeredocRedirect_def using assms
    by (auto split: option.splits dest!: pattern_less dest: heredocOperator_less)
  then show "parseLegacyCatHeredoc line k = Inr None" by (simp add: parseLegacyCatHeredoc_def)
qed

lemma transformInstruction_less:
  assumes "\<forall>l \<in> set lines. no_less l"
  shows "\<exists>n. transformInstruction lib escape start lines = Inr (take n lines, n, False)"
proof -
  obtain plain0 n where h: "instructionHeader escape lines = (plain0, n)" by fastforce
  have p0: "no_less plain0"
    using no_less_headerLoop [of "''''" lines escape True] assms h by (simp add: instructionHeader_def no_less_def)
  obtain i0 c0 where s0: "splitInstruction plain0 = (i0, c0)" by fastforce
  obtain i c where s: "(if i0 = ''ONBUILD'' then splitInstruction c0 else (i0, c0)) = (i, c)" by fastforce
  have c0: "no_less c0" using no_less_splitInstruction [OF p0] s0 by simp
  then have c: "no_less c" using s no_less_splitInstruction [OF c0] by (auto split: if_splits)
  have none: "instructionHeredocs lib c = Inr []" "dockerfileHeredocs lib c = Inr []"
    using no_less_contains [OF c] by (simp_all add: instructionHeredocs_def dockerfileHeredocs_def)
  have "no_less (takeWhile isBlank plain0)" using p0 by (auto simp: no_less_def dest: set_takeWhileD)
  with no_less_trimSpace [OF c] have pl: "no_less (takeWhile isBlank plain0 @ i @ '' '' @ trimSpace c)"
    if "i = ''RUN'' \<or> i = ''COPY'' \<or> i = ''ADD''" using that by (auto simp: no_less_def)
  show ?thesis
  proof (cases "i = ''RUN'' \<or> i = ''COPY'' \<or> i = ''ADD''")
    case True
    from patterns_less [OF pl [OF True]] True none show ?thesis
      by (simp add: transformInstruction_def h s0 s)
  next
    case False
    then show ?thesis by (simp add: transformInstruction_def h s0 s)
  qed
qed

lemma transformLoop_less:
  assumes "\<forall>l \<in> set lines. no_less l" "\<And>d l. \<not> isl (dl_ParseLine lib d l)"
  shows "transformLoop lib directives escape start lines = Inr (lines, False)"
  using assms(1)
proof (induction lines arbitrary: directives escape start rule: length_induct)
  case (1 lines)
  show ?case
  proof (cases lines)
    case (Cons l ls)
    obtain d' dir where d: "dl_ParseLine lib directives (trimSpace l) = Inr (d', dir)"
      using assms(2) [of directives "trimSpace l"] by (cases "dl_ParseLine lib directives (trimSpace l)") auto
    define esc where "esc = (case dir of
        Some (name, v) \<Rightarrow> if name = ''escape'' \<and> (v = [CHR 0x5C] \<or> v = ''`'') then hd v else escape | None \<Rightarrow> escape)"
    obtain n where n: "transformInstruction lib esc start lines = Inr (take n lines, n, False)"
      using transformInstruction_less [OF "1.prems"] by blast
    have "0 < n" using transformInstruction_progress [OF n] Cons by simp
    then have "length (drop n lines) < length lines" using Cons by simp
    moreover have "\<forall>l \<in> set (drop n lines). no_less l" using "1.prems" by (auto dest: in_set_dropD)
    ultimately have "transformLoop lib d' esc (start + n) (drop n lines) = Inr (drop n lines, False)"
      using "1.IH" by blast
    with d n Cons show ?thesis by (simp add: esc_def [symmetric])
  qed simp
qed

section \<open>Properties\<close>

text \<open>
  C16. The preprocessor replaces exactly the headers of legacy heredocs. When it accepts a Dockerfile, the
  Dockerfile is a sequence of instructions, each a header of one or more lines with the bodies of its
  heredocs, under the escape character that the directives so far have set. The header of a \<^verbatim>\<open>RUN\<close> whose
  whole command is \<^verbatim>\<open>cat > target <<EOF\<close> or \<^verbatim>\<open>cat <<EOF > target\<close> with a target free of shell syntax becomes
  the line \<^verbatim>\<open>COPY <<EOF target\<close> with the same indentation, token and target; every other header and all
  bodies are kept byte for byte, and nothing is added or left out. A change is reported exactly when some
  header was replaced; otherwise the result is the input. Which heredocs an instruction has and what a
  directive line means is what the libraries answer.
\<close>

theorem transform_rewrites_headers:
  assumes "TransformLegacyHeredocs lib directives raw = Inr (processed, changed)"
  shows "\<exists>out n. rewritten lib directives CHR 0x5C (splitDockerfileLines raw) out n \<and> processed = concat out \<and>
    (changed \<longleftrightarrow> 0 < n) \<and> (\<not> changed \<longrightarrow> processed = raw)"
proof -
  obtain out c where t: "transformLoop lib directives CHR 0x5C 0 (splitDockerfileLines raw) = Inr (out, c)"
    using assms by (auto simp: TransformLegacyHeredocs_def)
  obtain n where o: "rewritten lib directives CHR 0x5C (splitDockerfileLines raw) out n" "c \<longleftrightarrow> 0 < n"
    "\<not> c \<longrightarrow> out = splitDockerfileLines raw" using transformLoop_out [OF t] by blast
  have "processed = concat out \<and> changed = c \<and> (\<not> changed \<longrightarrow> processed = raw)"
    using assms t o(3) by (cases c) (auto simp: TransformLegacyHeredocs_def)
  with o(1,2) show ?thesis by blast
qed

definition demoDockerLib :: "unit dockerfile_lib" where
  "demoDockerLib = \<lparr>dl_ParseLine = \<lambda>d l. Inr (d, None), dl_jsonValid = \<lambda>_. False, dl_Parse = \<lambda>_. Inl (Errorf ''''),
     dl_Redirects = \<lambda>c. (if containsStr c ''<<EOF'' then [(''<<'', ''EOF'')] else [], None),
     dl_ParseHeredoc = \<lambda>t. Inr (Some \<lparr>hd_Name = ''EOF'', hd_Chomp = False\<rparr>), dl_ProcessWords = \<lambda>_. Inr []\<rparr>"

definition demoDockerfile :: string where
  "demoDockerfile = ''FROM a'' @ [newline] @ '' run cat > /etc/x '' @ [CHR 0x5C, newline] @ ''<<EOF'' @ [newline] @
     ''k $v'' @ [newline] @ ''EOF'' @ [newline] @ ''RUN ls''"

theorem transform_rewrites_headers_witness:
  "\<exists>out n. rewritten demoDockerLib () CHR 0x5C (splitDockerfileLines demoDockerfile) out n \<and> 0 < n \<and>
     ''FROM a'' @ [newline] @ '' COPY <<EOF /etc/x'' @ [newline] @ ''k $v'' @ [newline] @ ''EOF'' @ [newline] @ ''RUN ls'' = concat out"
proof -
  have "TransformLegacyHeredocs demoDockerLib () demoDockerfile =
      Inr (''FROM a'' @ [newline] @ '' COPY <<EOF /etc/x'' @ [newline] @ ''k $v'' @ [newline] @ ''EOF'' @ [newline] @ ''RUN ls'', True)"
    by code_simp
  from transform_rewrites_headers [OF this] show ?thesis by blast
qed

text \<open>
  A Dockerfile without heredocs is left alone: with a directive parser that accepts every line, a
  text in which no less-than sign occurs is accepted, unchanged, and nothing is written to the file.
\<close>

lemma preprocess_untouched:
  assumes "CHR ''<'' \<notin> set raw" "\<And>d l. \<not> isl (dl_ParseLine lib d l)"
  shows "TransformLegacyHeredocs lib directives raw = Inr (raw, False) \<and>
    PreprocessDockerfile lib directives (Inr raw) statErr writeErr = (None, Inr False)"
proof -
  have "\<forall>l \<in> set (splitDockerfileLines raw). no_less l"
    using assms(1) concat_splitDockerfileLines [of raw] by (metis no_less_def set_concat UN_iff)
  from transformLoop_less [OF this assms(2)] show ?thesis
    by (simp add: TransformLegacyHeredocs_def PreprocessDockerfile_def)
qed

end
