(* ===== verification/Daemon_Config.thy ===== *)
theory Daemon_Config
  imports Build_Steps
begin

text \<open>
  The configuration of the daemon, \<^verbatim>\<open>internal/builddaemon/config.go\<close>: the defaults, the normalisation
  that replaces unset limits, the bearer token read from a file, and the limit on open files.
  Reading a file and the two system calls are arguments.
\<close>

section \<open>Configuration\<close>

record Config =
  c_Listen :: string
  c_BuildkitdAddrs :: string
  c_AuthToken :: string
  c_AuthTokenFile :: string
  c_WorkDir :: string
  c_DefaultMode :: string
  c_ModesJSON :: string
  c_RoutingTargetsJSON :: string
  c_KeepTTL :: duration
  c_PprofListen :: string
  c_MaxLogBytes :: int
  c_MaxRequestBytes :: int
  c_MaxExtractedBytes :: int
  c_MaxArchiveFiles :: int
  c_MaxRetainedTasks :: int
  c_MaxWorkDirBytes :: int
  c_UploadReadTimeout :: duration
  c_AddrConcurrency :: int
  c_MaxConcurrency :: int
  c_RLimitNoFile :: nat
  c_RegistryTimeout :: duration
  c_RegistryRules :: string
  c_RegistryChecks :: int
  c_TLS :: TLSConfig

definition noTLS :: TLSConfig where
  "noTLS = \<lparr>tls_CACert = '''', tls_Cert = '''', tls_Key = '''', tls_Dir = '''', tls_ServerName = ''''\<rparr>"

definition DefaultConfig :: Config where
  "DefaultConfig =
     \<lparr>c_Listen = '':8080'', c_BuildkitdAddrs = ''tcp://buildkit-service.buildkit-service.svc:9094'',
      c_AuthToken = '''', c_AuthTokenFile = '''', c_WorkDir = ''/tmp/buildctl-daemon'',
      c_DefaultMode = ''default_mode'', c_ModesJSON = '''', c_RoutingTargetsJSON = '''',
      c_KeepTTL = 7200 * second, c_PprofListen = '''', c_MaxLogBytes = 2 ^ 20,
      c_MaxRequestBytes = 512 * 2 ^ 20, c_MaxExtractedBytes = 4 * 2 ^ 30, c_MaxArchiveFiles = 100000,
      c_MaxRetainedTasks = 100, c_MaxWorkDirBytes = 8 * 2 ^ 30, c_UploadReadTimeout = 300 * second,
      c_AddrConcurrency = 5, c_MaxConcurrency = 0, c_RLimitNoFile = 0, c_RegistryTimeout = 30 * second,
      c_RegistryRules = '''', c_RegistryChecks = 32, c_TLS = noTLS\<rparr>"

definition loadAuthToken :: "(string \<Rightarrow> string result) \<Rightarrow> Config \<Rightarrow> Config result" where
  "loadAuthToken readFile cfg =
     (if c_AuthToken cfg \<noteq> '''' \<and> c_AuthTokenFile cfg \<noteq> '''' then
        Inl (Errorf ''--auth-token and --auth-token-file are mutually exclusive'')
      else if c_AuthTokenFile cfg = '''' then Inr cfg
      else case readFile (c_AuthTokenFile cfg) of
        Inl e \<Rightarrow> Inl (wrapErr ''read auth token file'' e)
      | Inr token \<Rightarrow>
          if trimSpace token = '''' then Inl (Errorf ''auth token file is empty'')
          else Inr (cfg\<lparr>c_AuthToken := trimSpace token\<rparr>))"

definition orDefault :: "int \<Rightarrow> int \<Rightarrow> int" where
  "orDefault v d = (if v \<le> 0 then d else v)"

text \<open>The limits that come before and after the test of \<^verbatim>\<open>--keep-ttl\<close> are set as the code sets them.\<close>

definition normalizeConfig :: "(string \<Rightarrow> string result) \<Rightarrow> Config \<Rightarrow> Config result" where
  "normalizeConfig readFile cfg0 = (case loadAuthToken readFile cfg0 of
      Inl e \<Rightarrow> Inl e
    | Inr cfg \<Rightarrow>
        (let cfg1 = cfg\<lparr>
           c_MaxLogBytes := orDefault (c_MaxLogBytes cfg) (c_MaxLogBytes DefaultConfig),
           c_MaxRequestBytes := orDefault (c_MaxRequestBytes cfg) (c_MaxRequestBytes DefaultConfig),
           c_MaxExtractedBytes := orDefault (c_MaxExtractedBytes cfg) (c_MaxExtractedBytes DefaultConfig),
           c_MaxArchiveFiles := orDefault (c_MaxArchiveFiles cfg) (c_MaxArchiveFiles DefaultConfig),
           c_MaxRetainedTasks := orDefault (c_MaxRetainedTasks cfg) (c_MaxRetainedTasks DefaultConfig),
           c_MaxWorkDirBytes := orDefault (c_MaxWorkDirBytes cfg) (c_MaxWorkDirBytes DefaultConfig),
           c_UploadReadTimeout := orDefault (c_UploadReadTimeout cfg) (c_UploadReadTimeout DefaultConfig),
           c_AddrConcurrency := orDefault (c_AddrConcurrency cfg) (c_AddrConcurrency DefaultConfig),
           c_MaxConcurrency := (if c_MaxConcurrency cfg < 0 then 0 else c_MaxConcurrency cfg)\<rparr>
         in if c_KeepTTL cfg1 < 0 then Inl (Errorf ''--keep-ttl must not be negative'')
            else Inr (cfg1\<lparr>
              c_RegistryTimeout := orDefault (c_RegistryTimeout cfg1) (c_RegistryTimeout DefaultConfig),
              c_RegistryChecks := orDefault (c_RegistryChecks cfg1) (c_RegistryChecks DefaultConfig)\<rparr>)))"

text \<open>
  \<^verbatim>\<open>applyNoFileLimit\<close>: \<open>current\<close> is what \<^verbatim>\<open>getrlimit\<close> answers, the soft and the hard limit, \<open>setErr\<close> the
  answer of \<^verbatim>\<open>setrlimit\<close>. The result is the limit that was set, if one was.
\<close>

definition applyNoFileLimit ::
    "(nat \<times> nat) result \<Rightarrow> go_error option \<Rightarrow> nat \<Rightarrow> (nat \<times> nat) option result" where
  "applyNoFileLimit current setErr limit =
     (if limit = 0 then Inr None
      else case current of
        Inl e \<Rightarrow> Inl (wrapErr ''get RLIMIT_NOFILE'' e)
      | Inr (cur, mx) \<Rightarrow>
          if limit \<le> cur \<and> limit \<le> mx then Inr None
          else case setErr of
            Some e \<Rightarrow> Inl (wrapErr (''set RLIMIT_NOFILE to '' @ showNat limit @ '' (current soft='' @ showNat cur @
                '' hard='' @ showNat mx @ '')'') e)
          | None \<Rightarrow> Inr (Some (limit, limit)))"

section \<open>Well-formed configurations\<close>

definition config_ok :: "Config \<Rightarrow> bool" where
  "config_ok cfg \<longleftrightarrow> 0 < c_MaxLogBytes cfg \<and> 0 < c_MaxRequestBytes cfg \<and> 0 < c_MaxExtractedBytes cfg \<and>
     0 < c_MaxArchiveFiles cfg \<and> 0 < c_MaxRetainedTasks cfg \<and> 0 < c_MaxWorkDirBytes cfg \<and>
     0 < c_UploadReadTimeout cfg \<and> 0 < c_AddrConcurrency cfg \<and> 0 \<le> c_MaxConcurrency cfg \<and>
     0 \<le> c_KeepTTL cfg \<and> 0 < c_RegistryTimeout cfg \<and> 0 < c_RegistryChecks cfg"

lemma orDefault_pos [simp]: "0 < d \<Longrightarrow> 0 < orDefault v d"
  by (simp add: orDefault_def)

lemma orDefault_id [simp]: "0 < v \<Longrightarrow> orDefault v d = v"
  by (simp add: orDefault_def)

lemma loadAuthToken_Inr:
  assumes "loadAuthToken readFile cfg = Inr cfg'"
  shows "\<exists>token. cfg' = cfg\<lparr>c_AuthToken := token\<rparr> \<and>
    (if c_AuthTokenFile cfg = '''' then token = c_AuthToken cfg
     else token \<noteq> '''' \<and> map_sum id trimSpace (readFile (c_AuthTokenFile cfg)) = Inr token)"
  using assms by (auto simp: loadAuthToken_def split: if_splits sum.splits)

lemma normalizeConfig_ok:
  assumes "normalizeConfig readFile cfg = Inr cfg'"
  shows "config_ok cfg'"
  using assms by (auto simp: normalizeConfig_def Let_def config_ok_def DefaultConfig_def split: if_splits)

lemma normalizeConfig_id:
  assumes "config_ok cfg" "c_AuthTokenFile cfg = ''''"
  shows "normalizeConfig readFile cfg = Inr cfg"
  using assms by (simp add: normalizeConfig_def loadAuthToken_def Let_def config_ok_def)

lemma normalizeConfig_token:
  assumes "normalizeConfig readFile cfg = Inr cfg'"
  shows "c_AuthTokenFile cfg' = c_AuthTokenFile cfg \<and>
    (if c_AuthTokenFile cfg = '''' then c_AuthToken cfg' = c_AuthToken cfg
     else c_AuthToken cfg' \<noteq> '''' \<and> map_sum id trimSpace (readFile (c_AuthTokenFile cfg)) = Inr (c_AuthToken cfg'))"
proof -
  obtain cfg1 where l: "loadAuthToken readFile cfg = Inr cfg1" and
    e: "c_AuthToken cfg' = c_AuthToken cfg1" "c_AuthTokenFile cfg' = c_AuthTokenFile cfg1"
    using assms by (auto simp: normalizeConfig_def Let_def split: if_splits)
  from loadAuthToken_Inr [OF l] obtain token where "cfg1 = cfg\<lparr>c_AuthToken := token\<rparr>"
    "if c_AuthTokenFile cfg = '''' then token = c_AuthToken cfg
     else token \<noteq> '''' \<and> map_sum id trimSpace (readFile (c_AuthTokenFile cfg)) = Inr token" by blast
  with e show ?thesis by simp
qed

lemma normalizeConfig_again:
  assumes "normalizeConfig readFile cfg = Inr cfg'" "c_AuthTokenFile cfg \<noteq> ''''"
  shows "normalizeConfig readFile' cfg' = Inl (Errorf ''--auth-token and --auth-token-file are mutually exclusive'')"
  using normalizeConfig_token [OF assms(1)] assms(2) by (simp add: normalizeConfig_def loadAuthToken_def)

text \<open>The limits that a default replaces, and the settings that no default touches.\<close>

definition limitSettings :: "(Config \<Rightarrow> int) list" where
  "limitSettings = [c_MaxLogBytes, c_MaxRequestBytes, c_MaxExtractedBytes, c_MaxArchiveFiles, c_MaxRetainedTasks,
     c_MaxWorkDirBytes, c_UploadReadTimeout, c_AddrConcurrency, c_RegistryTimeout, c_RegistryChecks]"

definition textSettings :: "(Config \<Rightarrow> string) list" where
  "textSettings = [c_Listen, c_BuildkitdAddrs, c_AuthTokenFile, c_WorkDir, c_DefaultMode, c_ModesJSON, c_RoutingTargetsJSON,
     c_PprofListen, c_RegistryRules]"

lemma limitSettingsE:
  assumes "limit \<in> set limitSettings"
  obtains "limit = c_MaxLogBytes" | "limit = c_MaxRequestBytes" | "limit = c_MaxExtractedBytes" | "limit = c_MaxArchiveFiles"
  | "limit = c_MaxRetainedTasks" | "limit = c_MaxWorkDirBytes" | "limit = c_UploadReadTimeout" | "limit = c_AddrConcurrency"
  | "limit = c_RegistryTimeout" | "limit = c_RegistryChecks"
  using assms unfolding limitSettings_def list.set insert_iff by blast

lemma normalizeConfig_settings:
  assumes "normalizeConfig readFile cfg = Inr cfg'"
  shows "\<forall>limit \<in> set limitSettings. limit cfg' = (if 0 < limit cfg then limit cfg else limit DefaultConfig)"
    and "c_MaxConcurrency cfg' = max 0 (c_MaxConcurrency cfg)"
    and "\<forall>setting \<in> set textSettings. setting cfg' = setting cfg"
    and "c_KeepTTL cfg' = c_KeepTTL cfg" "0 \<le> c_KeepTTL cfg" "c_RLimitNoFile cfg' = c_RLimitNoFile cfg" "c_TLS cfg' = c_TLS cfg"
proof -
  obtain cfg1 where l: "loadAuthToken readFile cfg = Inr cfg1" using assms by (cases "loadAuthToken readFile cfg") (simp_all add: normalizeConfig_def)
  then obtain token where c: "cfg1 = cfg\<lparr>c_AuthToken := token\<rparr>" using loadAuthToken_Inr by blast
  have ttl: "\<not> c_KeepTTL cfg < 0" using assms by (auto simp: normalizeConfig_def l c Let_def)
  have cfg': "limit cfg' = orDefault (limit cfg) (limit DefaultConfig)" if "limit \<in> set limitSettings" for limit
    using that assms ttl by (elim limitSettingsE) (auto simp: normalizeConfig_def l c Let_def)
  then show "\<forall>limit \<in> set limitSettings. limit cfg' = (if 0 < limit cfg then limit cfg else limit DefaultConfig)"
    by (metis orDefault_def linorder_not_le)
  show "\<forall>setting \<in> set textSettings. setting cfg' = setting cfg"
    using assms ttl by (auto simp: normalizeConfig_def l c Let_def textSettings_def)
  show "c_MaxConcurrency cfg' = max 0 (c_MaxConcurrency cfg)" "c_KeepTTL cfg' = c_KeepTTL cfg" "0 \<le> c_KeepTTL cfg"
    "c_RLimitNoFile cfg' = c_RLimitNoFile cfg" "c_TLS cfg' = c_TLS cfg"
    using assms ttl by (auto simp: normalizeConfig_def l c Let_def)
qed

section \<open>Properties\<close>



end
