(* ===== verification/Build_Request.thy ===== *)
theory Build_Request
  imports Build_Lifecycle Mode_Scheduler Target_Router Workspace Heredoc Daemon_Config
begin

text \<open>
  The handler that admits a build, \<^verbatim>\<open>internal/builddaemon/build_request.go\<close>, in the order of the code:
  the limits, the multipart request, the upload and its extraction, the build context, the
  parameters, the task, and its submission to the scheduler. Everything runs under the admission
  lock, so the steps up to the submission are one transition.

  What the outside answers is in the record \<open>create_env\<close>: the walks of the file system, the form, the
  uploaded file, the random bytes, the results of system calls. A refusal is the status and the error
  text of the JSON answer.
\<close>

section \<open>Parameters of a request\<close>

definition queryBool :: "string \<Rightarrow> bool" where
  "queryBool raw \<longleftrightarrow> toLower (trimSpace raw) \<in> set [''1'', ''t'', ''true'', ''y'', ''yes'', ''on'']"

definition parseOptionalPositiveInt :: "string \<Rightarrow> int result" where
  "parseOptionalPositiveInt raw =
     (if trimSpace raw = '''' then Inr 0
      else case atoi (trimSpace raw) of
        Some n \<Rightarrow> if n \<le> 0 then Inl (Errorf ''timeout_seconds must be a positive integer'') else Inr n
      | None \<Rightarrow> Inl (Errorf ''timeout_seconds must be a positive integer''))"

definition parseOptionalNonNegativeInt :: "string \<Rightarrow> string \<Rightarrow> int \<Rightarrow> int result" where
  "parseOptionalNonNegativeInt raw name def =
     (if trimSpace raw = '''' then Inr def
      else case atoi (trimSpace raw) of
        Some n \<Rightarrow> if n < 0 then Inl (Errorf (name @ '' must be a non-negative integer'')) else Inr n
      | None \<Rightarrow> Inl (Errorf (name @ '' must be a non-negative integer'')))"

fun firstNonEmpty :: "string list \<Rightarrow> string" where
  "firstNonEmpty [] = ''''"
| "firstNonEmpty (v # vs) = (if trimSpace v \<noteq> '''' then v else firstNonEmpty vs)"

text \<open>
  The form of a multipart request: the values of the query and of the parts, by name.
  \<^verbatim>\<open>FormValue\<close> looks at the query first.
\<close>

record request_form =
  rf_query :: "(string \<times> string list) list"
  rf_parts :: "(string \<times> string list) list"

definition formGet :: "(string \<times> string list) list \<Rightarrow> string \<Rightarrow> string list" where
  "formGet vs key = (case map_of vs key of Some l \<Rightarrow> l | None \<Rightarrow> [])"

definition FormValue :: "request_form \<Rightarrow> string \<Rightarrow> string" where
  "FormValue f key = (case formGet (rf_query f) key @ formGet (rf_parts f) key of [] \<Rightarrow> '''' | v # _ \<Rightarrow> v)"

definition QueryParam :: "request_form \<Rightarrow> string \<Rightarrow> string" where
  "QueryParam f key = (case formGet (rf_query f) key of [] \<Rightarrow> '''' | v # _ \<Rightarrow> v)"

definition buildArgName :: "string \<Rightarrow> string option" where
  "buildArgName key =
     (let name = (if hasPrefix key ''build_arg.'' then Some (trimPrefix key ''build_arg.'')
                  else if hasPrefix key ''build_arg:'' then Some (trimPrefix key ''build_arg:'')
                  else None)
      in case name of None \<Rightarrow> None | Some n \<Rightarrow> if trimSpace n = '''' then None else Some (trimSpace n))"

definition parseBuildArgs :: "request_form \<Rightarrow> strmap" where
  "parseBuildArgs f = foldl (\<lambda>args (key, vs). case (vs, buildArgName key) of
      (v # _, Some name) \<Rightarrow> AList.update name v args
    | _ \<Rightarrow> args) [] (rf_parts f)"

section \<open>What the handler asks of its surroundings\<close>

datatype parse_outcome = FormParsed | FormTooLarge | FormInvalid

record upload_file =
  up_Size :: int
  up_OpenErr :: "go_error option"
  up_CreateErr :: "go_error option"
  up_WriteErr :: "(nat \<times> go_error) option"
  up_Reader :: reader

record 'd create_libs =
  cl_reference :: reference_lib
  cl_sha256 :: "string \<Rightarrow> string"
  cl_sha256hex :: "string \<Rightarrow> string"
  cl_docker :: "'d dockerfile_lib"
  cl_directives :: 'd
  cl_metadataTarget :: "string \<Rightarrow> string result"

record create_env =
  ce_workDir :: "walk_entry list"
  ce_parse :: "int \<Rightarrow> parse_outcome"
  ce_form :: request_form
  ce_upload :: "upload_file option"
  ce_random :: "string result"
  ce_mkdirErr :: "go_error option"
  ce_zipStatErr :: "go_error option"
  ce_archive :: "zipEntry list result"
  ce_fileExists :: "string \<Rightarrow> bool"
  ce_readDir :: "(string \<times> bool) list result"
  ce_contextWalk :: "walk_entry list"
  ce_dockerfile :: "string result"
  ce_dockerStatErr :: "go_error option"
  ce_dockerWriteErr :: "go_error option"
  ce_dockerMode :: nat
  ce_metadata :: "string result"
  ce_queuedAt :: time
  ce_now :: time
  ce_traceID :: "string option"

type_synonym refusal = "nat \<times> string"

datatype dir_op = Fs fs_op | RemoveAll string

section \<open>The stages\<close>

definition admitLimits :: "Config \<Rightarrow> nat \<Rightarrow> walk_entry list \<Rightarrow> refusal + (int \<times> int)" where
  "admitLimits cfg tasks workDir =
     (if orDefault (c_MaxRetainedTasks cfg) (c_MaxRetainedTasks DefaultConfig) \<le> int tasks
      then Inl (429, ''maximum retained task count reached'')
      else case directorySize workDir of
        (workDirBytes, Some e) \<Rightarrow> Inl (500, err_text e)
      | (workDirBytes, None) \<Rightarrow>
          (let remaining = orDefault (c_MaxWorkDirBytes cfg) (c_MaxWorkDirBytes DefaultConfig) - workDirBytes in
           if remaining \<le> 0 then Inl (507, ''work directory byte budget exhausted'')
           else Inr (remaining, min remaining (orDefault (c_MaxRequestBytes cfg) (c_MaxRequestBytes DefaultConfig)))))"

definition parseRequest ::
    "buildModes option \<Rightarrow> create_env \<Rightarrow> int \<Rightarrow> refusal + (string \<times> string \<times> buildModeConfig \<times> upload_file \<times> string)" where
  "parseRequest modes env maxRequestBytes = (case ce_parse env maxRequestBytes of
      FormTooLarge \<Rightarrow> Inl (413, ''build request exceeds max-request-bytes'')
    | FormInvalid \<Rightarrow> Inl (400, ''invalid multipart build request'')
    | FormParsed \<Rightarrow>
        (case parseImageType (firstNonEmpty [FormValue (ce_form env) ''image_type'', FormValue (ce_form env) ''compression'']) of
           Inl e \<Rightarrow> Inl (400, err_text e)
         | Inr imageType \<Rightarrow>
        (case resolve modes (FormValue (ce_form env) ''mode'') of
           Inl e \<Rightarrow> Inl (400, err_text e)
         | Inr (mode, modeCfg) \<Rightarrow>
        (case ce_upload env of
           None \<Rightarrow> Inl (400, ''file is required'')
         | Some upload \<Rightarrow>
        (case newTaskID (ce_random env) of
           Inl e \<Rightarrow> Inl (500, err_text e)
         | Inr tid \<Rightarrow> Inr (imageType, mode, modeCfg, upload, tid))))))"

text \<open>
  The upload and its extraction. The size that \<^verbatim>\<open>os.Stat\<close> reports is the length of the file that was
  written; the answer is the changes to the file system and the refusal.
\<close>

definition storeUpload ::
    "Config \<Rightarrow> create_env \<Rightarrow> upload_file \<Rightarrow> string \<Rightarrow> int \<Rightarrow> int \<Rightarrow> fs_op list \<times> refusal option" where
  "storeUpload cfg env upload taskDir remaining maxRequestBytes =
     (case saveUploadedFile (up_Size upload) (up_OpenErr upload) (up_CreateErr upload) (up_WriteErr upload)
          (up_Reader upload) (filepathJoin taskDir ''source.zip'') maxRequestBytes of
        (ops, Some e) \<Rightarrow> (ops, Some (if errors_Is e ArchiveLimit then 413 else 500, err_text e))
      | (ops, None) \<Rightarrow>
          (case ce_zipStatErr env of
             Some e \<Rightarrow> (ops, Some (500, err_text e))
           | None \<Rightarrow>
               (let remaining' = remaining - int (sum_list (map op_bytes ops)) in
                if remaining' \<le> 0 then (ops, Some (507, ''work directory byte budget exhausted''))
                else
                  (case extractZip (ce_archive env) (filepathJoin taskDir ''context'')
                      (min remaining' (orDefault (c_MaxExtractedBytes cfg) (c_MaxExtractedBytes DefaultConfig)))
                      (orDefault (c_MaxArchiveFiles cfg) (c_MaxArchiveFiles DefaultConfig)) of
                     (ops', Some e) \<Rightarrow> (ops @ ops', Some (if errors_Is e ArchiveLimit then 413 else 400, err_text e))
                   | (ops', None) \<Rightarrow> (ops @ ops', None)))))"

record build_context =
  bc_dir :: string
  bc_scheduleKey :: string
  bc_image :: string
  bc_routedTarget :: string
  bc_routingDigest :: string

definition prepareContext ::
    "'d create_libs \<Rightarrow> create_env \<Rightarrow> registryRoutingTarget list option \<Rightarrow> buildModeConfig \<Rightarrow> string \<Rightarrow>
     fs_op list \<times> (refusal + build_context)" where
  "prepareContext libs env router modeCfg contextParentDir =
     (case findBuildContext (ce_fileExists env) (ce_readDir env) contextParentDir of
        Inl e \<Rightarrow> ([], Inl (400, err_text e))
      | Inr contextDir \<Rightarrow>
     (case sourceContextContentHash (cl_sha256hex libs) (ce_contextWalk env) of
        Inl e \<Rightarrow> ([], Inl (400, err_text e))
      | Inr scheduleKey \<Rightarrow>
     (case PreprocessDockerfile (cl_docker libs) (cl_directives libs) (ce_dockerfile env) (ce_dockerStatErr env)
          (ce_dockerWriteErr env) of
        (put, Inl e) \<Rightarrow> ([], Inl (400, err_text e))
      | (put, Inr changed) \<Rightarrow>
          (let ops = (case put of
               Some content \<Rightarrow> [WriteFile (filepathJoin contextDir ''Dockerfile'') (ce_dockerMode env) content]
             | None \<Rightarrow> []) in
           case resolveBuildImage (ce_metadata env) (cl_metadataTarget libs) (FormValue (ce_form env) ''image'') of
             Inl e \<Rightarrow> (ops, Inl (400, err_text e))
           | Inr img \<Rightarrow>
               (let digest = trimPrefix scheduleKey ''source:'';
                    ctx = (\<lambda>routed. \<lparr>bc_dir = contextDir, bc_scheduleKey = scheduleKey, bc_image = img,
                            bc_routedTarget = routed, bc_routingDigest = digest\<rparr>) in
                if \<not> mc_RoutingEnabled modeCfg then (ops, Inr (ctx img))
                else if router = None then (ops, Inl (503, ''registry routing is not configured''))
                else case Route (cl_reference libs) (cl_sha256 libs) router img digest of
                  Inl e \<Rightarrow> (ops, Inl (400, err_text e))
                | Inr routed \<Rightarrow> (ops, Inr (ctx routed)))))))"

record build_params =
  bp_sync :: bool
  bp_timeout :: "duration option"
  bp_retry :: int
  bp_retryInterval :: duration

definition buildParameters :: "request_form \<Rightarrow> refusal + build_params" where
  "buildParameters f =
     (let both = (\<lambda>key. firstNonEmpty [FormValue f key, QueryParam f key]) in
      case parseOptionalPositiveInt (FormValue f ''timeout_seconds'') of
        Inl e \<Rightarrow> Inl (400, err_text e)
      | Inr timeout \<Rightarrow>
      (case parseOptionalNonNegativeInt (both ''retry'') ''retry'' 3 of
        Inl e \<Rightarrow> Inl (400, err_text e)
      | Inr retry \<Rightarrow>
      (case parseOptionalNonNegativeInt (both ''retry-interval'') ''retry-interval'' 10 of
        Inl e \<Rightarrow> Inl (400, err_text e)
      | Inr interval \<Rightarrow>
          Inr \<lparr>bp_sync = queryBool (both ''sync''),
               bp_timeout = (if timeout > 0 then Some (wrap64 (timeout * second)) else None),
               bp_retry = retry, bp_retryInterval = wrap64 (interval * second)\<rparr>)))"

definition makeTask :: "create_env \<Rightarrow> string \<Rightarrow> string \<Rightarrow> string \<Rightarrow> string \<Rightarrow> build_context \<Rightarrow> build_params \<Rightarrow> buildTask" where
  "makeTask env tid taskDir imageType mode ctx ps =
     \<lparr>t_TraceID = (case ce_traceID env of Some t \<Rightarrow> t | None \<Rightarrow> ''''), t_queuedAt = ce_queuedAt env, t_observed = False,
      t_ID = tid, t_Status = buildStatusQueued, t_Image = bc_image ctx, t_Mode = mode,
      t_RoutedTarget = bc_routedTarget ctx, t_ImageType = imageType,
      t_Target = trimSpace (FormValue (ce_form env) ''target''), t_BuildkitAddr = '''', t_NodeIP = '''',
      t_CreatedAt = ce_now env, t_StartedAt = None, t_FinishedAt = None, t_Error = '''',
      t_LogPath = filepathJoin taskDir ''build.log'', t_WorkDir = taskDir, t_ExporterResponse = [],
      t_contextDir = bc_dir ctx, t_scheduleKey = bc_scheduleKey ctx, t_routingDigest = bc_routingDigest ctx,
      t_noCache = queryBool (FormValue (ce_form env) ''no_cache''), t_retry = bp_retry ps,
      t_retryInterval = bp_retryInterval ps, t_buildArgs = parseBuildArgs (ce_form env), t_done = True\<rparr>"

section \<open>Admission\<close>

definition admitBuild ::
    "'d create_libs \<Rightarrow> Config \<Rightarrow> buildModes option \<Rightarrow> registryRoutingTarget list option \<Rightarrow> nat \<Rightarrow> create_env \<Rightarrow>
     dir_op list \<times> (refusal + (buildTask \<times> build_params))" where
  "admitBuild libs cfg modes router tasks env = (case admitLimits cfg tasks (ce_workDir env) of
      Inl r \<Rightarrow> ([], Inl r)
    | Inr (remaining, maxRequestBytes) \<Rightarrow>
        (case parseRequest modes env maxRequestBytes of
           Inl r \<Rightarrow> ([], Inl r)
         | Inr (imageType, mode, modeCfg, upload, tid) \<Rightarrow>
             (let taskDir = filepathJoin (c_WorkDir cfg) tid; contextParentDir = filepathJoin taskDir ''context'' in
              case ce_mkdirErr env of
                Some e \<Rightarrow> ([Fs (MkdirAll contextParentDir)], Inl (500, err_text e))
              | None \<Rightarrow>
                  (case storeUpload cfg env upload taskDir remaining maxRequestBytes of
                     (ops, Some r) \<Rightarrow> (map Fs (MkdirAll contextParentDir # ops) @ [RemoveAll taskDir], Inl r)
                   | (ops, None) \<Rightarrow>
                       (case prepareContext libs env router modeCfg contextParentDir of
                          (ops', Inl r) \<Rightarrow> (map Fs (MkdirAll contextParentDir # ops @ ops') @ [RemoveAll taskDir], Inl r)
                        | (ops', Inr ctx) \<Rightarrow>
                            (let done_ops = map Fs (MkdirAll contextParentDir # ops @ ops') in
                             case buildParameters (ce_form env) of
                               Inl r \<Rightarrow> (done_ops @ [RemoveAll taskDir], Inl r)
                             | Inr ps \<Rightarrow> (done_ops, Inr (makeTask env tid taskDir imageType mode ctx ps, ps))))))))"

section \<open>Submission\<close>

record daemon =
  dm_cfg :: Config
  dm_modes :: "buildModes option"
  dm_router :: "registryRoutingTarget list option"
  dm_scheduler :: "buildModeScheduler option"
  dm_world :: world

text \<open>The answer to the client: an error, or the wait for the build and the view of the task.\<close>

datatype create_answer =
    AnswerError nat string
  | AnswerSync string
  | AnswerAccepted string

definition handleCreateBuild ::
    "'d create_libs \<Rightarrow> create_env \<Rightarrow> daemon \<Rightarrow> daemon \<times> dir_op list \<times> create_answer" where
  "handleCreateBuild libs env d =
     (case admitBuild libs (dm_cfg d) (dm_modes d) (dm_router d) (store_len (w_store (dm_world d))) env of
        (ops, Inl (code, msg)) \<Rightarrow> (d, ops, AnswerError code msg)
      | (ops, Inr (task, ps)) \<Rightarrow>
          (let w1 = submit_task task (dm_world d);
               answer = (if bp_sync ps then AnswerSync (t_ID task) else AnswerAccepted (t_ID task)) in
           case dm_scheduler d of
             None \<Rightarrow> (d\<lparr>dm_world := add_proc (new_proc True RunStart zeroTask (t_ID task)) w1\<rparr>, ops, answer)
           | Some s \<Rightarrow>
               (case enqueue (t_Mode task) (t_ID task) (Some s) of
                  Inl e \<Rightarrow> (d\<lparr>dm_world := add_proc (new_proc True RejectCancel task (t_ID task)) w1\<rparr>, ops,
                             AnswerError 503 (err_text e))
                | Inr s' \<Rightarrow> (d\<lparr>dm_scheduler := Some s', dm_world := w1\<rparr>, ops, answer))))"

text \<open>
  The end of the handler: a synchronous request waits for the \<^verbatim>\<open>done\<close> channel or the end of the request
  (\<open>finished\<close> is false then) and reads the task from the store as it is at that time.
\<close>

definition zeroView :: buildTaskView where
  "zeroView = \<lparr>v_TraceID = '''', v_ID = '''', v_Status = '''', v_Image = '''', v_Mode = '''', v_RoutedTarget = '''',
     v_ImageType = '''', v_Target = '''', v_BuildkitAddr = '''', v_NodeIP = '''', v_Retry = 0,
     v_RetryIntervalSeconds = 0, v_CreatedAt = 0, v_StartedAt = None, v_FinishedAt = None, v_Error = ''''\<rparr>"

definition handleSyncBuild :: "bool \<Rightarrow> string \<Rightarrow> taskStore \<Rightarrow> (nat \<times> (string + buildTaskView)) option" where
  "handleSyncBuild finished tid store =
     (if \<not> finished then None
      else case store_get store tid of
        None \<Rightarrow> Some (404, Inl ''build not found'')
      | Some task \<Rightarrow> Some (200, Inr (viewTask task)))"

definition acceptedView :: "string \<Rightarrow> taskStore \<Rightarrow> nat \<times> buildTaskView" where
  "acceptedView tid store = (202, case store_get store tid of Some task \<Rightarrow> viewTask task | None \<Rightarrow> zeroView)"

section \<open>Lemmas\<close>

lemma parseOptionalNonNegativeInt_nonneg:
  "parseOptionalNonNegativeInt raw name def = Inr n \<Longrightarrow> 0 \<le> def \<Longrightarrow> 0 \<le> n"
  by (auto simp: parseOptionalNonNegativeInt_def split: if_splits option.splits)

lemma buildParameters_retry: "buildParameters f = Inr ps \<Longrightarrow> 0 \<le> bp_retry ps"
  by (auto simp: buildParameters_def Let_def split: sum.split_asm dest!: parseOptionalNonNegativeInt_nonneg)

lemma makeTask_new: "0 \<le> bp_retry ps \<Longrightarrow> new_task (makeTask env tid taskDir imageType mode ctx ps)"
  by (simp add: makeTask_def new_task_def)

text \<open>The outcomes of an admission, stage by stage.\<close>

lemma admitBuild_cases [consumes 1, case_names early mkdir refused admitted]:
  assumes "admitBuild libs cfg modes router tasks env = (ops, r)"
  obtains (early) x where "ops = []" "r = Inl x"
  | (mkdir) x tid where "ops = [Fs (MkdirAll (filepathJoin (filepathJoin (c_WorkDir cfg) tid) ''context''))]" "r = Inl x"
      "newTaskID (ce_random env) = Inr tid" "ce_mkdirErr env \<noteq> None"
  | (refused) x tid upload remaining maxRequestBytes modeCfg ops1 r1 ops2 r2 where
      "ops = map Fs (MkdirAll (filepathJoin (filepathJoin (c_WorkDir cfg) tid) ''context'') # ops1 @ ops2) @
         [RemoveAll (filepathJoin (c_WorkDir cfg) tid)]" "r = Inl x"
      "newTaskID (ce_random env) = Inr tid"
      "storeUpload cfg env upload (filepathJoin (c_WorkDir cfg) tid) remaining maxRequestBytes = (ops1, r1)"
      "ops2 = [] \<or> prepareContext libs env router modeCfg (filepathJoin (filepathJoin (c_WorkDir cfg) tid) ''context'') = (ops2, r2)"
  | (admitted) remaining maxRequestBytes imageType mode modeCfg upload tid ops1 ops2 ctx ps where
      "admitLimits cfg tasks (ce_workDir env) = Inr (remaining, maxRequestBytes)"
      "parseRequest modes env maxRequestBytes = Inr (imageType, mode, modeCfg, upload, tid)"
      "storeUpload cfg env upload (filepathJoin (c_WorkDir cfg) tid) remaining maxRequestBytes = (ops1, None)"
      "prepareContext libs env router modeCfg (filepathJoin (filepathJoin (c_WorkDir cfg) tid) ''context'') = (ops2, Inr ctx)"
      "buildParameters (ce_form env) = Inr ps"
      "ops = map Fs (MkdirAll (filepathJoin (filepathJoin (c_WorkDir cfg) tid) ''context'') # ops1 @ ops2)"
      "r = Inr (makeTask env tid (filepathJoin (c_WorkDir cfg) tid) imageType mode ctx ps, ps)"
proof (cases "admitLimits cfg tasks (ce_workDir env)")
  case (Inl x)
  then show thesis using assms by (intro early) (auto simp: admitBuild_def Let_def)
next
  case lim: (Inr l)
  obtain remaining maxRequestBytes where l: "l = (remaining, maxRequestBytes)" by (cases l)
  show thesis
  proof (cases "parseRequest modes env maxRequestBytes")
    case (Inl x)
    then show thesis using assms lim l by (intro early) (auto simp: admitBuild_def Let_def)
  next
    case req: (Inr q)
    obtain imageType mode modeCfg upload tid where q: "q = (imageType, mode, modeCfg, upload, tid)" by (cases q)
    have tid: "newTaskID (ce_random env) = Inr tid"
      using req q by (auto simp: parseRequest_def split: parse_outcome.split_asm sum.split_asm option.split_asm)
    let ?dir = "filepathJoin (c_WorkDir cfg) tid"
    obtain ops1 r1 where st: "storeUpload cfg env upload ?dir remaining maxRequestBytes = (ops1, r1)" by fastforce
    obtain ops2 r2 where pr: "prepareContext libs env router modeCfg (filepathJoin ?dir ''context'') = (ops2, r2)" by fastforce
    note facts = lim [unfolded l] req [unfolded q] st pr
    let ?ops = "MkdirAll (filepathJoin ?dir ''context'') # ops1"
    consider (mkdir) e where "ce_mkdirErr env = Some e"
      | (upload) x where "ce_mkdirErr env = None" "r1 = Some x"
      | (noContext) x where "ce_mkdirErr env = None" "r1 = None" "r2 = Inl x"
      | (params) ctx x where "ce_mkdirErr env = None" "r1 = None" "r2 = Inr ctx" "buildParameters (ce_form env) = Inl x"
      | (ok) ctx ps where "ce_mkdirErr env = None" "r1 = None" "r2 = Inr ctx" "buildParameters (ce_form env) = Inr ps"
      by (metis not_None_eq sum.exhaust)
    then show thesis
    proof cases
      case (mkdir e)
      then show thesis using assms facts
        by (intro that(2) [OF _ _ tid, of "(500, err_text e)"]) (auto simp: admitBuild_def Let_def)
    next
      case (upload x)
      then show thesis using assms facts
        by (intro refused [OF _ _ tid st, of "[]" x]) (auto simp: admitBuild_def Let_def)
    next
      case (noContext x)
      then show thesis using assms facts
        by (intro refused [OF _ _ tid st, of ops2 x]) (auto simp: admitBuild_def Let_def)
    next
      case (params ctx x)
      then show thesis using assms facts
        by (intro refused [OF _ _ tid st, of ops2 x]) (auto simp: admitBuild_def Let_def)
    next
      case ok
      then show thesis using assms facts by (intro admitted) (auto simp: admitBuild_def Let_def)
    qed
  qed
qed

lemma admitLimits_Inr:
  assumes "admitLimits cfg tasks workDir = Inr (remaining, maxRequestBytes)"
  shows "int tasks < orDefault (c_MaxRetainedTasks cfg) (c_MaxRetainedTasks DefaultConfig) \<and> 0 < remaining \<and>
    directorySize workDir = (orDefault (c_MaxWorkDirBytes cfg) (c_MaxWorkDirBytes DefaultConfig) - remaining, None) \<and>
    maxRequestBytes \<le> remaining"
  using assms by (auto simp: admitLimits_def Let_def split: if_split_asm prod.split_asm option.split_asm)

lemma saveUploadedFile_bytes:
  assumes "saveUploadedFile uploadSize openErr createErr wErr src dst maxBytes = (ops, err)" "0 \<le> maxBytes"
  shows "int (sum_list (map op_bytes ops)) \<le> maxBytes"
  using assms copyWithLimit_length [of wErr src maxBytes]
  by (auto simp: saveUploadedFile_def Let_def split: if_split_asm option.split_asm prod.split_asm)

lemma storeUpload_bytes:
  assumes "storeUpload cfg env upload taskDir remaining maxRequestBytes = (ops, r)"
    and "0 \<le> maxRequestBytes" "maxRequestBytes \<le> remaining"
  shows "int (sum_list (map op_bytes ops)) \<le> remaining"
proof -
  obtain ops1 e1 where s: "saveUploadedFile (up_Size upload) (up_OpenErr upload) (up_CreateErr upload) (up_WriteErr upload)
      (up_Reader upload) (filepathJoin taskDir ''source.zip'') maxRequestBytes = (ops1, e1)" by fastforce
  note b1 = saveUploadedFile_bytes [OF s assms(2)]
  let ?left = "remaining - int (sum_list (map op_bytes ops1))"
  let ?m = "min ?left (orDefault (c_MaxExtractedBytes cfg) (c_MaxExtractedBytes DefaultConfig))"
  obtain ops2 e2 where x: "extractZip (ce_archive env) (filepathJoin taskDir ''context'') ?m
      (orDefault (c_MaxArchiveFiles cfg) (c_MaxArchiveFiles DefaultConfig)) = (ops2, e2)" by fastforce
  have pos: "0 < orDefault (c_MaxExtractedBytes cfg) (c_MaxExtractedBytes DefaultConfig)" by (simp add: DefaultConfig_def)
  have b2: "int (sum_list (map op_bytes ops2)) \<le> ?left" if "0 < ?left"
    using extractZip_bytes [OF x] that pos by simp
  consider "ops = ops1" | "ops = ops1 @ ops2" "0 < ?left"
    using assms(1) s x by (auto simp: storeUpload_def Let_def split: option.split_asm if_split_asm)
  then show ?thesis using b1 b2 assms(3) by cases auto
qed

lemma prepareContext_ops:
  assumes "prepareContext libs env router modeCfg dir = (ops, Inr ctx)" "op \<in> set ops"
  shows "op_path op = filepathJoin (bc_dir ctx) ''Dockerfile''"
  using assms by (auto simp: prepareContext_def Let_def split: sum.split_asm prod.split_asm option.split_asm if_split_asm)

text \<open>The listing of the context: each name is that of a directory entry.\<close>

definition plainListing :: "(string \<times> bool) list result \<Rightarrow> bool" where
  "plainListing listing \<longleftrightarrow> (\<forall>entries. listing = Inr entries \<longrightarrow> list_all (\<lambda>(name, isDir). plain name) entries)"

text \<open>
  Where an admission writes. A clean directory, a name of one component below it, and what lies below that.
\<close>

definition cleanDir :: "string \<Rightarrow> bool" where
  "cleanDir d \<longleftrightarrow> pathClean d = d \<and> d \<noteq> ''.'' \<and> d \<noteq> ''/''"

lemma join_plain:
  assumes "cleanDir d" "plain n"
  shows "filepathJoin d n = d @ ''/'' @ n" "cleanDir (d @ ''/'' @ n)"
proof -
  have d: "pathClean d = d" "d \<noteq> ''.''" "d \<noteq> ''/''" using assms(1) by (simp_all add: cleanDir_def)
  have ne: "d \<noteq> ''''" "n \<noteq> ''''" using d(1) pathClean_Nil assms(2) by (auto simp: plain_def)
  have c: "pathClean (d @ ''/'' @ n) = d @ ''/'' @ n" using join_plain_below [OF d, of "[n]"] assms(2) by simp
  then show "filepathJoin d n = d @ ''/'' @ n" using ne by (simp add: filepathJoin_def)
  have "d @ ''/'' @ n \<noteq> ''.''" "d @ ''/'' @ n \<noteq> ''/''" using ne by (cases d; cases n; auto)+
  with c show "cleanDir (d @ ''/'' @ n)" by (simp add: cleanDir_def)
qed

lemma below_join: "cleanDir d \<Longrightarrow> plain n \<Longrightarrow> below d (filepathJoin d n)"
  unfolding below_def using join_plain(1) [of d n] by (intro disjI2 exI [of _ "[n]"]) simp

lemma below_trans:
  assumes "below d e" "below e p"
  shows "below d p"
proof (cases "e = d \<or> p = e")
  case False
  then obtain cs cs' where "cs \<noteq> []" "list_all plain cs" "e = d @ ''/'' @ joinStr ''/'' cs"
    "cs' \<noteq> []" "list_all plain cs'" "p = e @ ''/'' @ joinStr ''/'' cs'"
    using assms unfolding below_def by blast
  then show ?thesis unfolding below_def by (intro disjI2 exI [of _ "cs @ cs'"]) (simp add: joinStr_append)
qed (use assms in auto)

lemma hexDigit_plain: "n < 16 \<Longrightarrow> hexDigit n \<noteq> CHR ''/'' \<and> hexDigit n \<noteq> CHR ''.''"
proof -
  have "\<forall>n \<in> set [0..<16]. hexDigit n \<noteq> CHR ''/'' \<and> hexDigit n \<noteq> CHR ''.''" by code_simp
  then show "n < 16 \<Longrightarrow> hexDigit n \<noteq> CHR ''/'' \<and> hexDigit n \<noteq> CHR ''.''" by simp
qed

lemma newTaskID_plain:
  assumes "newTaskID r = Inr tid" "r \<noteq> Inr ''''"
  shows "plain tid"
proof -
  obtain bytes where b: "r = Inr bytes" "tid = hexEncode bytes" using assms(1) by (auto simp: newTaskID_def split: sum.splits)
  have c: "c \<noteq> CHR ''/'' \<and> c \<noteq> CHR ''.''" if "c \<in> set tid" for c
  proof -
    from that obtain x :: char where "c \<in> {hexDigit (of_char x div 16), hexDigit (of_char x mod 16)}"
      by (auto simp: b(2) hexEncode_def Let_def)
    moreover have "(of_char x :: nat) div 16 < 16" "(of_char x :: nat) mod 16 < 16"
      using nat_of_char_less_256 [of x] by (simp_all add: less_mult_imp_div_less)
    ultimately show ?thesis using hexDigit_plain by auto
  qed
  have "tid \<noteq> ''''" using assms(2) b by (cases bytes) (auto simp: hexEncode_def Let_def)
  with c show ?thesis by (auto simp: plain_def)
qed

lemma taskDir_nonblank:
  assumes "cleanDir d" "plain n"
  shows "trimSpace (filepathJoin d n) \<noteq> ''''"
proof
  assume "trimSpace (filepathJoin d n) = ''''"
  then have "\<forall>c \<in> set (filepathJoin d n). isSpace c"
    by (auto simp: trimSpace_def trimRightFunc_def trimLeftFunc_def dropWhile_eq_Nil_conv)
       (metis dropWhile_eq_Nil_conv set_rev hd_dropWhile hd_in_set list.set_sel(1) rev_is_Nil_conv)
  then show False using join_plain(1) [OF assms] by (simp add: isSpace_def)
qed

lemma storeUpload_below:
  assumes d: "cleanDir dir" and s: "storeUpload cfg env upload dir remaining maxRequestBytes = (ops, r)" and op: "op \<in> set ops"
  shows "below dir (op_path op)"
proof -
  have pl: "plain ''source.zip''" "plain ''context''" by (simp_all add: plain_def)
  obtain ops1 e1 where s1: "saveUploadedFile (up_Size upload) (up_OpenErr upload) (up_CreateErr upload) (up_WriteErr upload)
      (up_Reader upload) (filepathJoin dir ''source.zip'') maxRequestBytes = (ops1, e1)" by fastforce
  let ?x = "extractZip (ce_archive env) (filepathJoin dir ''context'')
      (min (remaining - int (sum_list (map op_bytes ops1))) (orDefault (c_MaxExtractedBytes cfg) (c_MaxExtractedBytes DefaultConfig)))
      (orDefault (c_MaxArchiveFiles cfg) (c_MaxArchiveFiles DefaultConfig))"
  obtain ops2 e2 where x: "?x = (ops2, e2)" by fastforce
  have "op \<in> set ops1 \<or> op \<in> set ops2"
    using s s1 x op by (auto simp: storeUpload_def Let_def split: option.split_asm if_split_asm)
  then show ?thesis
  proof
    assume "op \<in> set ops1"
    then have "op_path op = filepathJoin dir ''source.zip''"
      using s1 by (auto simp: saveUploadedFile_def Let_def split: if_split_asm option.split_asm prod.split_asm)
    then show ?thesis using below_join [OF d pl(1)] by simp
  next
    assume o: "op \<in> set ops2"
    have c: "cleanDir (filepathJoin dir ''context'')" using join_plain [OF d pl(2)] by simp
    have "below (filepathJoin dir ''context'') (op_path op)"
    proof -
      obtain files m n where "extractLoop (filepathJoin dir ''context'') m n files = (ops2, e2)"
        using x o by (auto simp: extractZip_def split: sum.splits if_splits)
      then show ?thesis using extractLoop_below [OF _ _ _ _ o] c by (simp add: cleanDir_def)
    qed
    with below_join [OF d pl(2)] show ?thesis by (rule below_trans)
  qed
qed

lemma findBuildContext_entry:
  assumes "findBuildContext fileExists readDir root = Inr c" "c \<noteq> root"
  shows "\<exists>entries n b. readDir = Inr entries \<and> (n, b) \<in> set entries \<and> c = filepathJoin root n"
proof -
  obtain entries where e: "readDir = Inr entries" using assms by (auto simp: findBuildContext_def split: if_splits sum.splits)
  let ?cs = "filter (\<lambda>c. fileExists (filepathJoin c ''Dockerfile'')) (map (\<lambda>(name, isDir). filepathJoin root name) (filter snd entries))"
  have "?cs = [c]" using assms e by (auto simp: findBuildContext_def Let_def split: if_splits list.splits)
  then have "c \<in> set ?cs" by simp
  then show ?thesis using e by auto
qed

lemma prepareContext_below:
  assumes d: "cleanDir parent" and p: "prepareContext libs env router modeCfg parent = (ops, r)" and op: "op \<in> set ops"
    and names: "plainListing (ce_readDir env)"
  shows "below parent (op_path op)"
proof -
  obtain ctx where f: "findBuildContext (ce_fileExists env) (ce_readDir env) parent = Inr ctx"
    and o: "op_path op = filepathJoin ctx ''Dockerfile''"
    using p op by (auto simp: prepareContext_def Let_def split: sum.split_asm prod.split_asm option.split_asm if_split_asm)
  have pl: "plain ''Dockerfile''" by (simp add: plain_def)
  show ?thesis
  proof (cases "ctx = parent")
    case True
    then show ?thesis using o below_join [OF d pl] by simp
  next
    case False
    then obtain entries n b where e: "ce_readDir env = Inr entries" "(n, b) \<in> set entries" "ctx = filepathJoin parent n"
      using f findBuildContext_entry by metis
    have pn: "plain n" using names e(1,2) by (auto simp: plainListing_def list_all_iff)
    have "cleanDir ctx" using join_plain [OF d pn] e(3) by simp
    from below_join [OF this pl] below_join [OF d pn] e(3) o show ?thesis by (auto intro: below_trans)
  qed
qed

lemma admitBuild_below:
  assumes a: "admitBuild libs cfg modes router tasks env = (ops, r)" and W: "cleanDir (c_WorkDir cfg)"
    and names: "plainListing (ce_readDir env)"
    and rnd: "ce_random env \<noteq> Inr ''''" and op: "Fs op \<in> set ops" and tid: "newTaskID (ce_random env) = Inr tid"
  shows "below (filepathJoin (c_WorkDir cfg) tid) (op_path op)"
proof -
  let ?dir = "filepathJoin (c_WorkDir cfg) tid"
  have dir: "cleanDir ?dir" using join_plain [OF W newTaskID_plain [OF tid rnd]] by simp
  have pl: "plain ''context''" by (simp add: plain_def)
  have c: "cleanDir (filepathJoin ?dir ''context'')" using join_plain [OF dir pl] by simp
  note ctx = below_join [OF dir pl]
  note store = storeUpload_below [OF dir] and prep = prepareContext_below [OF c _ _ names]
  from a show ?thesis
  proof (cases rule: admitBuild_cases)
    case early
    then show ?thesis using op by simp
  next
    case (mkdir x tid')
    then show ?thesis using op tid ctx by simp
  next
    case (refused x tid' upload remaining maxRequestBytes modeCfg ops1 r1 ops2 r2)
    have t: "tid' = tid" using refused(3) tid by simp
    consider "op = MkdirAll (filepathJoin ?dir ''context'')" | "op \<in> set ops1" | "op \<in> set ops2"
      using op refused(1) unfolding t by auto
    then show ?thesis
    proof cases
      case 3
      then have "below (filepathJoin ?dir ''context'') (op_path op)" using refused(5) prep unfolding t by auto
      with ctx show ?thesis by (rule below_trans)
    qed (use ctx store [OF refused(4) [unfolded t]] in auto)
  next
    case (admitted remaining maxRequestBytes imageType mode modeCfg upload tid' ops1 ops2 ctx' ps)
    have t: "tid' = tid"
      using admitted(2) tid by (auto simp: parseRequest_def split: parse_outcome.split_asm sum.split_asm option.split_asm)
    consider "op = MkdirAll (filepathJoin ?dir ''context'')" | "op \<in> set ops1" | "op \<in> set ops2"
      using op admitted(6) unfolding t by auto
    then show ?thesis
    proof cases
      case 3
      then have "below (filepathJoin ?dir ''context'') (op_path op)" using admitted(4) prep unfolding t by blast
      with ctx show ?thesis by (rule below_trans)
    qed (use ctx store [OF admitted(3) [unfolded t]] in auto)
  qed
qed

lemma create_machine:
  assumes "reachable lib (dm_world d)" "handleCreateBuild libs env d = (d', ops, answer)"
    and "\<And>tid. newTaskID (ce_random env) = Inr tid \<Longrightarrow> tid \<notin> set (w_issued (dm_world d))"
  shows "reachable lib (dm_world d') \<and>
    (case answer of
       AnswerError code msg \<Rightarrow> True
     | _ \<Rightarrow> \<exists>task. store_get (w_store (dm_world d')) (t_ID task) = Some task \<and> new_task task \<and>
         answer \<in> {AnswerSync (t_ID task), AnswerAccepted (t_ID task)} \<and>
         (case dm_scheduler d' of
            None \<Rightarrow> list_ex (runner_of (t_ID task)) (w_procs (dm_world d'))
          | Some s \<Rightarrow> \<exists>q. map_of (sc_queues s) (t_Mode task) = Some q \<and> tq_ids q \<noteq> [] \<and> last (tq_ids q) = t_ID task))"
proof -
  let ?w = "dm_world d"
  obtain o1 r where a: "admitBuild libs (dm_cfg d) (dm_modes d) (dm_router d) (store_len (w_store ?w)) env = (o1, r)"
    by fastforce
  from a show ?thesis
  proof (cases rule: admitBuild_cases)
    case (admitted remaining maxRequestBytes imageType mode modeCfg upload tid ops1 ops2 ctx ps)
    define task where "task = makeTask env tid (filepathJoin (c_WorkDir (dm_cfg d)) tid) imageType mode ctx ps"
    have id: "t_ID task = tid" "t_Mode task = mode" by (simp_all add: task_def makeTask_def)
    have nt: "new_task task" unfolding task_def by (rule makeTask_new [OF buildParameters_retry [OF admitted(5)]])
    have "newTaskID (ce_random env) = Inr tid"
      using admitted(2) by (auto simp: parseRequest_def split: parse_outcome.split_asm sum.split_asm option.split_asm)
    then have fresh: "t_ID task \<notin> set (w_issued ?w)" using assms(3) id by simp
    have sub: "reachable lib (submit_task task ?w)"
      by (rule reach_step [OF assms(1), where e = "Submit task"]) (simp add: world_step_def nt fresh)
    have "\<not> list_ex (runner_of (t_ID task)) (w_procs ?w)"
      using life.reach_inv [OF assms(1)] fresh by (auto simp: store_ok_def list_ex_iff runner_of_def)
    then have run: "reachable lib (add_proc (new_proc True RunStart zeroTask (t_ID task)) (submit_task task ?w))"
      by (intro reach_step [OF sub, where e = "Spawn (t_ID task)"]) (simp add: world_step_def submit_task_def)
    have rej: "reachable lib (add_proc (new_proc True RejectCancel task (t_ID task)) (submit_task task ?w))"
      by (rule reach_step [OF assms(1), where e = "SubmitRejected task"]) (simp add: world_step_def nt fresh)
    have st: "store_get (w_store (submit_task task ?w)) (t_ID task) = Some task"
      by (simp add: submit_task_def store_get_def store_add_def update_conv)
    have r: "r = Inr (task, ps)" using admitted(7) by (simp add: task_def)
    show ?thesis
    proof (cases "dm_scheduler d")
      case None
      then have "dm_world d' = add_proc (new_proc True RunStart zeroTask (t_ID task)) (submit_task task ?w)"
        "dm_scheduler d' = None" "answer \<in> {AnswerSync (t_ID task), AnswerAccepted (t_ID task)}"
        using assms(2) a r by (auto simp: handleCreateBuild_def Let_def split: if_split_asm)
      then show ?thesis using run st nt
        by (auto intro!: exI [of _ task] simp: add_proc_def runner_of_def new_proc_def list_ex_iff)
    next
      case (Some s)
      show ?thesis
      proof (cases "enqueue (t_Mode task) (t_ID task) (Some s)")
        case (Inl e)
        then show ?thesis using assms(2) a r Some rej by (auto simp: handleCreateBuild_def Let_def)
      next
        case (Inr s')
        then have "dm_world d' = submit_task task ?w"
          "dm_scheduler d' = Some s'" "answer \<in> {AnswerSync (t_ID task), AnswerAccepted (t_ID task)}"
          using assms(2) a r Some by (auto simp: handleCreateBuild_def Let_def split: if_split_asm)
        moreover have "\<exists>q. map_of (sc_queues s') (t_Mode task) = Some q \<and> tq_ids q \<noteq> [] \<and> last (tq_ids q) = t_ID task"
          using Inr by (auto simp: enqueue_def tq_push_def update_conv split: option.split_asm if_split_asm)
        ultimately show ?thesis using sub st nt by (auto intro!: exI [of _ task])
      qed
    qed
  qed (use assms a in \<open>auto simp: handleCreateBuild_def split: prod.split_asm\<close>)
qed

section \<open>A request to evaluate\<close>

definition demoLibs :: "unit create_libs" where
  "demoLibs = \<lparr>cl_reference = demoLib, cl_sha256 = (\<lambda>s. s), cl_sha256hex = (\<lambda>s. ''ab''), cl_docker = demoDockerLib,
     cl_directives = (), cl_metadataTarget = (\<lambda>s. Inr s)\<rparr>"

definition demoCreate :: create_env where
  "demoCreate = \<lparr>ce_workDir = [WalkDirectory, WalkNonRegular (Inr 90)], ce_parse = (\<lambda>n. FormParsed),
     ce_form = \<lparr>rf_query = [(''sync'', [''yes''])], rf_parts = [(''image'', [''hub.io/app'']), (''retry'', [''2'']),
       (''build_arg.V'', [''1''])]\<rparr>,
     ce_upload = Some \<lparr>up_Size = 2, up_OpenErr = None, up_CreateErr = None, up_WriteErr = None,
       up_Reader = \<lparr>rd_data = ''zz'', rd_err = None\<rparr>\<rparr>,
     ce_random = Inr ''k'', ce_mkdirErr = None, ce_zipStatErr = None, ce_archive = Inr [demoEntry ''Dockerfile'' ''FROM a''],
     ce_fileExists = (\<lambda>p. p = ''/w/6b/context/Dockerfile''), ce_readDir = Inr [], ce_contextWalk = [],
     ce_dockerfile = Inr ''FROM a'', ce_dockerStatErr = None, ce_dockerWriteErr = None, ce_dockerMode = 420,
     ce_metadata = Inl (GoError '''' [NotExist]), ce_queuedAt = 4, ce_now = 5, ce_traceID = None\<rparr>"

definition demoDaemon :: daemon where
  "demoDaemon = \<lparr>dm_cfg = DefaultConfig\<lparr>c_WorkDir := ''/w'', c_MaxWorkDirBytes := 100\<rparr>,
     dm_modes = Some \<lparr>bm_defaultMode = ''m'', bm_configs = [(''m'', \<lparr>mc_Concurrency = 0, mc_RoutingEnabled = False\<rparr>)],
       bm_explicit = False\<rparr>,
     dm_router = None, dm_scheduler = None, dm_world = init_world 1 [] 1\<rparr>"

definition demoAdmit :: "create_env \<Rightarrow> dir_op list \<times> (refusal + (buildTask \<times> build_params))" where
  "demoAdmit env = admitBuild demoLibs (dm_cfg demoDaemon) (dm_modes demoDaemon) None 0 env"

lemma demoAdmit_ok: "case demoAdmit demoCreate of (ops, Inr (task, ps)) \<Rightarrow> t_ID task = ''6b'' \<and>
    t_WorkDir task = ''/w/6b'' \<and> t_retry task = 2 \<and> t_buildArgs task = [(''V'', ''1'')] \<and> bp_sync ps | _ \<Rightarrow> False"
  by code_simp

lemma demoAdmit_ex:
  obtains ops task ps where "demoAdmit demoCreate = (ops, Inr (task, ps))" "t_ID task = ''6b''"
    "t_WorkDir task = ''/w/6b''" "bp_sync ps"
proof -
  obtain ops r where d: "demoAdmit demoCreate = (ops, r)" by fastforce
  then obtain x where x: "r = Inr x" using demoAdmit_ok by (cases r) auto
  obtain task ps where "x = (task, ps)" by (cases x)
  with d x demoAdmit_ok that show thesis by simp
qed

lemma demoAdmit_full: "demoAdmit (demoCreate\<lparr>ce_archive := Inr [demoEntry ''Dockerfile'' ''FROM abcd'']\<rparr>) =
    (map Fs [MkdirAll ''/w/6b/context'', WriteFile ''/w/6b/source.zip'' 420 ''zz''] @ [RemoveAll ''/w/6b''],
     Inl (413, ''archive exceeds configured limit: extracted content exceeds 8 bytes''))"
  by code_simp

lemma demo_handle:
  "handleCreateBuild demoLibs env demoDaemon = (case demoAdmit env of
      (ops, Inl (code, msg)) \<Rightarrow> (demoDaemon, ops, AnswerError code msg)
    | (ops, Inr (task, ps)) \<Rightarrow>
        (demoDaemon\<lparr>dm_world := add_proc (new_proc True RunStart zeroTask (t_ID task)) (submit_task task (init_world 1 [] 1))\<rparr>,
         ops, if bp_sync ps then AnswerSync (t_ID task) else AnswerAccepted (t_ID task)))"
proof -
  have d: "dm_router demoDaemon = None" "dm_scheduler demoDaemon = None" "dm_world demoDaemon = init_world 1 [] 1"
    "store_len (w_store (init_world 1 [] 1)) = 0"
    by (simp_all add: demoDaemon_def init_world_def newTaskStore_def store_len_def)
  show ?thesis unfolding handleCreateBuild_def demoAdmit_def d by (simp add: d cong: sum.case_cong prod.case_cong)
qed

section \<open>Properties\<close>


lemma demoWork_clean: "cleanDir (c_WorkDir (dm_cfg demoDaemon))"
  unfolding cleanDir_def by code_simp


text \<open>
  Admission respects the budgets. A build is admitted only while fewer tasks than the limit are
  retained, and its upload and the extracted files together are no larger than what the byte budget
  leaves beside the present content of the work directory; the only other file written is the
  rewritten Dockerfile of the build context.
\<close>

theorem create_budget:
  assumes "admitBuild libs cfg modes router tasks env = (ops, Inr (task, ps))"
  shows "int tasks < orDefault (c_MaxRetainedTasks cfg) (c_MaxRetainedTasks DefaultConfig) \<and>
    (\<exists>used ops1 ops2. directorySize (ce_workDir env) = (used, None) \<and>
       ops = map Fs (MkdirAll (filepathJoin (t_WorkDir task) ''context'') # ops1 @ ops2) \<and>
       used + int (sum_list (map op_bytes ops1)) \<le> orDefault (c_MaxWorkDirBytes cfg) (c_MaxWorkDirBytes DefaultConfig) \<and>
       (\<forall>op \<in> set ops2. op_path op = filepathJoin (t_contextDir task) ''Dockerfile''))"
  using assms
proof (cases rule: admitBuild_cases)
  case (admitted remaining maxRequestBytes imageType mode modeCfg upload tid ops1 ops2 ctx ps')
  note lim = admitLimits_Inr [OF admitted(1)]
  have task: "t_WorkDir task = filepathJoin (c_WorkDir cfg) tid" "t_contextDir task = bc_dir ctx"
    using admitted(7) by (auto simp: makeTask_def)
  have "0 \<le> maxRequestBytes"
    using admitted(1) by (auto simp: admitLimits_def Let_def DefaultConfig_def orDefault_def
        split: if_split_asm prod.split_asm option.split_asm)
  from storeUpload_bytes [OF admitted(3) this] lim have "int (sum_list (map op_bytes ops1)) \<le> remaining" by simp
  moreover have "\<forall>op \<in> set ops2. op_path op = filepathJoin (t_contextDir task) ''Dockerfile''"
    using prepareContext_ops [OF admitted(4)] task by simp
  ultimately show ?thesis using lim admitted(6) task
    by (intro conjI exI [of _ "fst (directorySize (ce_workDir env))"] exI [of _ ops1] exI [of _ ops2]) auto
qed auto

theorem create_budget_witness:
  "\<exists>used ops1 ops2. directorySize (ce_workDir demoCreate) = (used, None) \<and>
     fst (demoAdmit demoCreate) = map Fs (MkdirAll ''/w/6b/context'' # ops1 @ ops2) \<and>
     used + int (sum_list (map op_bytes ops1)) \<le> 100"
proof -
  obtain ops task ps where a: "demoAdmit demoCreate = (ops, Inr (task, ps))" and "t_WorkDir task = ''/w/6b''"
    by (rule demoAdmit_ex)
  moreover have "filepathJoin ''/w/6b'' ''context'' = ''/w/6b/context''"
    "orDefault (c_MaxWorkDirBytes (dm_cfg demoDaemon)) (c_MaxWorkDirBytes DefaultConfig) = 100" by code_simp+
  ultimately show ?thesis using create_budget [OF a [unfolded demoAdmit_def]] a by auto
qed

text \<open>
  C18. The handler is a transition of the machine. From a reachable state, with a fresh task id, the
  handler leads to a reachable state, so every property of the machine holds for builds admitted this
  way. When it accepts a build, the task is in the store, queued, and either a goroutine runs it or
  its id is the last of the queue of its mode.
\<close>

theorem create_reachable:
  assumes "reachable lib (dm_world d)" "handleCreateBuild libs env d = (d', ops, answer)"
    and "\<And>tid. newTaskID (ce_random env) = Inr tid \<Longrightarrow> tid \<notin> set (w_issued (dm_world d))"
  shows "reachable lib (dm_world d') \<and>
    (case answer of
       AnswerError code msg \<Rightarrow> True
     | _ \<Rightarrow> \<exists>task. store_get (w_store (dm_world d')) (t_ID task) = Some task \<and> new_task task \<and>
         answer \<in> {AnswerSync (t_ID task), AnswerAccepted (t_ID task)} \<and>
         (case dm_scheduler d' of
            None \<Rightarrow> list_ex (runner_of (t_ID task)) (w_procs (dm_world d'))
          | Some s \<Rightarrow> \<exists>q. map_of (sc_queues s) (t_Mode task) = Some q \<and> tq_ids q \<noteq> [] \<and> last (tq_ids q) = t_ID task))"
  by (rule create_machine [OF assms])

theorem create_reachable_witness:
  "\<exists>task. store_get (w_store (dm_world (fst (handleCreateBuild demoLibs demoCreate demoDaemon)))) ''6b'' = Some task \<and>
     reachable demoLib (dm_world (fst (handleCreateBuild demoLibs demoCreate demoDaemon)))"
proof -
  obtain ops task ps where a: "demoAdmit demoCreate = (ops, Inr (task, ps))" "t_ID task = ''6b''" "bp_sync ps"
    by (rule demoAdmit_ex)
  have r: "reachable demoLib (dm_world demoDaemon)"
    by (rule reach_init) (auto simp: server_start_def demoDaemon_def)
  have f: "tid \<notin> set (w_issued (dm_world demoDaemon))" for tid by (simp add: demoDaemon_def init_world_def)
  have "snd (snd (handleCreateBuild demoLibs demoCreate demoDaemon)) = AnswerSync ''6b''"
    using a by (simp add: demo_handle)
  moreover obtain d' ops' answer where h: "handleCreateBuild demoLibs demoCreate demoDaemon = (d', ops', answer)"
    by (cases "handleCreateBuild demoLibs demoCreate demoDaemon")
  ultimately show ?thesis using create_reachable [OF r h f] by auto
qed

text \<open>
  Durations are 64-bit numbers of nanoseconds: a timeout of 9223372037 seconds, which the handler
  accepts, becomes negative, and the build's context is over before it starts.
\<close>

lemma timeout_wraps:
  "case buildParameters \<lparr>rf_query = [], rf_parts = [(''timeout_seconds'', [''9223372037''])]\<rparr> of
     Inr ps \<Rightarrow> (case bp_timeout ps of Some t \<Rightarrow> t < 0 | None \<Rightarrow> False) | Inl _ \<Rightarrow> False"
  by code_simp

end
