(* ===== verification/Registry_Check.thy ===== *)
theory Registry_Check
  imports Daemon_Config Addr_Pool Transition_Systems
begin

text \<open>
  The image check of \<^verbatim>\<open>internal/builddaemon/registry.go\<close>: the host rules, the reference a client may
  ask for, the transport that keeps a check on the registry's own hosts, the bound on concurrent
  checks, and the status the handler answers.

  The reference parser, the Docker credential store and containerd's resolver are libraries outside
  the repository. They are arguments: the resolver is a function of the round trip, the credentials
  and the plain-HTTP flag it is given, because those are the only ways in which it reaches the
  network through this code.
\<close>

section \<open>Hosts\<close>

definition normalizeRegistryHost :: "string \<Rightarrow> string" where
  "normalizeRegistryHost host = toLower (trimSuffix (trimSpace host) ''.'')"

type_synonym host_rules = "(string \<times> string list) list"

text \<open>One item of the rules: a registry and the hosts it may use; the last rule for a registry wins.\<close>

definition parseRegistryHostRule :: "host_rules \<Rightarrow> string \<Rightarrow> host_rules" where
  "parseRegistryHostRule rules item =
     (case cutByte CHR ''='' item of (registry0, hostsRaw, ok) \<Rightarrow>
        (let registry = normalizeRegistryHost registry0 in
         if \<not> ok \<or> registry = '''' then rules
         else
           let hosts = filter (\<lambda>h. h \<noteq> '''') (map normalizeRegistryHost (splitByte CHR ''|'' hostsRaw)) in
           if hosts \<noteq> [] then AList.update registry hosts rules else rules))"

definition parseRegistryHostRules :: "string \<Rightarrow> host_rules" where
  "parseRegistryHostRules raw = foldl parseRegistryHostRule [] (splitByte CHR '';'' raw)"

text \<open>
  \<^verbatim>\<open>registryUsesPlainHTTP\<close>: \<open>isLoopback\<close> is \<^verbatim>\<open>net.ParseIP(host).IsLoopback()\<close>, which is false for a
  host that is not an address.
\<close>

definition registryUsesPlainHTTP :: "(string \<Rightarrow> bool) \<Rightarrow> string \<Rightarrow> bool" where
  "registryUsesPlainHTTP isLoopback registry =
     (let host = (case splitHostPort registry of Some (h, _) \<Rightarrow> h | None \<Rightarrow> registry) in
      toLower host = ''localhost'' \<or> isLoopback host)"

definition registryCredentialHosts :: "string \<Rightarrow> string list" where
  "registryCredentialHosts host =
     (let candidates = [host] @ (if host = ''registry-1.docker.io'' \<or> host = ''docker.io''
          then [''docker.io'', ''https://index.docker.io/v1/''] else [])
      in foldl (\<lambda>unique c. if c = '''' \<or> c \<in> set unique then unique else unique @ [c]) [] candidates)"

section \<open>References\<close>

definition invalidImageReference :: "string \<Rightarrow> go_error \<Rightarrow> go_error" where
  "invalidImageReference img e =
     GoError (''invalid image reference '' @ quoteStr img @ '': '' @ err_text e) (InvalidReference # err_chain e)"

record reference_names =
  ParseNamed :: "string \<Rightarrow> reference_named result"
  TagNameOnly :: "reference_named \<Rightarrow> reference_named"
  NamedString :: "reference_named \<Rightarrow> string"

definition normalizeRegistryImageReference :: "reference_names \<Rightarrow> string \<Rightarrow> (string \<times> string) result" where
  "normalizeRegistryImageReference lib img =
     (let trimmed = trimSpace img in
      case indexByte trimmed CHR ''/'' of
        None \<Rightarrow> Inl (invalidImageReference img (Errorf ''a fully qualified registry/repository reference is required''))
      | Some firstSlash \<Rightarrow>
          if firstSlash = 0 then
            Inl (invalidImageReference img (Errorf ''a fully qualified registry/repository reference is required''))
          else
            let registry = take firstSlash trimmed in
            if \<not> containsAny registry ''.:'' \<and> registry \<noteq> ''localhost'' then
              Inl (invalidImageReference img (Errorf ''a fully qualified registry hostname is required''))
            else case ParseNamed lib trimmed of
              Inl e \<Rightarrow> Inl (invalidImageReference img e)
            | Inr named \<Rightarrow>
                if rn_digest named \<noteq> None then
                  Inl (invalidImageReference img (Errorf ''digest references are not supported''))
                else
                  let tagged = TagNameOnly lib named in Inr (NamedString lib tagged, rn_domain tagged))"

section \<open>The transport\<close>

record http_request =
  hr_Host :: string
  hr_Scheme :: string
  hr_Redacted :: string

record registryCheckTransport =
  tr_allowedHosts :: "string list"
  tr_registryHost :: string
  tr_allowPlainHTTP :: bool

type_synonym 'r round_trip = "http_request \<Rightarrow> 'r result"

definition RoundTrip :: "registryCheckTransport \<Rightarrow> 'r round_trip \<Rightarrow> 'r round_trip" where
  "RoundTrip t base req =
     (let requestHost = normalizeRegistryHost (hr_Host req) in
      if requestHost \<notin> set (tr_allowedHosts t) then
        Inl (Errorf (''registry check refuses request to untrusted host '' @ quoteStr requestHost))
      else if toLower (hr_Scheme req) = ''https'' then base req
      else if toLower (hr_Scheme req) = ''http'' \<and> tr_allowPlainHTTP t \<and>
          normalizeRegistryHost (hr_Host req) = tr_registryHost t then base req
      else Inl (Errorf (''registry check refuses insecure request to '' @ hr_Redacted req)))"

section \<open>The check\<close>

record imageCheckResult =
  ic_Digest :: string
  ic_MediaType :: string
  ic_Size :: int

record registryImageChecker =
  rc_timeout :: duration
  rc_hostRules :: host_rules
  rc_slots :: "csem option"

record auth_config =
  au_RegistryToken :: string
  au_IdentityToken :: string
  au_Username :: string
  au_Password :: string

type_synonym credentials = "string \<Rightarrow> (string \<times> string) result"

fun credentialsLoop :: "(string \<Rightarrow> auth_config result) \<Rightarrow> string list \<Rightarrow> (string \<times> string) result" where
  "credentialsLoop getAuth [] = Inr ('''', '''')"
| "credentialsLoop getAuth (candidate # cs) = (case getAuth candidate of
      Inl e \<Rightarrow> Inl e
    | Inr auth \<Rightarrow>
        if au_RegistryToken auth \<noteq> '''' then Inr ('''', au_RegistryToken auth)
        else if au_IdentityToken auth \<noteq> '''' then Inr ('''', au_IdentityToken auth)
        else if au_Username auth \<noteq> '''' \<or> au_Password auth \<noteq> '''' then Inr (au_Username auth, au_Password auth)
        else credentialsLoop getAuth cs)"

definition checkCredentials :: "(string \<Rightarrow> auth_config result) \<Rightarrow> credentials" where
  "checkCredentials getAuth host = credentialsLoop getAuth (registryCredentialHosts host)"

text \<open>
  What a check takes from its surroundings: the reference library, the loopback test, the result of
  loading the Docker configuration, the network below the transport, and the resolver.
\<close>

record 'r check_env =
  ce_lib :: reference_names
  ce_isLoopback :: "string \<Rightarrow> bool"
  ce_dockerConfig :: "(string \<Rightarrow> auth_config result) result"
  ce_base :: "'r round_trip"
  ce_resolve :: "duration \<Rightarrow> 'r round_trip \<Rightarrow> credentials \<Rightarrow> bool \<Rightarrow> string \<Rightarrow> imageCheckResult result"

definition errRegistryCheckBusy :: go_error where
  "errRegistryCheckBusy = GoError ''too many concurrent registry checks'' [RegistryBusy]"

definition registryNotAllowed :: "string \<Rightarrow> go_error" where
  "registryNotAllowed host = GoError (''registry host '' @ quoteStr host @ '' is not allowed'') [RegistryNotAllowed]"

text \<open>
  \<^verbatim>\<open>Check\<close> in its three parts: admission, which takes a slot, the resolution, and the deferred
  release. Other checks run between the first and the last part.
\<close>

definition Check_admit ::
    "reference_names \<Rightarrow> registryImageChecker \<Rightarrow> string \<Rightarrow>
     (registryImageChecker \<times> string \<times> string \<times> string list) result" where
  "Check_admit lib r img = (case normalizeRegistryImageReference lib img of
      Inl e \<Rightarrow> Inl e
    | Inr (normalized, registry) \<Rightarrow>
        (case map_of (rc_hostRules r) (normalizeRegistryHost registry) of
           None \<Rightarrow> Inl (registryNotAllowed registry)
         | Some hosts \<Rightarrow>
             (case rc_slots r of
                None \<Rightarrow> Inr (r, normalized, registry, hosts)
              | Some s \<Rightarrow>
                  (case sem_trySend s of
                     None \<Rightarrow> Inl errRegistryCheckBusy
                   | Some s' \<Rightarrow> Inr (r\<lparr>rc_slots := Some s'\<rparr>, normalized, registry, hosts)))))"

definition Check_resolve ::
    "'r check_env \<Rightarrow> registryImageChecker \<Rightarrow> string \<Rightarrow> string \<Rightarrow> string list \<Rightarrow> imageCheckResult result" where
  "Check_resolve env r normalized registry hosts = (case ce_dockerConfig env of
      Inl e \<Rightarrow> Inl (wrapErr ''load docker config'' e)
    | Inr getAuth \<Rightarrow>
        (let timeout = (if rc_timeout r \<le> 0 then c_RegistryTimeout DefaultConfig else rc_timeout r);
             plain = registryUsesPlainHTTP (ce_isLoopback env) registry;
             transport = \<lparr>tr_allowedHosts = hosts, tr_registryHost = normalizeRegistryHost registry,
                          tr_allowPlainHTTP = plain\<rparr>
         in ce_resolve env timeout (RoundTrip transport (ce_base env)) (checkCredentials getAuth) plain normalized))"

definition Check_release :: "registryImageChecker \<Rightarrow> registryImageChecker" where
  "Check_release r = (case rc_slots r of
      None \<Rightarrow> r
    | Some s \<Rightarrow> (case sem_recv s of Some s' \<Rightarrow> r\<lparr>rc_slots := Some s'\<rparr> | None \<Rightarrow> r))"

definition Check ::
    "'r check_env \<Rightarrow> registryImageChecker \<Rightarrow> string \<Rightarrow> registryImageChecker \<times> imageCheckResult result" where
  "Check env r img = (case Check_admit (ce_lib env) r img of
      Inl e \<Rightarrow> (r, Inl e)
    | Inr (r', normalized, registry, hosts) \<Rightarrow>
        (Check_release r', Check_resolve env r' normalized registry hosts))"

section \<open>The handler\<close>

record http_response =
  rs_status :: nat
  rs_headers :: "(string \<times> string) list"

definition noContent :: "nat \<Rightarrow> http_response" where
  "noContent code = \<lparr>rs_status = code, rs_headers = []\<rparr>"

definition checkErrorStatus :: "go_error \<Rightarrow> nat" where
  "checkErrorStatus e =
     (if errors_Is e RegistryNotAllowed then 403
      else if errors_Is e RegistryBusy then 429
      else if errors_Is e DeadlineExceeded then 504
      else if errors_Is e NotFound then 404
      else if errors_Is e InvalidReference then 400
      else 502)"

definition handleHeadImage ::
    "'r check_env \<Rightarrow> registryImageChecker option \<Rightarrow> string \<Rightarrow> registryImageChecker option \<times> http_response" where
  "handleHeadImage env images queryImage =
     (let img = trimSpace queryImage in
      if img = '''' then (images, noContent 400)
      else case images of
        None \<Rightarrow> (images, noContent 503)
      | Some r \<Rightarrow>
          (case Check env r img of (r', result) \<Rightarrow>
             (Some r', case result of
                Inl e \<Rightarrow> noContent (checkErrorStatus e)
              | Inr ok \<Rightarrow>
                  \<lparr>rs_status = 200,
                   rs_headers =
                     (if ic_Digest ok \<noteq> '''' then [(''Docker-Content-Digest'', ic_Digest ok)] else []) @
                     (if ic_MediaType ok \<noteq> '''' then [(''Content-Type'', ic_MediaType ok)] else []) @
                     (if 0 \<le> ic_Size ok then [(''Content-Length'', showInt (ic_Size ok))] else [])\<rparr>)))"

section \<open>Requests that reach the network\<close>

text \<open>
  A request the rules allow for a registry: to a host of the registry's own rule, and over TLS unless it
  goes to the registry itself and that is local.
\<close>

definition permitted :: "(string \<Rightarrow> bool) \<Rightarrow> host_rules \<Rightarrow> string \<Rightarrow> http_request \<Rightarrow> bool" where
  "permitted isLoopback rules registry req \<longleftrightarrow> (\<exists>hosts. map_of rules (normalizeRegistryHost registry) = Some hosts \<and>
     normalizeRegistryHost (hr_Host req) \<in> set hosts \<and>
     (toLower (hr_Scheme req) = ''https'' \<or>
      toLower (hr_Scheme req) = ''http'' \<and> registryUsesPlainHTTP isLoopback registry \<and>
      normalizeRegistryHost (hr_Host req) = normalizeRegistryHost registry))"

lemma RoundTrip_confined:
  assumes "map_of rules (normalizeRegistryHost registry) = Some hosts"
    and "\<And>req. permitted lb rules registry req \<Longrightarrow> base' req = base req"
  shows "RoundTrip \<lparr>tr_allowedHosts = hosts, tr_registryHost = normalizeRegistryHost registry,
      tr_allowPlainHTTP = registryUsesPlainHTTP lb registry\<rparr> base' =
    RoundTrip \<lparr>tr_allowedHosts = hosts, tr_registryHost = normalizeRegistryHost registry,
      tr_allowPlainHTTP = registryUsesPlainHTTP lb registry\<rparr> base"
proof (rule ext)
  fix req
  let ?t = "\<lparr>tr_allowedHosts = hosts, tr_registryHost = normalizeRegistryHost registry,
      tr_allowPlainHTTP = registryUsesPlainHTTP lb registry\<rparr>"
  show "RoundTrip ?t base' req = RoundTrip ?t base req"
  proof (cases "permitted lb rules registry req")
    case True
    from assms(2) [OF this] show ?thesis by (simp add: RoundTrip_def Let_def)
  next
    case False
    have "RoundTrip ?t f req = RoundTrip ?t g req" if "normalizeRegistryHost (hr_Host req) \<notin> set hosts \<or>
        toLower (hr_Scheme req) \<noteq> ''https'' \<and> \<not> (toLower (hr_Scheme req) = ''http'' \<and>
          registryUsesPlainHTTP lb registry \<and> normalizeRegistryHost (hr_Host req) = normalizeRegistryHost registry)" for f g
      using that by (auto simp: RoundTrip_def Let_def)
    then show ?thesis using assms(1) False by (metis permitted_def)
  qed
qed

lemma Check_admit_Inr:
  assumes "Check_admit lib r img = Inr (r', normalized, registry, hosts)"
  shows "normalizeRegistryImageReference lib img = Inr (normalized, registry) \<and>
    map_of (rc_hostRules r) (normalizeRegistryHost registry) = Some hosts \<and>
    rc_hostRules r' = rc_hostRules r \<and> rc_timeout r' = rc_timeout r \<and>
    (case rc_slots r of None \<Rightarrow> r' = r | Some s \<Rightarrow> sem_len s < sem_cap s \<and> r' = r\<lparr>rc_slots := Some (s\<lparr>sem_len := Suc (sem_len s)\<rparr>)\<rparr>)"
proof (cases "normalizeRegistryImageReference lib img")
  case (Inr p)
  obtain n reg where p: "p = (n, reg)" by (cases p)
  show ?thesis
  proof (cases "map_of (rc_hostRules r) (normalizeRegistryHost reg)")
    case (Some h)
    then show ?thesis
      using assms Inr p by (cases "rc_slots r") (auto simp: Check_admit_def sem_trySend_def split: if_splits)
  qed (use assms Inr p in \<open>simp add: Check_admit_def\<close>)
qed (use assms in \<open>simp add: Check_admit_def\<close>)

lemma Check_release_admit:
  assumes "Check_admit lib r img = Inr (r', normalized, registry, hosts)"
  shows "Check_release r' = r"
  using Check_admit_Inr [OF assms] by (auto simp: Check_release_def sem_recv_def split: option.splits)

text \<open>The store entries that the credentials of a host may come from: its own and the aliases of the Docker Hub.\<close>

definition credentialEntries :: "string \<Rightarrow> string set" where
  "credentialEntries host = insert host (if host \<in> {''registry-1.docker.io'', ''docker.io''}
     then {''docker.io'', ''https://index.docker.io/v1/''} else {})"

lemma registryCredentialHosts_entries: "set (registryCredentialHosts host) \<subseteq> credentialEntries host"
  by (auto simp: registryCredentialHosts_def credentialEntries_def Let_def split: if_splits)

lemma credentialsLoop_cong: "(\<And>c. c \<in> set cs \<Longrightarrow> g c = g' c) \<Longrightarrow> credentialsLoop g cs = credentialsLoop g' cs"
  by (induction cs) (auto split: sum.splits)

lemma checkCredentials_own:
  assumes "\<And>c. c \<in> credentialEntries host \<Longrightarrow> g c = g' c"
  shows "checkCredentials g host = checkCredentials g' host"
  unfolding checkCredentials_def
  by (rule credentialsLoop_cong) (use assms registryCredentialHosts_entries [of host] in blast)

lemma check_keeps: "fst (Check env r img) = r"
  by (auto simp: Check_def Check_release_admit split: sum.splits prod.splits)

section \<open>Concurrent checks\<close>

text \<open>
  The checks in flight: admissions of requests and the ends of admitted checks, in any order. The
  state is the checker and the images being checked.
\<close>

datatype check_event = CheckBegin string | CheckEnd nat

fun check_step :: "reference_names \<Rightarrow> check_event \<Rightarrow> registryImageChecker \<times> string list \<Rightarrow>
    (registryImageChecker \<times> string list) option" where
  "check_step lib (CheckBegin img) (r, flight) = Some (case Check_admit lib r img of
      Inl e \<Rightarrow> (r, flight)
    | Inr (r', _) \<Rightarrow> (r', flight @ [img]))"
| "check_step lib (CheckEnd i) (r, flight) =
     (if i < length flight then Some (Check_release r, take i flight @ drop (Suc i) flight) else None)"

definition check_start :: "int \<Rightarrow> host_rules \<Rightarrow> duration \<Rightarrow> registryImageChecker \<times> string list \<Rightarrow> bool" where
  "check_start checks rules timeout s \<longleftrightarrow>
     s = (\<lparr>rc_timeout = timeout, rc_hostRules = rules, rc_slots = Some (makeSem (nat checks))\<rparr>, [])"

definition slots_match :: "int \<Rightarrow> host_rules \<Rightarrow> registryImageChecker \<times> string list \<Rightarrow> bool" where
  "slots_match checks rules s \<longleftrightarrow> rc_hostRules (fst s) = rules \<and>
     rc_slots (fst s) = Some \<lparr>sem_len = length (snd s), sem_cap = nat checks\<rparr> \<and> length (snd s) \<le> nat checks"

lemma slots_match_step:
  assumes "slots_match checks rules s" "check_step lib ev s = Some s'"
  shows "slots_match checks rules s'"
  using assms
  by (cases s; cases ev)
    (auto simp: slots_match_def Check_release_def sem_recv_def dest!: Check_admit_Inr split: sum.splits if_splits)

interpretation checks: ts_invariant "check_start checks rules timeout" "check_step lib" "slots_match checks rules"
  for checks rules timeout lib
proof
  show "slots_match checks rules s" if "check_start checks rules timeout s" for s
    using that by (auto simp: check_start_def slots_match_def makeSem_def)
qed (rule slots_match_step)

section \<open>Properties\<close>

text \<open>
  C14. An image check stays on the hosts of the registry of its image. Whatever the resolver does, the
  outcome of a check depends on the network only through requests to hosts that the rule of the registry
  of the checked image names, over TLS, or over plain HTTP to this registry itself when that is the local
  machine; no other request leaves the daemon, in particular none that only the rule of another registry
  allows, and none at all for an image whose registry has no rule or whose reference is not valid. The
  credentials for a host come from the entry of this host in the credential store, or from those of the
  Docker Hub for one of its hosts. After the check the slot it took is free again.
\<close>

theorem check_confined:
  assumes "\<And>normalized registry req. normalizeRegistryImageReference (ce_lib env) img = Inr (normalized, registry) \<Longrightarrow>
      permitted (ce_isLoopback env) (rc_hostRules r) registry req \<Longrightarrow> base' req = ce_base env req"
    and "\<And>c. c \<in> credentialEntries host \<Longrightarrow> getAuth' c = getAuth c"
  shows "Check (env\<lparr>ce_base := base'\<rparr>) r img = Check env r img \<and> fst (Check env r img) = r \<and>
    checkCredentials getAuth' host = checkCredentials getAuth host"
proof (cases "Check_admit (ce_lib env) r img")
  case (Inr a)
  obtain r' normalized registry hosts where a: "a = (r', normalized, registry, hosts)" by (cases a)
  note adm = Check_admit_Inr [OF Inr [unfolded a]]
  have "RoundTrip \<lparr>tr_allowedHosts = hosts, tr_registryHost = normalizeRegistryHost registry,
      tr_allowPlainHTTP = registryUsesPlainHTTP (ce_isLoopback env) registry\<rparr> base' =
    RoundTrip \<lparr>tr_allowedHosts = hosts, tr_registryHost = normalizeRegistryHost registry,
      tr_allowPlainHTTP = registryUsesPlainHTTP (ce_isLoopback env) registry\<rparr> (ce_base env)"
    using adm by (intro RoundTrip_confined [OF _ assms(1)]) auto
  then show ?thesis
    using Inr a Check_release_admit [OF Inr [unfolded a]] checkCredentials_own [OF assms(2)]
    by (simp add: Check_def Check_resolve_def Let_def split: sum.split)
qed (use checkCredentials_own [OF assms(2)] in \<open>simp add: Check_def\<close>)

definition demoNames :: reference_names where
  "demoNames = \<lparr>ParseNamed = \<lambda>s. Inr \<lparr>rn_domain = takeWhile (\<lambda>c. c \<noteq> CHR ''/'') s,
       rn_path = tl (dropWhile (\<lambda>c. c \<noteq> CHR ''/'') s), rn_tag = None, rn_digest = None\<rparr>,
     TagNameOnly = \<lambda>n. n\<lparr>rn_tag := Some ''latest''\<rparr>,
     NamedString = \<lambda>n. rn_domain n @ ''/'' @ rn_path n @ '':latest''\<rparr>"

definition demoResolve ::
    "duration \<Rightarrow> string round_trip \<Rightarrow> credentials \<Rightarrow> bool \<Rightarrow> string \<Rightarrow> imageCheckResult result" where
  "demoResolve timeout rt cred plain ref =
     (case rt \<lparr>hr_Host = ''evil.io'', hr_Scheme = ''https'', hr_Redacted = ''https://evil.io''\<rparr> of
        Inr body \<Rightarrow> Inr \<lparr>ic_Digest = body, ic_MediaType = '''', ic_Size = 0\<rparr>
      | Inl e \<Rightarrow>
          (case rt \<lparr>hr_Host = ''r.io'', hr_Scheme = ''https'', hr_Redacted = ''https://r.io''\<rparr> of
             Inr body \<Rightarrow> Inr \<lparr>ic_Digest = body, ic_MediaType = '''', ic_Size = 2\<rparr>
           | Inl e' \<Rightarrow> Inl e'))"

definition demoCheckEnv :: "string check_env" where
  "demoCheckEnv = \<lparr>ce_lib = demoNames, ce_isLoopback = \<lambda>h. h = ''127.0.0.1'', ce_dockerConfig = Inr (\<lambda>_. Inl (Errorf ''none'')),
     ce_base = \<lambda>req. Inr (hr_Host req), ce_resolve = demoResolve\<rparr>"

definition demoChecker :: registryImageChecker where
  "demoChecker = \<lparr>rc_timeout = 0, rc_hostRules = parseRegistryHostRules ''r.io=R.io.|auth.r.io;evil.io=evil.io'', rc_slots = Some (makeSem 1)\<rparr>"

lemma demoChecker_rules: "rc_hostRules demoChecker = [(''r.io'', [''r.io'', ''auth.r.io'']), (''evil.io'', [''evil.io''])]"
  by code_simp

lemma demoCheck_reference: "normalizeRegistryImageReference demoNames ''r.io/app'' = Inr (''r.io/app:latest'', ''r.io'')"
  by code_simp

lemma demoHost_normal: "normalizeRegistryHost ''r.io'' = ''r.io''"
  by code_simp

lemma demoCheck_result: "snd (Check demoCheckEnv demoChecker ''r.io/app'') = Inr \<lparr>ic_Digest = ''r.io'', ic_MediaType = '''', ic_Size = 2\<rparr>"
  by code_simp

text \<open>In the example another registry's rule allows \<^verbatim>\<open>evil.io\<close>, and the resolver asks for it.\<close>

theorem check_confined_witness:
  "Check (demoCheckEnv\<lparr>ce_base := \<lambda>req. if normalizeRegistryHost (hr_Host req) = ''evil.io'' then Inr ''leak'' else Inr (hr_Host req)\<rparr>)
      demoChecker ''r.io/app'' = (demoChecker, Inr \<lparr>ic_Digest = ''r.io'', ic_MediaType = '''', ic_Size = 2\<rparr>)"
proof -
  let ?b = "\<lambda>req. if normalizeRegistryHost (hr_Host req) = ''evil.io'' then Inr ''leak'' else Inr (hr_Host req)"
  have "?b req = ce_base demoCheckEnv req"
    if "normalizeRegistryImageReference (ce_lib demoCheckEnv) ''r.io/app'' = Inr (normalized, registry)"
      "permitted (ce_isLoopback demoCheckEnv) (rc_hostRules demoChecker) registry req" for normalized registry req
    using that demoCheck_reference demoHost_normal
    by (auto simp: permitted_def demoChecker_rules demoCheckEnv_def split: if_splits)
  from check_confined [of demoCheckEnv "''r.io/app''" demoChecker ?b "''h''" "\<lambda>_. Inl (Errorf ''none'')", OF this]
  show ?thesis using demoCheck_result by (auto simp: prod_eq_iff)
qed

text \<open>
  C15. The bound on concurrent checks is exact. With any interleaving of requests and ends of checks,
  at most \<^verbatim>\<open>RegistryChecks\<close> checks are in flight, and a request for an allowed registry is refused with
  status 429 exactly when that many are; a refused request takes no slot.
\<close>

theorem check_bound:
  assumes "reach (check_start checks rules timeout) (check_step lib) (r, flight)"
    and "normalizeRegistryImageReference lib img = Inr (normalized, registry)"
    and "map_of rules (normalizeRegistryHost registry) = Some hosts"
  shows "length flight \<le> nat checks \<and>
    (Check_admit lib r img = Inl errRegistryCheckBusy \<longleftrightarrow> length flight = nat checks) \<and>
    (length flight < nat checks \<longrightarrow> (\<exists>r'. Check_admit lib r img = Inr (r', normalized, registry, hosts)))"
  using checks.reach_inv [OF assms(1)] assms(2,3)
  by (auto simp: slots_match_def Check_admit_def sem_trySend_def)

theorem check_bound_witness:
  "Check_admit demoNames \<lparr>rc_timeout = 5, rc_hostRules = [(''r.io'', [''r.io''])], rc_slots = Some \<lparr>sem_len = 1, sem_cap = 1\<rparr>\<rparr>
     ''r.io/app'' = Inl errRegistryCheckBusy"
proof -
  let ?rules = "[(''r.io'', [''r.io''])]"
  have "reach (check_start 1 ?rules 5) (check_step demoNames)
      (\<lparr>rc_timeout = 5, rc_hostRules = ?rules, rc_slots = Some \<lparr>sem_len = 1, sem_cap = 1\<rparr>\<rparr>, [''r.io/b''])"
    by (rule reach_step [OF reach_init, of _ "(\<lparr>rc_timeout = 5, rc_hostRules = ?rules, rc_slots = Some (makeSem (nat 1))\<rparr>, [])" _ "CheckBegin ''r.io/b''"])
      (simp add: check_start_def, code_simp)
  moreover have "normalizeRegistryImageReference demoNames ''r.io/app'' = Inr (''r.io/app:latest'', ''r.io'')"
    "map_of ?rules (normalizeRegistryHost ''r.io'') = Some [''r.io'']" by code_simp+
  ultimately show ?thesis using check_bound [of 1 ?rules 5 demoNames] by simp
qed

text \<open>
  Every outcome of a check has its status: 403 for a registry without a rule, 429 when the slots
  are taken, 504 for a deadline, 404 for a missing image, 400 for a reference that is not a tagged
  name with a registry, 502 for any other failure and 200 with the image's headers for a success. In
  particular 200 is answered only for an image whose registry has a rule.
\<close>

theorem head_image_status:
  assumes "trimSpace query \<noteq> ''''" "handleHeadImage env (Some r) query = (r', resp)"
  shows "(rs_status resp = 200 \<longleftrightarrow> (\<exists>ok. snd (Check env r (trimSpace query)) = Inr ok)) \<and>
    (rs_status resp = 200 \<longrightarrow> (\<exists>normalized registry hosts.
        normalizeRegistryImageReference (ce_lib env) (trimSpace query) = Inr (normalized, registry) \<and>
        map_of (rc_hostRules r) (normalizeRegistryHost registry) = Some hosts)) \<and>
    (isl (normalizeRegistryImageReference (ce_lib env) (trimSpace query)) \<longrightarrow> rs_status resp \<in> {400, 403, 404, 429, 504}) \<and>
    r' = Some r"
proof -
  let ?n = "normalizeRegistryImageReference (ce_lib env) (trimSpace query)"
  have ref: "InvalidReference \<in> set (err_chain e)" if "?n = Inl e" for e
    using that by (auto simp: normalizeRegistryImageReference_def invalidImageReference_def Let_def
        split: option.split_asm if_split_asm sum.split_asm)
  have rl: "r' = Some r" and st: "rs_status resp = (case snd (Check env r (trimSpace query)) of Inl e \<Rightarrow> checkErrorStatus e | Inr _ \<Rightarrow> 200)"
    using assms check_keeps [of env r "trimSpace query"]
    by (auto simp: handleHeadImage_def Let_def noContent_def split: prod.splits sum.splits)
  have ne: "checkErrorStatus e \<noteq> 200" for e by (simp add: checkErrorStatus_def)
  have ok: "\<exists>normalized registry hosts. ?n = Inr (normalized, registry) \<and>
      map_of (rc_hostRules r) (normalizeRegistryHost registry) = Some hosts"
    if "snd (Check env r (trimSpace query)) = Inr ok" for ok
  proof (cases ?n)
    case (Inr p)
    then show ?thesis using that
      by (cases p; cases "map_of (rc_hostRules r) (normalizeRegistryHost (snd p))") (auto simp: Check_def Check_admit_def)
  qed (use that in \<open>simp add: Check_def Check_admit_def\<close>)
  have inv: "rs_status resp \<in> {400, 403, 404, 429, 504}" if "isl ?n"
  proof -
    from that obtain e where e: "?n = Inl e" by (auto simp: isl_def)
    then have "snd (Check env r (trimSpace query)) = Inl e" by (simp add: Check_def Check_admit_def)
    with st ref [OF e] show ?thesis by (simp add: checkErrorStatus_def errors_Is_def)
  qed
  from rl st ne ok inv show ?thesis by (auto split: sum.splits)
qed

theorem head_image_status_witness:
  "\<exists>normalized registry hosts. normalizeRegistryImageReference demoNames ''r.io/app'' = Inr (normalized, registry) \<and>
     map_of (rc_hostRules demoChecker) (normalizeRegistryHost registry) = Some hosts \<and>
     rs_status (snd (handleHeadImage demoCheckEnv (Some demoChecker) '' r.io/app '')) = 200"
proof -
  have t: "trimSpace '' r.io/app '' = ''r.io/app''" by code_simp
  have s: "rs_status (snd (handleHeadImage demoCheckEnv (Some demoChecker) '' r.io/app '')) = 200" by code_simp
  have "ce_lib demoCheckEnv = demoNames" by (simp add: demoCheckEnv_def)
  with head_image_status [of "'' r.io/app ''" demoCheckEnv demoChecker, unfolded t, OF _ surjective_pairing] s
  show ?thesis by auto
qed

end
