(* ===== verification/Server.thy ===== *)
theory Server
  imports Build_Request Build_Outcomes Registry_Check
begin

text \<open>
  The HTTP server of the daemon, \<^verbatim>\<open>internal/builddaemon/server.go\<close>, \<^verbatim>\<open>run.go\<close> and the parts of
  \<^verbatim>\<open>observability.go\<close> that answer requests: the handlers, the bearer token, the metrics, the start and
  the shutdown of the server. The echo router is a library: a request arrives here with its endpoint
  chosen. What the Prometheus registry gathers is an argument.
\<close>

section \<open>Handlers\<close>

datatype reply_body = JError string | JTask buildTaskView | JTasks "buildTaskView list" | JText string | JOther

datatype reply = Reply nat reply_body | SyncWait string | HeadReply http_response

definition handleListBuilds :: "taskStore \<Rightarrow> reply" where
  "handleListBuilds store = Reply 200 (JTasks (viewTasks (store_list store)))"

definition handleGetBuild :: "string \<Rightarrow> taskStore \<Rightarrow> reply" where
  "handleGetBuild tid store = (case store_get store tid of
      None \<Rightarrow> Reply 404 (JError ''build not found'')
    | Some task \<Rightarrow> Reply 200 (JTask (viewTask task)))"

text \<open>\<open>readLog\<close> is the content of the log file at a path, or the error of opening it.\<close>

definition handleGetBuildLogs :: "Config \<Rightarrow> (string \<Rightarrow> string result) \<Rightarrow> string \<Rightarrow> string \<Rightarrow> taskStore \<Rightarrow> reply" where
  "handleGetBuildLogs cfg readLog tid tailRaw store = (case store_get store tid of
      None \<Rightarrow> Reply 404 (JError ''build not found'')
    | Some task \<Rightarrow>
        (let raw = trimSpace tailRaw;
             parsed = (if raw = '''' then Some (c_MaxLogBytes cfg)
                       else case atoi raw of Some n \<Rightarrow> if n \<le> 0 then None else Some n | None \<Rightarrow> None) in
         case parsed of
           None \<Rightarrow> Reply 400 (JError ''tail_bytes must be a positive integer'')
         | Some tailBytes \<Rightarrow>
             if orDefault (c_MaxLogBytes cfg) defaultMaxLogBytes < tailBytes
             then Reply 400 (JError ''tail_bytes exceeds max-log-bytes'')
             else case tailFile (readLog (t_LogPath task)) tailBytes of
               Inl e \<Rightarrow> if errors_Is e NotExist then Reply 200 (JText '''') else Reply 500 (JError (err_text e))
             | Inr logs \<Rightarrow> Reply 200 (JText logs)))"

definition cancelReply :: "string \<Rightarrow> time \<Rightarrow> taskStore \<Rightarrow> reply" where
  "cancelReply tid now store = (case store_cancel now tid store of (store', snap, called) \<Rightarrow>
     (case snap of
        None \<Rightarrow> Reply 404 (JError ''build not found'')
      | Some task \<Rightarrow> Reply 202 (JTask (viewTask task))))"

section \<open>Metrics\<close>

text \<open>A sample of the text format: the metric, the label value if it has one, the number.\<close>

type_synonym metric_sample = "string \<times> string \<times> int"

definition baseMetrics :: "buildModes option \<Rightarrow> world \<Rightarrow> metric_sample list" where
  "baseMetrics modes w =
     (let running = int (countByStatus (w_store w) buildStatusRunning) in
      [(''buildctl_daemon_builds_queued'', '''', int (countByStatus (w_store w) buildStatusQueued)),
       (''buildctl_daemon_builds_running'', '''', running),
       (''buildctl_daemon_builds_active'', '''', case w_global w of None \<Rightarrow> running | Some s \<Rightarrow> int (sem_len s)),
       (''buildctl_daemon_builds_succeeded_total'', '''', int (m_succeeded (w_metrics w))),
       (''buildctl_daemon_builds_failed_total'', '''', int (m_failed (w_metrics w)))] @
      concat (map (\<lambda>mode.
        [(''buildctl_daemon_mode_builds_queued'', mode, int (countByModeAndStatus (w_store w) mode buildStatusQueued)),
         (''buildctl_daemon_mode_builds_running'', mode, int (countByModeAndStatus (w_store w) mode buildStatusRunning))])
        (modeNames modes)))"

definition queueAge :: "time \<Rightarrow> buildTask \<Rightarrow> duration" where
  "queueAge now t =
     (if t_Status t \<noteq> buildStatusQueued then 0
      else let since = (if t_queuedAt t = 0 then t_CreatedAt t else t_queuedAt t) in
        if since = 0 then 0 else now - since)"

text \<open>\<^verbatim>\<open>extraMetrics\<close>: ages are kept in nanoseconds; \<open>gathered\<close> is what the registry gives.\<close>

definition extraMetrics :: "Config \<Rightarrow> time \<Rightarrow> metric_sample list result \<Rightarrow> world \<Rightarrow> metric_sample list result" where
  "extraMetrics cfg now gathered w = (case gathered of
      Inl e \<Rightarrow> Inl e
    | Inr samples \<Rightarrow> Inr (samples @
        [(''buildctl_daemon_max_concurrency'', '''', c_MaxConcurrency cfg),
         (''buildctl_daemon_retained_tasks'', '''', int (store_len (w_store w))),
         (''buildctl_daemon_queue_oldest_age_seconds'', '''',
            foldl (\<lambda>oldest t. max oldest (queueAge now t)) 0 (store_list (w_store w)))] @
        concat (map (\<lambda>p. let slot = w_heap w ! p in
          [(''buildctl_daemon_worker_slots_active'', ba_addr (as_addr slot), int (sem_len (as_sem slot))),
           (''buildctl_daemon_worker_slots_capacity'', ba_addr (as_addr slot), int (sem_cap (as_sem slot)))])
          (ap_slots (w_pool w)))))"

definition handleMetrics ::
    "Config \<Rightarrow> buildModes option \<Rightarrow> time \<Rightarrow> metric_sample list result \<Rightarrow> world \<Rightarrow> metric_sample list result" where
  "handleMetrics cfg modes now gathered w = (case extraMetrics cfg now gathered w of
      Inl e \<Rightarrow> Inl e
    | Inr extra \<Rightarrow> Inr (baseMetrics modes w @ extra))"

section \<open>Requests\<close>

text \<open>
  The request counter of \<^verbatim>\<open>observeHTTP\<close>: the labels it counts a request under, or nothing for the
  two endpoints it skips. \<open>err\<close> is the error the handler returned, with the code of an echo error.
\<close>

definition requestMethod :: "string \<Rightarrow> string" where
  "requestMethod m = (if m \<in> set [''GET'', ''POST'', ''HEAD'', ''DELETE'', ''PUT'', ''PATCH'', ''OPTIONS''] then m else ''other'')"

definition observeHTTP :: "string \<Rightarrow> string \<Rightarrow> nat \<Rightarrow> nat option option \<Rightarrow> (string \<times> string \<times> nat) option" where
  "observeHTTP path meth status err =
     (let route = (if path = '''' then ''unmatched'' else path) in
      if route = ''/metrics'' \<or> route = ''/healthz'' then None
      else Some (route, requestMethod meth,
        case err of None \<Rightarrow> status | Some None \<Rightarrow> 500 | Some (Some code) \<Rightarrow> code))"

datatype api_request =
    Healthz
  | GetMetrics time "metric_sample list result"
  | CreateBuild create_env
  | ListBuilds
  | GetBuild string
  | GetLogs string string "string \<Rightarrow> string result"
  | CancelBuild string time
  | HeadImage "string check_env" nat string

text \<open>
  The image checker of \<^verbatim>\<open>Run\<close>, with \<open>busy\<close> of its slots taken by the checks of other requests.
\<close>

definition imageChecker :: "Config \<Rightarrow> nat \<Rightarrow> registryImageChecker" where
  "imageChecker cfg busy =
     \<lparr>rc_timeout = c_RegistryTimeout cfg, rc_hostRules = parseRegistryHostRules (c_RegistryRules cfg),
      rc_slots = Some \<lparr>sem_len = busy, sem_cap = nat (c_RegistryChecks cfg)\<rparr>\<rparr>"

fun inV1 :: "api_request \<Rightarrow> bool" where
  "inV1 Healthz = False"
| "inV1 (GetMetrics now gathered) = False"
| "inV1 _ = True"

definition createReply :: "create_answer \<Rightarrow> daemon \<Rightarrow> reply" where
  "createReply a d = (case a of
      AnswerError code msg \<Rightarrow> Reply code (JError msg)
    | AnswerSync tid \<Rightarrow> SyncWait tid
    | AnswerAccepted tid \<Rightarrow> (case acceptedView tid (w_store (dm_world d)) of (code, v) \<Rightarrow> Reply code (JTask v)))"

fun routes :: "'d create_libs \<Rightarrow> api_request \<Rightarrow> daemon \<Rightarrow> daemon \<times> reply" where
  "routes libs Healthz d = (d, Reply 200 JOther)"
| "routes libs (GetMetrics now gathered) d =
     (d, case handleMetrics (dm_cfg d) (dm_modes d) now gathered (dm_world d) of
           Inl e \<Rightarrow> Reply 500 JOther | Inr samples \<Rightarrow> Reply 200 JOther)"
| "routes libs (CreateBuild env) d =
     (case handleCreateBuild libs env d of (d', ops, a) \<Rightarrow> (d', createReply a d'))"
| "routes libs ListBuilds d = (d, handleListBuilds (w_store (dm_world d)))"
| "routes libs (GetBuild tid) d = (d, handleGetBuild tid (w_store (dm_world d)))"
| "routes libs (GetLogs tid tailRaw readLog) d =
     (d, handleGetBuildLogs (dm_cfg d) readLog tid tailRaw (w_store (dm_world d)))"
| "routes libs (CancelBuild tid now) d =
     (d\<lparr>dm_world := handleCancelBuild tid now (dm_world d)\<rparr>, cancelReply tid now (w_store (dm_world d)))"
| "routes libs (HeadImage env busy img) d =
     (d, HeadReply (snd (handleHeadImage env (Some (imageChecker (dm_cfg d) busy)) img)))"

definition bearerAuthMiddleware :: "string \<Rightarrow> string \<Rightarrow> (daemon \<Rightarrow> daemon \<times> reply) \<Rightarrow> daemon \<Rightarrow> daemon \<times> reply" where
  "bearerAuthMiddleware token authorization next d =
     (if authorization \<noteq> ''Bearer '' @ token then (d, Reply 401 (JError ''unauthorized'')) else next d)"

definition serve :: "'d create_libs \<Rightarrow> string \<Rightarrow> api_request \<Rightarrow> daemon \<Rightarrow> daemon \<times> reply" where
  "serve libs authorization req d =
     (if inV1 req \<and> c_AuthToken (dm_cfg d) \<noteq> ''''
      then bearerAuthMiddleware (c_AuthToken (dm_cfg d)) authorization (routes libs req) d
      else routes libs req d)"

section \<open>Start and shutdown\<close>

record run_env =
  re_readFile :: "string \<Rightarrow> string result"
  re_rlimit :: "(nat \<times> nat) result"
  re_setErr :: "go_error option"
  re_mkdirErr :: "go_error option"
  re_net :: net_env
  re_modes :: modes_json
  re_targets :: "string list result"
  re_lib :: reference_lib

definition Run :: "run_env \<Rightarrow> Config \<Rightarrow> daemon result" where
  "Run env cfg0 = (case normalizeConfig (re_readFile env) cfg0 of
      Inl e \<Rightarrow> Inl e
    | Inr cfg \<Rightarrow>
    (case applyNoFileLimit (re_rlimit env) (re_setErr env) (c_RLimitNoFile cfg) of
      Inl e \<Rightarrow> Inl e
    | Inr _ \<Rightarrow>
    (case re_mkdirErr env of
      Some e \<Rightarrow> Inl (wrapErr ''create work dir'' e)
    | None \<Rightarrow>
    (case parseBuildkitAddrs (re_net env) (c_BuildkitdAddrs cfg) of
      Inl e \<Rightarrow> Inl e
    | Inr addrs \<Rightarrow>
    (case parseBuildModes (re_modes env) (c_ModesJSON cfg) (c_DefaultMode cfg) (c_MaxConcurrency cfg) of
      Inl e \<Rightarrow> Inl e
    | Inr modes \<Rightarrow>
    (case parseRoutingTargets (re_lib env) (re_targets env) (c_RoutingTargetsJSON cfg) of
      Inl e \<Rightarrow> Inl e
    | Inr router \<Rightarrow>
        if routingRequired (Some modes) \<and> router = None then
          Inl (Errorf ''at least one routing target is required when a build mode enables routing'')
        else case resolveTLSConfig (c_TLS cfg) of
          Inl e \<Rightarrow> Inl e
        | Inr tls \<Rightarrow>
            (case newBuildModeScheduler (Some modes) True of
               Inl e \<Rightarrow> Inl e
             | Inr scheduler \<Rightarrow>
                 Inr \<lparr>dm_cfg = cfg, dm_modes = Some modes, dm_router = router, dm_scheduler = scheduler,
                      dm_world = init_world (c_MaxConcurrency cfg) addrs (nat (c_AddrConcurrency cfg))\<rparr>)))))))"

text \<open>
  The deferred loop of \<^verbatim>\<open>Run\<close>: every task that is queued or running in the listing is canceled and its
  end observed.
\<close>

definition shutdownTask :: "time \<Rightarrow> world \<Rightarrow> buildTask \<Rightarrow> world" where
  "shutdownTask now w task =
     (if active (t_Status task) then
        (let (s', snap, called) = store_cancel now (t_ID task) (w_store w);
             w1 = w\<lparr>w_store := s'\<rparr>;
             w2 = (if called then cancel_ctx (t_ID task) context_Canceled w1 else w1)
         in finishTask now (t_ID task) buildStatusCanceled [] (Some context_Canceled) w2)
      else w)"

definition shutdownTasks :: "time \<Rightarrow> world \<Rightarrow> world" where
  "shutdownTasks now w = foldl (shutdownTask now) w (store_list (w_store w))"

section \<open>Lemmas\<close>

lemma routes_cfg: "dm_cfg (fst (routes libs req d)) = dm_cfg d"
  by (cases req) (auto simp: handleCreateBuild_def Let_def split: prod.splits sum.splits option.splits)

lemma serve_cfg: "dm_cfg (fst (serve libs auth req d)) = dm_cfg d"
  by (simp add: serve_def bearerAuthMiddleware_def routes_cfg)

text \<open>
  A running daemon serves a request or one of its goroutines, timers or refreshers takes a step of the
  machine. Task ids are 128 random bits, so an id that was issued before does not come again.
\<close>

datatype daemon_event = Request string api_request | Background event

fun freshRequest :: "api_request \<Rightarrow> world \<Rightarrow> bool" where
  "freshRequest (CreateBuild env) w =
     (case newTaskID (ce_random env) of Inr tid \<Rightarrow> tid \<notin> set (w_issued w) | Inl _ \<Rightarrow> True)"
| "freshRequest _ w = True"

definition daemon_step :: "'d create_libs \<Rightarrow> reference_lib \<Rightarrow> daemon_event \<Rightarrow> daemon \<Rightarrow> daemon option" where
  "daemon_step libs lib ev d = (case ev of
      Request auth req \<Rightarrow> if freshRequest req (dm_world d) then Some (fst (serve libs auth req d)) else None
    | Background e \<Rightarrow> map_option (\<lambda>w. d\<lparr>dm_world := w\<rparr>) (world_step lib e (dm_world d)))"

lemma Run_Inr:
  assumes "Run env cfg = Inr d"
  shows "normalizeConfig (re_readFile env) cfg = Inr (dm_cfg d) \<and> server_start (dm_world d) \<and>
    (routingRequired (dm_modes d) \<longrightarrow> dm_router d \<noteq> None) \<and>
    (\<exists>addrs. parseBuildkitAddrs (re_net env) (c_BuildkitdAddrs (dm_cfg d)) = Inr addrs \<and>
       dm_world d = init_world (c_MaxConcurrency (dm_cfg d)) addrs (nat (c_AddrConcurrency (dm_cfg d))))"
proof -
  from assms obtain n where cfg: "normalizeConfig (re_readFile env) cfg = Inr n"
    by (cases "normalizeConfig (re_readFile env) cfg") (simp_all add: Run_def)
  from assms cfg obtain addrs modes router scheduler where
    "parseBuildkitAddrs (re_net env) (c_BuildkitdAddrs n) = Inr addrs"
    "routingRequired (Some modes) \<longrightarrow> router \<noteq> None"
    "d = \<lparr>dm_cfg = n, dm_modes = Some modes, dm_router = router, dm_scheduler = scheduler,
      dm_world = init_world (c_MaxConcurrency n) addrs (nat (c_AddrConcurrency n))\<rparr>"
    unfolding Run_def by (simp add: case_Inr_iff split: option.split_asm if_split_asm) blast+
  with cfg show ?thesis by (auto simp: server_start_def)
qed

lemma resolve_routing:
  "resolve modes raw = Inr (mode, cfg) \<Longrightarrow> mc_RoutingEnabled cfg \<Longrightarrow> routingRequired modes"
  by (auto simp: resolve_def routingRequired_def Let_def list_ex_iff split: option.split_asm dest!: map_of_SomeD)

lemma prepareContext_routing:
  assumes "prepareContext libs env router modeCfg dir = (ops, Inl (503, msg))"
  shows "mc_RoutingEnabled modeCfg \<and> router = None"
  using assms by (auto simp: prepareContext_def Let_def split: sum.split_asm prod.split_asm option.split_asm if_split_asm)

lemma shutdownTask_get:
  assumes rep: "store_rep (w_store w)" and ok: "\<And>t. store_get (w_store w) (t_ID task) = Some t \<Longrightarrow> task_ok t"
  shows "store_rep (w_store (shutdownTask now w task)) \<and>
    (\<forall>tid t'. store_get (w_store (shutdownTask now w task)) tid = Some t' \<longrightarrow>
      (\<exists>t. store_get (w_store w) tid = Some t \<and>
        (if tid = t_ID task \<and> active (t_Status task) then terminal (t_Status t') \<and> task_ok t' else t' = t)))"
proof (cases "active (t_Status task)")
  case True
  let ?id = "t_ID task" let ?s1 = "fst (store_update ?id (cancel_upd now) (w_store w))"
  let ?s2 = "fst (store_update ?id (finish_upd now buildStatusCanceled [] (Some context_Canceled)) ?s1)"
  have r1: "store_rep ?s1" by (rule store_rep_update [OF rep])
  obtain w2 where w2: "shutdownTask now w task = finishTask now ?id buildStatusCanceled [] (Some context_Canceled) w2"
    "w_store w2 = ?s1"
    using True by (auto simp: shutdownTask_def store_cancel_def Let_def split_beta cancel_ctx_def)
  have upd: "terminal (t_Status (cancel_upd now t)) \<and> task_ok (cancel_upd now t)" if "task_ok t" for t
    using that by (auto simp: cancel_upd_def task_ok_def active_iff)
  have fin: "terminal (t_Status (finish_upd now buildStatusCanceled [] (Some context_Canceled) t)) \<and>
      task_ok (finish_upd now buildStatusCanceled [] (Some context_Canceled) t)" if "task_ok t" "terminal (t_Status t)" for t
    using that by (auto simp: finish_upd_def finishable_def task_ok_def)
  from finishTask_store [of now ?id buildStatusCanceled "[]" "Some context_Canceled" w2] w2
  have s: "w_store (shutdownTask now w task) = ?s1 \<or> w_store (shutdownTask now w task) = ?s2" by auto
  have g1: "\<exists>t. store_get (w_store w) tid = Some t \<and>
      (if tid = ?id then terminal (t_Status t') \<and> task_ok t' else t' = t)" if "store_get ?s1 tid = Some t'" for tid t'
    using that ok upd by (auto simp: store_get_update [OF rep] split: option.split_asm if_split_asm)
  have g2: "\<exists>t. store_get (w_store w) tid = Some t \<and>
      (if tid = ?id then terminal (t_Status t') \<and> task_ok t' else t' = t)" if g: "store_get ?s2 tid = Some t'" for tid t'
  proof (cases "tid = ?id")
    case True
    with g obtain t1 where t1: "store_get ?s1 tid = Some t1"
      "t' = finish_upd now buildStatusCanceled [] (Some context_Canceled) t1"
      by (auto simp: store_get_update [OF r1] split: option.split_asm)
    with g1 [OF t1(1)] fin True show ?thesis by auto
  next
    case False
    with g have "store_get ?s1 tid = Some t'" by (auto simp: store_get_update [OF r1] split: option.split_asm)
    with g1 show ?thesis by blast
  qed
  have r2: "store_rep ?s2" by (rule store_rep_update [OF r1])
  have "store_rep s \<and> (\<forall>tid t'. store_get s tid = Some t' \<longrightarrow> (\<exists>t. store_get (w_store w) tid = Some t \<and>
      (if tid = ?id then terminal (t_Status t') \<and> task_ok t' else t' = t)))" if "s = ?s1 \<or> s = ?s2" for s
    using that g1 g2 r1 r2 by blast
  from this [OF s] True show ?thesis by simp
qed (use rep in \<open>auto simp: shutdownTask_def\<close>)

lemma shutdown_fold:
  assumes "store_rep (w_store w)" "\<And>tid t. store_get (w_store w) tid = Some t \<Longrightarrow> task_ok t"
    and "store_get (w_store (foldl (shutdownTask now) w ts)) tid = Some t'"
  shows "\<exists>t. store_get (w_store w) tid = Some t \<and>
    (if \<exists>x \<in> set ts. t_ID x = tid \<and> active (t_Status x) then terminal (t_Status t') else t' = t)"
  using assms
proof (induction ts arbitrary: w)
  case (Cons x ts)
  let ?w = "shutdownTask now w x"
  note sg = shutdownTask_get [of w x now, OF Cons.prems(1), OF Cons.prems(2) [of "t_ID x"], simplified]
  have ok: "task_ok t" if "store_get (w_store ?w) tid = Some t" for tid t
  proof -
    from sg that obtain u where "store_get (w_store w) tid = Some u"
      "if tid = t_ID x \<and> active (t_Status x) then terminal (t_Status t) \<and> task_ok t else t = u" by blast
    with Cons.prems(2) show ?thesis by (auto split: if_split_asm)
  qed
  obtain t1 where t1: "store_get (w_store ?w) tid = Some t1"
    "if \<exists>y \<in> set ts. t_ID y = tid \<and> active (t_Status y) then terminal (t_Status t') else t' = t1"
    using Cons.IH [of ?w] sg ok Cons.prems(3) by auto
  obtain t where "store_get (w_store w) tid = Some t"
    "if tid = t_ID x \<and> active (t_Status x) then terminal (t_Status t1) \<and> task_ok t1 else t1 = t"
    using sg t1(1) by blast
  with t1(2) show ?case by (auto split: if_split_asm)
qed auto


lemma routes_machine:
  assumes "reachable lib (dm_world d)" "freshRequest req (dm_world d)"
  shows "reachable lib (dm_world (fst (routes libs req d)))"
proof (cases req)
  case (CreateBuild env)
  obtain d' ops answer where h: "handleCreateBuild libs env d = (d', ops, answer)"
    by (cases "handleCreateBuild libs env d")
  have "reachable lib (dm_world d')"
    by (rule create_machine [OF assms(1) h, THEN conjunct1]) (use assms(2) CreateBuild in \<open>simp\<close>)
  with CreateBuild h show ?thesis by simp
next
  case (CancelBuild tid now)
  have "world_step lib (CancelRequest tid now) (dm_world d) = Some (handleCancelBuild tid now (dm_world d))"
    by (simp add: world_step_def)
  from reach_step [where step = "world_step lib", OF assms(1) this] CancelBuild show ?thesis by simp
qed (use assms in simp_all)

lemma serve_machine:
  "reachable lib (dm_world d) \<Longrightarrow> freshRequest req (dm_world d) \<Longrightarrow> reachable lib (dm_world (fst (serve libs auth req d)))"
  by (simp add: serve_def bearerAuthMiddleware_def routes_machine)

text \<open>What every state of a daemon started by \<^verbatim>\<open>Run\<close> keeps.\<close>

definition daemon_ok :: "run_env \<Rightarrow> Config \<Rightarrow> reference_lib \<Rightarrow> daemon \<Rightarrow> bool" where
  "daemon_ok env cfg lib d \<longleftrightarrow> normalizeConfig (re_readFile env) cfg = Inr (dm_cfg d) \<and> reachable lib (dm_world d)"

interpretation served: ts_invariant "\<lambda>d. Run env cfg = Inr d" "daemon_step libs lib" "daemon_ok env cfg lib" for env cfg libs lib
proof (unfold_locales, goal_cases)
  case (1 d)
  from Run_Inr [OF this] show ?case by (auto simp: daemon_ok_def intro: reach_init)
next
  case (2 d e d')
  then show ?case
    by (cases e) (auto simp: daemon_step_def daemon_ok_def serve_cfg serve_machine split: if_split_asm intro: reach_step)
qed

section \<open>Claims\<close>

text \<open>
  C27. Authentication holds for the whole life of a daemon. When a token or a token file is configured
  and \<^verbatim>\<open>Run\<close> starts the server, then after any sequence of requests and background steps a request to
  the build API without exactly this bearer token is answered with 401 and changes nothing, and
  everything the daemon holds is a reachable state of the build machine.
\<close>

theorem serve_requires_token:
  assumes "reach (\<lambda>d. Run env cfg = Inr d) (daemon_step libs lib) d"
    and "c_AuthToken cfg \<noteq> '''' \<or> c_AuthTokenFile cfg \<noteq> ''''"
    and "inV1 req" "auth \<noteq> ''Bearer '' @ c_AuthToken (dm_cfg d)"
  shows "reachable lib (dm_world d) \<and> c_AuthToken (dm_cfg d) \<noteq> '''' \<and>
    serve libs auth req d = (d, Reply 401 (JError ''unauthorized''))"
proof -
  from served.reach_inv [OF assms(1)]
  have n: "normalizeConfig (re_readFile env) cfg = Inr (dm_cfg d)" and r: "reachable lib (dm_world d)"
    by (simp_all add: daemon_ok_def)
  from normalizeConfig_token [OF n] assms(2) have "c_AuthToken (dm_cfg d) \<noteq> ''''" by (auto split: if_split_asm)
  with r assms(3,4) show ?thesis by (simp add: serve_def bearerAuthMiddleware_def)
qed

definition demoRunCfg :: Config where
  "demoRunCfg = DefaultConfig\<lparr>c_AuthToken := ''secret'', c_BuildkitdAddrs := ''10.0.0.1:9094''\<rparr>"

definition demoRunEnv :: run_env where
  "demoRunEnv = \<lparr>re_readFile = (\<lambda>_. Inl (Errorf ''none'')), re_rlimit = Inr (1024, 4096), re_setErr = None, re_mkdirErr = None,
     re_net = \<lparr>net_ParseIP = Some, net_LookupHost = \<lambda>_. Inr []\<rparr>, re_modes = Decoded [] False, re_targets = Inr [],
     re_lib = demoLib\<rparr>"

lemma demoRun_ex: "\<exists>d. Run demoRunEnv demoRunCfg = Inr d \<and> dm_cfg d = demoRunCfg"
proof -
  have "config_ok demoRunCfg" "c_AuthTokenFile demoRunCfg = ''''" by code_simp+
  then have n: "normalizeConfig (re_readFile demoRunEnv) demoRunCfg = Inr demoRunCfg" by (rule normalizeConfig_id)
  have l: "c_RLimitNoFile demoRunCfg = 0" "re_mkdirErr demoRunEnv = None" "c_ModesJSON demoRunCfg = ''''"
    "c_RoutingTargetsJSON demoRunCfg = ''''" "c_TLS demoRunCfg = noTLS"
    by (simp_all add: demoRunCfg_def demoRunEnv_def DefaultConfig_def)
  have "case parseBuildkitAddrs (re_net demoRunEnv) (c_BuildkitdAddrs demoRunCfg) of Inr _ \<Rightarrow> True | Inl _ \<Rightarrow> False"
    by code_simp
  then obtain addrs where a: "parseBuildkitAddrs (re_net demoRunEnv) (c_BuildkitdAddrs demoRunCfg) = Inr addrs"
    by (auto split: sum.split_asm)
  have "parseBuildModes (re_modes demoRunEnv) '''' (c_DefaultMode demoRunCfg) (c_MaxConcurrency demoRunCfg) =
      Inr \<lparr>bm_defaultMode = ''default_mode'', bm_configs = [(''default_mode'', \<lparr>mc_Concurrency = 0, mc_RoutingEnabled = False\<rparr>)],
        bm_explicit = False\<rparr>" by code_simp
  with n l a show ?thesis
    by (simp add: Run_def applyNoFileLimit_def parseRoutingTargets_def resolveTLSConfig_def newBuildModeScheduler_def
        routingRequired_def noTLS_def trimSpace_def trimLeftFunc_def trimRightFunc_def)
qed

theorem serve_requires_token_witness:
  "\<exists>d. Run demoRunEnv demoRunCfg = Inr d \<and> c_AuthToken (dm_cfg d) = ''secret'' \<and>
     serve demoLibs ''Bearer Secret'' ListBuilds d = (d, Reply 401 (JError ''unauthorized''))"
proof -
  obtain d where d: "Run demoRunEnv demoRunCfg = Inr d" "dm_cfg d = demoRunCfg" using demoRun_ex by blast
  have t: "c_AuthToken demoRunCfg = ''secret''" by (simp add: demoRunCfg_def)
  have r: "reach (\<lambda>d. Run demoRunEnv demoRunCfg = Inr d) (daemon_step demoLibs demoLib) d"
    by (rule reach_init) (rule d)
  from serve_requires_token [OF r, of ListBuilds "''Bearer Secret''"] d t show ?thesis by simp
qed

lemma store_update_keys: "map fst (fst (store_update tid fn s)) = map fst s"
  by (auto simp: store_update_def update_keys map_of_eq_None_iff split: option.split)

lemma shutdownTask_keys: "map fst (w_store (shutdownTask now w task)) = map fst (w_store w)"
proof -
  have "map fst (w_store (finishTask now tid st ex err v)) = map fst (w_store v)" for tid st ex err v
    using finishTask_store [of now tid st ex err v] by (auto simp: store_update_keys)
  then show ?thesis
    by (simp add: shutdownTask_def store_cancel_def cancel_ctx_def Let_def split_beta store_update_keys)
qed

lemma shutdown_keys: "map fst (w_store (foldl (shutdownTask now) w ts)) = map fst (w_store w)"
  by (induction ts arbitrary: w) (simp_all add: shutdownTask_keys)

text \<open>
  The shutdown of the daemon leaves no build behind: from any reachable state, after the deferred
  loop of \<^verbatim>\<open>Run\<close> every task in the store is terminal, a task that had ended keeps its record as it was,
  and no task is lost from or added to the store.
\<close>

theorem shutdown_ends_all:
  assumes "reachable lib w"
  shows "map fst (w_store (shutdownTasks now w)) = map fst (w_store w) \<and>
    (\<forall>tid t'. store_get (w_store (shutdownTasks now w)) tid = Some t' \<longrightarrow> terminal (t_Status t') \<and>
      (\<exists>t. store_get (w_store w) tid = Some t \<and> (terminal (t_Status t) \<longrightarrow> t' = t)))"
proof -
  have ok: "store_ok w" by (rule life.reach_inv [OF assms])
  have "terminal (t_Status t') \<and> (\<exists>t. store_get (w_store w) tid = Some t \<and> (terminal (t_Status t) \<longrightarrow> t' = t))"
    if g: "store_get (w_store (shutdownTasks now w)) tid = Some t'" for tid t'
  proof -
    obtain t where t: "store_get (w_store w) tid = Some t"
      "if \<exists>x \<in> set (store_list (w_store w)). t_ID x = tid \<and> active (t_Status x) then terminal (t_Status t') else t' = t"
      using shutdown_fold [OF _ _ g [unfolded shutdownTasks_def]] ok unfolding store_ok_def by blast
    have "(tid, t) \<in> set (w_store w)" using t(1) by (simp add: store_get_def map_of_SomeD)
    then have "t \<in> set (store_list (w_store w))" by (force simp: store_list_def)
    moreover have "t_ID t = tid" using ok t(1) by (simp add: store_ok_def)
    moreover have "x = t" if "x \<in> set (store_list (w_store w))" "t_ID x = tid" for x
    proof -
      from that(1) obtain k where k: "(k, x) \<in> set (w_store w)" by (auto simp: store_list_def)
      then have "store_get (w_store w) k = Some x" using ok by (simp add: store_ok_def store_rep_def store_get_def)
      with ok that(2) t(1) show "x = t" by (auto simp: store_ok_def)
    qed
    ultimately have "(\<exists>x \<in> set (store_list (w_store w)). t_ID x = tid \<and> active (t_Status x)) \<longleftrightarrow> active (t_Status t)"
      by blast
    with t show ?thesis by (cases "active (t_Status t)") (simp_all add: active_iff)
  qed
  then show ?thesis by (simp add: shutdown_keys shutdownTasks_def)
qed

definition demoQueued :: world where
  "demoQueued = submit_task (zeroTask\<lparr>t_ID := ''b1'', t_CreatedAt := 1, t_done := True\<rparr>) (init_world 1 [] 1)"

theorem shutdown_ends_all_witness:
  "\<exists>t'. store_get (w_store (shutdownTasks 99 demoQueued)) ''b1'' = Some t' \<and> terminal (t_Status t')"
proof -
  have "reachable demoLib (init_world 1 [] 1)" by (rule reach_init) (auto simp: server_start_def)
  moreover have "world_step demoLib (Submit (zeroTask\<lparr>t_ID := ''b1'', t_CreatedAt := 1, t_done := True\<rparr>)) (init_world 1 [] 1)
      = Some demoQueued"
    by (simp add: world_step_def demoQueued_def new_task_def zeroTask_def init_world_def)
  ultimately have r: "reachable demoLib demoQueued" by (rule reach_step)
  have "map fst (w_store demoQueued) = [''b1'']"
    by (simp add: demoQueued_def submit_task_def init_world_def newTaskStore_def store_add_def zeroTask_def)
  with shutdown_ends_all [OF r, of 99] show ?thesis
    by (cases "store_get (w_store (shutdownTasks 99 demoQueued)) ''b1''")
       (auto simp: store_get_def map_of_eq_None_iff simp flip: set_map)
qed

end
