(* ===== verification/Build_Client.thy ===== *)
theory Build_Client
  imports Workspace Transition_Systems "HOL-Library.AList"
begin

text \<open>
  The runner that talks to BuildKit, the second half of \<^verbatim>\<open>internal/builddaemon/build.go\<close>: the cache of one
  client per worker address, which concurrent builds fill without holding the lock while they dial, the
  options of a solve and of a connection, and the progress that is written to the log of a build. BuildKit
  itself is outside: a client is a number, dialling and solving give an arbitrary result. \<^verbatim>\<open>url.Parse\<close> and
  the JSON encoder are arguments.
\<close>

section \<open>The options of a solve\<close>

record solve_opt =
  so_exporterType :: string
  so_exporterAttrs :: strmap
  so_localDirs :: strmap
  so_frontend :: string
  so_frontendAttrs :: strmap

definition solveOpt :: "buildRunRequest \<Rightarrow> solve_opt" where
  "solveOpt req = \<lparr>so_exporterType = ''image'', so_exporterAttrs = outputAttrs (br_Image req) (br_Format req),
     so_localDirs = [(''context'', br_ContextDir req), (''dockerfile'', br_ContextDir req)],
     so_frontend = ''dockerfile.v0'', so_frontendAttrs = frontendAttrs (br_Target req) (br_NoCache req) (br_BuildArgs req)\<rparr>"

text \<open>\<^verbatim>\<open>Build\<close> after the client: \<open>solve\<close> is the answer of the client to the options.\<close>

definition runnerBuild :: "nat result \<Rightarrow> go_error option \<Rightarrow> (nat \<Rightarrow> solve_opt \<Rightarrow> strmap result) \<Rightarrow> buildRunRequest \<Rightarrow> strmap result" where
  "runnerBuild gotClient dockerErr solve req = (case gotClient of
      Inl e \<Rightarrow> Inl e
    | Inr client \<Rightarrow>
        (case dockerErr of
           Some e \<Rightarrow> Inl (wrapErr ''load docker config'' e)
         | None \<Rightarrow> solve client (solveOpt req)))"

section \<open>The options of a connection\<close>

datatype client_opt = WithServerConfig string string | WithCredentials string string | WithTracerProvider

definition clientOpts :: "(string \<Rightarrow> string option) \<Rightarrow> TLSConfig \<Rightarrow> string \<Rightarrow> client_opt list" where
  "clientOpts hostname tls addr =
     (if tls_CACert tls \<noteq> '''' \<or> tls_Cert tls \<noteq> '''' \<or> tls_Key tls \<noteq> '''' then
        (let serverName = (if tls_ServerName tls = '''' then (case hostname addr of Some h \<Rightarrow> h | None \<Rightarrow> '''') else tls_ServerName tls)
         in (if tls_CACert tls \<noteq> '''' \<or> serverName \<noteq> '''' then [WithServerConfig serverName (tls_CACert tls)] else []) @
            (if tls_Cert tls \<noteq> '''' \<or> tls_Key tls \<noteq> '''' then [WithCredentials (tls_Cert tls) (tls_Key tls)] else []))
      else []) @ [WithTracerProvider]"

section \<open>The cache of clients\<close>

text \<open>
  The program points of \<^verbatim>\<open>getClient\<close> and \<^verbatim>\<open>clientForAddr\<close> for one call: the first locked look, the dial without
  the lock, the second locked look, the close of a client that came too late, the result.
\<close>

datatype call_pc = CallLook string | CallDial string | CallInsert string nat | CallClose string nat nat | CallDone string "nat result"

text \<open>
  Besides the settings and the map of the code, the record keeps what has happened: the clients made, those
  closed because they came too late, the calls, and, once \<^verbatim>\<open>Close\<close> has run, the clients that it closed.
\<close>

record realBuildRunner =
  rr_tls :: TLSConfig
  rr_clients :: "(string \<times> nat) list"
  rr_created :: "(string \<times> nat) list"
  rr_closed :: "nat list"
  rr_shut :: "nat list option"
  rr_calls :: "call_pc list"

definition newRealBuildRunner :: "TLSConfig \<Rightarrow> realBuildRunner result" where
  "newRealBuildRunner tls = (case resolveTLSConfig tls of
      Inl e \<Rightarrow> Inl e
    | Inr resolved \<Rightarrow>
        Inr \<lparr>rr_tls = resolved, rr_clients = [], rr_created = [], rr_closed = [], rr_shut = None, rr_calls = []\<rparr>)"

definition getClient :: "buildRunRequest \<Rightarrow> realBuildRunner \<Rightarrow> realBuildRunner" where
  "getClient req r =
     (let addr = trimSpace (br_BuildkitAddr req) in
      r\<lparr>rr_calls := rr_calls r @ [if addr = '''' then CallDone addr (Inl (Errorf ''internal error: buildkit address was not set'')) else CallLook addr]\<rparr>)"

definition set_call :: "nat \<Rightarrow> call_pc \<Rightarrow> realBuildRunner \<Rightarrow> realBuildRunner" where
  "set_call i pc r = r\<lparr>rr_calls := (rr_calls r)[i := pc]\<rparr>"

text \<open>A client that is dialled gets the next number; the error of the dial is an argument.\<close>

definition clientForAddr :: "go_error option \<Rightarrow> nat \<Rightarrow> realBuildRunner \<Rightarrow> realBuildRunner option" where
  "clientForAddr dialErr i r = (case rr_calls r ! i of
      CallLook addr \<Rightarrow>
        (case map_of (rr_clients r) addr of
           Some c \<Rightarrow> Some (set_call i (CallDone addr (Inr c)) r)
         | None \<Rightarrow> Some (set_call i (CallDial addr) r))
    | CallDial addr \<Rightarrow>
        (case dialErr of
           Some e \<Rightarrow> Some (set_call i (CallDone addr (Inl e)) r)
         | None \<Rightarrow>
             (let c = length (rr_created r)
              in Some (set_call i (CallInsert addr c) (r\<lparr>rr_created := rr_created r @ [(addr, c)]\<rparr>))))
    | CallInsert addr c \<Rightarrow>
        (case map_of (rr_clients r) addr of
           Some existing \<Rightarrow> Some (set_call i (CallClose addr c existing) r)
         | None \<Rightarrow> Some (set_call i (CallDone addr (Inr c)) (r\<lparr>rr_clients := AList.update addr c (rr_clients r)\<rparr>)))
    | CallClose addr c existing \<Rightarrow> Some (set_call i (CallDone addr (Inr existing)) (r\<lparr>rr_closed := rr_closed r @ [c]\<rparr>))
    | CallDone addr res \<Rightarrow> None)"

text \<open>
  \<^verbatim>\<open>Close\<close> closes all cached clients under the lock, joins their errors and leaves the map as it is. \<^verbatim>\<open>Run\<close> defers
  it, so it runs once, when the server returns; builds may be under way then, and their calls go on.
\<close>

definition runner_Close :: "(nat \<Rightarrow> go_error option) \<Rightarrow> realBuildRunner \<Rightarrow> realBuildRunner \<times> go_error option" where
  "runner_Close closeErr r =
     (let errs = concat (map (\<lambda>(addr, c). case closeErr c of Some e \<Rightarrow> [addr @ '': '' @ err_text e] | None \<Rightarrow> []) (rr_clients r))
      in (r\<lparr>rr_shut := Some (map snd (rr_clients r))\<rparr>, if errs \<noteq> [] then Some (Errorf (joinStr ''; '' errs)) else None))"

datatype runner_event = Call buildRunRequest | CallStep "go_error option" nat | CloseRunner "nat \<Rightarrow> go_error option"

definition runner_step :: "runner_event \<Rightarrow> realBuildRunner \<Rightarrow> realBuildRunner option" where
  "runner_step ev r = (case ev of
      Call req \<Rightarrow> Some (getClient req r)
    | CallStep dialErr i \<Rightarrow> if i < length (rr_calls r) then clientForAddr dialErr i r else None
    | CloseRunner closeErr \<Rightarrow> if rr_shut r = None then Some (fst (runner_Close closeErr r)) else None)"

definition runner_start :: "realBuildRunner \<Rightarrow> bool" where
  "runner_start r \<longleftrightarrow> (\<exists>tls. newRealBuildRunner tls = Inr r)"

section \<open>Progress\<close>

text \<open>What a solve reports, and the records that are encoded, in their order.\<close>

record solve_status =
  ss_vertexes :: "string list"
  ss_statuses :: "string list"
  ss_logs :: "string list"
  ss_warnings :: "string list"

datatype status_record = VertexRecord string | StatusRecord string | LogRecord string | WarningRecord string

definition statusRecords :: "solve_status \<Rightarrow> status_record list" where
  "statusRecords st = map VertexRecord (ss_vertexes st) @ map StatusRecord (ss_statuses st) @
     map LogRecord (ss_logs st) @ map WarningRecord (ss_warnings st)"

text \<open>Each record is one write of its line; write errors are ignored.\<close>

definition writeSolveStatus ::
    "(status_record \<Rightarrow> string) \<Rightarrow> (string \<Rightarrow> nat \<times> go_error option) \<Rightarrow> solve_status list \<Rightarrow> limitedLogWriter \<Rightarrow> limitedLogWriter" where
  "writeSolveStatus encode wr statuses w =
     foldl (\<lambda>w st. foldl (\<lambda>w rec. fst (logWrite wr (encode rec @ [CHR 0x0A]) w)) w (statusRecords st)) w statuses"

section \<open>The invariant of the cache\<close>

definition callClients :: "call_pc \<Rightarrow> nat list" where
  "callClients pc = (case pc of CallInsert addr c \<Rightarrow> [c] | CallClose addr c existing \<Rightarrow> [c] | _ \<Rightarrow> [])"

text \<open>What a call knows: its own client was made for its address, and the client it returns is the cached one.\<close>

definition call_ok :: "realBuildRunner \<Rightarrow> call_pc \<Rightarrow> bool" where
  "call_ok r pc \<longleftrightarrow> (case pc of
      CallInsert addr c \<Rightarrow> (addr, c) \<in> set (rr_created r)
    | CallClose addr c existing \<Rightarrow> map_of (rr_clients r) addr = Some existing
    | CallDone addr (Inr c) \<Rightarrow> map_of (rr_clients r) addr = Some c
    | _ \<Rightarrow> True)"

text \<open>
  Every client ever made is cached, closed or in the hands of exactly one call; a cached client serves the
  address it was made for.
\<close>

definition runner_inv :: "realBuildRunner \<Rightarrow> bool" where
  "runner_inv r \<longleftrightarrow>
     map snd (rr_created r) = [0 ..< length (rr_created r)] \<and> distinct (map fst (rr_clients r)) \<and>
     set (rr_clients r) \<subseteq> set (rr_created r) \<and>
     mset (map snd (rr_created r)) = mset (map snd (rr_clients r)) + mset (rr_closed r) + mset (concat (map callClients (rr_calls r))) \<and>
     list_all (call_ok r) (rr_calls r) \<and>
     (\<forall>cs. rr_shut r = Some cs \<longrightarrow> distinct cs \<and> set cs \<subseteq> snd ` set (rr_clients r))"

lemma update_absent: "map_of al k = None \<Longrightarrow> AList.update k v al = al @ [(k, v)]"
  by (induction al) (auto split: if_splits)

lemma runner_inv_new: "runner_start r \<Longrightarrow> runner_inv r"
  by (auto simp: runner_start_def runner_inv_def newRealBuildRunner_def split: sum.splits)

lemma call_ok_grows:
  assumes "call_ok r pc" "set (rr_created r) \<subseteq> set (rr_created r')" "\<And>addr c. map_of (rr_clients r) addr = Some c \<Longrightarrow> map_of (rr_clients r') addr = Some c"
  shows "call_ok r' pc"
  using assms by (auto simp: call_ok_def split: call_pc.splits sum.splits)

text \<open>One call's step: the calls' clients change as the other fields do.\<close>

lemma runner_inv_step:
  assumes inv: "runner_inv r" and i: "i < length (rr_calls r)" and calls: "rr_calls r' = (rr_calls r)[i := pc]"
    and num: "map snd (rr_created r') = [0 ..< length (rr_created r')]" and keys: "distinct (map fst (rr_clients r'))"
    and sub: "set (rr_clients r') \<subseteq> set (rr_created r')"
    and bal: "mset (map snd (rr_created r')) + mset (map snd (rr_clients r)) + mset (rr_closed r) + mset (callClients (rr_calls r ! i)) =
      mset (map snd (rr_created r)) + mset (map snd (rr_clients r')) + mset (rr_closed r') + mset (callClients pc)"
    and ok: "call_ok r' pc" and grow: "set (rr_created r) \<subseteq> set (rr_created r')"
      "\<And>addr c. map_of (rr_clients r) addr = Some c \<Longrightarrow> map_of (rr_clients r') addr = Some c"
    and shut: "rr_shut r' = rr_shut r" "set (rr_clients r) \<subseteq> set (rr_clients r')"
  shows "runner_inv r'"
proof -
  let ?h = "mset (concat (map callClients (rr_calls r)))" and ?h' = "mset (concat (map callClients ((rr_calls r)[i := pc])))"
  have c: "?h' + mset (callClients (rr_calls r ! i)) = ?h + mset (callClients pc)" by (rule mset_concat_update [OF i])
  have e: "mset (map snd (rr_created r)) = mset (map snd (rr_clients r)) + mset (rr_closed r) + ?h"
    using inv unfolding runner_inv_def by blast
  have "mset (map snd (rr_created r')) + (mset (map snd (rr_clients r)) + mset (rr_closed r) + mset (callClients (rr_calls r ! i))) =
      (mset (map snd (rr_clients r')) + mset (rr_closed r') + ?h') + (mset (map snd (rr_clients r)) + mset (rr_closed r) + mset (callClients (rr_calls r ! i)))"
    using bal c unfolding e by (simp add: ac_simps)
  then have "mset (map snd (rr_created r')) = mset (map snd (rr_clients r')) + mset (rr_closed r') + ?h'"
    by (rule add_right_imp_eq)
  moreover have "list_all (call_ok r') (rr_calls r')"
  proof -
    have "list_all (call_ok r') (rr_calls r)"
      using inv call_ok_grows [OF _ grow] unfolding runner_inv_def list_all_iff by blast
    then show ?thesis using ok set_update_subset_insert [of "rr_calls r" i pc] unfolding calls list_all_iff by blast
  qed
  moreover have "\<forall>cs. rr_shut r' = Some cs \<longrightarrow> distinct cs \<and> set cs \<subseteq> snd ` set (rr_clients r')"
    using inv shut unfolding runner_inv_def by (metis image_mono subset_trans)
  ultimately show ?thesis using num keys sub calls unfolding runner_inv_def by simp
qed

lemma clientForAddr_inv:
  assumes inv: "runner_inv r" and i: "i < length (rr_calls r)" and s: "clientForAddr dialErr i r = Some r'"
  shows "runner_inv r'"
proof -
  have base: "map snd (rr_created r) = [0 ..< length (rr_created r)]" "distinct (map fst (rr_clients r))"
    "set (rr_clients r) \<subseteq> set (rr_created r)" and okc: "call_ok r (rr_calls r ! i)"
    using inv i unfolding runner_inv_def list_all_length by blast+
  show ?thesis
  proof (cases "rr_calls r ! i")
    case (CallLook addr)
    show ?thesis
    proof (cases "map_of (rr_clients r) addr")
      case None
      then have "r' = set_call i (CallDial addr) r" using s CallLook by (simp add: clientForAddr_def)
      then show ?thesis using base CallLook by (intro runner_inv_step [OF inv i]) (auto simp: set_call_def callClients_def call_ok_def)
    next
      case (Some c)
      then have "r' = set_call i (CallDone addr (Inr c)) r" using s CallLook by (simp add: clientForAddr_def)
      then show ?thesis using base CallLook Some by (intro runner_inv_step [OF inv i]) (auto simp: set_call_def callClients_def call_ok_def)
    qed
  next
    case (CallDial addr)
    show ?thesis
    proof (cases dialErr)
      case (Some e)
      then have "r' = set_call i (CallDone addr (Inl e)) r" using s CallDial by (simp add: clientForAddr_def)
      then show ?thesis using base CallDial by (intro runner_inv_step [OF inv i]) (auto simp: set_call_def callClients_def call_ok_def)
    next
      case None
      let ?c = "length (rr_created r)"
      have "r' = set_call i (CallInsert addr ?c) (r\<lparr>rr_created := rr_created r @ [(addr, ?c)]\<rparr>)"
        using s CallDial None by (simp add: clientForAddr_def Let_def)
      then show ?thesis using base CallDial by (intro runner_inv_step [OF inv i]) (auto simp: set_call_def callClients_def call_ok_def)
    qed
  next
    case (CallInsert addr c)
    have cr: "(addr, c) \<in> set (rr_created r)" using okc CallInsert by (simp add: call_ok_def)
    show ?thesis
    proof (cases "map_of (rr_clients r) addr")
      case None
      then have r': "r' = set_call i (CallDone addr (Inr c)) (r\<lparr>rr_clients := rr_clients r @ [(addr, c)]\<rparr>)"
        using s CallInsert by (simp add: clientForAddr_def update_absent)
      have "addr \<notin> fst ` set (rr_clients r)" using None by (simp add: map_of_eq_None_iff)
      then show ?thesis using base CallInsert cr None
        by (intro runner_inv_step [OF inv i]) (auto simp: r' set_call_def callClients_def call_ok_def map_add_def split: option.splits)
    next
      case (Some existing)
      then have "r' = set_call i (CallClose addr c existing) r" using s CallInsert by (simp add: clientForAddr_def)
      then show ?thesis using base CallInsert Some by (intro runner_inv_step [OF inv i]) (auto simp: set_call_def callClients_def call_ok_def)
    qed
  next
    case (CallClose addr c existing)
    then have "r' = set_call i (CallDone addr (Inr existing)) (r\<lparr>rr_closed := rr_closed r @ [c]\<rparr>)" using s by (simp add: clientForAddr_def)
    then show ?thesis using base CallClose okc by (intro runner_inv_step [OF inv i]) (auto simp: set_call_def callClients_def call_ok_def)
  qed (use s in \<open>simp add: clientForAddr_def\<close>)
qed

lemma getClient_inv: "runner_inv r \<Longrightarrow> runner_inv (getClient req r)"
  by (auto simp: runner_inv_def getClient_def Let_def callClients_def call_ok_def list_all_iff simp del: mset_map split: call_pc.splits sum.splits)

lemma runner_inv_distinct:
  assumes "runner_inv r"
  shows "distinct (map snd (rr_clients r) @ rr_closed r @ concat (map callClients (rr_calls r)))"
proof -
  have bal: "mset (map snd (rr_created r)) = mset (map snd (rr_clients r) @ rr_closed r @ concat (map callClients (rr_calls r)))"
    using assms unfolding runner_inv_def mset_append add.assoc by blast
  have "distinct (map snd (rr_created r))" using assms unfolding runner_inv_def by (metis distinct_upt)
  then show ?thesis using mset_eq_imp_distinct_iff [OF bal] by blast
qed

lemma runner_Close_inv: "runner_inv r \<Longrightarrow> runner_inv (fst (runner_Close closeErr r))"
  using runner_inv_distinct [of r]
  by (auto simp: runner_inv_def runner_Close_def Let_def call_ok_def list_all_iff simp del: mset_map split: call_pc.splits sum.splits)

interpretation clients: ts_invariant runner_start runner_step runner_inv
  by unfold_locales (auto simp: runner_inv_new runner_step_def getClient_inv runner_Close_inv
      split: runner_event.split_asm if_split_asm intro: clientForAddr_inv)

text \<open>All clients that have been closed: those that came too late and, after \<^verbatim>\<open>Close\<close>, those it closed.\<close>

definition closedClients :: "realBuildRunner \<Rightarrow> nat list" where
  "closedClients r = rr_closed r @ (case rr_shut r of None \<Rightarrow> [] | Some cs \<Rightarrow> cs)"

section \<open>Properties\<close>


text \<open>Two builds that dial the same worker at once.\<close>

definition demoTLS :: TLSConfig where
  "demoTLS = \<lparr>tls_CACert = '''', tls_Cert = '''', tls_Key = '''', tls_Dir = '''', tls_ServerName = ''''\<rparr>"

definition demoRunner :: realBuildRunner where
  "demoRunner = \<lparr>rr_tls = demoTLS, rr_clients = [], rr_created = [], rr_closed = [], rr_shut = None, rr_calls = []\<rparr>"

definition demoCalls :: "realBuildRunner option" where
  "demoCalls = (let req = \<lparr>br_ContextDir = ''c'', br_BuildkitAddr = ''tcp://w:1'', br_Image = ''i'', br_Format = ''oci'', br_Target = '''',
       br_NoCache = False, br_BuildArgs = []\<rparr> in
     runs runner_step [Call req, Call req, CallStep None 0, CallStep None 1, CallStep None 0, CallStep None 1, CallStep None 0, CallStep None 1,
       CallStep None 1] demoRunner)"

lemma demoCalls_result:
  "demoCalls = Some (demoRunner\<lparr>rr_clients := [(''tcp://w:1'', 0)], rr_created := [(''tcp://w:1'', 0), (''tcp://w:1'', 1)], rr_closed := [1],
     rr_calls := [CallDone ''tcp://w:1'' (Inr 0), CallDone ''tcp://w:1'' (Inr 0)]\<rparr>)"
  by code_simp

lemma demoRunner_start: "runner_start demoRunner"
  by (auto simp: runner_start_def newRealBuildRunner_def resolveTLSConfig_def demoRunner_def demoTLS_def intro!: exI [of _ demoTLS])


text \<open>
  \<^verbatim>\<open>Close\<close> does not empty the cache: a build that is still under way and asks for its worker's client after \<^verbatim>\<open>Close\<close>
  gets a closed one.
\<close>

lemma closed_client_returned:
  "\<exists>r c. reach runner_start runner_step r \<and> CallDone ''tcp://w:1'' (Inr c) = last (rr_calls r) \<and> c \<in> set (closedClients r)"
proof -
  let ?req = "\<lparr>br_ContextDir = ''c'', br_BuildkitAddr = ''tcp://w:1'', br_Image = ''i'', br_Format = ''oci'', br_Target = '''',
       br_NoCache = False, br_BuildArgs = []\<rparr>"
  let ?evs = "[Call ?req, CallStep None 0, CallStep None 0, CallStep None 0, CloseRunner (\<lambda>_. None), Call ?req, CallStep None 1]"
  have e: "map_option (\<lambda>r. (last (rr_calls r), closedClients r)) (runs runner_step ?evs demoRunner) = Some (CallDone ''tcp://w:1'' (Inr 0), [0])"
    by code_simp
  obtain r where r: "runs runner_step ?evs demoRunner = Some r" "last (rr_calls r) = CallDone ''tcp://w:1'' (Inr 0)" "closedClients r = [0]"
  proof (cases "runs runner_step ?evs demoRunner")
    case (Some r)
    show thesis by (rule that [OF Some]) (use e [unfolded Some] in simp_all)
  qed (use e in simp)
  have "reach runner_start runner_step r" by (rule runs_reach [OF r(1) reach_init [of runner_start, OF demoRunner_start]])
  then show ?thesis using r(2,3) by (intro exI [of _ r] exI [of _ 0]) simp
qed

text \<open>
  The log of a build holds an initial part of the lines of its progress, in the order of the reports.
\<close>

lemma status_log_prefix:
  "lw_out (writeSolveStatus encode healthy statuses \<lparr>lw_out = '''', lw_remaining = n\<rparr>) =
   take (nat n) (concat (map (\<lambda>rec. encode rec @ [CHR 0x0A]) (concat (map statusRecords statuses))))"
proof -
  let ?line = "\<lambda>rec. encode rec @ [CHR 0x0A]"
  have "writeSolveStatus encode healthy statuses w = build_log.write_all (map ?line (concat (map statusRecords statuses))) w" for w
  proof (induction statuses arbitrary: w)
    case (Cons st sts)
    have "foldl (\<lambda>w rec. fst (logWrite healthy (?line rec) w)) w recs = build_log.write_all (map ?line recs) w" for recs w
      by (induction recs arbitrary: w) (simp_all add: build_log.write_all_def)
    moreover have "build_log.write_all (xs @ ys) w = build_log.write_all ys (build_log.write_all xs w)" for xs ys w
      by (simp add: build_log.write_all_def)
    moreover have "writeSolveStatus encode healthy (st # sts) w =
        writeSolveStatus encode healthy sts (foldl (\<lambda>w rec. fst (logWrite healthy (?line rec) w)) w (statusRecords st))"
      by (simp add: writeSolveStatus_def)
    ultimately show ?case using Cons by simp
  qed (simp add: writeSolveStatus_def build_log.write_all_def)
  then show ?thesis using build_log.write_all_contents [of "map ?line (concat (map statusRecords statuses))"] by simp
qed

end
