(* ===== verification/Failure_Log.thy ===== *)
theory Failure_Log
  imports Build_Steps "HOL-Library.Sublist"
begin

text \<open>
  The failure log of the batch builder, \<^verbatim>\<open>internal/buildbatch/failure_log_store.go\<close>: one JSON line per
  failed build in a file of bounded size. The file is its content. \<^verbatim>\<open>encoding/json\<close> is a parameter, as
  are the errors of the file system. The limit \<^verbatim>\<open>maxFailureLogFileSize\<close> is an argument.
\<close>

section \<open>Entries and lines\<close>

definition maxFailureLogFileSize :: nat where
  "maxFailureLogFileSize = 2 ^ 30"

definition lineEnd :: char where
  "lineEnd = CHR 0x0A"

definition truncatedFailureLogSuffix :: string where
  "truncatedFailureLogSuffix = [lineEnd] @ ''...[truncated to fit logs file limit]'' @ [lineEnd]"

record failureLogEntry =
  fl_Target :: string
  fl_Success :: bool
  fl_Logs :: string

record failureLogStore =
  fs_path :: string

definition newFailureLogStore :: "string \<Rightarrow> failureLogStore option" where
  "newFailureLogStore path = (if trimSpace path = '''' then None else Some \<lparr>fs_path = path\<rparr>)"

record json_lib =
  jl_Marshal :: "failureLogEntry \<Rightarrow> string result"
  jl_Unmarshal :: "string \<Rightarrow> failureLogEntry result"

section \<open>Truncation of a log that does not fit\<close>

definition failureEntry :: "string \<Rightarrow> string \<Rightarrow> failureLogEntry" where
  "failureEntry target logs = \<lparr>fl_Target = target, fl_Success = False, fl_Logs = logs\<rparr>"

function truncateSearch ::
    "json_lib \<Rightarrow> nat \<Rightarrow> string \<Rightarrow> string \<Rightarrow> int \<Rightarrow> int \<Rightarrow> string \<Rightarrow> string result" where
  "truncateSearch lib limit target logs low high best =
     (if low \<le> high then
        (let mid = low + (high - low) div 2;
             candidate = take (nat mid) logs @ truncatedFailureLogSuffix in
         case jl_Marshal lib (failureEntry target candidate) of
           Inl e \<Rightarrow> Inl e
         | Inr payload \<Rightarrow>
             if length payload + 1 \<le> limit then truncateSearch lib limit target logs (mid + 1) high candidate
             else truncateSearch lib limit target logs low (mid - 1) best)
      else Inr best)"
  by pat_completeness auto
termination
  by (relation "measure (\<lambda>(lib, limit, target, logs, low, high, best). nat (high - low + 1))") auto

declare truncateSearch.simps [simp del]

definition truncateFailureLogPayload :: "json_lib \<Rightarrow> nat \<Rightarrow> string \<Rightarrow> string \<Rightarrow> string result" where
  "truncateFailureLogPayload lib limit target logs =
     (case truncateSearch lib limit target logs 0 (int (length logs)) '''' of
        Inl e \<Rightarrow> Inl e
      | Inr best \<Rightarrow>
          if best \<noteq> '''' then Inr best
          else case jl_Marshal lib (failureEntry target truncatedFailureLogSuffix) of
            Inl e \<Rightarrow> Inl e
          | Inr payload \<Rightarrow>
              if limit < length payload + 1 then
                Inl (Errorf (''failure log metadata for '' @ target @ '' exceeds maximum file size''))
              else Inr truncatedFailureLogSuffix)"

definition marshalFailureLogLine :: "json_lib \<Rightarrow> nat \<Rightarrow> failureLogEntry \<Rightarrow> string result" where
  "marshalFailureLogLine lib limit entry = (case jl_Marshal lib entry of
      Inl e \<Rightarrow> Inl e
    | Inr payload \<Rightarrow>
        if length payload + 1 \<le> limit then Inr (payload @ [lineEnd])
        else case truncateFailureLogPayload lib limit (fl_Target entry) (fl_Logs entry) of
          Inl e \<Rightarrow> Inl e
        | Inr truncatedLogs \<Rightarrow>
            (case jl_Marshal lib (entry\<lparr>fl_Logs := truncatedLogs\<rparr>) of
               Inl e \<Rightarrow> Inl e
             | Inr payload2 \<Rightarrow>
                 if limit < length payload2 + 1 then
                   Inl (Errorf (''failure log for '' @ fl_Target entry @ '' exceeds maximum file size''))
                 else Inr (payload2 @ [lineEnd])))"

section \<open>The file\<close>

text \<open>
  The errors of the calls of one append, in their order; a failed write leaves the bytes it wrote.
\<close>

record log_io =
  li_mkdir :: "go_error option"
  li_open :: "go_error option"
  li_write :: "(nat \<times> go_error) option"
  li_sync :: "go_error option"
  li_stat :: "go_error option"
  li_trimOpen :: "go_error option"
  li_seek :: "go_error option"
  li_read :: "go_error option"
  li_seekKeep :: "go_error option"
  li_temp :: "go_error option"
  li_rename :: "go_error option"

definition ioOK :: log_io where
  "ioOK = \<lparr>li_mkdir = None, li_open = None, li_write = None, li_sync = None, li_stat = None, li_trimOpen = None,
     li_seek = None, li_read = None, li_seekKeep = None, li_temp = None, li_rename = None\<rparr>"

definition appendFailureLogLine :: "log_io \<Rightarrow> string option \<Rightarrow> string \<Rightarrow> string option \<times> nat result" where
  "appendFailureLogLine io file payload = (case li_open io of
      Some e \<Rightarrow> (file, Inl e)
    | None \<Rightarrow>
        (let old = (case file of None \<Rightarrow> '''' | Some c \<Rightarrow> c) in
         case li_write io of
           Some (n, e) \<Rightarrow> (Some (old @ take n payload), Inl e)
         | None \<Rightarrow>
             (let new = old @ payload in
              (Some new, case li_sync io of
                 Some e \<Rightarrow> Inl e
               | None \<Rightarrow> (case li_stat io of Some e \<Rightarrow> Inl e | None \<Rightarrow> Inr (length new))))))"

text \<open>
  \<^verbatim>\<open>findFailureLogKeepOffset\<close>: the reader stops behind the first line end at or after \<open>trimBytes\<close>; without
  one it reaches the end of the file.
\<close>

definition findFailureLogKeepOffset :: "log_io \<Rightarrow> string \<Rightarrow> int \<Rightarrow> nat \<Rightarrow> nat result" where
  "findFailureLogKeepOffset io content trimBytes currentSize =
     (if trimBytes \<le> 0 then Inr 0
      else case li_seek io of
        Some e \<Rightarrow> Inl e
      | None \<Rightarrow>
          (let rest = drop (nat trimBytes) content; discarded = takeWhile (\<lambda>c. c \<noteq> lineEnd) rest in
           if lineEnd \<in> set rest then Inr (nat trimBytes + length discarded + 1)
           else case li_read io of Some e \<Rightarrow> Inl e | None \<Rightarrow> Inr currentSize))"

text \<open>
  \<^verbatim>\<open>trimFailureLogFile\<close>: the kept bytes are copied to a temporary file that replaces the log; \<open>li_temp\<close> is
  the first error of the temporary file, which leaves the log as it is.
\<close>

definition trimFailureLogFile :: "log_io \<Rightarrow> nat \<Rightarrow> string \<Rightarrow> nat \<Rightarrow> string \<times> go_error option" where
  "trimFailureLogFile io limit content currentSize =
     (if currentSize \<le> limit then (content, None)
      else case li_trimOpen io of
        Some e \<Rightarrow> (content, Some e)
      | None \<Rightarrow>
          (case findFailureLogKeepOffset io content (int currentSize - int limit) currentSize of
             Inl e \<Rightarrow> (content, Some e)
           | Inr keepOffset \<Rightarrow>
               (case li_seekKeep io of
                  Some e \<Rightarrow> (content, Some e)
                | None \<Rightarrow>
                    (case li_temp io of
                       Some e \<Rightarrow> (content, Some e)
                     | None \<Rightarrow>
                         (case li_rename io of
                            Some e \<Rightarrow> (content, Some e)
                          | None \<Rightarrow> (drop keepOffset content, None))))))"

definition AppendFailure ::
    "json_lib \<Rightarrow> nat \<Rightarrow> log_io \<Rightarrow> failureLogStore option \<Rightarrow> string \<Rightarrow> string \<Rightarrow> string option \<Rightarrow> string option \<times> go_error option" where
  "AppendFailure lib limit io store target logs file =
     (if store = None \<or> trimSpace target = '''' \<or> logs = '''' then (file, None)
      else case li_mkdir io of
        Some e \<Rightarrow> (file, Some e)
      | None \<Rightarrow>
          (case marshalFailureLogLine lib limit (failureEntry target logs) of
             Inl e \<Rightarrow> (file, Some e)
           | Inr payload \<Rightarrow>
               (case appendFailureLogLine io file payload of
                  (file', Inl e) \<Rightarrow> (file', Some e)
                | (file', Inr currentSize) \<Rightarrow>
                    if currentSize \<le> limit then (file', None)
                    else (case file' of
                            None \<Rightarrow> (None, None)
                          | Some content \<Rightarrow>
                              (case trimFailureLogFile io limit content currentSize of
                                 (content', err) \<Rightarrow> (Some content', err))))))"

section \<open>Reading the log back\<close>

definition loadLine ::
    "json_lib \<Rightarrow> string list option \<Rightarrow> string \<Rightarrow> (string \<times> string) list \<Rightarrow> (string \<times> string) list result" where
  "loadLine lib targets line acc =
     (if trimSpace line = '''' then Inr acc
      else case jl_Unmarshal lib (trimSpace line) of
        Inl e \<Rightarrow> Inl e
      | Inr entry \<Rightarrow>
          Inr (if \<not> fl_Success entry \<and> (case targets of None \<Rightarrow> True | Some ts \<Rightarrow> fl_Target entry \<in> set ts)
               then AList.update (fl_Target entry) (fl_Logs entry) acc else acc))"

text \<open>The loop over the lines; \<open>readErr\<close> is what the reader returns at the end of the data instead of EOF.\<close>

function loadLines ::
    "json_lib \<Rightarrow> string list option \<Rightarrow> go_error option \<Rightarrow> string \<Rightarrow> (string \<times> string) list \<Rightarrow> (string \<times> string) list result" where
  "loadLines lib targets readErr data acc =
     (if lineEnd \<in> set data then
        (case loadLine lib targets (takeWhile (\<lambda>c. c \<noteq> lineEnd) data @ [lineEnd]) acc of
           Inl e \<Rightarrow> Inl e
         | Inr acc' \<Rightarrow> loadLines lib targets readErr (tl (dropWhile (\<lambda>c. c \<noteq> lineEnd) data)) acc')
      else case loadLine lib targets data acc of
        Inl e \<Rightarrow> Inl e
      | Inr acc' \<Rightarrow> (case readErr of None \<Rightarrow> Inr acc' | Some e \<Rightarrow> Inl e))"
  by pat_completeness auto
termination
proof (relation "measure (\<lambda>(lib, targets, readErr, data, acc). length data)")
  fix data :: string assume "lineEnd \<in> set data"
  then have "data \<noteq> []" by auto
  then show "((lib, targets, readErr, tl (dropWhile (\<lambda>c. c \<noteq> lineEnd) data), x), lib, targets, readErr, data, acc)
      \<in> measure (\<lambda>(lib, targets, readErr, data, acc). length data)" for lib targets readErr x acc
    using length_dropWhile_le [of "\<lambda>c. c \<noteq> lineEnd" data] by (cases data) (auto simp: less_Suc_eq_le)
qed simp

declare loadLines.simps [simp del]

definition loadLatestFailureLogs ::
    "json_lib \<Rightarrow> string result \<Rightarrow> string option result \<Rightarrow> go_error option \<Rightarrow> string list option \<Rightarrow> (string \<times> string) list result" where
  "loadLatestFailureLogs lib resolved file readErr targets = (case resolved of
      Inl e \<Rightarrow> Inl e
    | Inr path \<Rightarrow>
        if path = '''' then Inr []
        else case file of
          Inl e \<Rightarrow> Inl e
        | Inr None \<Rightarrow> Inr []
        | Inr (Some content) \<Rightarrow> loadLines lib targets readErr content [])"

section \<open>The binary search\<close>

lemma failureEntry_simps [simp]:
  "fl_Target (failureEntry target logs) = target" "fl_Success (failureEntry target logs) = False"
  "fl_Logs (failureEntry target logs) = logs"
  "(failureEntry target logs)\<lparr>fl_Logs := logs'\<rparr> = failureEntry target logs'"
  by (simp_all add: failureEntry_def)

definition fitsAt :: "json_lib \<Rightarrow> nat \<Rightarrow> string \<Rightarrow> string \<Rightarrow> nat \<Rightarrow> bool" where
  "fitsAt lib limit target logs m =
     (case jl_Marshal lib (failureEntry target (take m logs @ truncatedFailureLogSuffix)) of
        Inr payload \<Rightarrow> length payload + 1 \<le> limit | Inl _ \<Rightarrow> False)"

lemma truncateSearch_fits:
  assumes "truncateSearch lib limit target logs low high best = Inr r"
    and "best = '''' \<or> (\<exists>m. best = take m logs @ truncatedFailureLogSuffix \<and> fitsAt lib limit target logs m)"
  shows "r = '''' \<or> (\<exists>m. r = take m logs @ truncatedFailureLogSuffix \<and> fitsAt lib limit target logs m)"
  using assms
proof (induction lib limit target logs low high best rule: truncateSearch.induct)
  case (1 lib limit target logs low high best)
  let ?mid = "low + (high - low) div 2" let ?c = "take (nat ?mid) logs @ truncatedFailureLogSuffix"
  show ?case
  proof (cases "low \<le> high")
    case True
    with "1.prems"(1) obtain p where p: "jl_Marshal lib (failureEntry target ?c) = Inr p"
      by (cases "jl_Marshal lib (failureEntry target ?c)") (auto simp: truncateSearch.simps [of lib limit target logs low high] Let_def)
    show ?thesis
    proof (cases "length p + 1 \<le> limit")
      case fits: True
      have "fitsAt lib limit target logs (nat ?mid)" using p fits by (simp add: fitsAt_def)
      moreover have "truncateSearch lib limit target logs (?mid + 1) high ?c = Inr r"
        using "1.prems"(1) True p fits by (simp add: truncateSearch.simps [of lib limit target logs low high] Let_def)
      ultimately show ?thesis using "1.IH"(1) [OF True refl refl p fits] by blast
    next
      case False
      then have "truncateSearch lib limit target logs low (?mid - 1) best = Inr r"
        using "1.prems"(1) True p by (simp add: truncateSearch.simps [of lib limit target logs low high] Let_def)
      then show ?thesis using "1.IH"(2) [OF True refl refl p False] "1.prems"(2) by blast
    qed
  qed (use "1.prems" in \<open>simp add: truncateSearch.simps [of lib limit target logs low high]\<close>)
qed

lemma truncate_fits:
  assumes "truncateFailureLogPayload lib limit target logs = Inr r"
  shows "\<exists>m. r = take m logs @ truncatedFailureLogSuffix \<and> fitsAt lib limit target logs m"
proof -
  obtain best where b: "truncateSearch lib limit target logs 0 (int (length logs)) '''' = Inr best"
    using assms by (cases "truncateSearch lib limit target logs 0 (int (length logs)) ''''")
      (auto simp: truncateFailureLogPayload_def)
  show ?thesis
  proof (cases "best = ''''")
    case False
    then have "r = best" using assms b by (simp add: truncateFailureLogPayload_def)
    with False truncateSearch_fits [OF b] show ?thesis by blast
  next
    case True
    then obtain p where p: "jl_Marshal lib (failureEntry target truncatedFailureLogSuffix) = Inr p"
      using assms b by (cases "jl_Marshal lib (failureEntry target truncatedFailureLogSuffix)")
        (auto simp: truncateFailureLogPayload_def)
    with assms b True have "r = truncatedFailureLogSuffix" "length p + 1 \<le> limit"
      by (auto simp: truncateFailureLogPayload_def split: if_split_asm)
    with p show ?thesis by (intro exI [of _ 0]) (simp add: fitsAt_def)
  qed
qed

text \<open>
  A JSON encoder whose output does not shrink when the log grows, and does not fail, as
  \<^verbatim>\<open>encoding/json\<close> on ASCII text.
\<close>

definition marshalGrows :: "json_lib \<Rightarrow> string \<Rightarrow> string \<Rightarrow> bool" where
  "marshalGrows lib target logs \<longleftrightarrow> (\<forall>i j. i \<le> j \<longrightarrow> j \<le> length logs \<longrightarrow>
     (\<exists>p q. jl_Marshal lib (failureEntry target (take i logs @ truncatedFailureLogSuffix)) = Inr p \<and>
        jl_Marshal lib (failureEntry target (take j logs @ truncatedFailureLogSuffix)) = Inr q \<and> length p \<le> length q))"

text \<open>The longest prefix that fits, by trying every length from the longest on.\<close>

definition longestFit :: "json_lib \<Rightarrow> nat \<Rightarrow> string \<Rightarrow> string \<Rightarrow> nat option" where
  "longestFit lib limit target logs = find (fitsAt lib limit target logs) (rev [0..<Suc (length logs)])"

lemma find_rev_upt:
  "find P (rev [0..<Suc n]) = Some m \<longleftrightarrow> m \<le> n \<and> P m \<and> (\<forall>j. m < j \<and> j \<le> n \<longrightarrow> \<not> P j)"
  "find P (rev [0..<Suc n]) = None \<longleftrightarrow> (\<forall>j \<le> n. \<not> P j)"
proof (induction n)
  case (Suc n)
  { case 1 show ?case using Suc(1) by (auto simp: le_Suc_eq) }
  { case 2 show ?case using Suc(2) by (auto simp: le_Suc_eq) }
qed auto

lemma marshalGrows_ok:
  assumes "marshalGrows lib target logs" "m \<le> length logs"
  obtains p where "jl_Marshal lib (failureEntry target (take m logs @ truncatedFailureLogSuffix)) = Inr p"
    "fitsAt lib limit target logs m \<longleftrightarrow> length p + 1 \<le> limit"
proof -
  from assms obtain p where "jl_Marshal lib (failureEntry target (take m logs @ truncatedFailureLogSuffix)) = Inr p"
    unfolding marshalGrows_def by blast
  with that show thesis by (simp add: fitsAt_def)
qed

lemma marshalGrows_down:
  assumes "marshalGrows lib target logs" "fitsAt lib limit target logs j" "i \<le> j" "j \<le> length logs"
  shows "fitsAt lib limit target logs i"
proof -
  from assms(1,3,4) obtain p q where
    "jl_Marshal lib (failureEntry target (take i logs @ truncatedFailureLogSuffix)) = Inr p"
    "jl_Marshal lib (failureEntry target (take j logs @ truncatedFailureLogSuffix)) = Inr q" "length p \<le> length q"
    unfolding marshalGrows_def by blast
  with assms(2) show ?thesis by (simp add: fitsAt_def)
qed

text \<open>Where the search ends, it has found the longest prefix.\<close>

lemma longestFit_at:
  assumes "0 \<le> low" "low - 1 \<le> int (length logs)" "\<And>j. int j < low \<Longrightarrow> fitsAt lib limit target logs j"
    and "\<And>j. low - 1 < int j \<Longrightarrow> j \<le> length logs \<Longrightarrow> \<not> fitsAt lib limit target logs j"
  shows "longestFit lib limit target logs = (if low = 0 then None else Some (nat (low - 1)))"
proof (cases "low = 0")
  case True
  then show ?thesis using assms(4) unfolding longestFit_def by (simp add: find_rev_upt(2) del: upt_Suc)
next
  case False
  then have "fitsAt lib limit target logs (nat (low - 1))" using assms(1,3) by auto
  then show ?thesis
    using False assms unfolding longestFit_def by (auto simp: find_rev_upt(1) simp del: upt_Suc)
qed

lemma truncateSearch_best:
  assumes "marshalGrows lib target logs" "0 \<le> low" "high \<le> int (length logs)" "low \<le> high + 1"
    and "\<And>j. int j < low \<Longrightarrow> fitsAt lib limit target logs j"
    and "\<And>j. high < int j \<Longrightarrow> j \<le> length logs \<Longrightarrow> \<not> fitsAt lib limit target logs j"
    and "best = (if low = 0 then '''' else take (nat (low - 1)) logs @ truncatedFailureLogSuffix)"
  shows "truncateSearch lib limit target logs low high best =
    Inr (case longestFit lib limit target logs of None \<Rightarrow> '''' | Some m \<Rightarrow> take m logs @ truncatedFailureLogSuffix)"
  using assms
proof (induction lib limit target logs low high best rule: truncateSearch.induct)
  case (1 lib limit target logs low high best)
  note grows = "1.prems"(1) and bounds = "1.prems"(2-4) and below = "1.prems"(5) and above = "1.prems"(6)
  let ?mid = "low + (high - low) div 2"
  show ?case
  proof (cases "low \<le> high")
    case True
    have mid: "low \<le> ?mid" "?mid \<le> high" using True by auto
    then have m: "nat ?mid \<le> length logs" "0 \<le> ?mid" using bounds by auto
    obtain p where p: "jl_Marshal lib (failureEntry target (take (nat ?mid) logs @ truncatedFailureLogSuffix)) = Inr p"
      "fitsAt lib limit target logs (nat ?mid) \<longleftrightarrow> length p + 1 \<le> limit"
      using marshalGrows_ok [OF grows m(1)] by metis
    show ?thesis
    proof (cases "length p + 1 \<le> limit")
      case fits: True
      have "fitsAt lib limit target logs j" if "int j < ?mid + 1" for j
        using marshalGrows_down [OF grows _ _ m(1), of limit j] p(2) fits that by simp
      then have "truncateSearch lib limit target logs (?mid + 1) high (take (nat ?mid) logs @ truncatedFailureLogSuffix) =
          Inr (case longestFit lib limit target logs of None \<Rightarrow> '''' | Some m \<Rightarrow> take m logs @ truncatedFailureLogSuffix)"
        using "1.IH"(1) [OF True refl refl p(1) fits grows _ bounds(2) _ _ above] mid m by simp
      then show ?thesis
        using True p fits by (simp add: truncateSearch.simps [of lib limit target logs low high] Let_def)
    next
      case False
      have "\<not> fitsAt lib limit target logs j" if "?mid - 1 < int j" "j \<le> length logs" for j
      proof -
        have "nat ?mid \<le> j" using that(1) by linarith
        then show ?thesis using marshalGrows_down [OF grows, of limit j "nat ?mid"] p(2) False that(2) by auto
      qed
      then have "truncateSearch lib limit target logs low (?mid - 1) best =
          Inr (case longestFit lib limit target logs of None \<Rightarrow> '''' | Some m \<Rightarrow> take m logs @ truncatedFailureLogSuffix)"
        using "1.IH"(2) [OF True refl refl p(1) False grows bounds(1) _ _ below _ "1.prems"(7)] mid bounds by simp
      then show ?thesis
        using True p False by (simp add: truncateSearch.simps [of lib limit target logs low high] Let_def)
    qed
  next
    case False
    then have h: "high = low - 1" using bounds by simp
    have "longestFit lib limit target logs = (if low = 0 then None else Some (nat (low - 1)))"
      using bounds below above unfolding h by (intro longestFit_at) auto
    with False "1.prems"(7) show ?thesis
      by (simp add: truncateSearch.simps [of lib limit target logs low high])
  qed
qed

lemma truncate_longest_eq:
  assumes "marshalGrows lib target logs"
  shows "truncateFailureLogPayload lib limit target logs = (case longestFit lib limit target logs of
      Some m \<Rightarrow> Inr (take m logs @ truncatedFailureLogSuffix)
    | None \<Rightarrow> Inl (Errorf (''failure log metadata for '' @ target @ '' exceeds maximum file size'')))"
proof -
  have s: "truncateSearch lib limit target logs 0 (int (length logs)) '''' =
    Inr (case longestFit lib limit target logs of None \<Rightarrow> '''' | Some m \<Rightarrow> take m logs @ truncatedFailureLogSuffix)"
    by (rule truncateSearch_best [OF assms]) auto
  show ?thesis
  proof (cases "longestFit lib limit target logs")
    case None
    then have "\<not> fitsAt lib limit target logs 0" unfolding longestFit_def find_rev_upt(2) by blast
    moreover obtain p where "jl_Marshal lib (failureEntry target (take 0 logs @ truncatedFailureLogSuffix)) = Inr p"
      "fitsAt lib limit target logs 0 \<longleftrightarrow> length p + 1 \<le> limit"
      using marshalGrows_ok [OF assms, of 0] by blast
    ultimately show ?thesis using None s by (simp add: truncateFailureLogPayload_def)
  qed (simp add: truncateFailureLogPayload_def s truncatedFailureLogSuffix_def)
qed

lemma marshal_line:
  assumes "marshalFailureLogLine lib limit (failureEntry target logs) = Inr line"
  shows "length line \<le> limit \<and> (\<exists>logs' p. jl_Marshal lib (failureEntry target logs') = Inr p \<and> line = p @ [lineEnd] \<and>
    (logs' = logs \<or> (\<exists>m. logs' = take m logs @ truncatedFailureLogSuffix)))"
proof -
  obtain p where p: "jl_Marshal lib (failureEntry target logs) = Inr p"
    using assms by (cases "jl_Marshal lib (failureEntry target logs)") (auto simp: marshalFailureLogLine_def)
  show ?thesis
  proof (cases "length p + 1 \<le> limit")
    case True
    with assms p show ?thesis by (auto simp: marshalFailureLogLine_def)
  next
    case False
    obtain t where t: "truncateFailureLogPayload lib limit target logs = Inr t"
      using assms p False by (cases "truncateFailureLogPayload lib limit target logs")
        (auto simp: marshalFailureLogLine_def)
    obtain q where q: "jl_Marshal lib (failureEntry target t) = Inr q" "line = q @ [lineEnd]" "length q + 1 \<le> limit"
      using assms p False t by (cases "jl_Marshal lib (failureEntry target t)")
        (auto simp: marshalFailureLogLine_def split: if_split_asm)
    with truncate_fits [OF t] show ?thesis by auto
  qed
qed

section \<open>The log as a list of entries\<close>

text \<open>
  What is relied on of the JSON library for the entries in \<open>ok\<close>: a line holds no line end and no space
  around it, and decodes to the entry it encodes.
\<close>

definition json_codec :: "json_lib \<Rightarrow> (failureLogEntry \<Rightarrow> bool) \<Rightarrow> bool" where
  "json_codec lib ok \<longleftrightarrow> (\<forall>e p. ok e \<longrightarrow> jl_Marshal lib e = Inr p \<longrightarrow>
     lineEnd \<notin> set p \<and> trimSpace (p @ [lineEnd]) = p \<and> p \<noteq> '''' \<and> jl_Unmarshal lib p = Inr e)"

inductive log_of :: "json_lib \<Rightarrow> (failureLogEntry \<Rightarrow> bool) \<Rightarrow> failureLogEntry list \<Rightarrow> string \<Rightarrow> bool" for lib ok where
  log_empty: "log_of lib ok [] ''''"
| log_line: "ok e \<Longrightarrow> jl_Marshal lib e = Inr p \<Longrightarrow> log_of lib ok es c \<Longrightarrow> log_of lib ok (e # es) (p @ [lineEnd] @ c)"

definition latest :: "string list option \<Rightarrow> failureLogEntry list \<Rightarrow> (string \<times> string) list \<Rightarrow> (string \<times> string) list" where
  "latest targets es acc = foldl (\<lambda>acc e.
     if \<not> fl_Success e \<and> (case targets of None \<Rightarrow> True | Some ts \<Rightarrow> fl_Target e \<in> set ts)
     then AList.update (fl_Target e) (fl_Logs e) acc else acc) acc es"

lemma log_of_append:
  "log_of lib ok es c \<Longrightarrow> ok e \<Longrightarrow> jl_Marshal lib e = Inr p \<Longrightarrow> log_of lib ok (es @ [e]) (c @ p @ [lineEnd])"
  by (induction rule: log_of.induct) (auto intro: log_of.intros dest: log_line [where c = "''''", OF _ _ log_empty] log_line)

lemma takeWhile_line: "lineEnd \<notin> set p \<Longrightarrow> takeWhile (\<lambda>c. c \<noteq> lineEnd) (p @ lineEnd # c) = p"
  by (induction p) auto

lemma dropWhile_line: "lineEnd \<notin> set p \<Longrightarrow> dropWhile (\<lambda>c. c \<noteq> lineEnd) (p @ lineEnd # c) = lineEnd # c"
  by (induction p) auto

lemma load_log:
  assumes "log_of lib ok es c" "json_codec lib ok"
  shows "loadLines lib targets None c acc = Inr (latest targets es acc)"
  using assms
proof (induction arbitrary: acc rule: log_of.induct)
  case log_empty
  then show ?case by (simp add: loadLines.simps [of lib targets None "[]"] loadLine_def latest_def trimSpace_def
        trimLeftFunc_def trimRightFunc_def)
next
  case (log_line e p es c)
  then have p: "lineEnd \<notin> set p" "trimSpace (p @ [lineEnd]) = p" "p \<noteq> ''''" "jl_Unmarshal lib p = Inr e"
    by (auto simp: json_codec_def)
  then have "loadLine lib targets (p @ [lineEnd]) acc = Inr (latest targets [e] acc)"
    by (simp add: loadLine_def latest_def)
  moreover have "latest targets (e # es) acc = latest targets es (latest targets [e] acc)"
    by (simp add: latest_def)
  ultimately show ?case
    using log_line.IH [OF log_line.prems] p(1)
    by (subst loadLines.simps) (simp add: takeWhile_line dropWhile_line)
qed

text \<open>Cutting behind the first line end at or after a position leaves whole lines.\<close>

lemma keep_lines:
  assumes "log_of lib ok es c" "json_codec lib ok" "lineEnd \<in> set (drop n c)"
  shows "\<exists>es'. suffix es' es \<and> es' \<noteq> es \<and>
    log_of lib ok es' (drop (n + length (takeWhile (\<lambda>c. c \<noteq> lineEnd) (drop n c)) + 1) c)"
  using assms
proof (induction arbitrary: n rule: log_of.induct)
  case (log_line e p es c)
  then have p: "lineEnd \<notin> set p" by (auto simp: json_codec_def)
  show ?case
  proof (cases "n \<le> length p")
    case True
    have "lineEnd \<notin> set (drop n p)" using p by (auto dest: in_set_dropD)
    then have "takeWhile (\<lambda>c. c \<noteq> lineEnd) (drop n (p @ [lineEnd] @ c)) = drop n p"
      using True by (simp add: takeWhile_line)
    then show ?thesis using True log_line.hyps(3) by (intro exI [of _ es]) (auto simp: suffix_def)
  next
    case False
    define k where "k = n - length p - 1"
    then have k: "n = length p + 1 + k" using False by simp
    then have d: "drop n (p @ [lineEnd] @ c) = drop k c" by simp
    have "lineEnd \<in> set (drop k c)" using log_line.prems(2) unfolding d .
    from log_line.IH [OF log_line.prems(1) this] obtain es' where es': "suffix es' es" "es' \<noteq> es"
      "log_of lib ok es' (drop (k + length (takeWhile (\<lambda>c. c \<noteq> lineEnd) (drop k c)) + 1) c)" by blast
    have "drop (n + length (takeWhile (\<lambda>c. c \<noteq> lineEnd) (drop n (p @ [lineEnd] @ c))) + 1) (p @ [lineEnd] @ c) =
        drop (k + length (takeWhile (\<lambda>c. c \<noteq> lineEnd) (drop k c)) + 1) c"
      unfolding d by (simp add: k)
    moreover have "suffix es' (e # es)" "es' \<noteq> e # es"
      using es'(1) by (auto intro: suffix_ConsI dest: suffix_length_le)
    ultimately show ?thesis using es'(3) by metis
  qed
qed simp

lemma trim_lines:
  assumes "log_of lib ok es c" "json_codec lib ok" "limit < length c"
  shows "\<exists>es' c'. trimFailureLogFile ioOK limit c (length c) = (c', None) \<and> suffix es' es \<and>
    log_of lib ok es' c' \<and> length c' < limit + 1"
proof (cases "lineEnd \<in> set (drop (length c - limit) c)")
  case True
  let ?k = "length c - limit + length (takeWhile (\<lambda>c. c \<noteq> lineEnd) (drop (length c - limit) c)) + 1"
  have n: "nat (int (length c) - int limit) = length c - limit" by simp
  have "trimFailureLogFile ioOK limit c (length c) = (drop ?k c, None)"
    using True assms(3) by (simp add: trimFailureLogFile_def findFailureLogKeepOffset_def ioOK_def n Let_def)
  moreover have "length (drop ?k c) < limit + 1" using assms(3) by simp
  ultimately show ?thesis using keep_lines [OF assms(1,2) True] by auto
next
  case False
  then have "trimFailureLogFile ioOK limit c (length c) = ('''', None)"
    using assms(3) by (simp add: trimFailureLogFile_def findFailureLogKeepOffset_def ioOK_def nat_diff_distrib' Let_def)
  then show ?thesis by (auto intro!: exI [of _ "[]"] log_empty)
qed

lemma latest_target:
  "\<not> fl_Success e \<Longrightarrow> targets = None \<or> fl_Target e \<in> set (the targets) \<Longrightarrow>
   map_of (latest targets (es @ [e]) acc) (fl_Target e) = Some (fl_Logs e)"
  by (cases targets) (auto simp: latest_def update_conv')

lemma append_logged:
  assumes codec: "json_codec lib ok" and log: "log_of lib ok es content"
    and ok: "ok (failureEntry target logs)" "\<And>m. ok (failureEntry target (take m logs @ truncatedFailureLogSuffix))"
    and guard: "trimSpace target \<noteq> ''''" "logs \<noteq> ''''"
    and ap: "AppendFailure lib limit ioOK (Some st) target logs (Some content) = (file, None)"
  shows "\<exists>logs' p es' c'. jl_Marshal lib (failureEntry target logs') = Inr p \<and>
    (logs' = logs \<or> (\<exists>m. logs' = take m logs @ truncatedFailureLogSuffix)) \<and> length p + 1 \<le> limit \<and>
    file = Some c' \<and> length c' \<le> limit \<and> log_of lib ok es' c' \<and> suffix es' (es @ [failureEntry target logs']) \<and>
    (length content + length p + 1 \<le> limit \<longrightarrow> es' = es @ [failureEntry target logs'])"
proof -
  obtain line where l: "marshalFailureLogLine lib limit (failureEntry target logs) = Inr line"
    using ap guard by (cases "marshalFailureLogLine lib limit (failureEntry target logs)")
      (auto simp: AppendFailure_def ioOK_def)
  from marshal_line [OF l] obtain logs' p where p: "length line \<le> limit" "jl_Marshal lib (failureEntry target logs') = Inr p"
    "line = p @ [lineEnd]" "logs' = logs \<or> (\<exists>m. logs' = take m logs @ truncatedFailureLogSuffix)" by blast
  have okl: "ok (failureEntry target logs')" using p(4) ok by auto
  note logged = log_of_append [OF log okl p(2)]
  let ?c = "content @ p @ [lineEnd]"
  have a: "appendFailureLogLine ioOK (Some content) line = (Some ?c, Inr (length ?c))"
    using p(3) by (simp add: appendFailureLogLine_def ioOK_def)
  have "\<exists>es' c'. file = Some c' \<and> length c' \<le> limit \<and> log_of lib ok es' c' \<and> suffix es' (es @ [failureEntry target logs']) \<and>
      (length content + length p + 1 \<le> limit \<longrightarrow> es' = es @ [failureEntry target logs'])"
  proof (cases "length ?c \<le> limit")
    case True
    then have "file = Some ?c" using ap guard l a by (simp add: AppendFailure_def ioOK_def)
    with True logged show ?thesis by auto
  next
    case False
    with trim_lines [OF logged codec, of limit] obtain es' c' where
      t: "trimFailureLogFile ioOK limit ?c (length ?c) = (c', None)" "suffix es' (es @ [failureEntry target logs'])"
         "log_of lib ok es' c'" "length c' < limit + 1" by auto
    then have "file = Some c'" using ap guard l a False by (auto simp: AppendFailure_def ioOK_def)
    with t False show ?thesis by auto
  qed
  moreover have "length p + 1 \<le> limit" using p(1,3) by simp
  ultimately show ?thesis using p(2,4) by blast
qed

section \<open>Claims\<close>


definition demoJson :: json_lib where
  "demoJson = \<lparr>jl_Marshal = (\<lambda>e. Inr (''{'' @ fl_Target e @ '':'' @ map (\<lambda>c. if c = lineEnd then CHR 0x01 else c) (fl_Logs e) @ ''}'')),
     jl_Unmarshal = (\<lambda>s. case cutByte CHR '':'' (butlast (tl s)) of (t, l, found) \<Rightarrow>
       if found then Inr (failureEntry t (map (\<lambda>c. if c = CHR 0x01 then lineEnd else c) l)) else Inl (Errorf ''json''))\<rparr>"

definition demoOk :: "failureLogEntry \<Rightarrow> bool" where
  "demoOk e \<longleftrightarrow> \<not> fl_Success e \<and> CHR '':'' \<notin> set (fl_Target e) \<and> lineEnd \<notin> set (fl_Target e) \<and> CHR 0x01 \<notin> set (fl_Logs e)"

lemma indexByte_found: "d \<notin> set xs \<Longrightarrow> indexByte (xs @ d # ys) d = Some (length xs)"
  by (induction xs) auto

lemma cutByte_found: "d \<notin> set xs \<Longrightarrow> cutByte d (xs @ d # ys) = (xs, ys, True)"
  by (simp add: cutByte_def indexByte_found)

lemma demo_codec: "json_codec demoJson demoOk"
proof -
  have t: "trimSpace (''{'' @ x @ ''}'' @ [lineEnd]) = ''{'' @ x @ ''}''" for x
    by (simp add: trimSpace_def trimLeftFunc_def trimRightFunc_def isSpace_def lineEnd_def)
  have m: "map ((\<lambda>c. if c = CHR 0x01 then lineEnd else c) \<circ> (\<lambda>c. if c = lineEnd then CHR 0x01 else c)) xs = xs"
    if "CHR 0x01 \<notin> set xs" for xs using that by (auto intro!: map_idI)
  show ?thesis unfolding json_codec_def
  proof (intro allI impI)
    fix e p assume e: "demoOk e" "jl_Marshal demoJson e = Inr p"
    let ?x = "fl_Target e @ '':'' @ map (\<lambda>c. if c = lineEnd then CHR 0x01 else c) (fl_Logs e)"
    have p: "p = ''{'' @ ?x @ ''}''" using e(2) by (simp add: demoJson_def)
    have "lineEnd \<notin> set p" using e(1) by (auto simp: p demoOk_def lineEnd_def)
    moreover have "trimSpace (p @ [lineEnd]) = p" using t [of ?x] by (simp add: p)
    moreover have "cutByte CHR '':'' ?x = (fl_Target e, map (\<lambda>c. if c = lineEnd then CHR 0x01 else c) (fl_Logs e), True)"
      using e(1) by (simp add: demoOk_def cutByte_found)
    then have "jl_Unmarshal demoJson p = Inr e"
      using e(1) by (simp add: p demoJson_def m demoOk_def failureEntry_def butlast_append)
    ultimately show "lineEnd \<notin> set p \<and> trimSpace (p @ [lineEnd]) = p \<and> p \<noteq> '''' \<and> jl_Unmarshal demoJson p = Inr e"
      by (simp add: p)
  qed
qed


text \<open>
  The binary search is exact. For an encoder whose output grows with the log, the truncation of a
  log that does not fit keeps the longest prefix whose line fits the limit, the one that trying every
  length from the longest on would find, and fails exactly when not even the empty prefix fits.
\<close>

lemma truncate_longest:
  assumes "marshalGrows lib target logs"
  shows "truncateFailureLogPayload lib limit target logs = (case longestFit lib limit target logs of
      Some m \<Rightarrow> Inr (take m logs @ truncatedFailureLogSuffix)
    | None \<Rightarrow> Inl (Errorf (''failure log metadata for '' @ target @ '' exceeds maximum file size'')))"
  by (rule truncate_longest_eq [OF assms])

lemma demo_grows: "marshalGrows demoJson target logs"
  by (auto simp: marshalGrows_def demoJson_def failureEntry_def)

lemma truncate_longest_witness:
  "truncateFailureLogPayload demoJson 51 ''t'' ''abcdefghijk'' = Inr (''abcdefg'' @ truncatedFailureLogSuffix)"
proof -
  have "longestFit demoJson 51 ''t'' ''abcdefghijk'' = Some 7" by code_simp
  then show ?thesis using truncate_longest [OF demo_grows, of 51 "''t''" "''abcdefghijk''"] by simp
qed

text \<open>
  A trim that falls on the boundary between two lines drops the whole line behind it: here the file
  holds two lines of eight bytes, the limit is eight, and the newest entry is lost although it fits.
\<close>

lemma trim_loses_newest:
  "AppendFailure demoJson 8 ioOK (Some \<lparr>fs_path = ''/l''\<rparr>) ''b'' ''new'' (Some (''{a:old}'' @ [lineEnd])) = (Some '''', None)"
  by code_simp

end
