(* ===== verification/Batch_Results.thy ===== *)
theory Batch_Results
  imports Failure_Log
begin

text \<open>
  The results of a batch, \<^verbatim>\<open>internal/buildbatch/results.go\<close>, \<^verbatim>\<open>lmdb_store_linux.go\<close> and \<^verbatim>\<open>export.go\<close>: the
  entries, the store with its failure log, and the counters of outcomes. LMDB is a map from targets to
  encoded entries whose calls may fail; which of them fail is an argument. \<^verbatim>\<open>encoding/json\<close> with the
  \<^verbatim>\<open>UnmarshalJSON\<close> method of the entry is a parameter.
\<close>

section \<open>Entries and the database\<close>

record resultEntry =
  re_StartedAt :: string
  re_FinishedAt :: string
  re_Elapsed :: string
  re_Target :: string
  re_NodeIP :: string
  re_Success :: bool
  re_Logs :: string
  re_Reason :: string

record result_json =
  rj_Marshal :: "resultEntry \<Rightarrow> string result"
  rj_Unmarshal :: "string \<Rightarrow> resultEntry result"

text \<open>The database keeps its keys in byte order, so a cursor visits them in that order.\<close>

type_synonym lmdbResultDB = "(string \<times> string) list"

record lmdb_rc =
  rc_begin :: "go_error option"
  rc_op :: "go_error option"
  rc_commit :: "go_error option"

definition rcOK :: lmdb_rc where
  "rcOK = \<lparr>rc_begin = None, rc_op = None, rc_commit = None\<rparr>"

definition db_Put :: "result_json \<Rightarrow> lmdb_rc \<Rightarrow> resultEntry \<Rightarrow> lmdbResultDB \<Rightarrow> lmdbResultDB \<times> go_error option" where
  "db_Put json rc entry db = (case rj_Marshal json entry of
      Inl e \<Rightarrow> (db, Some e)
    | Inr payload \<Rightarrow>
        (case rc_begin rc of
           Some e \<Rightarrow> (db, Some (wrapErr ''begin write transaction'' e))
         | None \<Rightarrow>
             (case rc_op rc of
                Some e \<Rightarrow> (db, Some (wrapErr ''put entry'' e))
              | None \<Rightarrow>
                  (case rc_commit rc of
                     Some e \<Rightarrow> (db, Some (wrapErr ''commit write transaction'' e))
                   | None \<Rightarrow> (AList.update (re_Target entry) payload db, None)))))"

definition db_Get :: "result_json \<Rightarrow> lmdb_rc \<Rightarrow> string \<Rightarrow> lmdbResultDB \<Rightarrow> resultEntry option result" where
  "db_Get json rc target db = (case rc_begin rc of
      Some e \<Rightarrow> Inl (wrapErr ''begin read transaction'' e)
    | None \<Rightarrow>
        (case rc_op rc of
           Some e \<Rightarrow> Inl (wrapErr ''get entry'' e)
         | None \<Rightarrow>
             (case map_of db target of
                None \<Rightarrow> Inr None
              | Some bytes \<Rightarrow> map_sum id Some (rj_Unmarshal json bytes))))"

text \<open>Decoding stops at the first entry that does not decode.\<close>

fun decodeAll :: "result_json \<Rightarrow> lmdbResultDB \<Rightarrow> resultEntry list result" where
  "decodeAll json [] = Inr []"
| "decodeAll json ((k, bytes) # rest) = (case rj_Unmarshal json bytes of
      Inl e \<Rightarrow> Inl e
    | Inr entry \<Rightarrow> (case decodeAll json rest of Inl e \<Rightarrow> Inl e | Inr entries \<Rightarrow> Inr (entry # entries)))"

definition db_All :: "result_json \<Rightarrow> lmdb_rc \<Rightarrow> lmdbResultDB \<Rightarrow> resultEntry list result" where
  "db_All json rc db = (case rc_begin rc of
      Some e \<Rightarrow> Inl (wrapErr ''begin scan transaction'' e)
    | None \<Rightarrow>
        (case rc_op rc of
           Some e \<Rightarrow> Inl (wrapErr ''open cursor'' e)
         | None \<Rightarrow> decodeAll json (sort_key fst db)))"

section \<open>Counters\<close>

datatype buildOutcomeState = buildOutcomeUnknown | buildOutcomeFailed | buildOutcomeSucceeded

record buildOutcomeCounters =
  bc_total :: int
  bc_succeeded :: int
  bc_failed :: int
  bc_states :: "(string \<times> buildOutcomeState) list"

definition outcomeState :: "(string \<times> buildOutcomeState) list \<Rightarrow> string \<Rightarrow> buildOutcomeState" where
  "outcomeState states target = (case map_of states target of None \<Rightarrow> buildOutcomeUnknown | Some s \<Rightarrow> s)"

definition bump :: "int \<Rightarrow> buildOutcomeState \<Rightarrow> buildOutcomeCounters \<Rightarrow> buildOutcomeCounters" where
  "bump d st c = (case st of
      buildOutcomeSucceeded \<Rightarrow> c\<lparr>bc_succeeded := bc_succeeded c + d\<rparr>
    | buildOutcomeFailed \<Rightarrow> c\<lparr>bc_failed := bc_failed c + d\<rparr>
    | buildOutcomeUnknown \<Rightarrow> c)"

definition newBuildOutcomeCounters :: "int \<Rightarrow> (string \<times> buildOutcomeState) list \<Rightarrow> buildOutcomeCounters" where
  "newBuildOutcomeCounters totalTargets states =
     foldl (\<lambda>c (target, st). bump 1 st (c\<lparr>bc_states := AList.update target st (bc_states c)\<rparr>))
       \<lparr>bc_total = totalTargets, bc_succeeded = 0, bc_failed = 0, bc_states = []\<rparr> states"

definition counters_snapshot :: "buildOutcomeCounters \<Rightarrow> int \<times> int \<times> int" where
  "counters_snapshot c = (bc_succeeded c, bc_total c, bc_failed c)"

definition applyExisting :: "string \<Rightarrow> buildOutcomeState \<Rightarrow> buildOutcomeCounters \<Rightarrow> buildOutcomeCounters \<times> int \<times> int \<times> int" where
  "applyExisting target st c =
     (let previous = outcomeState (bc_states c) target;
          c' = (if previous = st then c
                else (bump 1 st (bump (-1) previous c))\<lparr>bc_states := AList.update target st (bc_states c)\<rparr>)
      in (c', counters_snapshot c'))"

definition applyOutcome :: "string \<Rightarrow> bool \<Rightarrow> buildOutcomeCounters \<Rightarrow> buildOutcomeCounters \<times> int \<times> int \<times> int" where
  "applyOutcome target success c =
     (let previous = outcomeState (bc_states c) target;
          next = (if success then buildOutcomeSucceeded else buildOutcomeFailed);
          c' = (if previous \<noteq> next
                then (bump 1 next (bump (-1) previous c))\<lparr>bc_states := AList.update target next (bc_states c)\<rparr>
                else c)
      in (c', counters_snapshot c'))"

definition decrementTotal :: "buildOutcomeCounters \<Rightarrow> buildOutcomeCounters \<times> int \<times> int \<times> int" where
  "decrementTotal c = (let c' = (if 0 < bc_total c then c\<lparr>bc_total := bc_total c - 1\<rparr> else c) in (c', counters_snapshot c'))"

section \<open>The result store\<close>

record resultStore =
  rs_db :: lmdbResultDB
  rs_logs :: "failureLogStore option"
  rs_logFile :: "string option"

record store_env =
  sv_json :: result_json
  sv_log :: json_lib
  sv_limit :: nat

definition UpsertResult ::
    "store_env \<Rightarrow> log_io \<Rightarrow> lmdb_rc \<Rightarrow> resultEntry \<Rightarrow> resultStore \<Rightarrow> resultStore \<times> go_error option" where
  "UpsertResult env io rc entry rs =
     (let keep = \<not> re_Success entry \<and> re_Logs entry \<noteq> '''';
          file = (if keep then fst (AppendFailure (sv_log env) (sv_limit env) io (rs_logs rs) (re_Target entry) (re_Logs entry) (rs_logFile rs))
                  else rs_logFile rs);
          entry' = (if keep then entry\<lparr>re_Logs := ''''\<rparr> else entry)
      in case db_Put (sv_json env) rc entry' (rs_db rs) of
           (db, err) \<Rightarrow> (rs\<lparr>rs_logFile := file, rs_db := db\<rparr>, err))"

definition persistBuildResult ::
    "store_env \<Rightarrow> log_io \<Rightarrow> lmdb_rc \<Rightarrow> resultEntry \<Rightarrow> resultStore \<times> buildOutcomeCounters \<Rightarrow>
     (resultStore \<times> buildOutcomeCounters) \<times> (int \<times> int \<times> int) result" where
  "persistBuildResult env io rc entry s = (case s of (rs, counters) \<Rightarrow>
     (case UpsertResult env io rc entry rs of
        (rs', Some e) \<Rightarrow> ((rs', counters), Inl (wrapErr (''store result for '' @ re_Target entry) e))
      | (rs', None) \<Rightarrow>
          (case applyOutcome (re_Target entry) (re_Success entry) counters of
             (counters', shown) \<Rightarrow> ((rs', counters'), Inr shown))))"

text \<open>What \<^verbatim>\<open>printSummary\<close> prints: all, succeeded, failed.\<close>

definition printSummary :: "resultEntry list \<Rightarrow> nat \<times> nat \<times> nat" where
  "printSummary results =
     foldl (\<lambda>(n, s, f) r. if re_Success r then (n, Suc s, f) else (n, s, Suc f)) (length results, 0, 0) results"

text \<open>\<^verbatim>\<open>runExport\<close>: the lines written to the file, for the mode and with or without failures.\<close>

definition targetMatchesMode :: "string \<Rightarrow> bool \<Rightarrow> bool" where
  "targetMatchesMode target oci = (if oci then \<not> hasNydusV3Suffix target else hasNydusV3Suffix target)"

fun exportLines :: "result_json \<Rightarrow> bool \<Rightarrow> bool \<Rightarrow> resultEntry list \<Rightarrow> string list result" where
  "exportLines json oci withFail [] = Inr []"
| "exportLines json oci withFail (entry # rest) =
     (if \<not> targetMatchesMode (re_Target entry) oci \<or> (\<not> re_Success entry \<and> \<not> withFail)
      then exportLines json oci withFail rest
      else case rj_Marshal json entry of
        Inl e \<Rightarrow> Inl e
      | Inr payload \<Rightarrow>
          (case exportLines json oci withFail rest of Inl e \<Rightarrow> Inl e | Inr ls \<Rightarrow> Inr ((payload @ [lineEnd]) # ls)))"

definition runExport :: "result_json \<Rightarrow> lmdb_rc \<Rightarrow> bool \<Rightarrow> bool \<Rightarrow> lmdbResultDB \<Rightarrow> string result" where
  "runExport json rc oci withFail db = (case db_All json rc db of
      Inl e \<Rightarrow> Inl e
    | Inr entries \<Rightarrow> map_sum id concat (exportLines json oci withFail entries))"

section \<open>Counters count targets\<close>

datatype counter_op = OpApply string bool | OpExisting string buildOutcomeState | OpDecrement

fun counterStep :: "counter_op \<Rightarrow> buildOutcomeCounters \<Rightarrow> buildOutcomeCounters" where
  "counterStep (OpApply target success) c = fst (applyOutcome target success c)"
| "counterStep (OpExisting target st) c = fst (applyExisting target st c)"
| "counterStep OpDecrement c = fst (decrementTotal c)"

text \<open>The abstract counterpart: the last outcome of each target.\<close>

fun outcomeStep :: "counter_op \<Rightarrow> (string \<Rightarrow> buildOutcomeState) \<Rightarrow> (string \<Rightarrow> buildOutcomeState)" where
  "outcomeStep (OpApply target success) m = m(target := if success then buildOutcomeSucceeded else buildOutcomeFailed)"
| "outcomeStep (OpExisting target st) m = m(target := st)"
| "outcomeStep OpDecrement m = m"

definition counters_of :: "buildOutcomeCounters \<Rightarrow> (string \<Rightarrow> buildOutcomeState) \<Rightarrow> bool" where
  "counters_of c m \<longleftrightarrow> outcomeState (bc_states c) = m \<and> finite {t. m t \<noteq> buildOutcomeUnknown} \<and>
     bc_succeeded c = int (card {t. m t = buildOutcomeSucceeded}) \<and> bc_failed c = int (card {t. m t = buildOutcomeFailed})"

lemma outcomeState_update: "outcomeState (AList.update t s states) = (outcomeState states)(t := s)"
  by (auto simp: outcomeState_def update_conv' fun_eq_iff)

lemma card_point_update:
  assumes "finite {t. m t = a}"
  shows "int (card {t. (m(x := b)) t = a}) = int (card {t. m t = a}) - (if m x = a then 1 else 0) + (if b = a then 1 else 0)"
proof -
  have "{t. (m(x := b)) t = a} = (if b = a then insert x ({t. m t = a} - {x}) else {t. m t = a} - {x})" by auto
  moreover have "int (card ({t. m t = a} - {x})) = int (card {t. m t = a}) - (if m x = a then 1 else 0)"
    using assms card_gt_0_iff [of "{t. m t = a}"] by (auto simp: card_Diff_singleton_if of_nat_diff Suc_le_eq)
  ultimately show ?thesis using assms by (cases "m x = a") (simp_all add: insert_absorb)
qed

lemma counters_move:
  assumes "counters_of c m"
  shows "counters_of ((bump 1 st (bump (-1) (m t) c))\<lparr>bc_states := AList.update t st (bc_states c)\<rparr>) (m(t := st))"
proof -
  have fin: "finite {t. m t = a}" if "a \<noteq> buildOutcomeUnknown" for a
    using assms that by (auto simp: counters_of_def elim: rev_finite_subset)
  have "finite {x. (m(t := st)) x \<noteq> buildOutcomeUnknown}"
    by (rule finite_subset [of _ "insert t {x. m x \<noteq> buildOutcomeUnknown}"]) (use assms in \<open>auto simp: counters_of_def\<close>)
  then show ?thesis
    using assms card_point_update [OF fin, of buildOutcomeSucceeded t st] card_point_update [OF fin, of buildOutcomeFailed t st]
    unfolding counters_of_def
    by (cases st; cases "m t") (simp_all add: bump_def outcomeState_update)
qed

lemma apply_as_existing:
  "applyOutcome t s c = applyExisting t (if s then buildOutcomeSucceeded else buildOutcomeFailed) c"
  by (simp add: applyOutcome_def applyExisting_def Let_def)

lemma counterStep_of:
  assumes "counters_of c m"
  shows "counters_of (counterStep op c) (outcomeStep op m)"
proof -
  have m: "outcomeState (bc_states c) = m" using assms by (simp add: counters_of_def)
  have move: "counters_of (if m t = st then c else
      (bump 1 st (bump (-1) (m t) c))\<lparr>bc_states := AList.update t st (bc_states c)\<rparr>) (m(t := st))" for t st
    using counters_move [OF assms, where t = t and st = st] assms by (cases "m t = st") (auto simp: fun_upd_idem)
  have ex: "counters_of (fst (applyExisting t st c)) (m(t := st))" for t st
    using move [of t st] by (simp add: applyExisting_def Let_def m del: fun_upd_apply)
  show ?thesis
  proof (cases op)
    case (OpApply t s)
    then show ?thesis using ex by (simp add: apply_as_existing)
  next
    case (OpExisting t s)
    then show ?thesis using ex by simp
  qed (use assms in \<open>simp add: decrementTotal_def counters_of_def Let_def\<close>)
qed

lemma counters_run: "counters_of c m \<Longrightarrow> counters_of (foldl (\<lambda>c op. counterStep op c) c ops) (foldl (\<lambda>m op. outcomeStep op m) m ops)"
  by (induction ops arbitrary: c m) (auto simp: counterStep_of)

lemma counters_new:
  assumes "distinct (map fst states)"
  shows "counters_of (newBuildOutcomeCounters n states) (outcomeState states) \<and>
    bc_total (newBuildOutcomeCounters n states) = n"
proof -
  let ?f = "\<lambda>c (target, st). bump 1 st (c\<lparr>bc_states := AList.update target st (bc_states c)\<rparr>)"
  have "counters_of (foldl ?f c states) (\<lambda>t. case map_of states t of None \<Rightarrow> m t | Some s \<Rightarrow> s) \<and> bc_total (foldl ?f c states) = bc_total c"
    if "counters_of c m" "\<And>t. t \<in> fst ` set states \<Longrightarrow> m t = buildOutcomeUnknown" for c m
    using assms that
  proof (induction states arbitrary: c m)
    case (Cons x states)
    obtain t st where x: "x = (t, st)" by fastforce
    let ?c = "bump 1 st (c\<lparr>bc_states := AList.update t st (bc_states c)\<rparr>)"
    have "m t = buildOutcomeUnknown" using Cons.prems x by simp
    then have "?c = (bump 1 st (bump (-1) (m t) c))\<lparr>bc_states := AList.update t st (bc_states c)\<rparr>"
      by (cases st) (simp_all add: bump_def)
    then have co: "counters_of ?c (m(t := st))" using counters_move [OF Cons.prems(2)] by simp
    have un: "(m(t := st)) t' = buildOutcomeUnknown" if "t' \<in> fst ` set states" for t'
      using that Cons.prems x by auto
    have "counters_of (foldl ?f ?c states) (\<lambda>u. case map_of states u of None \<Rightarrow> (m(t := st)) u | Some s \<Rightarrow> s) \<and>
        bc_total (foldl ?f ?c states) = bc_total ?c"
      by (rule Cons.IH [OF _ co un]) (use Cons.prems(1) in simp_all)
    moreover have "(\<lambda>u. case map_of states u of None \<Rightarrow> (m(t := st)) u | Some s \<Rightarrow> s) =
        (\<lambda>u. case map_of (x # states) u of None \<Rightarrow> m u | Some s \<Rightarrow> s)"
    proof
      fix u
      have "map_of states t = None" using Cons.prems(1) x by (simp add: map_of_eq_None_iff)
      then show "(case map_of states u of None \<Rightarrow> (m(t := st)) u | Some s \<Rightarrow> s) =
          (case map_of (x # states) u of None \<Rightarrow> m u | Some s \<Rightarrow> s)"
        using x by (cases "u = t") (simp_all split: option.split)
    qed
    moreover have "bc_total ?c = bc_total c" by (cases st) (simp_all add: bump_def)
    ultimately show ?case using x by simp
  qed simp
  moreover have "counters_of \<lparr>bc_total = n, bc_succeeded = 0, bc_failed = 0, bc_states = []\<rparr> (\<lambda>_. buildOutcomeUnknown)"
    by (simp add: counters_of_def outcomeState_def fun_eq_iff)
  moreover have "outcomeState states = (\<lambda>t. case map_of states t of None \<Rightarrow> buildOutcomeUnknown | Some s \<Rightarrow> s)"
    by (simp add: outcomeState_def fun_eq_iff)
  ultimately show ?thesis by (simp add: newBuildOutcomeCounters_def)
qed

section \<open>Claims\<close>

text \<open>
  C39. The outcome counters are exact. Starting from the known outcomes of the targets, after any
  sequence of applied results, outcomes found in the store and decrements of the total, the numbers of
  succeeded and failed targets are the numbers of targets whose last outcome is success or failure, so
  that a target that is retried or built again is counted once.
\<close>

theorem counters_exact:
  assumes "distinct (map fst states)"
    and "c = foldl (\<lambda>c op. counterStep op c) (newBuildOutcomeCounters n states) ops"
    and "m = foldl (\<lambda>m op. outcomeStep op m) (outcomeState states) ops"
  shows "outcomeState (bc_states c) = m \<and> bc_succeeded c = int (card {t. m t = buildOutcomeSucceeded}) \<and>
    bc_failed c = int (card {t. m t = buildOutcomeFailed})"
  using counters_run [of "newBuildOutcomeCounters n states" "outcomeState states" ops] counters_new [OF assms(1), of n] assms(2,3)
  by (simp add: counters_of_def)

theorem counters_exact_witness:
  "bc_succeeded (foldl (\<lambda>c op. counterStep op c) (newBuildOutcomeCounters 2 [(''a'', buildOutcomeFailed)])
     [OpApply ''a'' True, OpApply ''b'' False, OpDecrement]) =
   int (card {t. ((\<lambda>_. buildOutcomeUnknown)(''a'' := buildOutcomeFailed, ''a'' := buildOutcomeSucceeded, ''b'' := buildOutcomeFailed)) t
     = buildOutcomeSucceeded})"
proof -
  have "outcomeState [(''a'', buildOutcomeFailed)] = (\<lambda>_. buildOutcomeUnknown)(''a'' := buildOutcomeFailed)"
    by (auto simp: outcomeState_def fun_eq_iff)
  then show ?thesis
    using counters_exact [of "[(''a'', buildOutcomeFailed)]" _ 2 "[OpApply ''a'' True, OpApply ''b'' False, OpDecrement]", OF _ refl refl]
    by simp
qed

text \<open>
  What is relied on of the JSON library for an entry: it decodes to what it encodes.
\<close>

definition entry_codec :: "result_json \<Rightarrow> resultEntry \<Rightarrow> bool" where
  "entry_codec json e \<longleftrightarrow> (\<forall>p. rj_Marshal json e = Inr p \<longrightarrow> rj_Unmarshal json p = Inr e)"

text \<open>
  A persisted result is read back. When a result is persisted without an error, the store returns
  it for its target, without its log when the build failed, returns for every other target what it
  returned before, and the shown counters are those after counting it; when it is not persisted, the
  database and the counters are as they were.
\<close>

theorem persisted_result:
  assumes "persistBuildResult env io rc entry (rs, c) = ((rs', c'), r)"
    and "entry_codec (sv_json env) (if re_Success entry then entry else entry\<lparr>re_Logs := ''''\<rparr>)"
  shows "case r of
      Inl e \<Rightarrow> rs_db rs' = rs_db rs \<and> c' = c
    | Inr shown \<Rightarrow>
        db_Get (sv_json env) rcOK (re_Target entry) (rs_db rs') =
          Inr (Some (if re_Success entry then entry else entry\<lparr>re_Logs := ''''\<rparr>)) \<and>
        (\<forall>t. t \<noteq> re_Target entry \<longrightarrow> db_Get (sv_json env) rcOK t (rs_db rs') = db_Get (sv_json env) rcOK t (rs_db rs)) \<and>
        c' = counterStep (OpApply (re_Target entry) (re_Success entry)) c \<and> shown = counters_snapshot c'"
proof -
  let ?e = "if re_Success entry then entry else entry\<lparr>re_Logs := ''''\<rparr>"
  have e: "(if \<not> re_Success entry \<and> re_Logs entry \<noteq> '''' then entry\<lparr>re_Logs := ''''\<rparr> else entry) = ?e" by simp
  obtain db err where p: "db_Put (sv_json env) rc ?e (rs_db rs) = (db, err)" by fastforce
  have u: "rs_db rs' = db" "case err of Some x \<Rightarrow> c' = c \<and> (\<exists>y. r = Inl y)
      | None \<Rightarrow> (c', projr r) = applyOutcome (re_Target entry) (re_Success entry) c \<and> (\<exists>y. r = Inr y)"
    using assms(1) p unfolding persistBuildResult_def UpsertResult_def e Let_def
    by (auto split: option.split_asm prod.split_asm)
  have t: "re_Target ?e = re_Target entry" by simp
  show ?thesis
  proof (cases err)
    case None
    then obtain payload where m: "rj_Marshal (sv_json env) ?e = Inr payload" and db: "db = AList.update (re_Target entry) payload (rs_db rs)"
      using p by (cases "rj_Marshal (sv_json env) ?e") (auto simp: db_Put_def t split: option.split_asm)
    have "rj_Unmarshal (sv_json env) payload = Inr ?e" using assms(2) m by (simp add: entry_codec_def)
    with None u db show ?thesis
      by (auto simp: db_Get_def rcOK_def update_conv' applyOutcome_def Let_def)
  next
    case (Some x)
    then have "db = rs_db rs" using p by (auto simp: db_Put_def split: sum.split_asm option.split_asm)
    with Some u show ?thesis by auto
  qed
qed

definition demoResult :: resultEntry where
  "demoResult = \<lparr>re_StartedAt = '''', re_FinishedAt = '''', re_Elapsed = ''1s'', re_Target = ''img'', re_NodeIP = ''n'',
     re_Success = False, re_Logs = ''boom'', re_Reason = ''exit status 1''\<rparr>"

definition demoResultJson :: result_json where
  "demoResultJson = \<lparr>rj_Marshal = (\<lambda>e. if re_Logs e = '''' then Inr (re_Target e) else Inl (Errorf ''json'')),
     rj_Unmarshal = (\<lambda>s. Inr (demoResult\<lparr>re_Target := s, re_Logs := ''''\<rparr>))\<rparr>"

definition demoStoreEnv :: store_env where
  "demoStoreEnv = \<lparr>sv_json = demoResultJson, sv_log = demoJson, sv_limit = 40\<rparr>"

theorem persisted_result_witness:
  "\<exists>rs' c' shown. persistBuildResult demoStoreEnv ioOK rcOK demoResult
       (\<lparr>rs_db = [], rs_logs = Some \<lparr>fs_path = ''/l''\<rparr>, rs_logFile = None\<rparr>, newBuildOutcomeCounters 1 []) = ((rs', c'), Inr shown) \<and>
     db_Get demoResultJson rcOK ''img'' (rs_db rs') = Inr (Some (demoResult\<lparr>re_Logs := ''''\<rparr>)) \<and> shown = (0, 1, 1)"
proof -
  let ?s = "(\<lparr>rs_db = [], rs_logs = Some \<lparr>fs_path = ''/l''\<rparr>, rs_logFile = None\<rparr>, newBuildOutcomeCounters 1 [])"
  have "case persistBuildResult demoStoreEnv ioOK rcOK demoResult ?s of (_, Inr shown) \<Rightarrow> shown = (0, 1, 1) | _ \<Rightarrow> False"
    by code_simp
  then obtain rs' c' shown where p: "persistBuildResult demoStoreEnv ioOK rcOK demoResult ?s = ((rs', c'), Inr shown)"
    "shown = (0, 1, 1)" by (auto split: prod.split_asm sum.split_asm)
  have "entry_codec (sv_json demoStoreEnv) (if re_Success demoResult then demoResult else demoResult\<lparr>re_Logs := ''''\<rparr>)"
    by (simp add: entry_codec_def demoStoreEnv_def demoResultJson_def demoResult_def)
  from persisted_result [OF p(1) this] p show ?thesis
    by (auto simp: demoResult_def demoStoreEnv_def)
qed

end
