(* ===== verification/Batch_Specs.thy ===== *)
theory Batch_Specs
  imports Batch_Results Heredoc "HOL-Library.Multiset" "HOL-Library.Product_Lexorder"
begin

text \<open>
  What a batch builds: \<^verbatim>\<open>internal/buildbatch/build_specs.go\<close>, \<^verbatim>\<open>build_variables.go\<close>, \<^verbatim>\<open>workspace.go\<close> and
  \<^verbatim>\<open>image_metadata.go\<close>. Image directories are prepared (variables replaced, Dockerfile preprocessed),
  every directory gives a build per format, and the builds of one image form a job. Results of earlier
  runs decide what is still to be built. The file system is a record per directory, the results are a
  lookup function.
\<close>

section \<open>Build variables\<close>

text \<open>\<^verbatim>\<open>strings.ReplaceAll\<close> for a non-empty old string.\<close>

function replaceAll :: "string \<Rightarrow> string \<Rightarrow> string \<Rightarrow> string" where
  "replaceAll s old new =
     (if old = [] \<or> s = [] then s
      else if hasPrefix s old then new @ replaceAll (drop (length old) s) old new
      else hd s # replaceAll (tl s) old new)"
  by pat_completeness auto
termination
  by (relation "measure (\<lambda>(s, old, new). length s)") auto

declare replaceAll.simps [simp del]

definition varPrefix :: string where
  "varPrefix = ''BUILDCTL_BATCH_''"

definition varChar :: "char \<Rightarrow> bool" where
  "varChar c = (let n = (of_char c :: nat) in (65 \<le> n \<and> n \<le> 90) \<or> (97 \<le> n \<and> n \<le> 122) \<or> (48 \<le> n \<and> n \<le> 57) \<or> n = 95)"

text \<open>
  A match of \<^verbatim>\<open>\$\{?(BUILDCTL_BATCH_[A-Za-z0-9_]+)\}?\<close> at the start of the text: the name and the rest.
\<close>

definition matchVar :: "string \<Rightarrow> (string \<times> string) option" where
  "matchVar s =
     (if \<not> hasPrefix s ''$'' then None
      else let t = trimPrefix (tl s) ''{'' in
        if \<not> hasPrefix t varPrefix then None
        else let name = takeWhile varChar (drop (length varPrefix) t);
                 rest = dropWhile varChar (drop (length varPrefix) t) in
          if name = '''' then None
          else Some (varPrefix @ name, trimPrefix rest ''}''))"

lemma matchVar_shorter: "matchVar s = Some (name, rest) \<Longrightarrow> length rest < length s"
proof -
  assume m: "matchVar s = Some (name, rest)"
  have t: "length (trimPrefix x y) \<le> length x" for x y by (simp add: trimPrefix_def)
  from m obtain c where s: "s = CHR ''$'' # c" by (auto simp: matchVar_def hasPrefix_iff split: if_split_asm)
  let ?t = "trimPrefix c ''{''" let ?d = "dropWhile varChar (drop (length varPrefix) ?t)"
  have "rest = trimPrefix ?d ''}''" using m s by (auto simp: matchVar_def Let_def split: if_split_asm)
  then have "length rest \<le> length ?d" using t by simp
  also have "\<dots> \<le> length (drop (length varPrefix) ?t)" by (rule length_dropWhile_le)
  also have "\<dots> \<le> length c" using t [of c "''{''"] by simp
  finally show ?thesis using s by simp
qed

function findUnresolvedBuildVariables :: "string \<Rightarrow> string list" where
  "findUnresolvedBuildVariables s = (case s of
      [] \<Rightarrow> []
    | c # rest \<Rightarrow>
        (case matchVar s of
           Some (name, rest') \<Rightarrow> name # findUnresolvedBuildVariables rest'
         | None \<Rightarrow> findUnresolvedBuildVariables rest))"
  by pat_completeness auto
termination
  by (relation "measure length") (auto dest: matchVar_shorter)

declare findUnresolvedBuildVariables.simps [simp del]

fun uniqueStrings :: "string \<Rightarrow> string list \<Rightarrow> string list" where
  "uniqueStrings prev [] = []"
| "uniqueStrings prev (v # vs) = (if v = prev then uniqueStrings prev vs else v # uniqueStrings v vs)"

text \<open>The variables come in the order in which the loop over the Go map visits them.\<close>

definition replaceBuildVariables :: "string \<Rightarrow> string \<Rightarrow> (string \<times> string) list \<Rightarrow> string result" where
  "replaceBuildVariables raw path buildVars =
     (if buildVars = [] then Inr raw
      else let content = foldl (\<lambda>content (key, val). replaceAll (replaceAll content (''${'' @ key @ ''}'') val) (''$'' @ key) val) raw buildVars;
               missing = filter (\<lambda>token. map_of buildVars token = None) (findUnresolvedBuildVariables content)
           in if missing \<noteq> [] then
                Inl (Errorf (path @ '' contains unresolved build variable(s): '' @ joinStr '', '' (uniqueStrings '''' (sort missing))))
              else Inr content)"

definition parseBuildVariable :: "string \<Rightarrow> (string \<times> string) result" where
  "parseBuildVariable item = (case cutByte CHR ''='' item of (key, val, found) \<Rightarrow>
     if \<not> found then Inl (Errorf (''invalid --var '' @ quoteStr item @ '', expected KEY=value''))
     else if trimSpace key = '''' then Inl (Errorf (''invalid --var '' @ quoteStr item @ '', key must not be empty''))
     else if \<not> hasPrefix (trimSpace key) varPrefix then
       Inl (Errorf (''invalid --var '' @ quoteStr item @ '', key must start with BUILDCTL_BATCH_''))
     else Inr (trimSpace key, val))"

fun parseBuildVariables :: "string list \<Rightarrow> (string \<times> string) list \<Rightarrow> (string \<times> string) list result" where
  "parseBuildVariables [] vars = Inr vars"
| "parseBuildVariables (item # items) vars = (case parseBuildVariable item of
      Inl e \<Rightarrow> Inl e
    | Inr (key, val) \<Rightarrow> parseBuildVariables items (AList.update key val vars))"

text \<open>The content of a file after \<^verbatim>\<open>replaceBuildVariablesInFile\<close>, or its error.\<close>

definition replaceBuildVariablesInFile ::
    "string result \<Rightarrow> go_error option \<Rightarrow> go_error option \<Rightarrow> string \<Rightarrow> (string \<times> string) list \<Rightarrow> string result" where
  "replaceBuildVariablesInFile file statErr writeErr path buildVars = (case file of
      Inl e \<Rightarrow> Inl e
    | Inr raw \<Rightarrow>
        (case replaceBuildVariables raw path buildVars of
           Inl e \<Rightarrow> Inl e
         | Inr replaced \<Rightarrow>
             if raw = replaced then Inr raw
             else case statErr of
               Some e \<Rightarrow> Inl e
             | None \<Rightarrow> (case writeErr of Some e \<Rightarrow> Inl e | None \<Rightarrow> Inr replaced)))"

section \<open>Image directories\<close>

datatype file_stat = StatMissing | StatFailed go_error | StatRegular | StatOther

text \<open>
  A directory below \<^verbatim>\<open>--image-dirs\<close>: what the calls on it return. The contents are those of the copied
  directory, the schedule key is the hash of its files.
\<close>

record image_dir =
  im_name :: string
  im_isDir :: bool
  im_dockerStat :: file_stat
  im_metaStat :: file_stat
  im_copyErr :: "go_error option"
  im_key :: "string result"
  im_dockerfile :: "string result"
  im_metadata :: "string result"
  im_statErr :: "go_error option"
  im_writeErr :: "go_error option"

definition requireRegularFile :: "string \<Rightarrow> file_stat \<Rightarrow> go_error option" where
  "requireRegularFile base st = (case st of
      StatMissing \<Rightarrow> Some (Errorf (''missing required file '' @ base))
    | StatFailed e \<Rightarrow> Some e
    | StatOther \<Rightarrow> Some (Errorf (''required file '' @ base @ '' must be a regular file''))
    | StatRegular \<Rightarrow> None)"

definition validateSourceImageDir :: "string \<Rightarrow> image_dir \<Rightarrow> go_error option" where
  "validateSourceImageDir dir im = (case requireRegularFile ''Dockerfile'' (im_dockerStat im) of
      Some e \<Rightarrow> Some (wrapErr dir e)
    | None \<Rightarrow> map_option (wrapErr dir) (requireRegularFile ''metadata.json'' (im_metaStat im)))"

text \<open>
  The preparation of one directory, the body of the loops of \<^verbatim>\<open>prepareBuildImageDirs\<close> and
  \<^verbatim>\<open>streamPreparedBuildJobs\<close>: its schedule key, its Dockerfile and its metadata as they are on disk then.
\<close>

definition prepareImageDir ::
    "'d dockerfile_lib \<Rightarrow> 'd \<Rightarrow> string \<Rightarrow> string \<Rightarrow> (string \<times> string) list \<Rightarrow> image_dir \<Rightarrow> (string \<times> string \<times> string) result" where
  "prepareImageDir lib directives imageDirs preparedRoot vars im =
     (let srcDir = filepathJoin imageDirs (im_name im); dstDir = filepathJoin preparedRoot (im_name im) in
      if \<not> im_isDir im then
        Inl (Errorf (''image-dirs '' @ imageDirs @ '' must contain only directories, found '' @ im_name im))
      else case validateSourceImageDir srcDir im of
        Some e \<Rightarrow> Inl e
      | None \<Rightarrow>
          (case im_copyErr im of
             Some e \<Rightarrow> Inl (wrapErr (''copy '' @ srcDir) e)
           | None \<Rightarrow>
               (case im_key im of
                  Inl e \<Rightarrow> Inl e
                | Inr key \<Rightarrow>
                    (case replaceBuildVariablesInFile (im_dockerfile im) (im_statErr im) (im_writeErr im)
                          (filepathJoin dstDir ''Dockerfile'') vars of
                       Inl e \<Rightarrow> Inl e
                     | Inr dockerfile \<Rightarrow>
                         (case PreprocessDockerfile lib directives (Inr dockerfile) (im_statErr im) (im_writeErr im) of
                            (put, Inl e) \<Rightarrow> Inl e
                          | (put, Inr changed) \<Rightarrow>
                              (case replaceBuildVariablesInFile (im_metadata im) (im_statErr im) (im_writeErr im)
                                    (filepathJoin dstDir ''metadata.json'') vars of
                                 Inl e \<Rightarrow> Inl e
                               | Inr metadata \<Rightarrow>
                                   Inr (key, (case put of Some c \<Rightarrow> c | None \<Rightarrow> dockerfile), metadata)))))))"

fun prepareLoop ::
    "'d dockerfile_lib \<Rightarrow> 'd \<Rightarrow> string \<Rightarrow> string \<Rightarrow> (string \<times> string) list \<Rightarrow> image_dir list \<Rightarrow> (string \<times> string \<times> string) list result" where
  "prepareLoop lib directives imageDirs preparedRoot vars [] = Inr []"
| "prepareLoop lib directives imageDirs preparedRoot vars (im # ims) =
     (case prepareImageDir lib directives imageDirs preparedRoot vars im of
        Inl e \<Rightarrow> Inl e
      | Inr (key, dockerfile, metadata) \<Rightarrow>
          (case prepareLoop lib directives imageDirs preparedRoot vars ims of
             Inl e \<Rightarrow> Inl e
           | Inr rest \<Rightarrow> Inr ((im_name im, key, metadata) # rest)))"

definition prepareBuildImageDirs ::
    "'d dockerfile_lib \<Rightarrow> 'd \<Rightarrow> string \<Rightarrow> image_dir list result \<Rightarrow> string result \<Rightarrow> (string \<times> string) list \<Rightarrow>
     (string \<times> (string \<times> string \<times> string) list) result" where
  "prepareBuildImageDirs lib directives imageDirs listing tempDir vars = (case listing of
      Inl e \<Rightarrow> Inl (wrapErr ''read image-dirs'' e)
    | Inr entries \<Rightarrow>
        if entries = [] then Inl (Errorf (''image-dirs '' @ imageDirs @ '' does not contain any image directories''))
        else case tempDir of
          Inl e \<Rightarrow> Inl (wrapErr ''create temp image-dirs'' e)
        | Inr preparedRoot \<Rightarrow>
            (case prepareLoop lib directives imageDirs preparedRoot vars entries of
               Inl e \<Rightarrow> Inl e
             | Inr dirs \<Rightarrow> Inr (preparedRoot, dirs)))"

text \<open>\<^verbatim>\<open>loadImageMetadata\<close>: \<open>decode\<close> is the \<^verbatim>\<open>target\<close> field of the JSON text.\<close>

definition loadImageMetadata :: "(string \<Rightarrow> string result) \<Rightarrow> string \<Rightarrow> string result \<Rightarrow> string result" where
  "loadImageMetadata decode metaPath file = (case file of
      Inl e \<Rightarrow> Inl (wrapErr (''read '' @ metaPath) e)
    | Inr raw \<Rightarrow>
        (case decode raw of
           Inl e \<Rightarrow> Inl (wrapErr (''invalid '' @ metaPath) e)
         | Inr target \<Rightarrow>
             if trimSpace target = '''' then Inl (Errorf (metaPath @ '' has empty target''))
             else Inr (trimSpace target)))"

section \<open>Builds and jobs\<close>

record buildSpec =
  sp_dir :: string
  sp_target :: string
  sp_scheduleKey :: string
  sp_oci :: bool

record buildJob =
  jb_key :: string
  jb_scheduleKey :: string
  jb_specs :: "buildSpec list"

definition normalizeTargetForMode :: "string \<Rightarrow> bool \<Rightarrow> string" where
  "normalizeTargetForMode target oci = (if oci then stripNydusV3Suffix target else ensureNydusV3Suffix target)"

definition resolveBuildModes :: "bool \<Rightarrow> bool \<Rightarrow> bool list result" where
  "resolveBuildModes oci bothFormats =
     (if oci \<and> bothFormats then Inl (Errorf ''--oci and --both-formats are mutually exclusive'')
      else if bothFormats then Inr [False, True]
      else if oci then Inr [True] else Inr [False])"

definition targetFiltersOf :: "string \<Rightarrow> bool list \<Rightarrow> string list" where
  "targetFiltersOf target buildModes =
     (if trimSpace target \<noteq> '''' then map (normalizeTargetForMode target) buildModes else [])"

text \<open>The builds of one directory: one per mode that the target filter lets through.\<close>

definition specsOfDir :: "string list \<Rightarrow> bool list \<Rightarrow> string \<Rightarrow> string \<Rightarrow> string \<Rightarrow> buildSpec list" where
  "specsOfDir targetFilters buildModes dir metaTarget scheduleKey =
     concat (map (\<lambda>oci. let normalizedTarget = normalizeTargetForMode metaTarget oci in
        if targetFilters \<noteq> [] \<and> normalizedTarget \<notin> set targetFilters then []
        else [\<lparr>sp_dir = dir, sp_target = normalizedTarget, sp_scheduleKey = scheduleKey, sp_oci = oci\<rparr>]) buildModes)"

fun loadSpecsLoop ::
    "(string \<Rightarrow> string result) \<Rightarrow> string list \<Rightarrow> bool list \<Rightarrow> string \<Rightarrow> (string \<times> string \<times> string) list \<Rightarrow> buildSpec list result" where
  "loadSpecsLoop decode filters modes preparedRoot [] = Inr []"
| "loadSpecsLoop decode filters modes preparedRoot ((name, key, metadata) # rest) =
     (let dir = filepathJoin preparedRoot name in
      case loadImageMetadata decode (filepathJoin dir ''metadata.json'') (Inr metadata) of
        Inl e \<Rightarrow> Inl e
      | Inr target \<Rightarrow>
          if key = '''' then Inl (Errorf (''missing source context scheduling hash for '' @ dir))
          else case loadSpecsLoop decode filters modes preparedRoot rest of
            Inl e \<Rightarrow> Inl e
          | Inr specs \<Rightarrow> Inr (specsOfDir filters modes dir target key @ specs))"

text \<open>
  \<^verbatim>\<open>loadBuildSpecs\<close> with the prepared directories as the result of \<^verbatim>\<open>prepareBuildImageDirs\<close>. The builds are
  sorted by target; builds of the same target come from different directories and keep their order here.
\<close>

definition loadBuildSpecs ::
    "(string \<Rightarrow> string result) \<Rightarrow> string \<Rightarrow> string \<Rightarrow> bool list \<Rightarrow> (string \<times> (string \<times> string \<times> string) list) result \<Rightarrow> buildSpec list result" where
  "loadBuildSpecs decode imageDirs target buildModes prepared =
     (if imageDirs = '''' \<and> target = '''' then Inl (Errorf ''either --image-dirs or a positional [target] is required'')
      else if buildModes = [] then Inl (Errorf ''at least one build mode is required'')
      else if imageDirs = '''' then
        Inr (sort_key sp_target (map (\<lambda>oci. let normalizedTarget = normalizeTargetForMode target oci in
          \<lparr>sp_dir = '''', sp_target = normalizedTarget, sp_scheduleKey = stripNydusV3Suffix normalizedTarget, sp_oci = oci\<rparr>) buildModes))
      else case prepared of
        Inl e \<Rightarrow> Inl e
      | Inr (preparedRoot, dirs) \<Rightarrow>
          (case loadSpecsLoop decode (targetFiltersOf target buildModes) buildModes preparedRoot dirs of
             Inl e \<Rightarrow> Inl e
           | Inr specs \<Rightarrow> Inr (sort_key sp_target specs)))"

definition jobKey :: "buildSpec \<Rightarrow> string" where
  "jobKey spec = stripNydusV3Suffix (sp_target spec)"

definition jobOf :: "buildSpec list \<Rightarrow> string \<Rightarrow> buildJob" where
  "jobOf specs key =
     (let jobSpecs = sort_key (\<lambda>s. (sp_oci s, sp_target s)) (filter (\<lambda>s. jobKey s = key) specs);
          scheduleKey = (case jobSpecs of
             [] \<Rightarrow> key
           | s # _ \<Rightarrow> if trimSpace (sp_scheduleKey s) \<noteq> '''' then sp_scheduleKey s else key)
      in \<lparr>jb_key = key, jb_scheduleKey = scheduleKey, jb_specs = jobSpecs\<rparr>)"

definition groupBuildSpecs :: "buildSpec list \<Rightarrow> buildJob list" where
  "groupBuildSpecs specs = map (jobOf specs) (sort (remdups (map jobKey specs)))"

text \<open>The inner loop of \<^verbatim>\<open>filterBuildJobs\<close>: pending builds, whether all succeeded, whether any failed.\<close>

fun filterSpecs ::
    "(string \<Rightarrow> resultEntry option result) \<Rightarrow> bool \<Rightarrow> buildSpec list \<Rightarrow> (buildSpec list \<times> bool \<times> bool) result" where
  "filterSpecs get skipFail [] = Inr ([], True, False)"
| "filterSpecs get skipFail (spec # specs) = (case get (sp_target spec) of
      Inl e \<Rightarrow> Inl e
    | Inr found \<Rightarrow>
        (case filterSpecs get skipFail specs of
           Inl e \<Rightarrow> Inl e
         | Inr (pending, allSucceeded, anyFailed) \<Rightarrow>
             (case found of
                None \<Rightarrow> Inr (spec # pending, False, anyFailed)
              | Some entry \<Rightarrow>
                  if re_Success entry then Inr (pending, allSucceeded, anyFailed)
                  else Inr ((if skipFail then pending else spec # pending), False, True))))"

fun filterBuildJobs ::
    "(string \<Rightarrow> resultEntry option result) \<Rightarrow> bool \<Rightarrow> buildJob list \<Rightarrow>
     (buildJob list \<times> (string \<times> buildOutcomeState) list \<times> nat \<times> nat) result" where
  "filterBuildJobs get skipFail [] = Inr ([], [], 0, 0)"
| "filterBuildJobs get skipFail (job # jobs) = (case filterSpecs get skipFail (jb_specs job) of
      Inl e \<Rightarrow> Inl e
    | Inr (pending, allSucceeded, anyFailed) \<Rightarrow>
        (case filterBuildJobs get skipFail jobs of
           Inl e \<Rightarrow> Inl e
         | Inr (filtered, existing, nS, nF) \<Rightarrow>
             if jb_specs job \<noteq> [] \<and> allSucceeded then
               Inr (filtered, (jb_key job, buildOutcomeSucceeded) # existing, Suc nS, nF)
             else if anyFailed \<and> skipFail then
               Inr (filtered, (jb_key job, buildOutcomeFailed) # existing, nS, Suc nF)
             else Inr (job\<lparr>jb_specs := pending\<rparr> # filtered, existing, nS, nF)))"

section \<open>Preparing directories while building\<close>

text \<open>
  \<^verbatim>\<open>streamPreparedBuildJobs\<close>: the jobs it sends, the counters and its error. \<open>canceled\<close> says at
  which directories the context is over at the head of the loop, \<open>sent\<close> how many jobs of a directory are
  sent before it is over; \<open>get\<close> is the lookup of results at the time a directory is filtered.
\<close>

record stream_opts =
  so_imageDirs :: string
  so_preparedRoot :: string
  so_vars :: "(string \<times> string) list"
  so_modes :: "bool list"
  so_filters :: "string list"
  so_skipFail :: bool

fun streamPreparedBuildJobs ::
    "'d dockerfile_lib \<Rightarrow> 'd \<Rightarrow> (string \<Rightarrow> string result) \<Rightarrow> stream_opts \<Rightarrow> (nat \<Rightarrow> bool) \<Rightarrow> (nat \<Rightarrow> nat) \<Rightarrow>
     (nat \<Rightarrow> string \<Rightarrow> resultEntry option result) \<Rightarrow> nat \<Rightarrow> image_dir list \<Rightarrow> buildOutcomeCounters \<Rightarrow>
     buildJob list \<times> buildOutcomeCounters \<times> go_error option" where
  "streamPreparedBuildJobs lib directives decode opts canceled sent get idx [] c = ([], c, None)"
| "streamPreparedBuildJobs lib directives decode opts canceled sent get idx (im # ims) c =
     (if canceled idx then ([], c, Some context_Canceled)
      else case prepareImageDir lib directives (so_imageDirs opts) (so_preparedRoot opts) (so_vars opts) im of
        Inl e \<Rightarrow> ([], c, Some e)
      | Inr (key, dockerfile, metadata) \<Rightarrow>
          (let dstDir = filepathJoin (so_preparedRoot opts) (im_name im) in
           case loadImageMetadata decode (filepathJoin dstDir ''metadata.json'') (Inr metadata) of
             Inl e \<Rightarrow> ([], c, Some e)
           | Inr target \<Rightarrow>
               (let specs = specsOfDir (so_filters opts) (so_modes opts) dstDir target key in
                if specs = [] then
                  streamPreparedBuildJobs lib directives decode opts canceled sent get (Suc idx) ims (fst (decrementTotal c))
                else case filterBuildJobs (get idx) (so_skipFail opts) (groupBuildSpecs specs) of
                  Inl e \<Rightarrow> ([], c, Some e)
                | Inr (jobs, existing, nS, nF) \<Rightarrow>
                    (let c' = foldl (\<lambda>c (t, st). fst (applyExisting t st c)) c existing in
                     if sent idx < length jobs then (take (sent idx) jobs, c', Some context_Canceled)
                     else (case streamPreparedBuildJobs lib directives decode opts canceled sent get (Suc idx) ims c' of
                             (rest, c'', err) \<Rightarrow> (jobs @ rest, c'', err))))))"

section \<open>Lemmas\<close>

definition specDone :: "(string \<Rightarrow> resultEntry option result) \<Rightarrow> buildSpec \<Rightarrow> bool" where
  "specDone get s \<longleftrightarrow> (case get (sp_target s) of Inr (Some e) \<Rightarrow> re_Success e | _ \<Rightarrow> False)"

definition specFailed :: "(string \<Rightarrow> resultEntry option result) \<Rightarrow> buildSpec \<Rightarrow> bool" where
  "specFailed get s \<longleftrightarrow> (case get (sp_target s) of Inr (Some e) \<Rightarrow> \<not> re_Success e | _ \<Rightarrow> False)"

lemma filterSpecs_Inr:
  assumes "filterSpecs get skipFail specs = Inr (pending, allS, anyF)"
  shows "pending = filter (\<lambda>s. \<not> specDone get s \<and> \<not> (skipFail \<and> specFailed get s)) specs \<and>
    allS = (\<forall>s \<in> set specs. specDone get s) \<and> anyF = (\<exists>s \<in> set specs. specFailed get s)"
  using assms
proof (induction specs arbitrary: pending allS anyF)
  case (Cons s specs)
  obtain found where f: "get (sp_target s) = Inr found" using Cons.prems by (cases "get (sp_target s)") auto
  obtain p a b where r: "filterSpecs get skipFail specs = Inr (p, a, b)"
    using Cons.prems f by (cases "filterSpecs get skipFail specs") auto
  from Cons.IH [OF r] Cons.prems f r show ?case
    by (cases found) (auto simp: specDone_def specFailed_def split: if_split_asm)
qed simp

lemma jobOf_specs: "mset (jb_specs (jobOf specs key)) = {#s \<in># mset specs. jobKey s = key#}"
  by (simp add: jobOf_def Let_def mset_filter)

lemma jobOf_key [simp]: "jb_key (jobOf specs key) = key"
  by (simp add: jobOf_def Let_def)

lemma jobOf_set: "set (jb_specs (jobOf specs key)) = {s \<in> set specs. jobKey s = key}"
  using arg_cong [OF jobOf_specs [of specs key], of set_mset] by auto

lemma groupBuildSpecs_keys:
  "map jb_key (groupBuildSpecs specs) = sort (remdups (map jobKey specs))"
  by (simp add: groupBuildSpecs_def comp_def)

text \<open>What filtering keeps of a job, and what it keeps of all of them.\<close>

definition jobSkipped :: "(string \<Rightarrow> resultEntry option result) \<Rightarrow> bool \<Rightarrow> buildJob \<Rightarrow> bool" where
  "jobSkipped get skipFail job \<longleftrightarrow> (jb_specs job \<noteq> [] \<and> (\<forall>s \<in> set (jb_specs job). specDone get s)) \<or>
     (skipFail \<and> (\<exists>s \<in> set (jb_specs job). specFailed get s))"

lemma filterBuildJobs_Inr:
  assumes "filterBuildJobs get skipFail jobs = Inr (filtered, existing, nS, nF)"
  shows "filtered = map (\<lambda>j. j\<lparr>jb_specs := filter (\<lambda>s. \<not> specDone get s) (jb_specs j)\<rparr>) (filter (\<lambda>j. \<not> jobSkipped get skipFail j) jobs) \<and>
    existing = map (\<lambda>j. (jb_key j, if \<forall>s \<in> set (jb_specs j). specDone get s then buildOutcomeSucceeded else buildOutcomeFailed))
      (filter (jobSkipped get skipFail) jobs) \<and> length existing = nS + nF"
  using assms
proof (induction jobs arbitrary: filtered existing nS nF)
  case (Cons j jobs)
  obtain p a b where f: "filterSpecs get skipFail (jb_specs j) = Inr (p, a, b)"
    using Cons.prems by (cases "filterSpecs get skipFail (jb_specs j)") auto
  obtain fl ex s n where r: "filterBuildJobs get skipFail jobs = Inr (fl, ex, s, n)"
    using Cons.prems f by (cases "filterBuildJobs get skipFail jobs") auto
  note fs = filterSpecs_Inr [OF f] and IH = Cons.IH [OF r]
  consider (all) "jb_specs j \<noteq> [] \<and> a" | (failed) "\<not> (jb_specs j \<noteq> [] \<and> a)" "b \<and> skipFail"
    | (kept) "\<not> (jb_specs j \<noteq> [] \<and> a)" "\<not> (b \<and> skipFail)" by blast
  then show ?case
  proof cases
    case all
    then have "jobSkipped get skipFail j" using fs by (simp add: jobSkipped_def)
    with all Cons.prems f r IH fs show ?thesis by auto
  next
    case failed
    then have "jobSkipped get skipFail j" using fs by (auto simp: jobSkipped_def)
    moreover have "\<not> (\<forall>s \<in> set (jb_specs j). specDone get s)" using failed fs by (auto simp: jobSkipped_def specFailed_def)
    ultimately show ?thesis using failed Cons.prems f r IH by auto
  next
    case kept
    then have "\<not> jobSkipped get skipFail j" using fs by (auto simp: jobSkipped_def)
    moreover have "p = filter (\<lambda>s. \<not> specDone get s) (jb_specs j)"
      using fs kept(2) by (auto intro!: filter_cong)
    ultimately show ?thesis using kept Cons.prems f r IH by auto
  qed
qed simp

lemma mset_concat_by_key:
  assumes "distinct keys" "\<And>s. s \<in># M \<Longrightarrow> P s \<Longrightarrow> f s \<in> set keys"
    and g: "\<And>k. k \<in> set keys \<Longrightarrow> mset (g k) = {#s \<in># M. P s \<and> f s = k#}"
  shows "mset (concat (map g keys)) = {#s \<in># M. P s#}"
proof -
  have "mset (concat (map g ks)) = {#s \<in># M. P s \<and> f s \<in> set ks#}" if "distinct ks" "set ks \<subseteq> set keys" for ks
    using that
  proof (induction ks)
    case (Cons k ks)
    have "{#s \<in># M. P s \<and> f s \<in> set (k # ks)#} = {#s \<in># M. P s \<and> f s = k#} + {#s \<in># M. P s \<and> f s \<in> set ks#}"
      using Cons.prems by (auto simp: multiset_eq_iff)
    with Cons g show ?case by simp
  qed simp
  from this [of keys] assms show ?thesis by (auto intro: filter_mset_cong)
qed

text \<open>The jobs and the known outcomes, by the keys that are skipped and those that are not.\<close>

definition keySkipped :: "(string \<Rightarrow> resultEntry option result) \<Rightarrow> bool \<Rightarrow> buildSpec list \<Rightarrow> string \<Rightarrow> bool" where
  "keySkipped get skipFail specs k \<longleftrightarrow> (\<forall>s \<in> set specs. jobKey s = k \<longrightarrow> specDone get s) \<or>
     (skipFail \<and> (\<exists>s \<in> set specs. jobKey s = k \<and> specFailed get s))"

definition pendingSpecs :: "(string \<Rightarrow> resultEntry option result) \<Rightarrow> buildSpec list \<Rightarrow> string \<Rightarrow> buildSpec list" where
  "pendingSpecs get specs k = filter (\<lambda>s. \<not> specDone get s) (jb_specs (jobOf specs k))"

lemma filtered_by_key:
  assumes "filterBuildJobs get skipFail (groupBuildSpecs specs) = Inr (jobs, existing, nS, nF)"
  defines "keys \<equiv> sort (remdups (map jobKey specs))"
  shows "jobs = map (\<lambda>k. (jobOf specs k)\<lparr>jb_specs := pendingSpecs get specs k\<rparr>) (filter (\<lambda>k. \<not> keySkipped get skipFail specs k) keys)"
    "existing = map (\<lambda>k. (k, if \<forall>s \<in> set (jb_specs (jobOf specs k)). specDone get s then buildOutcomeSucceeded else buildOutcomeFailed))
      (filter (keySkipped get skipFail specs) keys)" "length existing = nS + nF"
proof -
  have skip: "jobSkipped get skipFail (jobOf specs k) \<longleftrightarrow> keySkipped get skipFail specs k" if "k \<in> set keys" for k
  proof -
    have "jb_specs (jobOf specs k) \<noteq> []" using that jobOf_set [of specs k] by (force simp: keys_def)
    then show ?thesis unfolding jobSkipped_def keySkipped_def jobOf_set by blast
  qed
  have f: "filter (\<lambda>j. \<not> jobSkipped get skipFail j) (groupBuildSpecs specs) = map (jobOf specs) (filter (\<lambda>k. \<not> keySkipped get skipFail specs k) keys)"
    "filter (jobSkipped get skipFail) (groupBuildSpecs specs) = map (jobOf specs) (filter (keySkipped get skipFail specs) keys)"
    using skip by (auto simp: groupBuildSpecs_def keys_def filter_map comp_def intro!: arg_cong [where f = "map (jobOf specs)"] filter_cong)
  note r = filterBuildJobs_Inr [OF assms(1), unfolded f]
  show "jobs = map (\<lambda>k. (jobOf specs k)\<lparr>jb_specs := pendingSpecs get specs k\<rparr>) (filter (\<lambda>k. \<not> keySkipped get skipFail specs k) keys)"
    "existing = map (\<lambda>k. (k, if \<forall>s \<in> set (jb_specs (jobOf specs k)). specDone get s then buildOutcomeSucceeded else buildOutcomeFailed))
      (filter (keySkipped get skipFail specs) keys)"
    using r by (simp_all add: comp_def pendingSpecs_def)
  show "length existing = nS + nF" using r by blast
qed

lemma pending_mset:
  "mset (concat (map (pendingSpecs get specs) (filter (\<lambda>k. \<not> keySkipped get skipFail specs k) (sort (remdups (map jobKey specs)))))) =
    {#s \<in># mset specs. \<not> specDone get s \<and> \<not> (skipFail \<and> (\<exists>s' \<in> set specs. jobKey s' = jobKey s \<and> specFailed get s'))#}"
proof (rule mset_concat_by_key [where f = jobKey])
  show "mset (pendingSpecs get specs k) = {#s \<in># mset specs. (\<not> specDone get s \<and>
      \<not> (skipFail \<and> (\<exists>s' \<in> set specs. jobKey s' = jobKey s \<and> specFailed get s'))) \<and> jobKey s = k#}"
    if "k \<in> set (filter (\<lambda>k. \<not> keySkipped get skipFail specs k) (sort (remdups (map jobKey specs))))" for k
    using that by (auto simp: pendingSpecs_def mset_filter jobOf_specs filter_filter_mset keySkipped_def intro!: filter_mset_cong)
qed (auto simp: keySkipped_def)

text \<open>
  C40. A batch builds exactly what is left to build. Grouping and filtering give one job per image, in
  the order of the image names, with at least one build each; every build whose result is not yet a
  success is in exactly one job, unless failures are to be skipped and a build of the same image has
  failed; the images without a job are the ones counted and reported as known outcomes.
\<close>

theorem jobs_exact:
  assumes "filterBuildJobs get skipFail (groupBuildSpecs specs) = Inr (jobs, existing, nS, nF)"
  shows "mset (concat (map jb_specs jobs)) =
      {#s \<in># mset specs. \<not> specDone get s \<and> \<not> (skipFail \<and> (\<exists>s' \<in> set specs. jobKey s' = jobKey s \<and> specFailed get s'))#} \<and>
    sorted (map jb_key jobs) \<and> distinct (map jb_key jobs @ map fst existing) \<and>
    set (map jb_key jobs @ map fst existing) = jobKey ` set specs \<and> length existing = nS + nF \<and>
    (\<forall>j \<in> set jobs. jb_specs j \<noteq> [] \<and> (\<forall>s \<in> set (jb_specs j). jobKey s = jb_key j)) \<and>
    (\<forall>s \<in> set specs. map_of existing (jobKey s) = Some buildOutcomeSucceeded \<longrightarrow> specDone get s)"
proof -
  let ?K = "sort (remdups (map jobKey specs))"
  let ?K1 = "filter (\<lambda>k. \<not> keySkipped get skipFail specs k) ?K" and ?K2 = "filter (keySkipped get skipFail specs) ?K"
  note r = filtered_by_key [OF assms]
  have keys: "map jb_key jobs = ?K1" "map fst existing = ?K2" "concat (map jb_specs jobs) = concat (map (pendingSpecs get specs) ?K1)"
    using r(1,2) by (simp_all add: comp_def)
  have "sorted ?K1" using sorted_wrt_filter [OF sorted_sort, of _ "remdups (map jobKey specs)"] by simp
  moreover have "distinct (?K1 @ ?K2)" "set (?K1 @ ?K2) = jobKey ` set specs" by auto
  moreover have "jb_specs j \<noteq> [] \<and> (\<forall>s \<in> set (jb_specs j). jobKey s = jb_key j)" if "j \<in> set jobs" for j
  proof -
    from that obtain k where k: "k \<in> set ?K1" "j = (jobOf specs k)\<lparr>jb_specs := pendingSpecs get specs k\<rparr>" unfolding r(1) by auto
    then have "\<exists>s \<in> set specs. jobKey s = k \<and> \<not> specDone get s" by (auto simp: keySkipped_def)
    with k jobOf_set [of specs k] show ?thesis by (auto simp: filter_empty_conv pendingSpecs_def)
  qed
  moreover have "specDone get s" if "s \<in> set specs" "map_of existing (jobKey s) = Some buildOutcomeSucceeded" for s
  proof -
    have "\<forall>x \<in> set (jb_specs (jobOf specs (jobKey s))). specDone get x"
      using map_of_SomeD [OF that(2)] unfolding r(2) by (auto split: if_split_asm)
    then show ?thesis using that(1) jobOf_set [of specs "jobKey s"] by auto
  qed
  ultimately show ?thesis using pending_mset [of get specs skipFail] r(3) unfolding keys by metis
qed

definition demoSpecs :: "buildSpec list" where
  "demoSpecs = [\<lparr>sp_dir = ''/a'', sp_target = ''r/a_nydus_v3'', sp_scheduleKey = ''k'', sp_oci = False\<rparr>,
     \<lparr>sp_dir = ''/a'', sp_target = ''r/a'', sp_scheduleKey = ''k'', sp_oci = True\<rparr>,
     \<lparr>sp_dir = ''/b'', sp_target = ''r/b'', sp_scheduleKey = ''l'', sp_oci = True\<rparr>]"

definition demoGet :: "string \<Rightarrow> resultEntry option result" where
  "demoGet t = Inr (if t = ''r/a'' \<or> t = ''r/b'' then Some (demoResult\<lparr>re_Target := t, re_Success := True\<rparr>) else None)"

theorem jobs_exact_witness:
  "\<exists>jobs existing nS nF. filterBuildJobs demoGet False (groupBuildSpecs demoSpecs) = Inr (jobs, existing, nS, nF) \<and>
     mset (concat (map jb_specs jobs)) = {# hd demoSpecs #} \<and> map fst existing = [''r/b'']"
proof -
  have "case filterBuildJobs demoGet False (groupBuildSpecs demoSpecs) of Inr (jobs, existing, nS, nF) \<Rightarrow> map fst existing = [''r/b''] | _ \<Rightarrow> False"
    by code_simp
  then obtain jobs existing nS nF where f: "filterBuildJobs demoGet False (groupBuildSpecs demoSpecs) = Inr (jobs, existing, nS, nF)"
    "map fst existing = [''r/b'']" by (auto split: sum.split_asm prod.split_asm)
  moreover have "{#s \<in># mset demoSpecs. \<not> specDone demoGet s#} = {# hd demoSpecs #}"
    by (simp add: demoSpecs_def specDone_def demoGet_def demoResult_def)
  ultimately show ?thesis using jobs_exact [OF f(1)] by simp
qed

text \<open>
  Replacing the variables one after the other depends on the order of the loop over the map when one
  name begins with another.
\<close>

lemma variables_order_dependent:
  "replaceBuildVariables ''$BUILDCTL_BATCH_AB'' ''f'' [(''BUILDCTL_BATCH_A'', ''x''), (''BUILDCTL_BATCH_AB'', ''y'')] = Inr ''xB'' \<and>
   replaceBuildVariables ''$BUILDCTL_BATCH_AB'' ''f'' [(''BUILDCTL_BATCH_AB'', ''y''), (''BUILDCTL_BATCH_A'', ''x'')] = Inr ''y''"
  by code_simp

text \<open>
  A directory gives one job per run, except for a target whose name ends with the format suffix twice:
  its two formats have different keys. The retry channel of the streaming command has room for one task
  per directory and one more.
\<close>

lemma two_jobs_of_a_directory:
  "length (groupBuildSpecs (specsOfDir [] [False, True] ''/d'' ''a_nydus_v3_nydus_v3'' ''k'')) = 2"
  by code_simp

end
