(* ===== verification/Batch_Pool.thy ===== *)
theory Batch_Pool
  imports Addr_Pool
begin

text \<open>
  The worker pool of the batch builder, \<^verbatim>\<open>internal/buildbatch/scheduler.go\<close> and
  \<^verbatim>\<open>buildkit_addresses.go\<close>. Pool, ring and semaphores are those of the daemon's pool (the two files hold
  the same code); the batch builder adds a cooldown per worker and chooses in two passes, first among
  the workers that are not cooling down. The cooldown of a worker is kept with its slot, since a slot
  keeps its address.
\<close>

record batch_pool =
  bp_pool :: addrPool
  bp_until :: "slot_ptr \<Rightarrow> time"
  bp_cooldown :: duration

definition isInCooldown :: "time \<Rightarrow> batch_pool \<Rightarrow> slot_ptr \<Rightarrow> bool" where
  "isInCooldown now p ptr \<longleftrightarrow> now < bp_until p ptr"

definition setCooldown :: "time \<Rightarrow> slot_ptr \<Rightarrow> batch_pool \<Rightarrow> batch_pool" where
  "setCooldown now ptr p = p\<lparr>bp_until := (bp_until p)(ptr := now + bp_cooldown p)\<rparr>"

definition batch_newAddrPool :: "buildkitAddr list \<Rightarrow> nat \<Rightarrow> duration \<Rightarrow> batch_pool" where
  "batch_newAddrPool addrs concurrency cooldown =
     \<lparr>bp_pool = newAddrPool (map Some addrs) concurrency, bp_until = (\<lambda>_. 0), bp_cooldown = cooldown\<rparr>"

text \<open>A tick of \<^verbatim>\<open>runBuildkitAddrRefresher\<close>: a parse error leaves the pool as it is.\<close>

definition batch_refreshTick :: "buildkitAddr list result \<Rightarrow> batch_pool \<Rightarrow> batch_pool" where
  "batch_refreshTick parsed p = (case parsed of
      Inl e \<Rightarrow> p
    | Inr addrs \<Rightarrow> p\<lparr>bp_pool := pool_replace (bp_pool p) (map Some addrs)\<rparr>)"

text \<open>\<^verbatim>\<open>pickAddrSlot\<close>: the first worker of the ranking that is ready, else the first one.\<close>

definition pickAddrSlot :: "time \<Rightarrow> batch_pool \<Rightarrow> string \<Rightarrow> slot_ptr option option" where
  "pickAddrSlot now p key = map_option (\<lambda>order.
     case find (\<lambda>ptr. \<not> isInCooldown now p ptr) order of
       Some ptr \<Rightarrow> Some ptr
     | None \<Rightarrow> (case order of [] \<Rightarrow> None | ptr # _ \<Rightarrow> Some ptr)) (orderedAddrSlots (pool_snapshot (bp_pool p)) key)"

text \<open>
  \<^verbatim>\<open>pickAvailableAddrSlot\<close>: the pass over the ready workers, then the pass over all. The outer option is
  the walk of the ring that may not end.
\<close>

definition batch_pick :: "time \<Rightarrow> batch_pool \<Rightarrow> string \<Rightarrow> (batch_pool \<times> slot_ptr) option option" where
  "batch_pick now p key = map_option (\<lambda>order.
     let heap = ap_heap (bp_pool p);
         took = (\<lambda>(heap', ptr). (p\<lparr>bp_pool := (bp_pool p)\<lparr>ap_heap := heap'\<rparr>\<rparr>, ptr)) in
     case pickLoop heap (filter (\<lambda>ptr. \<not> isInCooldown now p ptr) order) of
       Some r \<Rightarrow> Some (took r)
     | None \<Rightarrow> map_option took (pickLoop heap order)) (orderedAddrSlots (pool_snapshot (bp_pool p)) key)"

text \<open>
  One turn of \<^verbatim>\<open>waitForAvailableAddrSlot\<close>: the context is over, a slot was taken, or the loop sleeps.
\<close>

datatype wait_turn = WaitCanceled | WaitTook batch_pool slot_ptr | WaitAgain

definition waitForAvailableAddrSlot :: "bool \<Rightarrow> time \<Rightarrow> batch_pool \<Rightarrow> string \<Rightarrow> wait_turn option" where
  "waitForAvailableAddrSlot canceled now p key =
     (if canceled then Some WaitCanceled
      else map_option (\<lambda>r. case r of Some (p', ptr) \<Rightarrow> WaitTook p' ptr | None \<Rightarrow> WaitAgain) (batch_pick now p key))"

definition batch_release :: "slot_ptr \<Rightarrow> batch_pool \<Rightarrow> batch_pool option" where
  "batch_release ptr p = map_option (\<lambda>heap. p\<lparr>bp_pool := (bp_pool p)\<lparr>ap_heap := heap\<rparr>\<rparr>) (releaseAddrSlot (ap_heap (bp_pool p)) ptr)"

section \<open>Lemmas\<close>

abbreviation slot_load :: "batch_pool \<Rightarrow> slot_ptr \<Rightarrow> nat" where
  "slot_load p ptr \<equiv> sem_len (as_sem (ap_heap (bp_pool p) ! ptr))"

abbreviation slot_count :: "batch_pool \<Rightarrow> nat" where
  "slot_count p \<equiv> length (ap_heap (bp_pool p))"

text \<open>What taking and giving back a slot does to the loads.\<close>

lemma pickLoop_took:
  assumes "pickLoop heap ptrs = Some (heap', ptr)"
  shows "ptr \<in> set ptrs \<and> \<not> slot_full heap ptr \<and>
    heap' = setSem heap ptr ((as_sem (heap ! ptr))\<lparr>sem_len := Suc (sem_len (as_sem (heap ! ptr)))\<rparr>)"
  using assms by (auto elim!: pickLoop_Some simp: tryAcquireAddrSlot_Some)

lemma batch_pick_order:
  assumes "batch_pick now p key = Some (Some (p', ptr))"
  obtains order heap' where "orderedAddrSlots (pool_snapshot (bp_pool p)) key = Some order" "ptr \<in> set order"
    "p' = p\<lparr>bp_pool := (bp_pool p)\<lparr>ap_heap := heap'\<rparr>\<rparr>" "\<not> slot_full (ap_heap (bp_pool p)) ptr"
    "heap' = setSem (ap_heap (bp_pool p)) ptr ((as_sem (ap_heap (bp_pool p) ! ptr))\<lparr>sem_len := Suc (slot_load p ptr)\<rparr>)"
    "isInCooldown now p ptr \<longrightarrow> (\<forall>q \<in> set order. \<not> isInCooldown now p q \<longrightarrow> slot_full (ap_heap (bp_pool p)) q)"
proof -
  let ?heap = "ap_heap (bp_pool p)"
  from assms obtain order where o: "orderedAddrSlots (pool_snapshot (bp_pool p)) key = Some order"
    by (auto simp: batch_pick_def)
  note r = assms [unfolded batch_pick_def o Let_def, simplified]
  show thesis
  proof (cases "pickLoop ?heap (filter (\<lambda>ptr. \<not> isInCooldown now p ptr) order)")
    case None
    with r obtain heap' where h: "pickLoop ?heap order = Some (heap', ptr)" "p' = p\<lparr>bp_pool := (bp_pool p)\<lparr>ap_heap := heap'\<rparr>\<rparr>"
      by auto
    moreover have "\<forall>q \<in> set order. \<not> isInCooldown now p q \<longrightarrow> slot_full ?heap q" using None by (auto simp: pickLoop_None)
    ultimately show ?thesis using that [OF o _ h(2)] pickLoop_took [OF h(1)] by blast
  next
    case (Some y)
    with r obtain heap' where h: "pickLoop ?heap (filter (\<lambda>ptr. \<not> isInCooldown now p ptr) order) = Some (heap', ptr)"
      "p' = p\<lparr>bp_pool := (bp_pool p)\<lparr>ap_heap := heap'\<rparr>\<rparr>" by (cases y) auto
    from pickLoop_took [OF h(1)] show ?thesis using that [OF o _ h(2)] by auto
  qed
qed

lemma ordered_in_slots:
  "orderedAddrSlots (pool_snapshot p) key = Some order \<Longrightarrow> ptr \<in> set order \<Longrightarrow> ptr \<in> set (ap_slots p)"
  by (auto simp: orderedAddrSlots_def pool_snapshot_def split: option.split_asm if_split_asm)

lemma slot_load_set:
  assumes "pool_wf (bp_pool p)" "ptr < slot_count p" "n \<le> sem_cap (as_sem (ap_heap (bp_pool p) ! ptr))"
    and "p' = p\<lparr>bp_pool := (bp_pool p)\<lparr>ap_heap := setSem (ap_heap (bp_pool p)) ptr ((as_sem (ap_heap (bp_pool p) ! ptr))\<lparr>sem_len := n\<rparr>)\<rparr>\<rparr>"
  shows "slot_count p' = slot_count p \<and> pool_wf (bp_pool p') \<and> ap_concurrency (bp_pool p') = ap_concurrency (bp_pool p) \<and>
    (\<forall>q < slot_count p. slot_load p' q = (if q = ptr then n else slot_load p q))"
  using pool_setSem_wf [OF assms(1,2), of "(as_sem (ap_heap (bp_pool p) ! ptr))\<lparr>sem_len := n\<rparr>"] assms
  by (simp add: sem_ok_def as_sem_setSem)

lemma batch_pick_load:
  assumes "batch_pick now p key = Some (Some (p', ptr))" "pool_wf (bp_pool p)"
  shows "ptr < slot_count p \<and> slot_count p' = slot_count p \<and> pool_wf (bp_pool p') \<and>
    ap_concurrency (bp_pool p') = ap_concurrency (bp_pool p) \<and>
    (\<forall>q < slot_count p. slot_load p' q = slot_load p q + of_bool (q = ptr))"
proof -
  obtain order heap' where o: "orderedAddrSlots (pool_snapshot (bp_pool p)) key = Some order" "ptr \<in> set order"
    "\<not> slot_full (ap_heap (bp_pool p)) ptr" and p': "p' = p\<lparr>bp_pool := (bp_pool p)\<lparr>ap_heap := heap'\<rparr>\<rparr>"
    "heap' = setSem (ap_heap (bp_pool p)) ptr ((as_sem (ap_heap (bp_pool p) ! ptr))\<lparr>sem_len := Suc (slot_load p ptr)\<rparr>)"
    using batch_pick_order [OF assms(1)] by metis
  have ptr: "ptr < slot_count p"
    using ordered_in_slots [OF o(1,2)] assms(2) by (simp add: pool_wf_def)
  with slot_load_set [OF assms(2) ptr, of "Suc (slot_load p ptr)"] o(3) p' show ?thesis by auto
qed

lemma batch_release_load:
  assumes "batch_release ptr p = Some p'" "pool_wf (bp_pool p)" "ptr < slot_count p"
  shows "slot_count p' = slot_count p \<and> pool_wf (bp_pool p') \<and> ap_concurrency (bp_pool p') = ap_concurrency (bp_pool p) \<and>
    (\<forall>q < slot_count p. slot_load p' q + of_bool (q = ptr) = slot_load p q)"
proof -
  have pos: "0 < slot_load p ptr" and p': "p' = p\<lparr>bp_pool := (bp_pool p)\<lparr>ap_heap :=
      setSem (ap_heap (bp_pool p)) ptr ((as_sem (ap_heap (bp_pool p) ! ptr))\<lparr>sem_len := slot_load p ptr - 1\<rparr>)\<rparr>\<rparr>"
    using assms(1) by (auto simp: batch_release_def releaseAddrSlot_Some)
  have "sem_ok (as_sem (ap_heap (bp_pool p) ! ptr))" using assms(2,3) by (simp add: pool_wf_def)
  with slot_load_set [OF assms(2,3) _ p'] pos show ?thesis by (auto simp: sem_ok_def)
qed

lemma batch_release_enabled: "0 < slot_load p ptr \<Longrightarrow> batch_release ptr p \<noteq> None"
  by (simp add: batch_release_def releaseAddrSlot_def sem_recv_def)

text \<open>
  A batch prefers workers that are not cooling down and never waits while one has room. The
  choice for a job takes a worker of the pool that has room; a worker in cooldown is taken only when
  every worker that is not in cooldown is full, and no worker is taken only when all of them are full.
\<close>

theorem batch_pick_choice:
  assumes "pool_wf (bp_pool p)" "pool_ring_complete (bp_pool p)" "batch_pick now p key = Some r"
  shows "case r of
      None \<Rightarrow> \<forall>q \<in> set (ap_slots (bp_pool p)). slot_full (ap_heap (bp_pool p)) q
    | Some (p', ptr) \<Rightarrow> ptr \<in> set (ap_slots (bp_pool p)) \<and> \<not> slot_full (ap_heap (bp_pool p)) ptr \<and>
        (isInCooldown now p ptr \<longrightarrow>
          (\<forall>q \<in> set (ap_slots (bp_pool p)). \<not> isInCooldown now p q \<longrightarrow> slot_full (ap_heap (bp_pool p)) q)) \<and>
        (\<forall>q < slot_count p. slot_load p' q = slot_load p q + of_bool (q = ptr))"
proof -
  obtain order where o: "orderedAddrSlots (pool_snapshot (bp_pool p)) key = Some order" "mset order = mset (ap_slots (bp_pool p))"
    using orderedAddrSlots_pool [OF assms(1,2)] by blast
  then have s: "set order = set (ap_slots (bp_pool p))" by (metis set_mset_mset)
  show ?thesis
  proof (cases r)
    case None
    then have "pickLoop (ap_heap (bp_pool p)) order = None"
      using assms(3) o(1) by (auto simp: batch_pick_def Let_def split: option.split_asm)
    with None s show ?thesis by (simp add: pickLoop_None)
  next
    case (Some x)
    obtain p' ptr where x: "x = (p', ptr)" by fastforce
    note pick = assms(3) [unfolded Some x]
    obtain order' where "orderedAddrSlots (pool_snapshot (bp_pool p)) key = Some order'" "ptr \<in> set order'"
      "\<not> slot_full (ap_heap (bp_pool p)) ptr"
      "isInCooldown now p ptr \<longrightarrow> (\<forall>q \<in> set order'. \<not> isInCooldown now p q \<longrightarrow> slot_full (ap_heap (bp_pool p)) q)"
      using batch_pick_order [OF pick] by metis
    with o(1) s batch_pick_load [OF pick assms(1)] Some x show ?thesis by simp
  qed
qed

definition demoBatchPool :: batch_pool where
  "demoBatchPool = (batch_newAddrPool [\<lparr>ba_original = ''w'', ba_addr = ''tcp://w:1'', ba_nodeIP = ''''\<rparr>] 1 5)"

lemma demo_ring: "ring_complete (newConsistentHash 1 ringReplicas)"
  by (subst ring_complete_new_iff) (auto simp: ringReplicas_def intro: exI [of _ 0])

lemma demoBatchPool_ok:
  "pool_wf (bp_pool demoBatchPool)" "pool_ring_complete (bp_pool demoBatchPool)" "ap_slots (bp_pool demoBatchPool) = [0]"
  "ap_heap (bp_pool demoBatchPool) = [\<lparr>as_addr = \<lparr>ba_original = ''w'', ba_addr = ''tcp://w:1'', ba_nodeIP = ''''\<rparr>, as_sem = makeSem 1\<rparr>]"
proof -
  show s: "ap_slots (bp_pool demoBatchPool) = [0]"
    "ap_heap (bp_pool demoBatchPool) = [\<lparr>as_addr = \<lparr>ba_original = ''w'', ba_addr = ''tcp://w:1'', ba_nodeIP = ''''\<rparr>, as_sem = makeSem 1\<rparr>]"
    by (simp_all add: demoBatchPool_def batch_newAddrPool_def newAddrPool_def pool_replace_def existingSlots_def)
  show "pool_wf (bp_pool demoBatchPool)"
    by (simp add: demoBatchPool_def batch_newAddrPool_def newAddrPool_wf)
  show "pool_ring_complete (bp_pool demoBatchPool)" using s demo_ring by (simp add: pool_ring_complete_def)
qed

theorem batch_pick_choice_witness:
  "\<exists>p'. batch_pick 3 (setCooldown 0 0 demoBatchPool) ''job'' = Some (Some (p', 0)) \<and> slot_load p' 0 = 1"
proof -
  let ?p = "setCooldown 0 0 demoBatchPool"
  have ok: "pool_wf (bp_pool ?p)" "pool_ring_complete (bp_pool ?p)" using demoBatchPool_ok by (simp_all add: setCooldown_def)
  obtain order where "orderedAddrSlots (pool_snapshot (bp_pool ?p)) ''job'' = Some order"
    using orderedAddrSlots_pool [OF ok] by blast
  then obtain r where r: "batch_pick 3 ?p ''job'' = Some r" by (simp add: batch_pick_def)
  from batch_pick_choice [OF ok r] r show ?thesis
    using demoBatchPool_ok by (auto simp: setCooldown_def makeSem_def split: option.split_asm prod.split_asm)
qed

end
