(* ===== verification/Output_Capture.thy ===== *)
theory Output_Capture
  imports Build_Steps
begin

text \<open>
  The bounded capture of a build's output in the batch builder,
  \<^verbatim>\<open>internal/buildbatch/build_execution.go\<close>: a ring buffer that keeps the last bytes written to it. It
  is proved to implement the abstract log that is cut to its last bytes after every write.
\<close>

section \<open>The ring buffer\<close>

definition maxBuildLogBytes :: nat where
  "maxBuildLogBytes = 2 ^ 20"

record buildOutputCapture =
  oc_buffer :: string
  oc_start :: nat
  oc_size :: nat
  oc_truncated :: bool

text \<open>\<^verbatim>\<open>make([]byte, n)\<close> is zeroed; the size is an argument, \<^const>\<open>maxBuildLogBytes\<close> in the code.\<close>

definition newBuildOutputCapture :: "nat \<Rightarrow> buildOutputCapture" where
  "newBuildOutputCapture n = \<lparr>oc_buffer = replicate n (CHR 0x00), oc_start = 0, oc_size = 0, oc_truncated = False\<rparr>"

text \<open>\<^verbatim>\<open>copy(dst[i:], src)\<close>: the new slice and the number of bytes copied.\<close>

definition copyAt :: "'a list \<Rightarrow> nat \<Rightarrow> 'a list \<Rightarrow> 'a list \<times> nat" where
  "copyAt dst i src =
     (let n = min (length dst - i) (length src) in (take i dst @ take n src @ drop (i + n) dst, n))"

definition capture_Write :: "string \<Rightarrow> buildOutputCapture \<Rightarrow> buildOutputCapture \<times> nat" where
  "capture_Write data c =
     (let cap = length (oc_buffer c) in
      if cap \<le> length data then
        (c\<lparr>oc_buffer := fst (copyAt (oc_buffer c) 0 (drop (length data - cap) data)),
           oc_start := 0, oc_size := cap, oc_truncated := True\<rparr>, length data)
      else
        (let c1 = (if cap < oc_size c + length data then
                     (let lost = oc_size c + length data - cap in
                      c\<lparr>oc_start := (oc_start c + lost) mod cap, oc_size := oc_size c - lost, oc_truncated := True\<rparr>)
                   else c);
             stop = (oc_start c1 + oc_size c1) mod cap;
             (buffer1, first) = copyAt (oc_buffer c1) stop data;
             buffer2 = fst (copyAt buffer1 0 (drop first data))
         in (c1\<lparr>oc_buffer := buffer2, oc_size := oc_size c1 + length data\<rparr>, length data)))"

text \<open>The two copies of \<^verbatim>\<open>closeAndReadTail\<close>.\<close>

definition capturedBytes :: "buildOutputCapture \<Rightarrow> string" where
  "capturedBytes c =
     (let out = replicate (oc_size c) (CHR 0x00) in
      if 0 < oc_size c then
        (let (out1, first) = copyAt out 0 (drop (oc_start c) (oc_buffer c))
         in fst (copyAt out1 first (take (oc_size c - first) (oc_buffer c))))
      else out)"

definition truncationNote :: "nat \<Rightarrow> string" where
  "truncationNote n = ''[buildctl output truncated to last '' @ showNat n @ '' bytes]'' @ [CHR 0x0A]"

definition closeAndReadTail :: "buildOutputCapture option \<Rightarrow> bool \<Rightarrow> string" where
  "closeAndReadTail co readLogs = (case co of
      None \<Rightarrow> ''''
    | Some c \<Rightarrow>
        if \<not> readLogs then ''''
        else if oc_truncated c then truncationNote maxBuildLogBytes @ capturedBytes c
        else capturedBytes c)"

text \<open>
  \<^verbatim>\<open>writer\<close>: without a console the capture itself, otherwise \<^verbatim>\<open>io.MultiWriter\<close>, which stops at the
  first writer that fails or writes less than it was given. The console is the bytes it takes and its
  error.
\<close>

definition writerWrite ::
    "(string \<Rightarrow> nat \<times> go_error option) option \<Rightarrow> string \<Rightarrow> buildOutputCapture \<Rightarrow> buildOutputCapture \<times> nat \<times> go_error option" where
  "writerWrite console data c = (case console of
      None \<Rightarrow> (case capture_Write data c of (c', n) \<Rightarrow> (c', n, None))
    | Some w \<Rightarrow>
        (case w data of
           (n, Some e) \<Rightarrow> (c, n, Some e)
         | (n, None) \<Rightarrow>
             if n \<noteq> length data then (c, n, Some errShortWrite)
             else (case capture_Write data c of (c', n') \<Rightarrow> (c', n', None))))"

text \<open>
  \<^verbatim>\<open>readFileTail\<close>: \<open>opened\<close> is the content of the file or the error of opening it, \<open>readErr\<close> the error of
  the copy. A file does not shrink between the two.
\<close>

definition readFileTail :: "string result \<Rightarrow> go_error option \<Rightarrow> int \<Rightarrow> string result" where
  "readFileTail opened readErr maxBytes = (case opened of
      Inl e \<Rightarrow> Inl e
    | Inr content \<Rightarrow>
        (let cut = 0 < maxBytes \<and> maxBytes < int (length content);
             start = (if cut then length content - nat maxBytes else 0);
             note = (if cut then truncationNote (nat maxBytes) else '''') in
         case readErr of Some e \<Rightarrow> Inl e | None \<Rightarrow> Inr (note @ drop start content)))"

section \<open>Abstraction\<close>

text \<open>The last \<open>n\<close> elements of a list.\<close>

definition lastN :: "nat \<Rightarrow> 'a list \<Rightarrow> 'a list" where
  "lastN n xs = drop (length xs - n) xs"

lemma lastN_length [simp]: "length (lastN n xs) = min n (length xs)"
  by (simp add: lastN_def)

lemma lastN_all: "length xs \<le> n \<Longrightarrow> lastN n xs = xs"
  by (simp add: lastN_def)

lemma lastN_lastN_append: "lastN n (lastN n xs @ ys) = lastN n (xs @ ys)"
proof (cases "length xs \<le> n")
  case False
  then have "length xs + length ys - n = length xs - n + length ys" by simp
  with False show ?thesis by (simp add: lastN_def add.commute)
qed (simp add: lastN_all)

definition ring_ok :: "buildOutputCapture \<Rightarrow> bool" where
  "ring_ok c \<longleftrightarrow> 0 < length (oc_buffer c) \<and> oc_start c < length (oc_buffer c) \<and> oc_size c \<le> length (oc_buffer c)"

text \<open>What the ring holds, read index by index.\<close>

definition ring_abs :: "buildOutputCapture \<Rightarrow> string" where
  "ring_abs c = map (\<lambda>i. oc_buffer c ! ((oc_start c + i) mod length (oc_buffer c))) [0..<oc_size c]"

lemma copyAt_length [simp]: "i \<le> length dst \<Longrightarrow> length (fst (copyAt dst i src)) = length dst"
  by (auto simp: copyAt_def Let_def min_def)

lemma copyAt_nth:
  assumes "i \<le> length dst" "k < length dst"
  shows "fst (copyAt dst i src) ! k = (if i \<le> k \<and> k < i + length src then src ! (k - i) else dst ! k)"
  using assms by (auto simp: copyAt_def Let_def nth_append min_def)

lemma wrap_index: "start < n \<Longrightarrow> i < n \<Longrightarrow> (start + i) mod n = (if start + i < n then start + i else start + i - n)" for n :: nat
  by (simp add: mod_if)

lemma capturedBytes_abs:
  assumes "ring_ok c"
  shows "capturedBytes c = ring_abs c"
proof (rule nth_equalityI)
  let ?n = "length (oc_buffer c)" let ?m = "min (oc_size c) (?n - oc_start c)"
  have ok: "oc_start c < ?n" "oc_size c \<le> ?n" using assms by (simp_all add: ring_ok_def)
  have cb: "capturedBytes c = fst (copyAt (fst (copyAt (replicate (oc_size c) (CHR 0x00)) 0 (drop (oc_start c) (oc_buffer c))))
      ?m (take (oc_size c - ?m) (oc_buffer c)))" if "0 < oc_size c"
    using that by (simp add: capturedBytes_def copyAt_def Let_def split_beta add.commute)
  show l: "length (capturedBytes c) = length (ring_abs c)"
    by (cases "0 < oc_size c") (simp_all add: cb ring_abs_def, simp add: capturedBytes_def)
  fix i assume "i < length (capturedBytes c)"
  then have i: "i < oc_size c" using l by (simp add: ring_abs_def)
  then have "ring_abs c ! i = oc_buffer c ! ((oc_start c + i) mod ?n)" by (simp add: ring_abs_def)
  with i ok show "capturedBytes c ! i = ring_abs c ! i"
    by (subst cb) (auto simp: copyAt_nth wrap_index add.commute)
qed

text \<open>The two copies of a write store the data behind the stored bytes, around the end of the buffer.\<close>

lemma ring_copy_nth:
  fixes buffer data :: string
  assumes e: "e < length buffer" and d: "length data < length buffer" and k: "k < length buffer"
  defines "b1 \<equiv> copyAt buffer e data"
  defines "b2 \<equiv> fst (copyAt (fst b1) 0 (drop (snd b1) data))"
  shows "b2 ! k = (if e \<le> k \<and> k < e + length data then data ! (k - e)
      else if k + length buffer < e + length data then data ! (k + length buffer - e) else buffer ! k)"
    and "length b2 = length buffer"
proof -
  have s: "snd b1 = min (length buffer - e) (length data)" by (simp add: b1_def copyAt_def Let_def)
  have l: "length (fst b1) = length buffer" using e by (simp add: b1_def)
  then show "length b2 = length buffer" by (simp add: b2_def)
  have "fst b1 ! k = (if e \<le> k \<and> k < e + length data then data ! (k - e) else buffer ! k)"
    using copyAt_nth [of e buffer k data] e k by (simp add: b1_def)
  moreover have "b2 ! k = (if k < length (drop (snd b1) data) then drop (snd b1) data ! k else fst b1 ! k)"
    using copyAt_nth [of 0 "fst b1" k "drop (snd b1) data"] k l by (simp add: b2_def)
  ultimately show "b2 ! k = (if e \<le> k \<and> k < e + length data then data ! (k - e)
      else if k + length buffer < e + length data then data ! (k + length buffer - e) else buffer ! k)"
    using e d k s by (auto simp: min_def add.commute)
qed

text \<open>A write that fits behind the stored bytes appends to what the ring holds.\<close>

lemma ring_append:
  assumes ok: "ring_ok c" and fits: "oc_size c + length data \<le> length (oc_buffer c)" and d: "length data < length (oc_buffer c)"
  defines "b1 \<equiv> copyAt (oc_buffer c) ((oc_start c + oc_size c) mod length (oc_buffer c)) data"
  defines "c' \<equiv> c\<lparr>oc_buffer := fst (copyAt (fst b1) 0 (drop (snd b1) data)), oc_size := oc_size c + length data\<rparr>"
  shows "ring_abs c' = ring_abs c @ data" and "ring_ok c'" and "length (oc_buffer c') = length (oc_buffer c)"
proof -
  let ?n = "length (oc_buffer c)" let ?e = "(oc_start c + oc_size c) mod ?n"
  have n: "0 < ?n" "oc_start c < ?n" using ok by (simp_all add: ring_ok_def)
  have e: "?e < ?n" using n by simp
  show len: "length (oc_buffer c') = ?n"
    using ring_copy_nth(2) [OF e d e] by (simp add: c'_def b1_def)
  then show "ring_ok c'" using ok fits by (simp add: ring_ok_def c'_def)
  have nth: "oc_buffer c' ! k = (if ?e \<le> k \<and> k < ?e + length data then data ! (k - ?e)
      else if k + ?n < ?e + length data then data ! (k + ?n - ?e) else oc_buffer c ! k)" if "k < ?n" for k
    using ring_copy_nth(1) [OF e d that] by (simp add: c'_def b1_def)
  show "ring_abs c' = ring_abs c @ data"
  proof (rule nth_equalityI)
    fix i assume "i < length (ring_abs c')"
    then have i: "i < oc_size c + length data" by (simp add: ring_abs_def c'_def)
    have lhs: "ring_abs c' ! i = oc_buffer c' ! ((oc_start c + i) mod ?n)"
      using i len by (simp add: ring_abs_def c'_def)
    have in_n: "(oc_start c + i) mod ?n < ?n" using n by simp
    have ew: "?e = (if oc_start c + oc_size c < ?n then oc_start c + oc_size c else oc_start c + oc_size c - ?n)"
      using n fits by (simp add: mod_if)
    have iw: "(oc_start c + i) mod ?n = (if oc_start c + i < ?n then oc_start c + i else oc_start c + i - ?n)"
      using n i fits by (simp add: mod_if)
    show "ring_abs c' ! i = (ring_abs c @ data) ! i"
    proof (cases "i < oc_size c")
      case True
      have "oc_buffer c' ! ((oc_start c + i) mod ?n) = oc_buffer c ! ((oc_start c + i) mod ?n)"
        unfolding nth [OF in_n] using True n fits unfolding iw ew by auto
      with lhs True show ?thesis by (simp add: nth_append ring_abs_def)
    next
      case False
      have "oc_buffer c' ! ((oc_start c + i) mod ?n) = data ! (i - oc_size c)"
        unfolding nth [OF in_n] using False i n fits d unfolding iw ew by auto
      with lhs False show ?thesis by (simp add: nth_append ring_abs_def)
    qed
  qed (simp add: ring_abs_def c'_def)
qed

text \<open>Dropping the oldest bytes moves the start forward.\<close>

lemma ring_drop:
  fixes tr :: bool
  assumes ok: "ring_ok c" and "k \<le> oc_size c"
  defines "c' \<equiv> c\<lparr>oc_start := (oc_start c + k) mod length (oc_buffer c), oc_size := oc_size c - k, oc_truncated := tr\<rparr>"
  shows "ring_abs c' = drop k (ring_abs c)" and "ring_ok c'"
proof -
  have "ring_abs c' ! i = drop k (ring_abs c) ! i" if "i < oc_size c - k" for i
  proof -
    have "k + i < oc_size c" using that assms(2) by simp
    then show ?thesis using that by (simp add: ring_abs_def c'_def mod_add_left_eq add.assoc)
  qed
  then show "ring_abs c' = drop k (ring_abs c)" by (auto intro!: nth_equalityI simp: ring_abs_def c'_def)
  show "ring_ok c'" using ok by (auto simp: ring_ok_def c'_def)
qed

lemma capture_over:
  assumes "ring_ok c" "capture_Write data c = (c', n)" and over: "length data < length (oc_buffer c)" "length (oc_buffer c) < oc_size c + length data"
  shows "ring_ok c' \<and> length (oc_buffer c') = length (oc_buffer c) \<and> n = length data \<and>
    ring_abs c' = lastN (length (oc_buffer c)) (ring_abs c @ data) \<and> oc_truncated c'"
proof -
  let ?n = "length (oc_buffer c)"
  let ?k = "oc_size c + length data - ?n"
  let ?c1 = "c\<lparr>oc_start := (oc_start c + ?k) mod ?n, oc_size := oc_size c - ?k, oc_truncated := True\<rparr>"
  have k: "?k \<le> oc_size c" using over by simp
  note r = ring_drop [where tr = True, OF assms(1) k]
  have f: "oc_size ?c1 + length data \<le> length (oc_buffer ?c1)" using over assms(1) by (simp add: ring_ok_def)
  define b where "b = copyAt (oc_buffer ?c1) ((oc_start ?c1 + oc_size ?c1) mod length (oc_buffer ?c1)) data"
  have c': "c' = ?c1\<lparr>oc_buffer := fst (copyAt (fst b) 0 (drop (snd b) data)), oc_size := oc_size ?c1 + length data\<rparr>" "n = length data"
    using assms(2) over unfolding capture_Write_def Let_def b_def by (auto simp: split_beta)
  note a = ring_append [OF r(2) f, folded b_def, folded c'(1)]
  have "ring_abs c' = drop ?k (ring_abs c) @ data" "ring_ok c'" "length (oc_buffer c') = ?n" using a over r(1) by simp_all
  moreover have "lastN ?n (ring_abs c @ data) = drop ?k (ring_abs c) @ data" using k by (simp add: lastN_def ring_abs_def)
  ultimately show ?thesis using c' by simp
qed

lemma capture_Write_abs:
  assumes "ring_ok c" "capture_Write data c = (c', n)"
  shows "ring_ok c' \<and> length (oc_buffer c') = length (oc_buffer c) \<and> n = length data \<and>
    ring_abs c' = lastN (length (oc_buffer c)) (ring_abs c @ data) \<and>
    oc_truncated c' = (oc_truncated c \<or> length (oc_buffer c) < oc_size c + length data \<or> length (oc_buffer c) \<le> length data)"
proof -
  let ?n = "length (oc_buffer c)"
  have size: "length (ring_abs c) = oc_size c" by (simp add: ring_abs_def)
  consider (whole) "?n \<le> length data" | (fits) "length data < ?n" "oc_size c + length data \<le> ?n"
    | (over) "length data < ?n" "?n < oc_size c + length data" by linarith
  then show ?thesis
  proof cases
    case whole
    let ?d = "drop (length data - ?n) data"
    have b: "fst (copyAt (oc_buffer c) 0 ?d) = ?d" using whole by (simp add: copyAt_def Let_def)
    have "c' = c\<lparr>oc_buffer := ?d, oc_start := 0, oc_size := ?n, oc_truncated := True\<rparr>" "n = length data"
      using assms(2) whole by (auto simp: capture_Write_def b Let_def)
    moreover have "map (\<lambda>i. ?d ! (i mod ?n)) [0..<?n] = ?d"
      using whole by (intro nth_equalityI) simp_all
    moreover have "lastN ?n (ring_abs c @ data) = ?d" using whole by (simp add: lastN_def)
    ultimately show ?thesis using whole assms(1) by (simp add: ring_ok_def ring_abs_def)
  next
    case fits
    from ring_append [OF assms(1) fits(2,1)] fits assms(2) show ?thesis
      by (auto simp: capture_Write_def Let_def split_beta lastN_all size)
  next
    case over
    then show ?thesis using capture_over [OF assms over] by simp
  qed
qed

section \<open>Sequences of writes\<close>

text \<open>
  Standard output and standard error of the command write to the same capture; the mutex makes the
  writes a sequence.
\<close>

definition captureAll :: "string list \<Rightarrow> buildOutputCapture \<Rightarrow> buildOutputCapture" where
  "captureAll ws c = foldl (\<lambda>c data. fst (capture_Write data c)) c ws"

lemma captureAll_abs:
  assumes "ring_ok c" "ring_abs c = lastN (length (oc_buffer c)) past"
    and "\<not> oc_truncated c \<Longrightarrow> length past \<le> length (oc_buffer c)"
    and "oc_truncated c \<Longrightarrow> length (oc_buffer c) \<le> length past"
  shows "ring_ok (captureAll ws c) \<and> length (oc_buffer (captureAll ws c)) = length (oc_buffer c) \<and>
    ring_abs (captureAll ws c) = lastN (length (oc_buffer c)) (past @ concat ws) \<and>
    (oc_truncated (captureAll ws c) \<longrightarrow> length (oc_buffer c) \<le> length (past @ concat ws)) \<and>
    (\<not> oc_truncated (captureAll ws c) \<longrightarrow> length (past @ concat ws) \<le> length (oc_buffer c))"
  using assms
proof (induction ws arbitrary: c past)
  case (Cons w ws)
  let ?n = "length (oc_buffer c)"
  obtain c' n where c': "capture_Write w c = (c', n)" by fastforce
  note r = capture_Write_abs [OF Cons.prems(1) c']
  have size: "oc_size c = min ?n (length past)"
    using arg_cong [OF Cons.prems(2), of length] by (simp add: ring_abs_def)
  have "ring_abs c' = lastN (length (oc_buffer c')) (past @ w)" using r Cons.prems(2) by (simp add: lastN_lastN_append)
  moreover have "length (past @ w) \<le> ?n" if "\<not> oc_truncated c'"
    using that r size Cons.prems(3) by (auto simp: min_def split: if_split_asm)
  moreover have "?n \<le> length (past @ w)" if "oc_truncated c'"
    using that r size Cons.prems(4) by (auto simp: min_def split: if_split_asm)
  ultimately show ?case
    using Cons.IH [of c' "past @ w"] r c' by (simp add: captureAll_def)
qed (simp add: captureAll_def)

lemma capture_fresh:
  "0 < n \<Longrightarrow> ring_ok (newBuildOutputCapture n) \<and> ring_abs (newBuildOutputCapture n) = lastN (length (oc_buffer (newBuildOutputCapture n))) []
    \<and> \<not> oc_truncated (newBuildOutputCapture n) \<and> length (oc_buffer (newBuildOutputCapture n)) = n"
  by (simp add: newBuildOutputCapture_def ring_ok_def ring_abs_def lastN_def)

text \<open>
  C36. The ring buffer implements the log that keeps the last bytes. Whatever the command writes, and
  in whatever pieces, a capture of any positive size reads back exactly the last bytes of everything
  written, and a capture that is not marked as truncated reads back all of it; one that lost a byte is
  always marked.
\<close>

theorem capture_keeps_tail:
  assumes "0 < n"
  shows "capturedBytes (captureAll ws (newBuildOutputCapture n)) = lastN n (concat ws) \<and>
    (\<not> oc_truncated (captureAll ws (newBuildOutputCapture n)) \<longrightarrow>
      capturedBytes (captureAll ws (newBuildOutputCapture n)) = concat ws) \<and>
    (n < length (concat ws) \<longrightarrow> oc_truncated (captureAll ws (newBuildOutputCapture n)))"
  using captureAll_abs [of "newBuildOutputCapture n" "[]" ws] capture_fresh [OF assms]
  by (auto simp: capturedBytes_abs lastN_all)

theorem capture_keeps_tail_witness:
  "capturedBytes (captureAll [''abc'', ''de'', ''fgh''] (newBuildOutputCapture 4)) = ''efgh'' \<and>
   oc_truncated (captureAll [''abc'', ''de'', ''fgh''] (newBuildOutputCapture 4))"
  using capture_keeps_tail [of 4 "[''abc'', ''de'', ''fgh'']"] by (simp add: lastN_def)

text \<open>
  A first write of exactly the size of the buffer loses nothing and is marked as truncated all the same.
\<close>

lemma truncated_without_loss:
  "oc_truncated (captureAll [''abcd''] (newBuildOutputCapture 4)) \<and>
   capturedBytes (captureAll [''abcd''] (newBuildOutputCapture 4)) = ''abcd''"
  by code_simp

end
