(* ===== verification/Batch_Run.thy ===== *)
theory Batch_Run
  imports Batch_Specs Batch_Pool Output_Capture Transition_Systems
begin

text \<open>
  A batch run, \<^verbatim>\<open>internal/buildbatch/build_execution.go\<close>, \<^verbatim>\<open>build_command_batch.go\<close> and
  \<^verbatim>\<open>build_command_streaming.go\<close>, as a step machine: the scheduling loop of the command, one goroutine per
  job in flight, the retry queue, the two kinds of semaphores and the cancellation of the context. The
  two commands run the same loop; the batch command starts with all its jobs, the streaming command
  receives them from the goroutine that prepares the directories.
\<close>

section \<open>One build\<close>

text \<open>The arguments of \<^verbatim>\<open>buildctl\<close>.\<close>

definition buildCommandArgs :: "buildSpec \<Rightarrow> string \<Rightarrow> string list" where
  "buildCommandArgs spec addr =
     [''--addr'', addr, ''build'', ''--frontend=dockerfile.v0''] @
     (if sp_dir spec \<noteq> '''' then [''--local'', ''context='' @ sp_dir spec, ''--local'', ''dockerfile='' @ sp_dir spec] else []) @
     [''--output'', ''type=image,name='' @ sp_target spec @ '',push=true,force-compression=true,oci-mediatypes=true'' @
        (if sp_oci spec then '',compression=gzip'' else '',compression=nydus,fs-version=5'')]"

text \<open>
  What a run of \<^verbatim>\<open>buildctl\<close> gives: the pieces it writes to its two outputs in their order, and its error.
  The texts of the times are arguments.
\<close>

record command_run =
  cr_args :: "string list"
  cr_output :: "string list"
  cr_err :: "go_error option"
  cr_startedAt :: string
  cr_finishedAt :: string
  cr_elapsed :: string

definition buildNodeIP :: "net_env \<Rightarrow> buildkitAddr \<Rightarrow> string" where
  "buildNodeIP net addr =
     (let ip = (if trimSpace (ba_nodeIP addr) = '''' then nodeIPFromBuildkitAddr net (ba_addr addr) else ba_nodeIP addr)
      in if ip = '''' then ''unknown'' else ip)"

text \<open>\<^verbatim>\<open>executeBuild\<close>: the entry, and whether the worker is put into cooldown.\<close>

definition executeBuild :: "net_env \<Rightarrow> buildSpec \<Rightarrow> buildkitAddr \<Rightarrow> command_run \<Rightarrow> resultEntry \<times> bool" where
  "executeBuild net spec addr run =
     (let logs = closeAndReadTail (Some (captureAll (cr_output run) (newBuildOutputCapture maxBuildLogBytes))) (cr_err run \<noteq> None);
          entry = \<lparr>re_StartedAt = cr_startedAt run, re_FinishedAt = cr_finishedAt run, re_Elapsed = cr_elapsed run,
                   re_Target = sp_target spec, re_NodeIP = buildNodeIP net addr, re_Success = (cr_err run = None),
                   re_Logs = '''', re_Reason = ''''\<rparr>
      in case cr_err run of
           None \<Rightarrow> (entry, False)
         | Some e \<Rightarrow> (entry\<lparr>re_Logs := logs, re_Reason := err_text e\<rparr>, containsStr (toLower logs) ''connection refused''))"

section \<open>The machine\<close>

record batch_opts =
  bo_retry :: int
  bo_failfast :: bool
  bo_net :: net_env
  bo_store :: store_env

record build_task =
  bt_job :: buildJob
  bt_attempt :: int

text \<open>The program points of a build goroutine: the builds still to run, then its two deferred receives.\<close>

datatype worker_pc = Builds "buildSpec list" | ReleaseSlot | ReleaseGlobal | Gone

record worker =
  wk_task :: build_task
  wk_slot :: slot_ptr
  wk_pc :: worker_pc

text \<open>The program points of the command: the head of the scheduling loop, the wait for a worker slot, the
  wait for the global semaphore, the wait for the goroutines, the end.\<close>

datatype command_pc = Head | WaitSlot build_task | WaitGlobal build_task slot_ptr | WaitGroup | Returned "go_error option"

text \<open>
  The state of a run. The last fields record its history: the jobs it was given, the tasks it did not
  schedule, the tasks that ended on a store error, the targets whose result it stored and the number
  of builds it ran.
\<close>

record batch =
  b_pc :: command_pc
  b_todo :: "build_task list"
  b_producing :: bool
  b_scheduling :: bool
  b_workers :: "worker list"
  b_pool :: batch_pool
  b_global :: csem
  b_retry :: "build_task list"
  b_retryCap :: nat
  b_results :: "resultEntry list"
  b_rs :: resultStore
  b_counters :: buildOutcomeCounters
  b_failed :: bool
  b_fatal :: "go_error option"
  b_canceled :: bool
  b_given :: "buildJob list"
  b_dropped :: "build_task list"
  b_lost :: "build_task list"
  b_written :: "string list"
  b_builds :: nat

text \<open>The retry channel has room for every job of the batch command, and for every directory and one more in
  the streaming command.\<close>

definition batchInit :: "bool \<Rightarrow> nat \<Rightarrow> buildJob list \<Rightarrow> batch_pool \<Rightarrow> nat \<Rightarrow> resultStore \<Rightarrow> buildOutcomeCounters \<Rightarrow> batch" where
  "batchInit streaming entries jobs pool concurrency rs counters =
     \<lparr>b_pc = Head, b_todo = map (\<lambda>j. \<lparr>bt_job = j, bt_attempt = 0\<rparr>) jobs, b_producing = streaming, b_scheduling = True,
      b_workers = [], b_pool = pool, b_global = makeSem concurrency, b_retry = [],
      b_retryCap = (if streaming then entries + 1 else length jobs), b_results = [], b_rs = rs,
      b_counters = counters, b_failed = False, b_fatal = None, b_canceled = False, b_given = jobs, b_dropped = [],
      b_lost = [], b_written = [], b_builds = 0\<rparr>"

definition recordFatalErr :: "go_error \<Rightarrow> batch \<Rightarrow> batch" where
  "recordFatalErr e b = (if b_fatal b = None then b\<lparr>b_fatal := Some e\<rparr> else b)"

text \<open>\<^verbatim>\<open>scheduleTask\<close> returns false: the rest of the round is not scheduled.\<close>

definition refuse :: "build_task \<Rightarrow> batch \<Rightarrow> batch" where
  "refuse task b = b\<lparr>b_pc := Head, b_scheduling := False, b_dropped := b_dropped b @ [task]\<rparr>"

text \<open>The head of the loop over the tasks of the round.\<close>

definition loopHead :: "batch_opts \<Rightarrow> batch \<Rightarrow> batch option" where
  "loopHead opts b = (case b_todo b of
      task # rest \<Rightarrow>
        (let b1 = b\<lparr>b_todo := rest\<rparr> in
         if \<not> b_scheduling b then Some (b1\<lparr>b_dropped := b_dropped b @ [task]\<rparr>)
         else if b_failed b \<and> bo_failfast opts then Some (refuse task b1)
         else if b_canceled b then Some (refuse task b1)
         else Some (b1\<lparr>b_pc := WaitSlot task\<rparr>))
    | [] \<Rightarrow> if b_producing b then None else Some (b\<lparr>b_pc := WaitGroup\<rparr>))"

definition takeSlot :: "time \<Rightarrow> build_task \<Rightarrow> batch \<Rightarrow> batch option" where
  "takeSlot now task b = (case waitForAvailableAddrSlot (b_canceled b) now (b_pool b) (jb_scheduleKey (bt_job task)) of
      Some WaitCanceled \<Rightarrow> Some (refuse task b)
    | Some (WaitTook pool ptr) \<Rightarrow> Some (b\<lparr>b_pool := pool, b_pc := WaitGlobal task ptr\<rparr>)
    | Some WaitAgain \<Rightarrow> Some b
    | None \<Rightarrow> None)"

text \<open>\<^verbatim>\<open>acquireGlobalSlotOrReleaseWorker\<close>: the select may take either ready case.\<close>

definition takeGlobal :: "build_task \<Rightarrow> slot_ptr \<Rightarrow> batch \<Rightarrow> batch option" where
  "takeGlobal task ptr b = map_option (\<lambda>sem.
     b\<lparr>b_global := sem, b_pc := Head,
       b_workers := b_workers b @ [\<lparr>wk_task = task, wk_slot = ptr, wk_pc = Builds (jb_specs (bt_job task))\<rparr>]\<rparr>)
     (sem_trySend (b_global b))"

definition giveBackSlot :: "build_task \<Rightarrow> slot_ptr \<Rightarrow> batch \<Rightarrow> batch option" where
  "giveBackSlot task ptr b =
     (if b_canceled b then map_option (\<lambda>pool. refuse task (b\<lparr>b_pool := pool\<rparr>)) (batch_release ptr (b_pool b)) else None)"

text \<open>After \<^verbatim>\<open>wg.Wait\<close>: another round with the drained retry queue, or the end.\<close>

definition waitDone :: "batch \<Rightarrow> batch option" where
  "waitDone b =
     (if \<forall>w \<in> set (b_workers b). wk_pc w = Gone then
        (if b_retry b \<noteq> [] then
           Some (b\<lparr>b_pc := Head, b_todo := b_retry b, b_retry := [], b_scheduling := True, b_workers := []\<rparr>)
         else Some (b\<lparr>b_workers := [], b_pc := Returned
           (case b_fatal b of
              Some e \<Rightarrow> Some e
            | None \<Rightarrow> if b_failed b then Some (Errorf ''one or more builds failed'') else None)\<rparr>))
      else None)"

text \<open>The end of a goroutine's loop over its builds.\<close>

definition finishJob :: "batch_opts \<Rightarrow> build_task \<Rightarrow> string \<Rightarrow> string \<Rightarrow> bool \<Rightarrow> batch \<Rightarrow> batch" where
  "finishJob opts task nodeIP elapsed success b =
     (let b1 = b\<lparr>b_counters := fst (applyOutcome (jb_key (bt_job task)) success (b_counters b)),
                 b_results := b_results b @ [\<lparr>re_StartedAt = '''', re_FinishedAt = '''', re_Elapsed = elapsed,
                   re_Target = jb_key (bt_job task), re_NodeIP = nodeIP, re_Success = success, re_Logs = '''', re_Reason = ''''\<rparr>]\<rparr>
      in if success then b1 else b1\<lparr>b_failed := True, b_canceled := b_canceled b \<or> bo_failfast opts\<rparr>)"

text \<open>
  What a goroutine does when \<^verbatim>\<open>executeBuild\<close> returned for its next build, up to the next build or its
  deferred calls.
\<close>

definition afterBuild ::
    "batch_opts \<Rightarrow> log_io \<Rightarrow> lmdb_rc \<Rightarrow> string \<Rightarrow> resultEntry \<Rightarrow> build_task \<Rightarrow> buildSpec list \<Rightarrow> batch \<Rightarrow> batch \<times> worker_pc" where
  "afterBuild opts io rc elapsed entry task specs b =
     (let env = bo_store opts; rs = b_rs b in
      if \<not> re_Success entry \<and> bt_attempt task < bo_retry opts then
        (let file = (if re_Logs entry \<noteq> '''' then
               fst (AppendFailure (sv_log env) (sv_limit env) io (rs_logs rs) (re_Target entry) (re_Logs entry) (rs_logFile rs))
             else rs_logFile rs);
             again = \<lparr>bt_job = (bt_job task)\<lparr>jb_specs := specs\<rparr>, bt_attempt = bt_attempt task + 1\<rparr>
         in (b\<lparr>b_rs := rs\<lparr>rs_logFile := file\<rparr>, b_retry := b_retry b @ [again]\<rparr>, ReleaseSlot))
      else case UpsertResult env io rc entry rs of
        (rs', Some e) \<Rightarrow>
          (recordFatalErr (wrapErr (''store result for '' @ re_Target entry) e)
             (b\<lparr>b_rs := rs', b_failed := True, b_canceled := True,
                b_lost := b_lost b @ [task\<lparr>bt_job := (bt_job task)\<lparr>jb_specs := specs\<rparr>\<rparr>]\<rparr>), ReleaseSlot)
      | (rs', None) \<Rightarrow>
          (let b1 = b\<lparr>b_rs := rs', b_written := b_written b @ [re_Target entry]\<rparr> in
           if \<not> re_Success entry then (finishJob opts task (re_NodeIP entry) elapsed False b1, ReleaseSlot)
           else case tl specs of
             [] \<Rightarrow> (finishJob opts task (re_NodeIP entry) elapsed True b1, ReleaseSlot)
           | s # ss \<Rightarrow> (b1, Builds (s # ss))))"

text \<open>A goroutine that would send to a full retry channel blocks.\<close>

definition workerBuild ::
    "batch_opts \<Rightarrow> time \<Rightarrow> log_io \<Rightarrow> lmdb_rc \<Rightarrow> string \<Rightarrow> command_run \<Rightarrow> nat \<Rightarrow> batch \<Rightarrow> batch option" where
  "workerBuild opts now io rc elapsed run i b =
     (let w = b_workers b ! i in
      case wk_pc w of
        Builds (spec # specs) \<Rightarrow>
          (let addr = as_addr (ap_heap (bp_pool (b_pool b)) ! wk_slot w) in
           if cr_args run \<noteq> buildCommandArgs spec (ba_addr addr) then None
           else
             (let (entry, cool) = executeBuild (bo_net opts) spec addr run;
                  b1 = b\<lparr>b_builds := Suc (b_builds b),
                         b_pool := (if cool then setCooldown now (wk_slot w) (b_pool b) else b_pool b)\<rparr>;
                  (b2, pc) = afterBuild opts io rc elapsed entry (wk_task w) (spec # specs) b1
              in if b_retryCap b < length (b_retry b2) then None
                 else Some (b2\<lparr>b_workers := (b_workers b)[i := w\<lparr>wk_pc := pc\<rparr>]\<rparr>)))
      | Builds [] \<Rightarrow>
          Some ((finishJob opts (wk_task w) '''' elapsed True b)\<lparr>b_workers := (b_workers b)[i := w\<lparr>wk_pc := ReleaseSlot\<rparr>]\<rparr>)
      | _ \<Rightarrow> None)"

definition workerRelease :: "nat \<Rightarrow> batch \<Rightarrow> batch option" where
  "workerRelease i b =
     (let w = b_workers b ! i in
      case wk_pc w of
        ReleaseSlot \<Rightarrow> map_option (\<lambda>pool. b\<lparr>b_pool := pool, b_workers := (b_workers b)[i := w\<lparr>wk_pc := ReleaseGlobal\<rparr>]\<rparr>)
          (batch_release (wk_slot w) (b_pool b))
      | ReleaseGlobal \<Rightarrow> map_option (\<lambda>sem. b\<lparr>b_global := sem, b_workers := (b_workers b)[i := w\<lparr>wk_pc := Gone\<rparr>]\<rparr>)
          (sem_recv (b_global b))
      | _ \<Rightarrow> None)"

datatype batch_event =
    LoopStep
  | TrySlot time
  | SendGlobal
  | SeeCanceled
  | Receive buildJob
  | Prepared "go_error option"
  | Interrupt
  | RefreshAddrs "buildkitAddr list result"
  | BuildReturns nat time log_io lmdb_rc string command_run
  | Release nat

definition batch_step :: "batch_opts \<Rightarrow> batch_event \<Rightarrow> batch \<Rightarrow> batch option" where
  "batch_step opts ev b = (case ev of
      LoopStep \<Rightarrow> (case b_pc b of Head \<Rightarrow> loopHead opts b | WaitGroup \<Rightarrow> waitDone b | _ \<Rightarrow> None)
    | TrySlot now \<Rightarrow> (case b_pc b of WaitSlot task \<Rightarrow> takeSlot now task b | _ \<Rightarrow> None)
    | SendGlobal \<Rightarrow> (case b_pc b of WaitGlobal task ptr \<Rightarrow> takeGlobal task ptr b | _ \<Rightarrow> None)
    | SeeCanceled \<Rightarrow> (case b_pc b of WaitGlobal task ptr \<Rightarrow> giveBackSlot task ptr b | _ \<Rightarrow> None)
    | Receive job \<Rightarrow>
        if b_producing b \<and> b_pc b = Head \<and> b_todo b = [] then
          Some (b\<lparr>b_todo := [\<lparr>bt_job = job, bt_attempt = 0\<rparr>], b_given := b_given b @ [job]\<rparr>)
        else None
    | Prepared err \<Rightarrow>
        if b_producing b \<and> b_pc b = Head \<and> b_todo b = [] then
          Some (case err of
              None \<Rightarrow> b\<lparr>b_producing := False\<rparr>
            | Some e \<Rightarrow> (recordFatalErr e b)\<lparr>b_producing := False, b_failed := True, b_canceled := True\<rparr>)
        else None
    | Interrupt \<Rightarrow> Some (b\<lparr>b_canceled := True\<rparr>)
    | RefreshAddrs parsed \<Rightarrow> Some (b\<lparr>b_pool := batch_refreshTick parsed (b_pool b)\<rparr>)
    | BuildReturns i now io rc elapsed run \<Rightarrow>
        if i < length (b_workers b) then workerBuild opts now io rc elapsed run i b else None
    | Release i \<Rightarrow> if i < length (b_workers b) then workerRelease i b else None)"

definition batch_start :: "batch \<Rightarrow> bool" where
  "batch_start b \<longleftrightarrow> (\<exists>streaming entries jobs addrs concurrency cooldown rs counters.
     b = batchInit streaming entries jobs (batch_newAddrPool addrs concurrency cooldown) concurrency rs counters)"

section \<open>Accounting of jobs and builds\<close>

text \<open>The tasks that are not over: scheduled, in flight, queued for a retry or not scheduled.\<close>

definition withSpecs :: "build_task \<Rightarrow> buildSpec list \<Rightarrow> build_task" where
  "withSpecs t specs = t\<lparr>bt_job := (bt_job t)\<lparr>jb_specs := specs\<rparr>\<rparr>"

definition workerTask :: "worker \<Rightarrow> build_task list" where
  "workerTask w = (case wk_pc w of Builds specs \<Rightarrow> [withSpecs (wk_task w) specs] | _ \<Rightarrow> [])"

definition commandTask :: "command_pc \<Rightarrow> build_task list" where
  "commandTask pc = (case pc of WaitSlot t \<Rightarrow> [t] | WaitGlobal t ptr \<Rightarrow> [t] | _ \<Rightarrow> [])"

definition openTasks :: "batch \<Rightarrow> build_task multiset" where
  "openTasks b = mset (b_todo b) + mset (commandTask (b_pc b)) + mset (concat (map workerTask (b_workers b))) +
     mset (b_retry b) + mset (b_dropped b)"

text \<open>The abstract run: tasks, builds and stored results without workers, slots and scheduling.\<close>

record acct =
  ac_open :: "build_task multiset"
  ac_given :: "buildJob list"
  ac_done :: "string list"
  ac_gone :: "build_task list"
  ac_written :: "string list"
  ac_db :: lmdbResultDB
  ac_failed :: bool
  ac_builds :: nat

definition acctOf :: "batch \<Rightarrow> acct" where
  "acctOf b = \<lparr>ac_open = openTasks b, ac_given = b_given b, ac_done = map re_Target (b_results b), ac_gone = b_lost b,
     ac_written = b_written b, ac_db = rs_db (b_rs b), ac_failed = b_failed b, ac_builds = b_builds b\<rparr>"

inductive acct_step :: "batch_opts \<Rightarrow> acct \<Rightarrow> acct \<Rightarrow> bool" for opts where
  ac_idle: "(ac_failed a \<longrightarrow> f) \<Longrightarrow> acct_step opts a (a\<lparr>ac_failed := f\<rparr>)"
| ac_receive: "acct_step opts a (a\<lparr>ac_open := add_mset \<lparr>bt_job = j, bt_attempt = 0\<rparr> (ac_open a), ac_given := ac_given a @ [j]\<rparr>)"
| ac_again: "ac_open a = add_mset t N \<Longrightarrow> jb_specs (bt_job t) \<noteq> [] \<Longrightarrow> bt_attempt t < bo_retry opts \<Longrightarrow>
    acct_step opts a (a\<lparr>ac_open := add_mset (t\<lparr>bt_attempt := bt_attempt t + 1\<rparr>) N, ac_builds := Suc (ac_builds a)\<rparr>)"
| ac_lost: "ac_open a = add_mset t N \<Longrightarrow> jb_specs (bt_job t) \<noteq> [] \<Longrightarrow>
    acct_step opts a (a\<lparr>ac_open := N, ac_gone := ac_gone a @ [t], ac_failed := True, ac_builds := Suc (ac_builds a)\<rparr>)"
| ac_fail: "ac_open a = add_mset t N \<Longrightarrow> jb_specs (bt_job t) \<noteq> [] \<Longrightarrow>
    acct_step opts a (a\<lparr>ac_open := N, ac_done := ac_done a @ [jb_key (bt_job t)], ac_written := ac_written a @ [target],
      ac_db := db, ac_failed := True, ac_builds := Suc (ac_builds a)\<rparr>)"
| ac_ok: "ac_open a = add_mset t N \<Longrightarrow> jb_specs (bt_job t) = s # ss \<Longrightarrow> re_Success e \<Longrightarrow> re_Target e = sp_target s \<Longrightarrow>
    rj_Marshal (sv_json (bo_store opts)) e = Inr p \<Longrightarrow>
    acct_step opts a (a\<lparr>ac_open := (if ss = [] then N else add_mset (withSpecs t ss) N),
      ac_done := (if ss = [] then ac_done a @ [jb_key (bt_job t)] else ac_done a), ac_written := ac_written a @ [sp_target s],
      ac_db := AList.update (sp_target s) p (ac_db a), ac_builds := Suc (ac_builds a)\<rparr>)"
| ac_empty: "ac_open a = add_mset t N \<Longrightarrow> jb_specs (bt_job t) = [] \<Longrightarrow>
    acct_step opts a (a\<lparr>ac_open := N, ac_done := ac_done a @ [jb_key (bt_job t)]\<rparr>)"

subsection \<open>The machine implements the abstract run\<close>

lemma withSpecs_simps [simp]:
  "jb_specs (bt_job (withSpecs t specs)) = specs" "jb_key (bt_job (withSpecs t specs)) = jb_key (bt_job t)"
  "bt_attempt (withSpecs t specs) = bt_attempt t" "withSpecs t (jb_specs (bt_job t)) = t"
  "withSpecs (withSpecs t specs) specs' = withSpecs t specs'"
  by (simp_all add: withSpecs_def)

lemma withSpecs_again:
  "(withSpecs t specs)\<lparr>bt_attempt := n\<rparr> = \<lparr>bt_job = (bt_job t)\<lparr>jb_specs := specs\<rparr>, bt_attempt = n\<rparr>"
  by (cases t) (simp add: withSpecs_def)

lemma acct_idleI:
  assumes "openTasks b' = openTasks b" "b_given b' = b_given b" "map re_Target (b_results b') = map re_Target (b_results b)"
    "b_lost b' = b_lost b" "b_written b' = b_written b" "rs_db (b_rs b') = rs_db (b_rs b)" "b_builds b' = b_builds b" "b_failed b \<longrightarrow> b_failed b'"
  shows "acct_step opts (acctOf b) (acctOf b')"
proof -
  have "acctOf b' = (acctOf b)\<lparr>ac_failed := b_failed b'\<rparr>" using assms by (simp add: acctOf_def)
  with ac_idle [of "acctOf b" "b_failed b'"] assms(8) show ?thesis by (simp add: acctOf_def)
qed

text \<open>The control flow of the command.\<close>

definition ctl_ok :: "batch \<Rightarrow> bool" where
  "ctl_ok b \<longleftrightarrow> (case b_pc b of
      WaitGroup \<Rightarrow> b_todo b = [] \<and> \<not> b_producing b
    | Returned r \<Rightarrow> b_todo b = [] \<and> \<not> b_producing b \<and> b_retry b = [] \<and> b_workers b = [] \<and> (r = None \<longrightarrow> \<not> b_failed b)
    | _ \<Rightarrow> True) \<and> (b_fatal b \<noteq> None \<longrightarrow> b_failed b) \<and> (b_lost b \<noteq> [] \<longrightarrow> b_failed b)"

lemma command_acct:
  assumes ctl: "ctl_ok b" and "batch_step opts ev b = Some b'" "ev \<in> {LoopStep, SendGlobal, SeeCanceled, Interrupt} \<or> (\<exists>now. ev = TrySlot now) \<or>
    (\<exists>parsed. ev = RefreshAddrs parsed) \<or> (\<exists>err. ev = Prepared err) \<or> (\<exists>i. ev = Release i)"
  shows "acct_step opts (acctOf b) (acctOf b')"
proof -
  consider "ev = LoopStep" | "ev = SendGlobal" | "ev = SeeCanceled" | "ev = Interrupt" | now where "ev = TrySlot now"
    | parsed where "ev = RefreshAddrs parsed" | err where "ev = Prepared err" | i where "ev = Release i"
    using assms(3) by blast
  then show ?thesis
  proof cases
    case 1
    then show ?thesis using assms(1,2)
      by (auto intro!: acct_idleI simp: ctl_ok_def batch_step_def loopHead_def waitDone_def refuse_def openTasks_def commandTask_def Let_def
          workerTask_def split: command_pc.split_asm list.split_asm if_split_asm)
  next
    case 2
    then show ?thesis using assms(2)
      by (auto intro!: acct_idleI simp: batch_step_def takeGlobal_def openTasks_def commandTask_def workerTask_def split: command_pc.split_asm)
  next
    case 3
    then show ?thesis using assms(2)
      by (auto intro!: acct_idleI simp: batch_step_def giveBackSlot_def refuse_def openTasks_def commandTask_def
          split: command_pc.split_asm if_split_asm)
  next
    case 4
    then show ?thesis using assms(2) by (auto intro!: acct_idleI simp: batch_step_def openTasks_def)
  next
    case 5
    then show ?thesis using assms(2)
      by (auto intro!: acct_idleI simp: batch_step_def takeSlot_def refuse_def openTasks_def commandTask_def
          split: command_pc.split_asm option.split_asm wait_turn.split_asm)
  next
    case 6
    then show ?thesis using assms(2) by (auto intro!: acct_idleI simp: batch_step_def openTasks_def)
  next
    case 7
    then show ?thesis using assms(2)
      by (auto intro!: acct_idleI simp: batch_step_def openTasks_def recordFatalErr_def split: if_split_asm option.split_asm)
  next
    case (8 i)
    have "openTasks b' = openTasks b"
      using assms(2) 8 mset_concat_update [of i "b_workers b" workerTask]
      by (auto simp: batch_step_def workerRelease_def openTasks_def Let_def workerTask_def [of "_\<lparr>wk_pc := _\<rparr>"] workerTask_def [of "b_workers b ! i"]
          split: if_split_asm worker_pc.split_asm)
    then show ?thesis using assms(2) 8
      by (auto intro!: acct_idleI simp: batch_step_def workerRelease_def Let_def split: if_split_asm worker_pc.split_asm)
  qed
qed

lemma upsert_db:
  assumes "UpsertResult env io rc entry rs = (rs', err)"
  shows "case err of Some e \<Rightarrow> rs_db rs' = rs_db rs
    | None \<Rightarrow> \<exists>p. (re_Success entry \<longrightarrow> rj_Marshal (sv_json env) entry = Inr p) \<and>
        rs_db rs' = AList.update (re_Target entry) p (rs_db rs)"
  using assms
  by (cases "re_Success entry"; cases "re_Logs entry = ''''"; cases err)
     (auto simp: UpsertResult_def db_Put_def Let_def split: prod.split_asm sum.split_asm option.split_asm)

lemma executeBuild_entry:
  "re_Target (fst (executeBuild net spec addr run)) = sp_target spec \<and>
   re_Success (fst (executeBuild net spec addr run)) = (cr_err run = None)"
  by (cases "cr_err run") (simp_all add: executeBuild_def Let_def)

text \<open>A goroutine whose build returned: its task leaves its program point and what becomes of it.\<close>

lemma workerBuild_split:
  assumes "workerBuild opts now io rc elapsed run i b = Some b'" "i < length (b_workers b)"
  obtains (empty) "wk_pc (b_workers b ! i) = Builds []"
      "b' = (finishJob opts (wk_task (b_workers b ! i)) '''' elapsed True b)\<lparr>b_workers := (b_workers b)[i := (b_workers b ! i)\<lparr>wk_pc := ReleaseSlot\<rparr>]\<rparr>"
  | (build) spec specs entry pool b2 pc where "wk_pc (b_workers b ! i) = Builds (spec # specs)"
      "re_Target entry = sp_target spec"
      "afterBuild opts io rc elapsed entry (wk_task (b_workers b ! i)) (spec # specs) (b\<lparr>b_builds := Suc (b_builds b), b_pool := pool\<rparr>) = (b2, pc)"
      "b' = b2\<lparr>b_workers := (b_workers b)[i := (b_workers b ! i)\<lparr>wk_pc := pc\<rparr>]\<rparr>"
      "\<And>q. as_sem (ap_heap (bp_pool pool) ! q) = as_sem (ap_heap (bp_pool (b_pool b)) ! q)" "bp_pool pool = bp_pool (b_pool b)"
proof (cases "wk_pc (b_workers b ! i)")
  case (Builds xs)
  show thesis
  proof (cases xs)
    case Nil
    with Builds assms(1) show ?thesis by (intro empty) (auto simp: workerBuild_def Let_def)
  next
    case (Cons spec specs)
    let ?addr = "as_addr (ap_heap (bp_pool (b_pool b)) ! wk_slot (b_workers b ! i))"
    let ?r = "executeBuild (bo_net opts) spec ?addr run"
    let ?pool = "if snd ?r then setCooldown now (wk_slot (b_workers b ! i)) (b_pool b) else b_pool b"
    obtain b2 pc where a: "afterBuild opts io rc elapsed (fst ?r) (wk_task (b_workers b ! i)) (spec # specs)
        (b\<lparr>b_builds := Suc (b_builds b), b_pool := ?pool\<rparr>) = (b2, pc)" by fastforce
    have "b' = b2\<lparr>b_workers := (b_workers b)[i := (b_workers b ! i)\<lparr>wk_pc := pc\<rparr>]\<rparr>"
      using assms(1) Builds Cons a by (auto simp: workerBuild_def Let_def split_beta split: if_split_asm)
    with Builds Cons a show ?thesis by (intro build [OF _ _ a]) (auto simp: executeBuild_entry setCooldown_def)
  qed
qed (use assms(1) in \<open>auto simp: workerBuild_def\<close>)

lemma afterBuild_cases:
  assumes "afterBuild opts io rc elapsed entry task (s # ss) b = (b2, pc)"
  obtains (again) logfile where "\<not> re_Success entry" "bt_attempt task < bo_retry opts" "pc = ReleaseSlot"
      "b2 = b\<lparr>b_rs := (b_rs b)\<lparr>rs_logFile := logfile\<rparr>,
        b_retry := b_retry b @ [(withSpecs task (s # ss))\<lparr>bt_attempt := bt_attempt task + 1\<rparr>]\<rparr>"
  | (lost) rs' e where "rs_db rs' = rs_db (b_rs b)" "pc = ReleaseSlot"
      "b2 = recordFatalErr e (b\<lparr>b_rs := rs', b_failed := True, b_canceled := True, b_lost := b_lost b @ [withSpecs task (s # ss)]\<rparr>)"
  | (failed) rs' where "pc = ReleaseSlot"
      "b2 = finishJob opts task (re_NodeIP entry) elapsed False (b\<lparr>b_rs := rs', b_written := b_written b @ [re_Target entry]\<rparr>)"
  | (ok) rs' p where "re_Success entry" "rj_Marshal (sv_json (bo_store opts)) entry = Inr p"
      "rs_db rs' = AList.update (re_Target entry) p (rs_db (b_rs b))"
      "(b2, pc) = (let b1 = b\<lparr>b_rs := rs', b_written := b_written b @ [re_Target entry]\<rparr> in
         if ss = [] then (finishJob opts task (re_NodeIP entry) elapsed True b1, ReleaseSlot) else (b1, Builds ss))"
proof (cases "\<not> re_Success entry \<and> bt_attempt task < bo_retry opts")
  case True
  with assms show thesis by (intro again) (auto simp: afterBuild_def Let_def withSpecs_again)
next
  case False
  obtain rs' err where u: "UpsertResult (bo_store opts) io rc entry (b_rs b) = (rs', err)" by fastforce
  note db = upsert_db [OF u]
  show thesis
  proof (cases err)
    case (Some e)
    with False u assms db lost show thesis by (auto simp: afterBuild_def Let_def withSpecs_def)
  next
    case None
    with db obtain p where p: "re_Success entry \<longrightarrow> rj_Marshal (sv_json (bo_store opts)) entry = Inr p"
      "rs_db rs' = AList.update (re_Target entry) p (rs_db (b_rs b))" by auto
    show thesis
    proof (cases "re_Success entry")
      case True
      with p None u assms False ok show thesis by (cases ss) (auto simp: afterBuild_def Let_def)
    next
      case ns: False
      with None u assms False failed show thesis by (auto simp: afterBuild_def Let_def)
    qed
  qed
qed

lemma finishJob_simps [simp]:
  "b_todo (finishJob opts task ip el ok b) = b_todo b" "b_pc (finishJob opts task ip el ok b) = b_pc b"
  "b_workers (finishJob opts task ip el ok b) = b_workers b" "b_retry (finishJob opts task ip el ok b) = b_retry b"
  "b_dropped (finishJob opts task ip el ok b) = b_dropped b" "b_lost (finishJob opts task ip el ok b) = b_lost b"
  "b_given (finishJob opts task ip el ok b) = b_given b" "b_written (finishJob opts task ip el ok b) = b_written b"
  "b_rs (finishJob opts task ip el ok b) = b_rs b" "b_builds (finishJob opts task ip el ok b) = b_builds b"
  "b_producing (finishJob opts task ip el ok b) = b_producing b" "b_fatal (finishJob opts task ip el ok b) = b_fatal b"
  "b_pool (finishJob opts task ip el ok b) = b_pool b" "b_global (finishJob opts task ip el ok b) = b_global b"
  "map re_Target (b_results (finishJob opts task ip el ok b)) = map re_Target (b_results b) @ [jb_key (bt_job task)]"
  "b_failed (finishJob opts task ip el ok b) = (b_failed b \<or> \<not> ok)"
  by (simp_all add: finishJob_def Let_def)

lemma recordFatalErr_simps [simp]:
  "b_todo (recordFatalErr e b) = b_todo b" "b_pc (recordFatalErr e b) = b_pc b" "b_workers (recordFatalErr e b) = b_workers b"
  "b_retry (recordFatalErr e b) = b_retry b" "b_dropped (recordFatalErr e b) = b_dropped b" "b_lost (recordFatalErr e b) = b_lost b"
  "b_given (recordFatalErr e b) = b_given b" "b_written (recordFatalErr e b) = b_written b" "b_rs (recordFatalErr e b) = b_rs b"
  "b_builds (recordFatalErr e b) = b_builds b" "b_producing (recordFatalErr e b) = b_producing b" "b_pool (recordFatalErr e b) = b_pool b"
  "b_global (recordFatalErr e b) = b_global b" "b_results (recordFatalErr e b) = b_results b" "b_failed (recordFatalErr e b) = b_failed b"
  by (simp_all add: recordFatalErr_def)

lemma mem_concat_map: "w \<in> set ws \<Longrightarrow> x \<in> set (f w) \<Longrightarrow> x \<in> set (concat (map f ws))"
  by auto

text \<open>The tasks without the one of goroutine \<open>i\<close>, whose program point changes.\<close>

lemma openTasks_worker:
  assumes "i < length (b_workers b)" "wk_pc (b_workers b ! i) = Builds specs" "b_todo b2 = b_todo b" "b_pc b2 = b_pc b" "b_dropped b2 = b_dropped b"
    "b_retry b2 = b_retry b @ rs" "b_workers b2 = (b_workers b)[i := (b_workers b ! i)\<lparr>wk_pc := pc\<rparr>]"
  shows "\<exists>N. openTasks b = add_mset (withSpecs (wk_task (b_workers b ! i)) specs) N \<and>
    openTasks b2 = mset (workerTask ((b_workers b ! i)\<lparr>wk_pc := pc\<rparr>)) + mset rs + N"
proof -
  let ?w = "b_workers b ! i" let ?t = "withSpecs (wk_task ?w) specs"
  have t: "workerTask ?w = [?t]" using assms(2) by (simp add: workerTask_def)
  note u = mset_concat_update [OF assms(1), of workerTask "?w\<lparr>wk_pc := pc\<rparr>"]
  have "?w \<in> set (b_workers b)" using assms(1) by simp
  then have "?t \<in> set (concat (map workerTask (b_workers b)))" 
    by (rule mem_concat_map) (simp only: t list.set_intros)
  then have "?t \<in># mset (concat (map workerTask (b_workers b)))" by (simp only: set_mset_mset)
  then obtain M where M: "mset (concat (map workerTask (b_workers b))) = add_mset ?t M" by (blast dest: multi_member_split)
  with u t have "mset (concat (map workerTask ((b_workers b)[i := ?w\<lparr>wk_pc := pc\<rparr>]))) = mset (workerTask (?w\<lparr>wk_pc := pc\<rparr>)) + M" by simp
  with M assms show ?thesis
    by (intro exI [of _ "mset (b_todo b) + mset (commandTask (b_pc b)) + M + mset (b_retry b) + mset (b_dropped b)"])
       (simp add: openTasks_def)
qed

lemma workerBuild_acct:
  assumes "workerBuild opts now io rc elapsed run i b = Some b'" "i < length (b_workers b)"
  shows "acct_step opts (acctOf b) (acctOf b')"
  using assms
proof (cases rule: workerBuild_split)
  case empty
  let ?w = "b_workers b ! i"
  obtain N where N: "openTasks b = add_mset (withSpecs (wk_task ?w) []) N" "openTasks b' = N"
    using openTasks_worker [OF assms(2) empty(1), of b' "[]" ReleaseSlot] empty(2) by (auto simp: workerTask_def)
  have "acctOf b' = (acctOf b)\<lparr>ac_open := N, ac_done := ac_done (acctOf b) @ [jb_key (bt_job (withSpecs (wk_task ?w) []))]\<rparr>"
    using empty(2) N(2) by (simp add: acctOf_def)
  with ac_empty [of "acctOf b" "withSpecs (wk_task ?w) []" N opts] N(1) show ?thesis by (simp add: acctOf_def)
next
  case (build spec specs entry pool b2 pc)
  let ?w = "b_workers b ! i" let ?t = "withSpecs (wk_task ?w) (spec # specs)"
  note ow = openTasks_worker [OF assms(2) build(1), of b' _ pc]
  from build(3) show ?thesis
  proof (cases rule: afterBuild_cases)
    case (again logfile)
    let ?again = "?t\<lparr>bt_attempt := bt_attempt ?t + 1\<rparr>"
    obtain N where N: "openTasks b = add_mset ?t N" "openTasks b' = add_mset ?again N"
      using ow [of "[?again]"] again build(4) by (auto simp: workerTask_def)
    have "acctOf b' = (acctOf b)\<lparr>ac_open := add_mset ?again N, ac_builds := Suc (ac_builds (acctOf b))\<rparr>"
      using again build(4) N(2) by (simp add: acctOf_def)
    with ac_again [of "acctOf b" ?t N opts] N(1) again(2) show ?thesis by (simp add: acctOf_def)
  next
    case (lost rs' e)
    obtain N where N: "openTasks b = add_mset ?t N" "openTasks b' = N"
      using ow [of "[]"] lost build(4) by (auto simp: workerTask_def)
    have "acctOf b' = (acctOf b)\<lparr>ac_open := N, ac_gone := ac_gone (acctOf b) @ [?t], ac_failed := True, ac_builds := Suc (ac_builds (acctOf b))\<rparr>"
      using lost build(4) N(2) by (simp add: acctOf_def)
    with ac_lost [of "acctOf b" ?t N opts] N(1) show ?thesis by (simp add: acctOf_def)
  next
    case (failed rs')
    obtain N where N: "openTasks b = add_mset ?t N" "openTasks b' = N"
      using ow [of "[]"] failed build(4) by (auto simp: workerTask_def)
    have "acctOf b' = (acctOf b)\<lparr>ac_open := N, ac_done := ac_done (acctOf b) @ [jb_key (bt_job ?t)], ac_written := ac_written (acctOf b) @ [re_Target entry],
        ac_db := rs_db rs', ac_failed := True, ac_builds := Suc (ac_builds (acctOf b))\<rparr>"
      using failed build(4) N(2) by (simp add: acctOf_def)
    with ac_fail [of "acctOf b" ?t N opts] N(1) show ?thesis by (simp add: acctOf_def)
  next
    case (ok rs' p)
    obtain N where N: "openTasks b = add_mset ?t N" "openTasks b' = (if specs = [] then N else add_mset (withSpecs ?t specs) N)"
      using ow [of "[]"] ok(4) build(4) by (cases "specs = []") (auto simp: workerTask_def Let_def)
    have "acctOf b' = (acctOf b)\<lparr>ac_open := (if specs = [] then N else add_mset (withSpecs ?t specs) N),
        ac_done := (if specs = [] then ac_done (acctOf b) @ [jb_key (bt_job ?t)] else ac_done (acctOf b)),
        ac_written := ac_written (acctOf b) @ [sp_target spec],
        ac_db := AList.update (sp_target spec) p (ac_db (acctOf b)), ac_builds := Suc (ac_builds (acctOf b))\<rparr>"
      using ok(3,4) build(2,4) N(2) by (cases "specs = []") (simp_all add: acctOf_def Let_def)
    with ac_ok [of "acctOf b" ?t N spec specs entry opts p] N(1) ok(1,2) build(2) show ?thesis by (simp add: acctOf_def)
  qed
qed

lemma batch_step_acct:
  assumes "ctl_ok b" "batch_step opts ev b = Some b'"
  shows "acct_step opts (acctOf b) (acctOf b')"
proof (cases ev)
  case (Receive job)
  then have "acctOf b' = (acctOf b)\<lparr>ac_open := add_mset \<lparr>bt_job = job, bt_attempt = 0\<rparr> (ac_open (acctOf b)), ac_given := ac_given (acctOf b) @ [job]\<rparr>"
    using assms(2) by (auto simp: batch_step_def acctOf_def openTasks_def split: if_split_asm)
  then show ?thesis by (simp add: ac_receive)
next
  case (BuildReturns i now io rc elapsed run)
  then show ?thesis using assms(2) workerBuild_acct by (auto simp: batch_step_def split: if_split_asm)
qed (use assms in \<open>auto intro: command_acct\<close>)

end
