(* ===== verification/Batch_Safety.thy ===== *)
theory Batch_Safety
  imports Batch_Run
begin

text \<open>
  The theorems about batch runs: no job is lost or built twice, the number of builds is bounded, a
  run that reports success has built everything it scheduled, and the semaphores count the goroutines.
\<close>

section \<open>Control flow\<close>

lemma ctl_ok_start: "batch_start b \<Longrightarrow> ctl_ok b"
  by (auto simp: batch_start_def batchInit_def ctl_ok_def)

lemma workerBuild_ctl:
  assumes "workerBuild opts now io rc elapsed run i b = Some b'" "i < length (b_workers b)"
  shows "b_pc b' = b_pc b \<and> b_todo b' = b_todo b \<and> b_producing b' = b_producing b \<and> b_workers b' \<noteq> [] \<and> b_workers b \<noteq> [] \<and>
    (b_fatal b' \<noteq> b_fatal b \<longrightarrow> b_failed b') \<and> (b_lost b' \<noteq> b_lost b \<longrightarrow> b_failed b') \<and> (b_failed b \<longrightarrow> b_failed b')"
  using assms
proof (cases rule: workerBuild_split)
  case (build spec specs entry pool b2 pc)
  have f: "b_fatal b2 \<noteq> b_fatal b \<longrightarrow> b_failed b2" "b_lost b2 \<noteq> b_lost b \<longrightarrow> b_failed b2" "b_failed b \<longrightarrow> b_failed b2"
    and s: "b_pc b2 = b_pc b" "b_todo b2 = b_todo b" "b_producing b2 = b_producing b"
    using build(3) by (auto elim!: afterBuild_cases simp: Let_def split: if_split_asm)
  with assms(2) show ?thesis unfolding build(4) by auto
qed (use assms(2) in auto)

lemma ctl_ok_step:
  assumes "ctl_ok b" "batch_step opts ev b = Some b'"
  shows "ctl_ok b'"
proof (cases ev)
  case LoopStep
  then show ?thesis using assms
    by (auto simp: batch_step_def loopHead_def waitDone_def refuse_def ctl_ok_def Let_def
        split: command_pc.split_asm list.split_asm if_split_asm option.split_asm)
next
  case (TrySlot now)
  then show ?thesis using assms
    by (auto simp: batch_step_def takeSlot_def refuse_def ctl_ok_def split: command_pc.split_asm option.split_asm wait_turn.split_asm)
next
  case SendGlobal
  then show ?thesis using assms by (auto simp: batch_step_def takeGlobal_def ctl_ok_def split: command_pc.split_asm)
next
  case SeeCanceled
  then show ?thesis using assms
    by (auto simp: batch_step_def giveBackSlot_def refuse_def ctl_ok_def split: command_pc.split_asm if_split_asm)
next
  case (Prepared err)
  then show ?thesis using assms
    by (auto simp: batch_step_def ctl_ok_def recordFatalErr_def split: if_split_asm option.split_asm)
next
  case (BuildReturns i now io rc elapsed run)
  then have w: "workerBuild opts now io rc elapsed run i b = Some b'" "i < length (b_workers b)"
    using assms(2) by (auto simp: batch_step_def split: if_split_asm)
  from workerBuild_ctl [OF w] assms(1) show ?thesis unfolding ctl_ok_def by (cases "b_pc b") auto
next
  case (Release i)
  then show ?thesis using assms
    by (auto simp: batch_step_def workerRelease_def ctl_ok_def Let_def split: if_split_asm worker_pc.split_asm command_pc.split)
qed (use assms in \<open>auto simp: batch_step_def ctl_ok_def split: if_split_asm command_pc.split\<close>)

section \<open>Accounting\<close>

definition taskWeight :: "batch_opts \<Rightarrow> build_task \<Rightarrow> nat" where
  "taskWeight opts t = nat (bo_retry opts - bt_attempt t) + length (jb_specs (bt_job t))"

definition jobWeight :: "batch_opts \<Rightarrow> buildJob \<Rightarrow> nat" where
  "jobWeight opts j = nat (bo_retry opts) + length (jb_specs j)"

definition taskKey :: "build_task \<Rightarrow> string" where
  "taskKey t = jb_key (bt_job t)"

definition keys_kept :: "acct \<Rightarrow> bool" where
  "keys_kept a \<longleftrightarrow> image_mset taskKey (ac_open a) + mset (map taskKey (ac_gone a)) + mset (ac_done a) = mset (map jb_key (ac_given a))"

definition builds_bounded :: "batch_opts \<Rightarrow> acct \<Rightarrow> bool" where
  "builds_bounded opts a \<longleftrightarrow> ac_builds a + sum_mset (image_mset (taskWeight opts) (ac_open a)) \<le> sum_list (map (jobWeight opts) (ac_given a))"

definition stored_success :: "batch_opts \<Rightarrow> lmdbResultDB \<Rightarrow> string \<Rightarrow> bool" where
  "stored_success opts db target \<longleftrightarrow> (\<exists>e p. re_Success e \<and> re_Target e = target \<and>
     rj_Marshal (sv_json (bo_store opts)) e = Inr p \<and> map_of db target = Some p)"

definition specs_built :: "batch_opts \<Rightarrow> acct \<Rightarrow> bool" where
  "specs_built opts a \<longleftrightarrow> \<not> ac_failed a \<longrightarrow>
     (\<forall>j \<in> set (ac_given a). \<forall>s \<in> set (jb_specs j).
        (\<exists>t \<in># ac_open a. s \<in> set (jb_specs (bt_job t))) \<or> sp_target s \<in> set (ac_written a)) \<and>
     (\<forall>target \<in> set (ac_written a). stored_success opts (ac_db a) target)"

lemma keys_kept_step: "acct_step opts a a' \<Longrightarrow> keys_kept a \<Longrightarrow> keys_kept a'"
  by (induction rule: acct_step.induct) (auto simp: keys_kept_def taskKey_def)

lemma builds_bounded_step:
  assumes "acct_step opts a a'" "builds_bounded opts a"
  shows "builds_bounded opts a'"
  using assms
proof (induction rule: acct_step.induct)
  case (ac_again a t N)
  have "taskWeight opts (t\<lparr>bt_attempt := bt_attempt t + 1\<rparr>) + 1 = taskWeight opts t"
    using ac_again(3) by (simp add: taskWeight_def)
  with ac_again show ?case by (simp add: builds_bounded_def)
next
  case (ac_lost a t N)
  then have "1 \<le> taskWeight opts t" by (cases "jb_specs (bt_job t)") (auto simp: taskWeight_def)
  with ac_lost show ?case by (simp add: builds_bounded_def)
next
  case (ac_fail a t N target db)
  then have "1 \<le> taskWeight opts t" by (cases "jb_specs (bt_job t)") (auto simp: taskWeight_def)
  with ac_fail show ?case by (simp add: builds_bounded_def)
next
  case (ac_ok a t N s ss e p)
  then have "taskWeight opts (withSpecs t ss) + 1 = taskWeight opts t" "1 \<le> taskWeight opts t" by (simp_all add: taskWeight_def)
  with ac_ok show ?case by (cases "ss = []") (simp_all add: builds_bounded_def)
qed (auto simp: builds_bounded_def jobWeight_def taskWeight_def)

lemma stored_success_update:
  assumes "stored_success opts db target" "re_Success e" "re_Target e = new" "rj_Marshal (sv_json (bo_store opts)) e = Inr p"
  shows "stored_success opts (AList.update new p db) target"
  using assms unfolding stored_success_def by (cases "target = new") (auto simp: update_conv')

lemma specs_built_step:
  assumes "acct_step opts a a'" "specs_built opts a"
  shows "specs_built opts a'"
  using assms
proof (induction rule: acct_step.induct)
  case (ac_ok a t N s ss e p)
  have db: "stored_success opts (AList.update (sp_target s) p (ac_db a)) target"
    if "target \<in> set (ac_written a @ [sp_target s])" "\<not> ac_failed a" for target
  proof (cases "target = sp_target s")
    case True
    then show ?thesis unfolding stored_success_def using ac_ok(3-5) by (intro exI [of _ e] exI [of _ p]) (simp add: update_conv')
  next
    case False
    then have "stored_success opts (ac_db a) target" using that ac_ok.prems by (auto simp: specs_built_def)
    then show ?thesis by (rule stored_success_update) (use ac_ok(3-5) in auto)
  qed
  have sp: "(\<exists>t' \<in># (if ss = [] then N else add_mset (withSpecs t ss) N). x \<in> set (jb_specs (bt_job t'))) \<or>
      sp_target x \<in> set (ac_written a @ [sp_target s])"
    if "j \<in> set (ac_given a)" "x \<in> set (jb_specs j)" "\<not> ac_failed a" for j x
  proof -
    from that ac_ok.prems have "(\<exists>t' \<in># add_mset t N. x \<in> set (jb_specs (bt_job t'))) \<or> sp_target x \<in> set (ac_written a)"
      unfolding specs_built_def ac_ok(1) [symmetric] by blast
    then show ?thesis using ac_ok(2) by (cases "ss = []") auto
  qed
  from db sp show ?case by (simp add: specs_built_def)
next
  case (ac_again a t N)
  then show ?case by (auto simp: specs_built_def)
next
  case (ac_empty a t N)
  then show ?case by (auto simp: specs_built_def)
qed (auto simp: specs_built_def)

definition batch_acct_ok :: "batch_opts \<Rightarrow> batch \<Rightarrow> bool" where
  "batch_acct_ok opts b \<longleftrightarrow> ctl_ok b \<and> keys_kept (acctOf b) \<and> builds_bounded opts (acctOf b) \<and> specs_built opts (acctOf b)"

lemma first_tasks:
  "image_mset taskKey (mset (map (\<lambda>j. \<lparr>bt_job = j, bt_attempt = 0\<rparr>) jobs)) = mset (map jb_key jobs)"
  "sum_mset (image_mset (taskWeight opts) (mset (map (\<lambda>j. \<lparr>bt_job = j, bt_attempt = 0\<rparr>) jobs))) = sum_list (map (jobWeight opts) jobs)"
  by (induction jobs) (auto simp: taskKey_def jobWeight_def taskWeight_def)

lemma batch_acct_start: "batch_start b \<Longrightarrow> batch_acct_ok opts b"
  using ctl_ok_start [of b]
  by (auto simp: batch_acct_ok_def batch_start_def batchInit_def keys_kept_def builds_bounded_def specs_built_def acctOf_def openTasks_def
      commandTask_def first_tasks [simplified])

interpretation accounting: ts_invariant batch_start "batch_step opts" "batch_acct_ok opts" for opts
  by unfold_locales
     (auto simp: batch_acct_ok_def batch_acct_start [unfolded batch_acct_ok_def] dest: batch_step_acct
       intro: ctl_ok_step keys_kept_step builds_bounded_step specs_built_step)

section \<open>Semaphores\<close>

definition holdsWorker :: "slot_ptr \<Rightarrow> worker \<Rightarrow> bool" where
  "holdsWorker q w \<longleftrightarrow> wk_slot w = q \<and> (case wk_pc w of Builds _ \<Rightarrow> True | ReleaseSlot \<Rightarrow> True | _ \<Rightarrow> False)"

definition commandHolds :: "slot_ptr \<Rightarrow> batch \<Rightarrow> bool" where
  "commandHolds q b \<longleftrightarrow> (case b_pc b of WaitGlobal t ptr \<Rightarrow> ptr = q | _ \<Rightarrow> False)"

definition batch_slots :: "batch \<Rightarrow> bool" where
  "batch_slots b \<longleftrightarrow> pool_wf (bp_pool (b_pool b)) \<and> sem_ok (b_global b) \<and>
     sem_len (b_global b) = count_if (\<lambda>w. wk_pc w \<noteq> Gone) (b_workers b) \<and>
     sem_cap (b_global b) = ap_concurrency (bp_pool (b_pool b)) \<and>
     (\<forall>w \<in> set (b_workers b). wk_slot w < slot_count (b_pool b)) \<and>
     (\<forall>q. commandHolds q b \<longrightarrow> q < slot_count (b_pool b)) \<and>
     (\<forall>q < slot_count (b_pool b). slot_load (b_pool b) q = count_if (holdsWorker q) (b_workers b) + of_bool (commandHolds q b))"

lemma batch_slots_start: "batch_start b \<Longrightarrow> batch_slots b"
proof -
  assume "batch_start b"
  then obtain streaming entries jobs addrs n cooldown rs counters where
    b: "b = batchInit streaming entries jobs (batch_newAddrPool addrs n cooldown) n rs counters" by (auto simp: batch_start_def)
  let ?p = "newAddrPool (map Some addrs) n"
  have "sem_len (as_sem s) = 0" if "s \<in> set (ap_heap ?p)" for s
    using pool_replace_heap [of "\<lparr>ap_concurrency = n, ap_slots = [], ap_hash = None, ap_heap = []\<rparr>" "map Some addrs"] that
    by (auto simp: newAddrPool_def makeSem_def)
  moreover have "ap_concurrency ?p = n" by (simp add: newAddrPool_def)
  ultimately show ?thesis
    by (auto simp: b batch_slots_def batchInit_def batch_newAddrPool_def newAddrPool_wf commandHolds_def makeSem_def sem_ok_def)
qed

lemma batch_slots_same:
  assumes "batch_slots b" "b_pool b' = b_pool b" "b_global b' = b_global b" "b_workers b' = b_workers b"
    and "\<And>q. commandHolds q b' = commandHolds q b"
  shows "batch_slots b'"
  using assms by (simp add: batch_slots_def)

lemma batch_slots_pick:
  assumes "batch_slots b" "batch_pick now (b_pool b) key = Some (Some (pool, ptr))" "b_pc b = WaitSlot task"
  shows "batch_slots (b\<lparr>b_pool := pool, b_pc := WaitGlobal task ptr\<rparr>)"
  using batch_pick_load [OF assms(2)] assms(1,3) by (auto simp: batch_slots_def commandHolds_def)

lemma batch_slots_spawn:
  assumes "batch_slots b" "takeGlobal task ptr b = Some b'" "b_pc b = WaitGlobal task ptr"
  shows "batch_slots b'"
  using assms by (auto simp: takeGlobal_def batch_slots_def commandHolds_def holdsWorker_def sem_ok_def)

lemma batch_slots_giveBack:
  assumes "batch_slots b" "giveBackSlot task ptr b = Some b'" "b_pc b = WaitGlobal task ptr"
  shows "batch_slots b'"
proof -
  from assms(2) obtain pool where r: "batch_release ptr (b_pool b) = Some pool" "b' = refuse task (b\<lparr>b_pool := pool\<rparr>)"
    by (auto simp: giveBackSlot_def split: if_split_asm)
  have ptr: "ptr < slot_count (b_pool b)" "pool_wf (bp_pool (b_pool b))" using assms(1,3) by (simp_all add: batch_slots_def commandHolds_def)
  note load = batch_release_load [OF r(1) ptr(2,1)]
  have "slot_load pool q = count_if (holdsWorker q) (b_workers b)" if "q < slot_count (b_pool b)" for q
  proof -
    have "slot_load (b_pool b) q = count_if (holdsWorker q) (b_workers b) + of_bool (q = ptr)"
      using assms(1,3) that by (simp add: batch_slots_def commandHolds_def eq_commute)
    with load that show ?thesis by (metis add_right_cancel)
  qed
  with load assms(1) r(2) show ?thesis by (auto simp: batch_slots_def refuse_def commandHolds_def)
qed

lemma batch_slots_worker:
  assumes "batch_slots b" "i < length (b_workers b)" "wk_pc (b_workers b ! i) = Builds specs" "pc = ReleaseSlot \<or> (\<exists>ss. pc = Builds ss)"
    and "b_workers b' = (b_workers b)[i := (b_workers b ! i)\<lparr>wk_pc := pc\<rparr>]" "bp_pool (b_pool b') = bp_pool (b_pool b)"
    and "b_global b' = b_global b" "b_pc b' = b_pc b"
  shows "batch_slots b'"
proof -
  let ?w = "b_workers b ! i"
  have "count_if (holdsWorker q) (b_workers b') = count_if (holdsWorker q) (b_workers b)" for q
    unfolding assms(5) by (rule count_if_update_same) (use assms(2-4) in \<open>auto simp: holdsWorker_def\<close>)
  moreover have "count_if (\<lambda>w. wk_pc w \<noteq> Gone) (b_workers b') = count_if (\<lambda>w. wk_pc w \<noteq> Gone) (b_workers b)"
    unfolding assms(5) by (rule count_if_update_same) (use assms(2-4) in auto)
  moreover have "wk_slot w < slot_count (b_pool b)" if "w \<in> set (b_workers b')" for w
    using that assms(1,2) unfolding assms(5) batch_slots_def by (auto dest!: subsetD [OF set_update_subset_insert])
  ultimately show ?thesis using assms(1,6-8) by (simp add: batch_slots_def commandHolds_def)
qed

lemma batch_slots_release:
  assumes "batch_slots b" "i < length (b_workers b)" "workerRelease i b = Some b'"
  shows "batch_slots b'"
proof -
  let ?w = "b_workers b ! i"
  have mem: "wk_slot ?w < slot_count (b_pool b)" using assms(1,2) by (simp add: batch_slots_def)
  have slots: "wk_slot w < slot_count (b_pool b)" if "w \<in> set ((b_workers b)[i := ?w\<lparr>wk_pc := pc\<rparr>])" for w pc
    using that assms(1,2) unfolding batch_slots_def by (auto dest!: subsetD [OF set_update_subset_insert])
  show ?thesis
  proof (cases "wk_pc ?w")
    case ReleaseSlot
    with assms(3) obtain pool where r: "batch_release (wk_slot ?w) (b_pool b) = Some pool"
      "b' = b\<lparr>b_pool := pool, b_workers := (b_workers b)[i := ?w\<lparr>wk_pc := ReleaseGlobal\<rparr>]\<rparr>"
      by (auto simp: workerRelease_def Let_def)
    have wf: "pool_wf (bp_pool (b_pool b))" using assms(1) by (simp add: batch_slots_def)
    note load = batch_release_load [OF r(1) wf mem]
    have "slot_load pool q = count_if (holdsWorker q) (b_workers b') + of_bool (commandHolds q b')"
      if q: "q < slot_count (b_pool b)" for q
    proof -
      have "slot_load (b_pool b) q = count_if (holdsWorker q) (b_workers b) + of_bool (commandHolds q b)"
        using assms(1) q by (simp add: batch_slots_def)
      moreover have "count_if (holdsWorker q) (b_workers b') + of_bool (q = wk_slot ?w) = count_if (holdsWorker q) (b_workers b)"
        using count_if_update [OF assms(2), of "holdsWorker q" "?w\<lparr>wk_pc := ReleaseGlobal\<rparr>"] ReleaseSlot
        by (simp add: r(2) holdsWorker_def eq_commute)
      moreover have "commandHolds q b' = commandHolds q b" by (simp add: r(2) commandHolds_def)
      ultimately show ?thesis using load q by fastforce
    qed
    moreover have "count_if (\<lambda>w. wk_pc w \<noteq> Gone) (b_workers b') = count_if (\<lambda>w. wk_pc w \<noteq> Gone) (b_workers b)"
      unfolding r(2) using count_if_update_same [OF assms(2)] ReleaseSlot by simp
    ultimately show ?thesis using load assms(1) slots by (simp add: batch_slots_def r(2) commandHolds_def)
  next
    case ReleaseGlobal
    with assms(3) obtain sem where r: "sem_recv (b_global b) = Some sem"
      "b' = b\<lparr>b_global := sem, b_workers := (b_workers b)[i := ?w\<lparr>wk_pc := Gone\<rparr>]\<rparr>"
      by (auto simp: workerRelease_def Let_def simp del: sem_recv_Some)
    have "count_if (holdsWorker q) (b_workers b') = count_if (holdsWorker q) (b_workers b)" for q
      unfolding r(2) using count_if_update_same [OF assms(2)] ReleaseGlobal by (simp add: holdsWorker_def)
    moreover have "count_if (\<lambda>w. wk_pc w \<noteq> Gone) (b_workers b') + 1 = count_if (\<lambda>w. wk_pc w \<noteq> Gone) (b_workers b)"
      using count_if_update [OF assms(2), of "\<lambda>w. wk_pc w \<noteq> Gone" "?w\<lparr>wk_pc := Gone\<rparr>"] ReleaseGlobal by (simp add: r(2))
    ultimately show ?thesis using assms(1) r slots by (auto simp: batch_slots_def commandHolds_def sem_ok_def)
  qed (use assms(3) in \<open>auto simp: workerRelease_def Let_def\<close>)
qed

lemma batch_slots_refresh:
  assumes "batch_slots b"
  shows "batch_slots (b\<lparr>b_pool := batch_refreshTick parsed (b_pool b)\<rparr>)"
proof (cases parsed)
  case (Inr addrs)
  let ?p = "bp_pool (b_pool b)" let ?p' = "pool_replace ?p (map Some addrs)"
  obtain fresh where f: "ap_heap ?p' = ap_heap ?p @ fresh" "\<forall>s \<in> set fresh. as_sem s = makeSem (ap_concurrency ?p)"
    using pool_replace_heap by blast
  have none: "count_if (holdsWorker q) (b_workers b) + of_bool (commandHolds q b) = 0" if "\<not> q < length (ap_heap ?p)" for q
    using assms that by (auto simp: batch_slots_def holdsWorker_def filter_empty_conv)
  have load: "sem_len (as_sem (ap_heap ?p' ! q)) = count_if (holdsWorker q) (b_workers b) + of_bool (commandHolds q b)"
    if "q < length (ap_heap ?p')" for q
  proof (cases "q < length (ap_heap ?p)")
    case True
    then show ?thesis using assms f(1) by (simp add: batch_slots_def nth_append)
  next
    case False
    then have "ap_heap ?p' ! q \<in> set fresh" using that f(1) by (simp add: nth_append)
    then have "sem_len (as_sem (ap_heap ?p' ! q)) = 0" using f(2) by (auto simp: makeSem_def)
    with none [OF False] show ?thesis by simp
  qed
  have "pool_wf ?p'" using assms by (auto simp: batch_slots_def intro: pool_replace_wf)
  moreover have "length (ap_heap ?p) \<le> length (ap_heap ?p')" using f(1) by simp
  ultimately show ?thesis using assms load Inr by (fastforce simp: batch_slots_def batch_refreshTick_def commandHolds_def)
qed (use assms in \<open>simp add: batch_refreshTick_def batch_slots_def commandHolds_def\<close>)

lemma batch_slots_gone:
  assumes "batch_slots b" "\<forall>w \<in> set (b_workers b). wk_pc w = Gone" "b_workers b' = []" "b_pool b' = b_pool b" "b_global b' = b_global b"
    and "\<And>q. commandHolds q b' = commandHolds q b"
  shows "batch_slots b'"
proof -
  have "filter (\<lambda>w. wk_pc w \<noteq> Gone) (b_workers b) = []" "filter (holdsWorker q) (b_workers b) = []" for q
    using assms(2) by (auto simp: filter_empty_conv holdsWorker_def)
  with assms show ?thesis by (simp add: batch_slots_def)
qed

lemma batch_slots_step:
  assumes "batch_slots b" "batch_step opts ev b = Some b'"
  shows "batch_slots b'"
proof (cases ev)
  case LoopStep
  show ?thesis
  proof (cases "b_pc b")
    case Head
    then show ?thesis using assms LoopStep
      by (auto intro!: batch_slots_same [OF assms(1)] simp: batch_step_def loopHead_def refuse_def commandHolds_def Let_def
          split: list.split_asm if_split_asm)
  next
    case WaitGroup
    then show ?thesis using assms LoopStep
      by (auto intro!: batch_slots_gone [OF assms(1)] simp: batch_step_def waitDone_def commandHolds_def split: if_split_asm)
  qed (use assms LoopStep in \<open>auto simp: batch_step_def\<close>)
next
  case (TrySlot now)
  then obtain task where t: "b_pc b = WaitSlot task" "takeSlot now task b = Some b'"
    using assms(2) by (auto simp: batch_step_def split: command_pc.split_asm)
  consider "b' = refuse task b" | "b' = b" | pool ptr where "batch_pick now (b_pool b) (jb_scheduleKey (bt_job task)) = Some (Some (pool, ptr))"
      "b' = b\<lparr>b_pool := pool, b_pc := WaitGlobal task ptr\<rparr>"
    using t(2) by (auto simp: takeSlot_def waitForAvailableAddrSlot_def split: if_split_asm option.split_asm wait_turn.split_asm)
  then show ?thesis
  proof cases
    case 1
    then show ?thesis using t(1) by (auto intro!: batch_slots_same [OF assms(1)] simp: refuse_def commandHolds_def)
  qed (use assms(1) t(1) batch_slots_pick in auto)
next
  case SendGlobal
  then show ?thesis using assms by (auto simp: batch_step_def split: command_pc.split_asm intro: batch_slots_spawn)
next
  case SeeCanceled
  then show ?thesis using assms by (auto simp: batch_step_def split: command_pc.split_asm intro: batch_slots_giveBack)
next
  case (RefreshAddrs parsed)
  then show ?thesis using assms batch_slots_refresh by (auto simp: batch_step_def)
next
  case (BuildReturns i now io rc elapsed run)
  then have w: "workerBuild opts now io rc elapsed run i b = Some b'" "i < length (b_workers b)"
    using assms(2) by (auto simp: batch_step_def split: if_split_asm)
  then show ?thesis
  proof (cases rule: workerBuild_split)
    case empty
    then show ?thesis by (intro batch_slots_worker [OF assms(1) w(2) empty(1), of ReleaseSlot]) auto
  next
    case (build spec specs entry pool b2 pc)
    have "(pc = ReleaseSlot \<or> (\<exists>ss. pc = Builds ss)) \<and> b_pool b2 = pool \<and> b_global b2 = b_global b \<and> b_pc b2 = b_pc b"
      using build(3) by (auto elim!: afterBuild_cases simp: Let_def split: if_split_asm)
    with build show ?thesis by (intro batch_slots_worker [OF assms(1) w(2) build(1), of pc]) auto
  qed
next
  case (Release i)
  then show ?thesis using assms by (auto simp: batch_step_def split: if_split_asm intro: batch_slots_release)
qed (use assms in \<open>auto intro!: batch_slots_same [OF assms(1)] simp: batch_step_def commandHolds_def split: if_split_asm option.split_asm\<close>)

interpretation batch_semaphores: ts_invariant batch_start "batch_step opts" batch_slots for opts
  by unfold_locales (auto intro: batch_slots_start batch_slots_step)

text \<open>A run that returned without an error and dropped nothing has stored everything it was given.\<close>

lemma returned_all_stored:
  assumes "reach batch_start (batch_step opts) b" "b_pc b = Returned None" "b_dropped b = []"
  shows "(\<forall>j \<in> set (b_given b). \<forall>s \<in> set (jb_specs j). stored_success opts (rs_db (b_rs b)) (sp_target s)) \<and>
    mset (map re_Target (b_results b)) = mset (map jb_key (b_given b))"
proof -
  have inv: "batch_acct_ok opts b" by (rule accounting.reach_inv [OF assms(1)])
  then have c: "b_todo b = []" "b_retry b = []" "b_workers b = []" "\<not> b_failed b" "b_lost b = []"
    using assms(2) by (auto simp: batch_acct_ok_def ctl_ok_def)
  then have o: "openTasks b = {#}" using assms(2,3) by (simp add: openTasks_def commandTask_def)
  with inv c show ?thesis by (auto simp: batch_acct_ok_def specs_built_def keys_kept_def acctOf_def)
qed

section \<open>Claims\<close>


text \<open>
  C32. The semaphores of a batch count its goroutines. In every reachable state the global semaphore
  holds one token per goroutine that has not returned, at most the concurrency of the batch, and the
  semaphore of every worker holds one token per goroutine on it, and one for the command while it
  waits for the global semaphore with that worker taken.
\<close>

theorem batch_slots_exact:
  assumes "reach batch_start (batch_step opts) b"
  shows "sem_len (b_global b) = count_if (\<lambda>w. wk_pc w \<noteq> Gone) (b_workers b) \<and>
    count_if (\<lambda>w. wk_pc w \<noteq> Gone) (b_workers b) \<le> ap_concurrency (bp_pool (b_pool b)) \<and>
    (\<forall>q < slot_count (b_pool b). slot_load (b_pool b) q = count_if (holdsWorker q) (b_workers b) + of_bool (commandHolds q b) \<and>
       count_if (holdsWorker q) (b_workers b) \<le> ap_concurrency (bp_pool (b_pool b)))"
proof -
  have inv: "batch_slots b" by (rule batch_semaphores.reach_inv [OF assms])
  have "slot_load (b_pool b) q \<le> ap_concurrency (bp_pool (b_pool b))" if "q < slot_count (b_pool b)" for q
    using inv nth_mem [OF that] by (auto simp: batch_slots_def pool_wf_def sem_ok_def)
  with inv show ?thesis by (fastforce simp: batch_slots_def sem_ok_def)
qed

subsection \<open>A run\<close>

definition demoJob :: buildJob where
  "demoJob = \<lparr>jb_key = ''r/b'', jb_scheduleKey = ''l'', jb_specs = [\<lparr>sp_dir = ''/b'', sp_target = ''r/b'', sp_scheduleKey = ''l'', sp_oci = True\<rparr>]\<rparr>"

definition demoOpts :: batch_opts where
  "demoOpts = \<lparr>bo_retry = 1, bo_failfast = False, bo_net = \<lparr>net_ParseIP = Some, net_LookupHost = \<lambda>_. Inr []\<rparr>, bo_store = demoStoreEnv\<rparr>"

definition demoBatch :: batch where
  "demoBatch = batchInit False 0 [demoJob] demoBatchPool 1 \<lparr>rs_db = [], rs_logs = None, rs_logFile = None\<rparr> (newBuildOutcomeCounters 1 [])"

definition demoRun :: command_run where
  "demoRun = \<lparr>cr_args = buildCommandArgs (hd (jb_specs demoJob)) ''tcp://w:1'', cr_output = [''log''], cr_err = None,
     cr_startedAt = '''', cr_finishedAt = '''', cr_elapsed = ''1.0s''\<rparr>"

definition demoBatchEvents :: "batch_event list" where
  "demoBatchEvents = [LoopStep, TrySlot 0, SendGlobal, LoopStep, BuildReturns 0 0 ioOK rcOK ''1.0s'' demoRun]"

definition demoTaken :: batch_pool where
  "demoTaken = demoBatchPool\<lparr>bp_pool := (bp_pool demoBatchPool)\<lparr>ap_heap :=
     [\<lparr>as_addr = \<lparr>ba_original = ''w'', ba_addr = ''tcp://w:1'', ba_nodeIP = ''''\<rparr>, as_sem = \<lparr>sem_len = 1, sem_cap = 1\<rparr>\<rparr>]\<rparr>\<rparr>"

lemma demo_until: "bp_until demoBatchPool = (\<lambda>_. 0)"
  by (simp add: demoBatchPool_def batch_newAddrPool_def)

lemma demo_pick: "batch_pick 0 demoBatchPool ''l'' = Some (Some (demoTaken, 0))"
proof -
  obtain order where o: "orderedAddrSlots (pool_snapshot (bp_pool demoBatchPool)) ''l'' = Some order" "mset order = mset [0]"
    using orderedAddrSlots_pool [OF demoBatchPool_ok(1,2)] demoBatchPool_ok(3) by metis
  then have "order = [0]" by simp
  with o(1) show ?thesis
    by (simp add: batch_pick_def demoBatchPool_ok isInCooldown_def demoTaken_def tryAcquireAddrSlot_def sem_trySend_def makeSem_def setSem_def
        demo_until Let_def)
qed

definition demoFinished :: "batch option" where
  "demoFinished = runs (batch_step demoOpts) (demoBatchEvents @ [Release 0, Release 0, LoopStep]) demoBatch"

lemma demoBatch_start: "batch_start demoBatch"
  unfolding batch_start_def demoBatch_def demoBatchPool_def by blast

lemma demo_finished:
  "\<exists>b. runs (batch_step demoOpts) demoBatchEvents demoBatch = Some b \<and> b_given b = [demoJob] \<and> b_builds b = 1 \<and> b_retry b = [] \<and>
     length (b_workers b) = 1 \<and> wk_pc (b_workers b ! 0) = ReleaseSlot \<and> sem_len (b_global b) = 1 \<and>
   (\<exists>b'. demoFinished = Some b' \<and> b_pc b' = Returned None \<and> b_dropped b' = [] \<and> b_given b' = [demoJob] \<and> map re_Target (b_results b') = [''r/b''])"
  unfolding demoFinished_def demoBatchEvents_def runs_append
  by (simp add: demoBatch_def batchInit_def batch_step_def loopHead_def takeSlot_def waitForAvailableAddrSlot_def demo_pick demoJob_def
      takeGlobal_def sem_trySend_def makeSem_def workerBuild_def Let_def demoRun_def demoTaken_def executeBuild_def afterBuild_def
      demoOpts_def demoStoreEnv_def UpsertResult_def db_Put_def demoResultJson_def rcOK_def workerRelease_def batch_release_def
      releaseAddrSlot_def sem_recv_def setSem_def waitDone_def finishJob_def)

lemma demo_reach: "runs (batch_step demoOpts) evs demoBatch = Some b \<Longrightarrow> reach batch_start (batch_step demoOpts) b"
  using runs_reach [OF _ reach_init [of batch_start, OF demoBatch_start]] by blast


theorem batch_slots_exact_witness:
  "\<exists>b. runs (batch_step demoOpts) demoBatchEvents demoBatch = Some b \<and> count_if (\<lambda>w. wk_pc w \<noteq> Gone) (b_workers b) = 1"
proof -
  obtain b where b: "runs (batch_step demoOpts) demoBatchEvents demoBatch = Some b" "sem_len (b_global b) = 1"
    using demo_finished by blast
  from batch_slots_exact [OF demo_reach [OF b(1)]] b show ?thesis by simp
qed

text \<open>
  An interrupted batch reports success: the jobs it did not schedule are dropped, no build failed, and
  the command returns no error.
\<close>

lemma interrupted_reports_success:
  "\<exists>b. runs (batch_step demoOpts) [Interrupt, LoopStep, LoopStep, LoopStep] demoBatch = Some b \<and>
     b_pc b = Returned None \<and> map taskKey (b_dropped b) = [''r/b''] \<and> b_results b = []"
  by (simp add: demoBatch_def batchInit_def batch_step_def loopHead_def refuse_def waitDone_def demoJob_def taskKey_def Let_def)

end
