(* ===== verification/Batch_Options.thy ===== *)
theory Batch_Options
  imports Batch_Run
begin

text \<open>
  The options of the batch commands: \<^verbatim>\<open>internal/buildbatch/config.go\<close> (the configuration of the command
  line and the options made from it), \<^verbatim>\<open>daemon_options.go\<close> (the options made from the query of an HTTP
  request) and \<^verbatim>\<open>build_command.go\<close>. A query is the list of its keys with their values, in the order in
  which the loop over the Go map visits the keys. \<^verbatim>\<open>time.ParseDuration\<close> is written out except for the
  floating-point product of a fraction, which is the parameter \<open>frac\<close>.
\<close>

section \<open>Durations\<close>

fun leadingInt :: "int \<Rightarrow> string \<Rightarrow> (int \<times> string) option" where
  "leadingInt x [] = Some (x, [])"
| "leadingInt x (c # s) =
     (if \<not> isDigit c then Some (x, c # s)
      else if 2 ^ 63 div 10 < x then None
      else (let y = x * 10 + (int (of_char c) - 48) in if 2 ^ 63 < y then None else leadingInt y s))"

text \<open>The digits of a fraction, the exponent of its scale, and the rest; digits past the precision are skipped.\<close>

fun leadingFraction :: "int \<Rightarrow> nat \<Rightarrow> bool \<Rightarrow> string \<Rightarrow> int \<times> nat \<times> string" where
  "leadingFraction x k overflow [] = (x, k, [])"
| "leadingFraction x k overflow (c # s) =
     (if \<not> isDigit c then (x, k, c # s)
      else (let y = x * 10 + (int (of_char c) - 48) in
        if overflow \<or> (2 ^ 63 - 1) div 10 < x \<or> 2 ^ 63 < y then leadingFraction x k True s
        else leadingFraction y (Suc k) False s))"

definition durationUnit :: "string \<Rightarrow> int option" where
  "durationUnit u = map_of [(''ns'', 1), (''us'', 1000), ([CHR 0xC2, CHR 0xB5, CHR ''s''], 1000),
     ([CHR 0xCE, CHR 0xBC, CHR ''s''], 1000), (''ms'', 1000000), (''s'', second), (''m'', 60 * second), (''h'', 3600 * second)] u"

text \<open>One number with its unit: the nanoseconds and the rest.\<close>

definition durationItem :: "(int \<Rightarrow> nat \<Rightarrow> int \<Rightarrow> int) \<Rightarrow> string \<Rightarrow> (int \<times> string) option" where
  "durationItem frac s =
     (if s = [] \<or> \<not> (hd s = CHR ''.'' \<or> isDigit (hd s)) then None
      else case leadingInt 0 s of
        None \<Rightarrow> None
      | Some (v, s1) \<Rightarrow>
          (let pre = (length s1 \<noteq> length s);
               point = (s1 \<noteq> [] \<and> hd s1 = CHR ''.'');
               (f, k, s2) = (if point then leadingFraction 0 0 False (tl s1) else (0, 0, s1));
               post = (point \<and> length s2 \<noteq> length (tl s1));
               u = takeWhile (\<lambda>c. \<not> (c = CHR ''.'' \<or> isDigit c)) s2
           in if \<not> pre \<and> \<not> post then None
              else if u = [] then None
              else case durationUnit u of
                None \<Rightarrow> None
              | Some unit \<Rightarrow>
                  if 2 ^ 63 div unit < v then None
                  else
                    (let w = v * unit + (if 0 < f then frac f k unit else 0) in
                     if 0 < f \<and> 2 ^ 63 < w then None else Some (w, drop (length u) s2))))"

lemma leadingInt_length: "leadingInt x s = Some (v, s') \<Longrightarrow> length s' \<le> length s"
  by (induction x s rule: leadingInt.induct) (auto simp: Let_def split: if_splits)

lemma leadingFraction_length: "leadingFraction x k ov s = (f, k', s') \<Longrightarrow> length s' \<le> length s"
  by (induction x k ov s rule: leadingFraction.induct) (auto simp: Let_def split: if_splits)

lemma durationItem_shorter:
  assumes "durationItem frac s = Some (w, rest)"
  shows "length rest < length s"
proof -
  from assms obtain v s1 where a: "leadingInt 0 s = Some (v, s1)"
    by (auto simp: durationItem_def split: if_splits option.splits)
  obtain f k s2 where b: "(if s1 \<noteq> [] \<and> hd s1 = CHR ''.'' then leadingFraction 0 0 False (tl s1) else (0, 0, s1)) = (f, k, s2)"
    by (metis prod_cases3)
  have l: "length s2 \<le> length s"
    using leadingInt_length [OF a] b leadingFraction_length [of 0 0 False "tl s1" f k s2] by (auto split: if_splits)
  from assms a b have "takeWhile (\<lambda>c. \<not> (c = CHR ''.'' \<or> isDigit c)) s2 \<noteq> [] \<and>
      rest = drop (length (takeWhile (\<lambda>c. \<not> (c = CHR ''.'' \<or> isDigit c)) s2)) s2"
    by (auto simp: durationItem_def Let_def split: if_split_asm option.split_asm)
  with l show ?thesis by (cases s2) auto
qed

function durationLoop :: "(int \<Rightarrow> nat \<Rightarrow> int \<Rightarrow> int) \<Rightarrow> int \<Rightarrow> string \<Rightarrow> int option" where
  "durationLoop frac d s =
     (if s = [] then Some d
      else case durationItem frac s of
        None \<Rightarrow> None
      | Some (w, rest) \<Rightarrow> if 2 ^ 63 < d + w then None else durationLoop frac (d + w) rest)"
  by pat_completeness auto
termination
  by (relation "measure (\<lambda>(frac, d, s). length s)") (auto dest: durationItem_shorter)

declare durationLoop.simps [simp del]

definition ParseDuration :: "(int \<Rightarrow> nat \<Rightarrow> int \<Rightarrow> int) \<Rightarrow> string \<Rightarrow> duration option" where
  "ParseDuration frac orig =
     (let neg = hasPrefix orig ''-'';
          s = (if neg \<or> hasPrefix orig ''+'' then tl orig else orig)
      in if s = ''0'' then Some 0
         else if s = '''' then None
         else case durationLoop frac 0 s of
           None \<Rightarrow> None
         | Some d \<Rightarrow> if neg then Some (- d) else if 2 ^ 63 - 1 < d then None else Some d)"

section \<open>Configuration and options\<close>

record batch_config =
  bcf_ImageDirs :: string
  bcf_Addrs :: string
  bcf_Variables :: "string list"
  bcf_Concurrency :: int
  bcf_FailFast :: bool
  bcf_OCI :: bool
  bcf_BothFormats :: bool
  bcf_OOMCooldown :: duration
  bcf_ResultPath :: string
  bcf_LogsPath :: string
  bcf_Timeout :: int
  bcf_Retry :: int
  bcf_Verbose :: bool
  bcf_Target :: string
  bcf_SkipFail :: bool

definition defaultBuildkitOOMCooldown :: duration where
  "defaultBuildkitOOMCooldown = 120 * second"

definition batch_DefaultConfig :: batch_config where
  "batch_DefaultConfig = \<lparr>bcf_ImageDirs = '''', bcf_Addrs = '''', bcf_Variables = [], bcf_Concurrency = 1, bcf_FailFast = False,
     bcf_OCI = False, bcf_BothFormats = False, bcf_OOMCooldown = defaultBuildkitOOMCooldown, bcf_ResultPath = ''result.lmdb'',
     bcf_LogsPath = ''logs.jsonl'', bcf_Timeout = 300, bcf_Retry = 0, bcf_Verbose = False, bcf_Target = '''', bcf_SkipFail = False\<rparr>"

text \<open>The options of a build; the cooldown is also set on every address.\<close>

record build_options =
  op_imageDirs :: string
  op_addrs :: "buildkitAddr list"
  op_addrsRaw :: string
  op_concurrency :: int
  op_failfast :: bool
  op_oci :: bool
  op_bothFormats :: bool
  op_oomCooldown :: duration
  op_resultPath :: string
  op_logsPath :: string
  op_vars :: "(string \<times> string) list"
  op_timeout :: int
  op_retry :: int
  op_verbose :: bool
  op_target :: string
  op_skipFail :: bool

record export_options =
  xo_fromResultPath :: string
  xo_resultPath :: string
  xo_oci :: bool
  xo_withFail :: bool

record preheat_options =
  po_fromResultPath :: string
  po_schedulerAddr :: string
  po_concurrency :: int
  po_interval :: int
  po_timeout :: int
  po_failfast :: bool
  po_oci :: bool
  po_verbose :: bool

definition DefaultExportConfig :: export_options where
  "DefaultExportConfig = \<lparr>xo_fromResultPath = ''result.lmdb'', xo_resultPath = ''result.jsonl'', xo_oci = False, xo_withFail = False\<rparr>"

definition DefaultPreheatConfig :: preheat_options where
  "DefaultPreheatConfig = \<lparr>po_fromResultPath = ''result.lmdb'', po_schedulerAddr = '''', po_concurrency = 1, po_interval = 5,
     po_timeout = 5, po_failfast = False, po_oci = False, po_verbose = False\<rparr>"

text \<open>The address list of the batch commands, \<^verbatim>\<open>buildkit_addresses.go\<close>; the body of its loop is that of the daemon.\<close>

definition batch_parseBuildkitAddrs :: "net_env \<Rightarrow> string \<Rightarrow> buildkitAddr list result" where
  "batch_parseBuildkitAddrs net s =
     (if trimSpace s = '''' then Inl (Errorf ''--addrs is required'')
      else
        let addrs = concat (map (parseBuildkitAddrPart net) (splitByte CHR '','' s)) in
        if addrs = [] then Inl (Errorf ''no valid buildkitd addresses'')
        else Inr (sort_key ba_addr addrs))"

text \<open>\<^verbatim>\<open>Run\<close>: the options it hands to \<^verbatim>\<open>runBuildCommand\<close>.\<close>

definition batch_Run :: "net_env \<Rightarrow> batch_config \<Rightarrow> build_options result" where
  "batch_Run net cfg = (case batch_parseBuildkitAddrs net (bcf_Addrs cfg) of
      Inl e \<Rightarrow> Inl e
    | Inr addrs \<Rightarrow>
        (case parseBuildVariables (bcf_Variables cfg) [] of
           Inl e \<Rightarrow> Inl e
         | Inr buildVars \<Rightarrow>
             Inr \<lparr>op_imageDirs = bcf_ImageDirs cfg, op_addrs = addrs, op_addrsRaw = bcf_Addrs cfg,
                  op_concurrency = bcf_Concurrency cfg, op_failfast = bcf_FailFast cfg, op_oci = bcf_OCI cfg,
                  op_bothFormats = bcf_BothFormats cfg, op_oomCooldown = bcf_OOMCooldown cfg, op_resultPath = bcf_ResultPath cfg,
                  op_logsPath = bcf_LogsPath cfg, op_vars = buildVars, op_timeout = bcf_Timeout cfg, op_retry = bcf_Retry cfg,
                  op_verbose = bcf_Verbose cfg, op_target = bcf_Target cfg, op_skipFail = bcf_SkipFail cfg\<rparr>))"

text \<open>\<^verbatim>\<open>runBuildCommand\<close>: which of the two commands runs, and with which modes.\<close>

datatype build_command = StreamingImageDirs "bool list" | BatchCommand "bool list"

definition runBuildCommand :: "build_options \<Rightarrow> build_command result" where
  "runBuildCommand opts =
     (if op_addrs opts = [] then Inl (Errorf ''--addrs is required'')
      else case resolveBuildModes (op_oci opts) (op_bothFormats opts) of
        Inl e \<Rightarrow> Inl e
      | Inr buildModes \<Rightarrow> Inr (if op_imageDirs opts \<noteq> '''' then StreamingImageDirs buildModes else BatchCommand buildModes))"

section \<open>Queries\<close>

type_synonym url_values = "(string \<times> string list) list"

definition atMostOnce :: "string \<Rightarrow> go_error" where
  "atMostOnce key = Errorf (''query parameter '' @ quoteStr key @ '' must be specified at most once'')"

fun validateQueryKeys :: "url_values \<Rightarrow> string list \<Rightarrow> go_error option" where
  "validateQueryKeys [] allowed = None"
| "validateQueryKeys ((key, vals) # q) allowed =
     (if key \<notin> set allowed then Some (Errorf (''unsupported query parameter '' @ quoteStr key))
      else if key = ''var'' then validateQueryKeys q allowed
      else if 1 < length vals then Some (atMostOnce key)
      else validateQueryKeys q allowed)"

definition queryValue :: "url_values \<Rightarrow> string \<Rightarrow> string option result" where
  "queryValue q key = (case map_of q key of
      None \<Rightarrow> Inr None
    | Some vals \<Rightarrow>
        if vals = [] then Inr None
        else if 1 < length vals then Inl (atMostOnce key)
        else Inr (Some (hd vals)))"

definition trueWords :: "string list" where
  "trueWords = ['''', ''1'', ''true'', ''yes'']"

definition falseWords :: "string list" where
  "falseWords = [''0'', ''false'', ''no'']"

definition queryBoolStrict :: "url_values \<Rightarrow> string \<Rightarrow> bool \<Rightarrow> bool result" where
  "queryBoolStrict q key def = (case queryValue q key of
      Inl e \<Rightarrow> Inl e
    | Inr None \<Rightarrow> Inr def
    | Inr (Some v) \<Rightarrow>
        (let w = toLower (trimSpace v) in
         if w \<in> set trueWords then Inr True
         else if w \<in> set falseWords then Inr False
         else Inl (Errorf (''query parameter '' @ quoteStr key @ '' must be a boolean''))))"

definition queryIntStrict :: "url_values \<Rightarrow> string \<Rightarrow> int \<Rightarrow> int \<Rightarrow> int result" where
  "queryIntStrict q key def low = (case queryValue q key of
      Inl e \<Rightarrow> Inl e
    | Inr None \<Rightarrow> Inr def
    | Inr (Some v) \<Rightarrow>
        if trimSpace v = '''' then Inr def
        else case atoi v of
          None \<Rightarrow> Inl (Errorf (''query parameter '' @ quoteStr key @ '' must be an integer''))
        | Some n \<Rightarrow>
            if n < low then Inl (Errorf (''query parameter '' @ quoteStr key @ '' must be greater than or equal to '' @ showInt low))
            else Inr n)"

text \<open>The only bound the code passes is 0, which a duration prints as \<^verbatim>\<open>0s\<close>.\<close>

definition queryDurationStrict :: "(int \<Rightarrow> nat \<Rightarrow> int \<Rightarrow> int) \<Rightarrow> url_values \<Rightarrow> string \<Rightarrow> duration \<Rightarrow> duration \<Rightarrow> duration result" where
  "queryDurationStrict frac q key def low = (case queryValue q key of
      Inl e \<Rightarrow> Inl e
    | Inr None \<Rightarrow> Inr def
    | Inr (Some v) \<Rightarrow>
        if trimSpace v = '''' then Inr def
        else case ParseDuration frac v of
          None \<Rightarrow> Inl (Errorf (''query parameter '' @ quoteStr key @ '' must be a duration''))
        | Some d \<Rightarrow>
            if d < low then Inl (Errorf (''query parameter '' @ quoteStr key @ '' must be greater than or equal to '' @ showInt low @ ''s''))
            else Inr d)"

definition buildQueryKeys :: "string list" where
  "buildQueryKeys = [''addrs'', ''concurrency'', ''fail-fast'', ''oci'', ''both-formats'', ''oom-cooldown'', ''timeout'', ''retry'',
     ''verbose'', ''target'', ''skip-fail'', ''var'', ''oneshot'']"

definition valuesOf :: "url_values \<Rightarrow> string \<Rightarrow> string list" where
  "valuesOf q key = (case map_of q key of None \<Rightarrow> [] | Some vals \<Rightarrow> vals)"

definition buildOptionsFromQuery ::
    "net_env \<Rightarrow> (int \<Rightarrow> nat \<Rightarrow> int \<Rightarrow> int) \<Rightarrow> url_values \<Rightarrow> string \<Rightarrow> string \<Rightarrow> string \<Rightarrow> build_options result" where
  "buildOptionsFromQuery net frac q defaultAddrs resultDB logsFile = (case validateQueryKeys q buildQueryKeys of
      Some e \<Rightarrow> Inl e
    | None \<Rightarrow> (case queryValue q ''addrs'' of Inl e \<Rightarrow> Inl e | Inr given \<Rightarrow>
        (let addrsValue = (case given of None \<Rightarrow> defaultAddrs | Some v \<Rightarrow> if trimSpace v = '''' then defaultAddrs else v) in
      case batch_parseBuildkitAddrs net addrsValue of Inl e \<Rightarrow> Inl e | Inr addrs \<Rightarrow>
     (case queryIntStrict q ''concurrency'' 1 1 of Inl e \<Rightarrow> Inl e | Inr concurrency \<Rightarrow>
     (case queryIntStrict q ''timeout'' 300 0 of Inl e \<Rightarrow> Inl e | Inr timeout \<Rightarrow>
     (case queryIntStrict q ''retry'' 0 0 of Inl e \<Rightarrow> Inl e | Inr retry \<Rightarrow>
     (case queryDurationStrict frac q ''oom-cooldown'' defaultBuildkitOOMCooldown 0 of Inl e \<Rightarrow> Inl e | Inr oomCooldown \<Rightarrow>
     (case queryBoolStrict q ''fail-fast'' False of Inl e \<Rightarrow> Inl e | Inr failFast \<Rightarrow>
     (case queryBoolStrict q ''oci'' False of Inl e \<Rightarrow> Inl e | Inr oci \<Rightarrow>
     (case queryBoolStrict q ''both-formats'' False of Inl e \<Rightarrow> Inl e | Inr bothFormats \<Rightarrow>
     (case queryBoolStrict q ''verbose'' False of Inl e \<Rightarrow> Inl e | Inr verbose \<Rightarrow>
     (case queryBoolStrict q ''skip-fail'' False of Inl e \<Rightarrow> Inl e | Inr skipFail \<Rightarrow>
     (case queryValue q ''target'' of Inl e \<Rightarrow> Inl e | Inr target \<Rightarrow>
     (case parseBuildVariables (valuesOf q ''var'') [] of Inl e \<Rightarrow> Inl e | Inr buildVars \<Rightarrow>
       Inr \<lparr>op_imageDirs = '''', op_addrs = addrs, op_addrsRaw = addrsValue, op_concurrency = concurrency, op_failfast = failFast,
            op_oci = oci, op_bothFormats = bothFormats, op_oomCooldown = oomCooldown, op_resultPath = resultDB,
            op_logsPath = logsFile, op_vars = buildVars, op_timeout = timeout, op_retry = retry, op_verbose = verbose,
            op_target = (case target of None \<Rightarrow> '''' | Some t \<Rightarrow> trimSpace t), op_skipFail = skipFail\<rparr>))))))))))))))"

definition exportOptionsFromQuery :: "url_values \<Rightarrow> string \<Rightarrow> export_options result" where
  "exportOptionsFromQuery q resultDB = (case validateQueryKeys q [''oci'', ''with-fail''] of
      Some e \<Rightarrow> Inl e
    | None \<Rightarrow> (case queryBoolStrict q ''oci'' False of Inl e \<Rightarrow> Inl e | Inr oci \<Rightarrow>
        (case queryBoolStrict q ''with-fail'' False of Inl e \<Rightarrow> Inl e | Inr withFail \<Rightarrow>
          Inr \<lparr>xo_fromResultPath = resultDB, xo_resultPath = '''', xo_oci = oci, xo_withFail = withFail\<rparr>)))"

definition preheatQueryKeys :: "string list" where
  "preheatQueryKeys = [''dragonfly-scheduler-addr'', ''concurrency'', ''interval'', ''timeout'', ''fail-fast'', ''oci'', ''verbose'']"

definition preheatOptionsFromQuery :: "url_values \<Rightarrow> string \<Rightarrow> preheat_options result" where
  "preheatOptionsFromQuery q resultDB = (case validateQueryKeys q preheatQueryKeys of
      Some e \<Rightarrow> Inl e
    | None \<Rightarrow> (case queryValue q ''dragonfly-scheduler-addr'' of
        Inl e \<Rightarrow> Inl e
      | Inr given \<Rightarrow>
          (let schedulerAddr = (case given of None \<Rightarrow> '''' | Some v \<Rightarrow> trimSpace v) in
           if schedulerAddr = '''' then Inl (Errorf ''dragonfly-scheduler-addr is required'')
           else case queryIntStrict q ''concurrency'' 1 1 of Inl e \<Rightarrow> Inl e | Inr concurrency \<Rightarrow>
     (case queryIntStrict q ''interval'' 5 0 of Inl e \<Rightarrow> Inl e | Inr interval \<Rightarrow>
     (case queryIntStrict q ''timeout'' 5 0 of Inl e \<Rightarrow> Inl e | Inr timeout \<Rightarrow>
     (case queryBoolStrict q ''fail-fast'' False of Inl e \<Rightarrow> Inl e | Inr failFast \<Rightarrow>
     (case queryBoolStrict q ''oci'' False of Inl e \<Rightarrow> Inl e | Inr oci \<Rightarrow>
     (case queryBoolStrict q ''verbose'' False of Inl e \<Rightarrow> Inl e | Inr verbose \<Rightarrow>
       Inr \<lparr>po_fromResultPath = resultDB, po_schedulerAddr = schedulerAddr, po_concurrency = concurrency, po_interval = interval,
            po_timeout = timeout, po_failfast = failFast, po_oci = oci, po_verbose = verbose\<rparr>))))))))"

section \<open>Queries and the command line\<close>

text \<open>What a query asks for, field by field: the default when the key is absent, else the value written.\<close>

definition asks_int :: "url_values \<Rightarrow> string \<Rightarrow> int \<Rightarrow> int \<Rightarrow> bool" where
  "asks_int q key def n \<longleftrightarrow> map_of q key = None \<and> n = def \<or> map_of q key = Some [showInt n]"

definition asks_bool :: "url_values \<Rightarrow> string \<Rightarrow> bool \<Rightarrow> bool" where
  "asks_bool q key b \<longleftrightarrow> map_of q key = None \<and> \<not> b \<or>
     (\<exists>v. map_of q key = Some [v] \<and> toLower (trimSpace v) \<in> set (if b then trueWords else falseWords))"

definition asks_addrs :: "url_values \<Rightarrow> string \<Rightarrow> string \<Rightarrow> bool" where
  "asks_addrs q defaultAddrs s \<longleftrightarrow> map_of q ''addrs'' = None \<and> s = defaultAddrs \<or> map_of q ''addrs'' = Some [s] \<and> trimSpace s \<noteq> ''''"

definition asks_cooldown :: "(int \<Rightarrow> nat \<Rightarrow> int \<Rightarrow> int) \<Rightarrow> url_values \<Rightarrow> duration \<Rightarrow> bool" where
  "asks_cooldown frac q d \<longleftrightarrow> map_of q ''oom-cooldown'' = None \<and> d = defaultBuildkitOOMCooldown \<or>
     (\<exists>v. map_of q ''oom-cooldown'' = Some [v] \<and> trimSpace v \<noteq> '''' \<and> ParseDuration frac v = Some d)"

definition asks_target :: "url_values \<Rightarrow> string \<Rightarrow> bool" where
  "asks_target q s \<longleftrightarrow> map_of q ''target'' = None \<and> s = '''' \<or> (\<exists>v. map_of q ''target'' = Some [v] \<and> s = trimSpace v)"

definition keysAllowed :: "url_values \<Rightarrow> string list \<Rightarrow> bool" where
  "keysAllowed q allowed \<longleftrightarrow> (\<forall>(key, vals) \<in> set q. key \<in> set allowed \<and> (key = ''var'' \<or> length vals \<le> 1))"

text \<open>A configuration of the command line that a query stands for.\<close>

definition query_asks :: "(int \<Rightarrow> nat \<Rightarrow> int \<Rightarrow> int) \<Rightarrow> url_values \<Rightarrow> string \<Rightarrow> batch_config \<Rightarrow> bool" where
  "query_asks frac q defaultAddrs cfg \<longleftrightarrow>
     keysAllowed q buildQueryKeys \<and> asks_addrs q defaultAddrs (bcf_Addrs cfg) \<and>
     asks_int q ''concurrency'' 1 (bcf_Concurrency cfg) \<and> asks_int q ''timeout'' 300 (bcf_Timeout cfg) \<and>
     asks_int q ''retry'' 0 (bcf_Retry cfg) \<and> asks_cooldown frac q (bcf_OOMCooldown cfg) \<and>
     asks_bool q ''fail-fast'' (bcf_FailFast cfg) \<and> asks_bool q ''oci'' (bcf_OCI cfg) \<and>
     asks_bool q ''both-formats'' (bcf_BothFormats cfg) \<and> asks_bool q ''verbose'' (bcf_Verbose cfg) \<and>
     asks_bool q ''skip-fail'' (bcf_SkipFail cfg) \<and> asks_target q (bcf_Target cfg) \<and>
     valuesOf q ''var'' = bcf_Variables cfg \<and> bcf_ImageDirs cfg = '''' \<and>
     1 \<le> bcf_Concurrency cfg \<and> bcf_Concurrency cfg < 2 ^ 63 \<and> 0 \<le> bcf_Timeout cfg \<and> bcf_Timeout cfg < 2 ^ 63 \<and>
     0 \<le> bcf_Retry cfg \<and> bcf_Retry cfg < 2 ^ 63 \<and> 0 \<le> bcf_OOMCooldown cfg"

lemma validateQueryKeys_None: "validateQueryKeys q allowed = None \<longleftrightarrow> keysAllowed q allowed"
  by (induction q allowed rule: validateQueryKeys.induct) (auto simp: keysAllowed_def)

lemma queryInt_asks:
  assumes "asks_int q key def n" "low \<le> n" "0 \<le> low" "n < 2 ^ 63"
  shows "queryIntStrict q key def low = Inr n"
  using assms atoi_showInt [of n] trimSpace_showInt [of n] by (auto simp: asks_int_def queryIntStrict_def queryValue_def)

lemma queryBool_asks: "asks_bool q key b \<Longrightarrow> queryBoolStrict q key False = Inr b"
  by (auto simp: asks_bool_def queryBoolStrict_def queryValue_def Let_def trueWords_def falseWords_def split: if_splits)

lemma queryDuration_asks:
  "asks_cooldown frac q d \<Longrightarrow> 0 \<le> d \<Longrightarrow> queryDurationStrict frac q ''oom-cooldown'' defaultBuildkitOOMCooldown 0 = Inr d"
  by (auto simp: asks_cooldown_def queryDurationStrict_def queryValue_def)

lemma queryAddrs_asks:
  assumes "asks_addrs q defaultAddrs s"
  obtains given where "queryValue q ''addrs'' = Inr given"
    "(case given of None \<Rightarrow> defaultAddrs | Some v \<Rightarrow> if trimSpace v = '''' then defaultAddrs else v) = s"
  using assms by (auto simp: asks_addrs_def queryValue_def)

lemma queryTarget_asks:
  assumes "asks_target q s"
  obtains target where "queryValue q ''target'' = Inr target" "(case target of None \<Rightarrow> '''' | Some t \<Rightarrow> trimSpace t) = s"
  using assms by (auto simp: asks_target_def queryValue_def)

text \<open>The bounds of the values a query gives.\<close>

lemma atoi_range: "atoi s = Some n \<Longrightarrow> n < 2 ^ 63"
  by (auto simp: atoi_def Let_def split: list.splits if_splits)

lemma queryInt_bounds: "queryIntStrict q key def low = Inr n \<Longrightarrow> low \<le> def \<Longrightarrow> def < 2 ^ 63 \<Longrightarrow> low \<le> n \<and> n < 2 ^ 63"
  by (cases "queryValue q key") (auto simp: queryIntStrict_def dest!: atoi_range split: option.split_asm if_split_asm)

lemma queryDuration_bounds:
  "queryDurationStrict frac q key def 0 = Inr d \<Longrightarrow> 0 \<le> def \<Longrightarrow> 0 \<le> d"
  by (cases "queryValue q key") (auto simp: queryDurationStrict_def split: option.split_asm if_split_asm)

lemma parseBuildVariables_keys:
  "parseBuildVariables items vars = Inr vars' \<Longrightarrow> \<forall>k \<in> fst ` set vars. hasPrefix k varPrefix \<Longrightarrow>
     k \<in> fst ` set vars' \<Longrightarrow> hasPrefix k varPrefix"
proof (induction items vars rule: parseBuildVariables.induct)
  case (2 item items vars)
  then obtain key val where p: "parseBuildVariable item = Inr (key, val)" "parseBuildVariables items (AList.update key val vars) = Inr vars'"
    by auto
  have "hasPrefix key varPrefix"
    using p(1) by (auto simp: parseBuildVariable_def split: prod.splits if_splits)
  then have "\<forall>k \<in> fst ` set (AList.update key val vars). hasPrefix k varPrefix"
    using "2.prems"(2) unfolding dom_map_of_conv_image_fst [symmetric] by (auto simp: update_conv' split: if_splits)
  then show ?case using "2.IH" [OF p(1) refl p(2)] "2.prems"(3) by blast
qed auto

lemma batch_parseBuildkitAddrs_not_Nil: "batch_parseBuildkitAddrs net s = Inr addrs \<Longrightarrow> addrs \<noteq> []"
  by (auto simp: batch_parseBuildkitAddrs_def Let_def split: if_splits dest: arg_cong [of _ _ mset])

section \<open>Properties\<close>

text \<open>
  Options from a query are well-formed. A query that is accepted has only known keys, each but the
  variables at most once, and gives options with at least one worker address, a concurrency of at least
  one, a timeout, a number of retries and a cooldown that are not negative, within 64 bits, a target
  without surrounding white space, and variables whose names carry the required prefix.
\<close>

theorem build_options_valid:
  assumes "buildOptionsFromQuery net frac q defaultAddrs resultDB logsFile = Inr opts"
  shows "keysAllowed q buildQueryKeys \<and> op_addrs opts \<noteq> [] \<and> 1 \<le> op_concurrency opts \<and> op_concurrency opts < 2 ^ 63 \<and>
    0 \<le> op_timeout opts \<and> op_timeout opts < 2 ^ 63 \<and> 0 \<le> op_retry opts \<and> op_retry opts < 2 ^ 63 \<and> 0 \<le> op_oomCooldown opts \<and>
    trimSpace (op_target opts) = op_target opts \<and> (\<forall>k \<in> fst ` set (op_vars opts). hasPrefix k varPrefix)"
proof -
  have v: "validateQueryKeys q buildQueryKeys = None"
    using assms by (auto simp: buildOptionsFromQuery_def split: option.splits)
  from assms obtain addrs conc timeout retry cool target vars where
    o: "batch_parseBuildkitAddrs net (op_addrsRaw opts) = Inr (op_addrs opts)"
      "queryIntStrict q ''concurrency'' 1 1 = Inr (op_concurrency opts)" "queryIntStrict q ''timeout'' 300 0 = Inr (op_timeout opts)"
      "queryIntStrict q ''retry'' 0 0 = Inr (op_retry opts)"
      "queryDurationStrict frac q ''oom-cooldown'' defaultBuildkitOOMCooldown 0 = Inr (op_oomCooldown opts)"
      "op_target opts = (case target of None \<Rightarrow> '''' | Some t \<Rightarrow> trimSpace t)"
      "parseBuildVariables (valuesOf q ''var'') [] = Inr (op_vars opts)"
    by (auto simp: buildOptionsFromQuery_def v Let_def)
  show ?thesis
    using v queryInt_bounds [OF o(2)] queryInt_bounds [OF o(3)] queryInt_bounds [OF o(4)] queryDuration_bounds [OF o(5)]
      batch_parseBuildkitAddrs_not_Nil [OF o(1)] o(6) parseBuildVariables_keys [OF o(7)]
    by (auto simp: validateQueryKeys_None defaultBuildkitOOMCooldown_def split: option.splits)
qed

definition demoNet :: net_env where
  "demoNet = \<lparr>net_ParseIP = (\<lambda>h. if h = ''10.0.0.1'' then Some h else None), net_LookupHost = (\<lambda>_. Inl (Errorf ''no such host''))\<rparr>"

definition demoQuery :: url_values where
  "demoQuery = [(''timeout'', [''60'']), (''oci'', ['''']), (''oom-cooldown'', [''1m30s'']), (''var'', [''BUILDCTL_BATCH_A=1''])]"

definition demoOptions :: build_options where
  "demoOptions = \<lparr>op_imageDirs = '''', op_addrs = [\<lparr>ba_original = ''10.0.0.1:1'', ba_addr = ''tcp://10.0.0.1:1'', ba_nodeIP = ''10.0.0.1''\<rparr>],
     op_addrsRaw = ''10.0.0.1:1'', op_concurrency = 1, op_failfast = False, op_oci = True, op_bothFormats = False,
     op_oomCooldown = 90 * second, op_resultPath = ''/tmp/r'', op_logsPath = ''/tmp/l'', op_vars = [(''BUILDCTL_BATCH_A'', ''1'')],
     op_timeout = 60, op_retry = 0, op_verbose = False, op_target = '''', op_skipFail = False\<rparr>"

lemma demoQuery_options:
  "buildOptionsFromQuery demoNet (\<lambda>f k u. 0) demoQuery ''10.0.0.1:1'' ''/tmp/r'' ''/tmp/l'' = Inr demoOptions"
  by code_simp

theorem build_options_valid_witness: "1 \<le> op_concurrency demoOptions \<and> op_addrs demoOptions \<noteq> []"
  using build_options_valid [OF demoQuery_options] by blast

text \<open>
  C23. A query means what the command line means. When a query asks, field by field, for a configuration
  of the command line (a missing key for its default), the daemon builds with exactly the options that
  the build command has for that configuration, and fails with the same error when the addresses or the
  variables are invalid.
\<close>

theorem query_as_command_line:
  assumes "query_asks frac q defaultAddrs cfg"
  shows "buildOptionsFromQuery net frac q defaultAddrs (bcf_ResultPath cfg) (bcf_LogsPath cfg) = batch_Run net cfg"
proof -
  note a = assms [unfolded query_asks_def]
  from a obtain given where g: "queryValue q ''addrs'' = Inr given"
    "(case given of None \<Rightarrow> defaultAddrs | Some v \<Rightarrow> if trimSpace v = '''' then defaultAddrs else v) = bcf_Addrs cfg"
    by (blast elim: queryAddrs_asks)
  from a obtain target where t: "queryValue q ''target'' = Inr target"
    "(case target of None \<Rightarrow> '''' | Some t \<Rightarrow> trimSpace t) = bcf_Target cfg"
    by (blast elim: queryTarget_asks)
  have n: "queryIntStrict q ''concurrency'' 1 1 = Inr (bcf_Concurrency cfg)" "queryIntStrict q ''timeout'' 300 0 = Inr (bcf_Timeout cfg)"
    "queryIntStrict q ''retry'' 0 0 = Inr (bcf_Retry cfg)"
    "queryDurationStrict frac q ''oom-cooldown'' defaultBuildkitOOMCooldown 0 = Inr (bcf_OOMCooldown cfg)"
    using a by (simp_all add: queryInt_asks queryDuration_asks)
  have b: "queryBoolStrict q ''fail-fast'' False = Inr (bcf_FailFast cfg)" "queryBoolStrict q ''oci'' False = Inr (bcf_OCI cfg)"
    "queryBoolStrict q ''both-formats'' False = Inr (bcf_BothFormats cfg)" "queryBoolStrict q ''verbose'' False = Inr (bcf_Verbose cfg)"
    "queryBoolStrict q ''skip-fail'' False = Inr (bcf_SkipFail cfg)"
    using a by (simp_all add: queryBool_asks)
  have v: "validateQueryKeys q buildQueryKeys = None" using a by (simp add: validateQueryKeys_None)
  show ?thesis
    using a g t by (simp add: buildOptionsFromQuery_def batch_Run_def v n b Let_def split: sum.split)
qed

theorem query_as_command_line_witness:
  "buildOptionsFromQuery demoNet (\<lambda>f k u. 0) [(''oci'', [''Yes'']), (''retry'', [''2''])] ''10.0.0.1:1'' ''result.lmdb'' ''logs.jsonl'' =
   batch_Run demoNet (batch_DefaultConfig\<lparr>bcf_Addrs := ''10.0.0.1:1'', bcf_OCI := True, bcf_Retry := 2\<rparr>)"
proof -
  have "query_asks (\<lambda>f k u. 0) [(''oci'', [''Yes'']), (''retry'', [''2''])] ''10.0.0.1:1''
      (batch_DefaultConfig\<lparr>bcf_Addrs := ''10.0.0.1:1'', bcf_OCI := True, bcf_Retry := 2\<rparr>)"
    by (simp add: query_asks_def asks_int_def asks_bool_def asks_addrs_def asks_cooldown_def asks_target_def keysAllowed_def
        buildQueryKeys_def valuesOf_def batch_DefaultConfig_def defaultBuildkitOOMCooldown_def) code_simp
  from query_as_command_line [OF this, of demoNet] show ?thesis by (simp add: batch_DefaultConfig_def)
qed

end
