(* ===== verification/Batch_Command.thy ===== *)
theory Batch_Command
  imports Batch_Safety Batch_Options
begin

text \<open>
  The two build commands from their options to their end: the beginning of \<^verbatim>\<open>runBuildCommandBatch\<close> and
  \<^verbatim>\<open>runBuildCommandStreamingImageDirs\<close>, which load what is to be built, open the result store, filter by
  earlier results and start the scheduling loop of \<open>Batch_Run\<close>. The property of this theory puts the
  components together: a batch command that returns without an error leaves a successful result for
  everything it was asked to build.
\<close>

section \<open>The start of a command\<close>

text \<open>\<^verbatim>\<open>newResultStore\<close>: the opened database and the log of failures with the file that is there.\<close>

definition newResultStore :: "lmdbResultDB result \<Rightarrow> string option \<Rightarrow> string \<Rightarrow> resultStore result" where
  "newResultStore opened logFile logsPath = (case opened of
      Inl e \<Rightarrow> Inl e
    | Inr db \<Rightarrow> Inr \<lparr>rs_db = db, rs_logs = newFailureLogStore logsPath, rs_logFile = logFile\<rparr>)"

text \<open>A negative concurrency makes \<^verbatim>\<open>make(chan struct{}, n)\<close> panic.\<close>

datatype command_start = EarlyReturn "go_error option" | Panics | StartRun batch

definition startLoop :: "build_options \<Rightarrow> bool \<Rightarrow> nat \<Rightarrow> buildJob list \<Rightarrow> resultStore \<Rightarrow> buildOutcomeCounters \<Rightarrow> command_start" where
  "startLoop opts streaming entries jobs rs counters =
     (if op_concurrency opts < 0 then Panics
      else StartRun (batchInit streaming entries jobs
        (batch_newAddrPool (op_addrs opts) (nat (op_concurrency opts)) (op_oomCooldown opts)) (nat (op_concurrency opts)) rs counters))"

definition runBuildCommandBatch ::
    "result_json \<Rightarrow> (string \<Rightarrow> lmdb_rc) \<Rightarrow> buildSpec list result \<Rightarrow> resultStore result \<Rightarrow> build_options \<Rightarrow> command_start" where
  "runBuildCommandBatch json rc loaded opened opts = (case loaded of
      Inl e \<Rightarrow> EarlyReturn (Some e)
    | Inr specs \<Rightarrow>
        if specs = [] then EarlyReturn None
        else let jobs = groupBuildSpecs specs in
          if jobs = [] then EarlyReturn None
          else case opened of
            Inl e \<Rightarrow> EarlyReturn (Some e)
          | Inr rs \<Rightarrow>
              (case filterBuildJobs (\<lambda>target. db_Get json (rc target) target (rs_db rs)) (op_skipFail opts) jobs of
                 Inl e \<Rightarrow> EarlyReturn (Some e)
               | Inr (pending, existing, skippedSucceeded, skippedFailed) \<Rightarrow>
                   if pending = [] then EarlyReturn None
                   else startLoop opts False 0 pending rs (newBuildOutcomeCounters (int (length jobs)) existing)))"

text \<open>
  The streaming command: the jobs come from \<^verbatim>\<open>streamPreparedBuildJobs\<close> while the loop runs. \<open>tempErr\<close> is the
  error of making the directory of the prepared images.
\<close>

definition runBuildCommandStreamingImageDirs ::
    "resultStore result \<Rightarrow> image_dir list result \<Rightarrow> go_error option \<Rightarrow> build_options \<Rightarrow> command_start" where
  "runBuildCommandStreamingImageDirs opened listing tempErr opts = (case opened of
      Inl e \<Rightarrow> EarlyReturn (Some e)
    | Inr rs \<Rightarrow>
        (case listing of
           Inl e \<Rightarrow> EarlyReturn (Some (wrapErr ''read image-dirs'' e))
         | Inr entries \<Rightarrow>
             if entries = [] then
               EarlyReturn (Some (Errorf (''image-dirs '' @ op_imageDirs opts @ '' does not contain any image directories'')))
             else case tempErr of
               Some e \<Rightarrow> EarlyReturn (Some (wrapErr ''create temp image-dirs'' e))
             | None \<Rightarrow> startLoop opts True (length entries) [] rs (newBuildOutcomeCounters (int (length entries)) [])))"

text \<open>Both commands start the loop in a state in which the machine starts.\<close>

lemma command_starts:
  "runBuildCommandBatch json rc loaded opened opts = StartRun b \<Longrightarrow> batch_start b"
  "runBuildCommandStreamingImageDirs opened listing tempErr opts = StartRun b \<Longrightarrow> batch_start b"
proof -
  have loop: "startLoop opts streaming entries jobs rs counters = StartRun b \<Longrightarrow> batch_start b" for streaming entries jobs rs counters
    unfolding startLoop_def batch_start_def by (simp split: if_split_asm) blast
  show "runBuildCommandBatch json rc loaded opened opts = StartRun b \<Longrightarrow> batch_start b"
    by (auto simp: runBuildCommandBatch_def Let_def split: sum.split_asm prod.split_asm if_split_asm dest: loop)
  show "runBuildCommandStreamingImageDirs opened listing tempErr opts = StartRun b \<Longrightarrow> batch_start b"
    by (auto simp: runBuildCommandStreamingImageDirs_def split: sum.split_asm option.split_asm if_split_asm dest: loop)
qed

section \<open>Results stay\<close>

text \<open>
  How a run goes on: a failure is not forgotten, no job is taken back, and while nothing has failed
  the database only gains successful results.
\<close>

definition run_continues :: "batch_opts \<Rightarrow> acct \<Rightarrow> acct \<Rightarrow> bool" where
  "run_continues opts a a' \<longleftrightarrow> (ac_failed a \<longrightarrow> ac_failed a') \<and> set (ac_given a) \<subseteq> set (ac_given a') \<and>
     (\<not> ac_failed a' \<longrightarrow> (\<forall>target. map_of (ac_db a') target = map_of (ac_db a) target \<or> stored_success opts (ac_db a') target))"

lemma run_continues_trans:
  assumes "run_continues opts a b" "run_continues opts b c"
  shows "run_continues opts a c"
proof -
  have "map_of (ac_db c) target = map_of (ac_db a) target \<or> stored_success opts (ac_db c) target" if "\<not> ac_failed c" for target
    using assms that unfolding run_continues_def stored_success_def by metis
  then show ?thesis using assms unfolding run_continues_def by blast
qed

lemma acct_step_continues: "acct_step opts a a' \<Longrightarrow> run_continues opts a a'"
proof (induction rule: acct_step.induct)
  case (ac_ok a t N s ss e p)
  then show ?case by (auto simp: run_continues_def stored_success_def update_conv')
qed (auto simp: run_continues_def)

interpretation continued: ts_history batch_start "batch_step opts" ctl_ok "\<lambda>b b'. run_continues opts (acctOf b) (acctOf b')" for opts
proof
  show "run_continues opts (acctOf b) (acctOf b)" for b by (simp add: run_continues_def)
qed (auto intro: ctl_ok_start ctl_ok_step run_continues_trans acct_step_continues batch_step_acct)

section \<open>Everything asked for is built\<close>

text \<open>
  The lookup of a result after the run, and what a command promises for the builds it was asked for:
  a successful result, unless failures are skipped and a build of the same image had failed before.
\<close>

abbreviation lookupResult :: "result_json \<Rightarrow> lmdbResultDB \<Rightarrow> string \<Rightarrow> resultEntry option result" where
  "lookupResult json db target \<equiv> db_Get json rcOK target db"

definition builtAll :: "result_json \<Rightarrow> bool \<Rightarrow> buildSpec list \<Rightarrow> lmdbResultDB \<Rightarrow> lmdbResultDB \<Rightarrow> bool" where
  "builtAll json skipFail specs before after \<longleftrightarrow> (\<forall>s \<in> set specs.
     specDone (lookupResult json after) s \<or>
     (skipFail \<and> (\<exists>s' \<in> set specs. jobKey s' = jobKey s \<and> specFailed (lookupResult json before) s')))"

text \<open>The success flag of an entry survives its encoding.\<close>

definition json_keeps_success :: "result_json \<Rightarrow> bool" where
  "json_keeps_success json \<longleftrightarrow> (\<forall>e p. rj_Marshal json e = Inr p \<longrightarrow> (\<exists>e'. rj_Unmarshal json p = Inr e' \<and> re_Success e' = re_Success e))"

lemma stored_success_done:
  assumes "json_keeps_success (sv_json (bo_store opts))" "stored_success opts db (sp_target s)"
  shows "specDone (lookupResult (sv_json (bo_store opts)) db) s"
proof -
  obtain e p where e: "re_Success e" "rj_Marshal (sv_json (bo_store opts)) e = Inr p" "map_of db (sp_target s) = Some p"
    using assms(2) unfolding stored_success_def by blast
  obtain e' where "rj_Unmarshal (sv_json (bo_store opts)) p = Inr e'" "re_Success e'"
    using assms(1) e unfolding json_keeps_success_def by blast
  then show ?thesis using e(3) by (simp add: specDone_def db_Get_def rcOK_def)
qed

lemma specDone_same: "map_of db target = map_of db' target \<Longrightarrow> sp_target s = target \<Longrightarrow>
    specDone (lookupResult json db) s = specDone (lookupResult json db') s"
  by (simp add: specDone_def db_Get_def rcOK_def)

text \<open>When lookups answer at all, their answers do not depend on the return codes.\<close>

lemma lookup_any_rc: "db_Get json rc target db = Inr r \<Longrightarrow> lookupResult json db target = Inr r"
  by (auto simp: db_Get_def rcOK_def split: option.splits)

lemma specDone_any_rc: "specDone (\<lambda>target. db_Get json (rc target) target db) s \<Longrightarrow> specDone (lookupResult json db) s"
  unfolding specDone_def using lookup_any_rc by (fastforce split: sum.split_asm option.split_asm)

lemma specFailed_any_rc: "specFailed (\<lambda>target. db_Get json (rc target) target db) s \<Longrightarrow> specFailed (lookupResult json db) s"
  unfolding specFailed_def using lookup_any_rc by (fastforce split: sum.split_asm option.split_asm)

lemma jobOf_group: "s \<in> set specs \<Longrightarrow> jobOf specs (jobKey s) \<in> set (groupBuildSpecs specs) \<and> s \<in> set (jb_specs (jobOf specs (jobKey s)))"
  by (simp add: groupBuildSpecs_def jobOf_set)

text \<open>A build that filtering leaves out is done, or skipped after a failure; the others are in a job.\<close>

lemma filter_covers:
  assumes "filterBuildJobs get skipFail (groupBuildSpecs specs) = Inr (pending, existing, nS, nF)" "s \<in> set specs"
  shows "specDone get s \<or> (skipFail \<and> (\<exists>s' \<in> set specs. jobKey s' = jobKey s \<and> specFailed get s')) \<or>
     (\<exists>j \<in> set pending. s \<in> set (jb_specs j))"
proof (cases "specDone get s \<or> jobSkipped get skipFail (jobOf specs (jobKey s))")
  case True
  then show ?thesis using jobOf_group [OF assms(2)] unfolding jobSkipped_def jobOf_set by blast
next
  case False
  let ?j = "jobOf specs (jobKey s)"
  let ?j' = "?j\<lparr>jb_specs := filter (\<lambda>s. \<not> specDone get s) (jb_specs ?j)\<rparr>"
  have "?j' \<in> set pending" "s \<in> set (jb_specs ?j')"
    using filterBuildJobs_Inr [OF assms(1)] jobOf_group [OF assms(2)] False by auto
  then show ?thesis by blast
qed

lemma filtered_or_done:
  assumes "filterBuildJobs (\<lambda>target. db_Get json (rc target) target db) skipFail (groupBuildSpecs specs) = Inr (pending, existing, nS, nF)" "s \<in> set specs"
  shows "specDone (lookupResult json db) s \<or>
     (skipFail \<and> (\<exists>s' \<in> set specs. jobKey s' = jobKey s \<and> specFailed (lookupResult json db) s')) \<or>
     (\<exists>j \<in> set pending. s \<in> set (jb_specs j))"
  using filter_covers [OF assms] specDone_any_rc specFailed_any_rc by blast

text \<open>The way of a command with something to build through its filtering.\<close>

lemma commandBatch_filters:
  assumes "specs \<noteq> []" "runBuildCommandBatch json rc (Inr specs) (Inr rs) opts = start" "start = EarlyReturn None \<or> start = StartRun b"
  shows "\<exists>pending existing nS nF.
    filterBuildJobs (\<lambda>target. db_Get json (rc target) target (rs_db rs)) (op_skipFail opts) (groupBuildSpecs specs) = Inr (pending, existing, nS, nF) \<and>
    (if start = EarlyReturn None then pending = [] else b_given b = pending \<and> b_rs b = rs)"
proof -
  let ?f = "filterBuildJobs (\<lambda>target. db_Get json (rc target) target (rs_db rs)) (op_skipFail opts) (groupBuildSpecs specs)"
  have "groupBuildSpecs specs \<noteq> []" using assms(1) jobOf_group [of "hd specs" specs] by auto
  then have start: "start = (case ?f of Inl e \<Rightarrow> EarlyReturn (Some e)
      | Inr (pending, existing, nS, nF) \<Rightarrow> if pending = [] then EarlyReturn None
          else startLoop opts False 0 pending rs (newBuildOutcomeCounters (int (length (groupBuildSpecs specs))) existing))"
    using assms(1,2) by (simp add: runBuildCommandBatch_def Let_def)
  then obtain pending existing nS nF where f: "?f = Inr (pending, existing, nS, nF)"
    using assms(3) by (cases ?f) auto
  have "if start = EarlyReturn None then pending = [] else b_given b = pending \<and> b_rs b = rs"
    using start assms(3) unfolding f by (auto simp: startLoop_def batchInit_def split: if_splits)
  with f show ?thesis by blast
qed

section \<open>The end of a run\<close>

text \<open>
  What a run from the start of a command to a return without an error leaves in the database: the results
  of all jobs it was given, and every success that was there at a moment of the run.
\<close>

lemma run_end:
  assumes "json_keeps_success (sv_json (bo_store bopts))" "batch_start b" "runs (batch_step bopts) evs b = Some b'"
    "b_pc b' = Returned None" "b_dropped b' = []"
  shows "\<not> b_failed b'"
    "j \<in> set (b_given b') \<Longrightarrow> s \<in> set (jb_specs j) \<Longrightarrow> specDone (lookupResult (sv_json (bo_store bopts)) (rs_db (b_rs b'))) s"
    "runs (batch_step bopts) (take n evs) b = Some bi \<Longrightarrow> specDone (lookupResult (sv_json (bo_store bopts)) (rs_db (b_rs bi))) s \<Longrightarrow>
       specDone (lookupResult (sv_json (bo_store bopts)) (rs_db (b_rs b'))) s"
proof -
  note c0 = ctl_ok_start [OF assms(2)]
  show nf: "\<not> b_failed b'" using continued.runs_inv [OF c0 assms(3)] assms(4) by (simp add: ctl_ok_def)
  show "specDone (lookupResult (sv_json (bo_store bopts)) (rs_db (b_rs b'))) s" if "j \<in> set (b_given b')" "s \<in> set (jb_specs j)"
    using returned_all_stored [OF runs_reach [OF assms(3) reach_init] assms(4,5)] assms(2) that stored_success_done [OF assms(1)] by blast
  show "specDone (lookupResult (sv_json (bo_store bopts)) (rs_db (b_rs b'))) s"
    if i: "runs (batch_step bopts) (take n evs) b = Some bi" and s: "specDone (lookupResult (sv_json (bo_store bopts)) (rs_db (b_rs bi))) s"
  proof -
    have "runs (batch_step bopts) (drop n evs) bi = Some b'"
      using assms(3) i runs_append [of "batch_step bopts" "take n evs" "drop n evs" b] by simp
    from continued.runs_rel [OF continued.runs_inv [OF c0 i] this] nf
    have "map_of (rs_db (b_rs b')) (sp_target s) = map_of (rs_db (b_rs bi)) (sp_target s) \<or> stored_success bopts (rs_db (b_rs b')) (sp_target s)"
      by (simp add: run_continues_def acctOf_def)
    then show ?thesis using stored_success_done [OF assms(1)] s specDone_same by blast
  qed
qed

text \<open>The jobs that the loop receives are the ones it has been given, and it stops receiving on the producer's word only.\<close>

definition receivedJobs :: "batch_event list \<Rightarrow> buildJob list" where
  "receivedJobs evs = concat (map (\<lambda>ev. case ev of Receive job \<Rightarrow> [job] | _ \<Rightarrow> []) evs)"

lemma run_given:
  assumes "ctl_ok b" "runs (batch_step bopts) evs b = Some b'"
  shows "set (receivedJobs evs) \<subseteq> set (b_given b')"
  using assms
proof (induction evs arbitrary: b)
  case (Cons ev evs)
  then obtain b1 where b1: "batch_step bopts ev b = Some b1" "runs (batch_step bopts) evs b1 = Some b'" by (auto split: option.splits)
  have k: "ctl_ok b1" by (rule ctl_ok_step [OF Cons.prems(1) b1(1)])
  have "set (b_given b1) \<subseteq> set (b_given b')" using continued.runs_rel [OF k b1(2)] by (simp add: run_continues_def acctOf_def)
  moreover have "job \<in> set (b_given b1)" if "ev = Receive job" for job using b1(1) that by (auto simp: batch_step_def split: if_split_asm)
  ultimately show ?case using Cons.IH [OF k b1(2)] by (auto simp: receivedJobs_def split: batch_event.splits)
qed (simp add: receivedJobs_def)

lemma step_producing:
  assumes "batch_step bopts ev b = Some b'" "b_producing b" "\<not> b_producing b'"
  shows "\<exists>err. ev = Prepared err \<and> (err \<noteq> None \<longrightarrow> b_failed b')"
proof (cases ev)
  case (BuildReturns i now io rc elapsed run)
  then have "workerBuild bopts now io rc elapsed run i b = Some b'" "i < length (b_workers b)"
    using assms(1) by (simp_all add: batch_step_def split: if_split_asm)
  from workerBuild_ctl [OF this] assms(2,3) show ?thesis by simp
qed (use assms in \<open>auto simp: batch_step_def loopHead_def waitDone_def takeSlot_def takeGlobal_def giveBackSlot_def refuse_def
      workerRelease_def Let_def split: command_pc.split_asm if_split_asm list.split_asm option.split_asm wait_turn.split_asm
      worker_pc.split_asm\<close>)

lemma run_producing:
  assumes "ctl_ok b" "runs (batch_step bopts) evs b = Some b'" "b_producing b" "\<not> b_producing b'" "\<not> b_failed b'"
  shows "Prepared None \<in> set evs"
  using assms
proof (induction evs arbitrary: b)
  case (Cons ev evs)
  then obtain b1 where b1: "batch_step bopts ev b = Some b1" "runs (batch_step bopts) evs b1 = Some b'" by (auto split: option.splits)
  have k: "ctl_ok b1" by (rule ctl_ok_step [OF Cons.prems(1) b1(1)])
  show ?case
  proof (cases "b_producing b1")
    case True
    then show ?thesis using Cons.IH [OF k b1(2)] Cons.prems by simp
  next
    case False
    have "b_failed b1 \<longrightarrow> b_failed b'" using continued.runs_rel [OF k b1(2)] by (simp add: run_continues_def acctOf_def)
    then show ?thesis using step_producing [OF b1(1) Cons.prems(3) False] Cons.prems(5) by (cases "ev = Prepared None") auto
  qed
qed simp

section \<open>The producer of the streaming command\<close>

definition streamOptsOf :: "string \<Rightarrow> bool list \<Rightarrow> build_options \<Rightarrow> stream_opts" where
  "streamOptsOf preparedRoot modes opts = \<lparr>so_imageDirs = op_imageDirs opts, so_preparedRoot = preparedRoot, so_vars = op_vars opts,
     so_modes = modes, so_filters = targetFiltersOf (op_target opts) modes, so_skipFail = op_skipFail opts\<rparr>"

text \<open>The builds of one directory, in the producer's steps: preparation, metadata, one build per mode.\<close>

definition dirSpecs :: "'d dockerfile_lib \<Rightarrow> 'd \<Rightarrow> (string \<Rightarrow> string result) \<Rightarrow> stream_opts \<Rightarrow> image_dir \<Rightarrow> buildSpec list result" where
  "dirSpecs lib directives decode so im = (case prepareImageDir lib directives (so_imageDirs so) (so_preparedRoot so) (so_vars so) im of
      Inl e \<Rightarrow> Inl e
    | Inr (key, dockerfile, metadata) \<Rightarrow>
        (let dstDir = filepathJoin (so_preparedRoot so) (im_name im) in
         case loadImageMetadata decode (filepathJoin dstDir ''metadata.json'') (Inr metadata) of
           Inl e \<Rightarrow> Inl e
         | Inr target \<Rightarrow> Inr (specsOfDir (so_filters so) (so_modes so) dstDir target key)))"

lemma stream_step:
  assumes "streamPreparedBuildJobs lib directives decode so canceled sent get idx (im # ims) c = (jobs, c', None)"
  obtains specs sent_jobs rest existing nS nF c1 where "dirSpecs lib directives decode so im = Inr specs"
    "streamPreparedBuildJobs lib directives decode so canceled sent get (Suc idx) ims c1 = (rest, c', None)" "jobs = sent_jobs @ rest"
    "specs = [] \<or> filterBuildJobs (get idx) (so_skipFail so) (groupBuildSpecs specs) = Inr (sent_jobs, existing, nS, nF)"
  using assms
  by (auto simp: dirSpecs_def Let_def split: if_split_asm sum.split_asm prod.split_asm)

lemma stream_covers:
  assumes "streamPreparedBuildJobs lib directives decode so canceled sent get idx ims c = (jobs, c', None)" "i < length ims"
  shows "\<exists>specs. dirSpecs lib directives decode so (ims ! i) = Inr specs \<and> (\<forall>s \<in> set specs. specDone (get (idx + i)) s \<or>
     (so_skipFail so \<and> (\<exists>s' \<in> set specs. jobKey s' = jobKey s \<and> specFailed (get (idx + i)) s')) \<or> (\<exists>j \<in> set jobs. s \<in> set (jb_specs j)))"
  using assms
proof (induction ims arbitrary: idx c jobs i)
  case (Cons im ims)
  from Cons.prems(1) obtain specs sent_jobs rest existing nS nF c1 where st: "dirSpecs lib directives decode so im = Inr specs"
    "streamPreparedBuildJobs lib directives decode so canceled sent get (Suc idx) ims c1 = (rest, c', None)" "jobs = sent_jobs @ rest"
    "specs = [] \<or> filterBuildJobs (get idx) (so_skipFail so) (groupBuildSpecs specs) = Inr (sent_jobs, existing, nS, nF)"
    by (rule stream_step)
  show ?case
  proof (cases i)
    case 0
    have "specDone (get idx) s \<or> (so_skipFail so \<and> (\<exists>s' \<in> set specs. jobKey s' = jobKey s \<and> specFailed (get idx) s')) \<or>
        (\<exists>j \<in> set jobs. s \<in> set (jb_specs j))" if "s \<in> set specs" for s
      using filter_covers [of "get idx" "so_skipFail so" specs sent_jobs existing nS nF s] st(3,4) that by auto
    then show ?thesis using st(1) 0 by auto
  next
    case (Suc k)
    then show ?thesis using Cons.IH [OF st(2), of k] Cons.prems(2) st(3) by fastforce
  qed
qed simp

lemma streaming_starts:
  assumes "runBuildCommandStreamingImageDirs opened listing tempErr opts = StartRun b"
  shows "b_producing b"
  using assms by (auto simp: runBuildCommandStreamingImageDirs_def startLoop_def batchInit_def split: sum.split_asm option.split_asm if_split_asm)

section \<open>Claims\<close>

text \<open>
  C29. A batch command that returns without an error has built what it was asked to build. Whether the
  command ends before the loop because nothing is pending, or its loop runs to a return without an
  error and no task was left unscheduled, for every build of the specifications it loaded the database
  answers a successful result after it: the one from an earlier command, or the one this run stored. The only
  exception is the one that \<^verbatim>\<open>--skip-fail\<close> asks for, a build whose image had failed before.
\<close>

theorem batch_command_builds_all:
  assumes "json_keeps_success json" "sv_json (bo_store bopts) = json"
    "runBuildCommandBatch json rc (Inr specs) (Inr rs) opts = start"
  shows "(start = EarlyReturn None \<longrightarrow> builtAll json (op_skipFail opts) specs (rs_db rs) (rs_db rs)) \<and>
    (\<forall>b evs b'. start = StartRun b \<longrightarrow> runs (batch_step bopts) evs b = Some b' \<longrightarrow> b_pc b' = Returned None \<longrightarrow> b_dropped b' = [] \<longrightarrow>
       builtAll json (op_skipFail opts) specs (rs_db rs) (rs_db (b_rs b')))"
proof (cases "specs = []")
  case False
  show ?thesis
  proof (intro conjI allI impI)
    assume "start = EarlyReturn None"
    then obtain existing nS nF where "filterBuildJobs (\<lambda>target. db_Get json (rc target) target (rs_db rs)) (op_skipFail opts)
        (groupBuildSpecs specs) = Inr ([], existing, nS, nF)"
      using commandBatch_filters [OF False assms(3)] by auto
    from filtered_or_done [OF this] show "builtAll json (op_skipFail opts) specs (rs_db rs) (rs_db rs)" by (simp add: builtAll_def)
  next
    fix b evs b'
    assume st: "start = StartRun b" and r: "runs (batch_step bopts) evs b = Some b'" and e: "b_pc b' = Returned None" "b_dropped b' = []"
    have bs: "batch_start b" using assms(3) st command_starts(1) by blast
    obtain pending existing nS nF where f: "filterBuildJobs (\<lambda>target. db_Get json (rc target) target (rs_db rs)) (op_skipFail opts)
        (groupBuildSpecs specs) = Inr (pending, existing, nS, nF)" "b_given b = pending" "b_rs b = rs"
      using commandBatch_filters [OF False assms(3), of b] st by auto
    have "set pending \<subseteq> set (b_given b')"
      using continued.runs_rel [OF ctl_ok_start [OF bs] r] f(2) by (simp add: run_continues_def acctOf_def)
    then have new: "specDone (lookupResult json (rs_db (b_rs b'))) s" if "j \<in> set pending" "s \<in> set (jb_specs j)" for j s
      using run_end(2) [OF _ bs r e] assms(1,2) that by blast
    have old: "specDone (lookupResult json (rs_db (b_rs b'))) s" if "specDone (lookupResult json (rs_db rs)) s" for s
      using run_end(3) [OF _ bs r e, where n = 0 and bi = b] assms(1,2) f(3) that by simp
    show "builtAll json (op_skipFail opts) specs (rs_db rs) (rs_db (b_rs b'))"
      unfolding builtAll_def using filtered_or_done [OF f(1)] new old by blast
  qed
qed (simp add: builtAll_def assms(3) [symmetric] runBuildCommandBatch_def)

text \<open>
  C30. The streaming command builds every directory it prepared. Let the producer run over the
  directories while the loop runs, its lookups of earlier results each seeing the database of some moment of the run,
  and let the loop receive the jobs that it sends, and its error. When the command returns without an
  error and dropped no task, then every directory was prepared, and each of its builds has a successful result in the
  database at the end, except for what \<^verbatim>\<open>--skip-fail\<close> leaves out.
\<close>

theorem streaming_command_builds_all:
  assumes "json_keeps_success json" "sv_json (bo_store bopts) = json"
    and start: "runBuildCommandStreamingImageDirs (Inr rs) (Inr entries) None opts = StartRun b"
    and stream: "streamPreparedBuildJobs lib directives decode (streamOptsOf root modes opts) canceled sent get 0 entries c = (jobs, c', err)"
    and run: "runs (batch_step bopts) evs b = Some b'" "b_pc b' = Returned None" "b_dropped b' = []"
    and channels: "receivedJobs evs = jobs" "\<And>e. Prepared e \<in> set evs \<Longrightarrow> e = err"
    and lookups: "\<And>i. i < length entries \<Longrightarrow> \<exists>n bi rc. runs (batch_step bopts) (take n evs) b = Some bi \<and>
       get i = (\<lambda>target. db_Get json (rc target) target (rs_db (b_rs bi)))"
    and idx: "i < length entries"
  shows "\<exists>specs. dirSpecs lib directives decode (streamOptsOf root modes opts) (entries ! i) = Inr specs \<and>
    (\<forall>s \<in> set specs. specDone (lookupResult json (rs_db (b_rs b'))) s \<or>
       (op_skipFail opts \<and> (\<exists>s' \<in> set specs. jobKey s' = jobKey s \<and> specFailed (get i) s')))"
proof -
  have json: "json_keeps_success (sv_json (bo_store bopts))" using assms(1,2) by simp
  have bs: "batch_start b" and p: "b_producing b" using command_starts(2) [OF start] streaming_starts [OF start] by blast+
  note e = run_end [OF json bs run, unfolded assms(2)]
  have "\<not> b_producing b'" using continued.runs_inv [OF ctl_ok_start [OF bs] run(1)] run(2) by (simp add: ctl_ok_def)
  then have "err = None" using run_producing [OF ctl_ok_start [OF bs] run(1) p _ e(1)] channels(2) by blast
  from stream_covers [OF stream [unfolded this] idx] obtain specs where
    specs: "dirSpecs lib directives decode (streamOptsOf root modes opts) (entries ! i) = Inr specs"
      "\<And>s. s \<in> set specs \<Longrightarrow> specDone (get i) s \<or>
         (op_skipFail opts \<and> (\<exists>s' \<in> set specs. jobKey s' = jobKey s \<and> specFailed (get i) s')) \<or> (\<exists>j \<in> set jobs. s \<in> set (jb_specs j))"
    by (auto simp: streamOptsOf_def)
  obtain n bi rc where l: "runs (batch_step bopts) (take n evs) b = Some bi" "get i = (\<lambda>target. db_Get json (rc target) target (rs_db (b_rs bi)))"
    using lookups [OF idx] by blast
  have old: "specDone (lookupResult json (rs_db (b_rs b'))) s" if "specDone (get i) s" for s
    using e(3) [OF l(1)] specDone_any_rc that unfolding l(2) by blast
  have new: "specDone (lookupResult json (rs_db (b_rs b'))) s" if "j \<in> set jobs" "s \<in> set (jb_specs j)" for j s
    using e(2) run_given [OF ctl_ok_start [OF bs] run(1)] channels(1) that by blast
  show ?thesis using specs old new by blast
qed

subsection \<open>A command\<close>

definition demoCodec :: result_json where
  "demoCodec = \<lparr>rj_Marshal = (\<lambda>e. Inr (if re_Success e then ''1'' else ''0'')), rj_Unmarshal = (\<lambda>s. Inr (demoResult\<lparr>re_Success := (s = ''1'')\<rparr>))\<rparr>"

definition demoCommand :: build_options where
  "demoCommand = demoOptions\<lparr>op_addrs := [\<lparr>ba_original = ''w'', ba_addr = ''tcp://w:1'', ba_nodeIP = ''''\<rparr>], op_concurrency := 1, op_oomCooldown := 5\<rparr>"

definition demoCommandOpts :: batch_opts where
  "demoCommandOpts = demoOpts\<lparr>bo_store := demoStoreEnv\<lparr>sv_json := demoCodec\<rparr>\<rparr>"

definition demoCommandEvents :: "batch_event list" where
  "demoCommandEvents = demoBatchEvents @ [Release 0, Release 0, LoopStep]"

lemma demo_command_starts:
  "runBuildCommandBatch demoCodec (\<lambda>_. rcOK) (Inr (jb_specs demoJob)) (Inr \<lparr>rs_db = [], rs_logs = None, rs_logFile = None\<rparr>) demoCommand =
     StartRun demoBatch"
proof -
  have "filterBuildJobs (\<lambda>target. db_Get demoCodec rcOK target []) False (groupBuildSpecs (jb_specs demoJob)) = Inr ([demoJob], [], 0, 0)"
    "groupBuildSpecs (jb_specs demoJob) = [demoJob]" "jb_specs demoJob \<noteq> []" by code_simp+
  moreover have "op_skipFail demoCommand = False" by code_simp
  ultimately show ?thesis
    by (simp add: runBuildCommandBatch_def startLoop_def demoBatch_def demoBatchPool_def Let_def demoCommand_def del: filterBuildJobs.simps)
qed

lemma demo_command_returns:
  "\<exists>b. runs (batch_step demoCommandOpts) demoCommandEvents demoBatch = Some b \<and> b_pc b = Returned None \<and> b_dropped b = []"
  unfolding demoCommandEvents_def demoBatchEvents_def runs_append
  by (simp add: demoBatch_def batchInit_def batch_step_def loopHead_def takeSlot_def waitForAvailableAddrSlot_def demo_pick demoJob_def
      takeGlobal_def sem_trySend_def makeSem_def workerBuild_def Let_def demoRun_def demoTaken_def executeBuild_def afterBuild_def
      demoCommandOpts_def demoOpts_def demoStoreEnv_def UpsertResult_def db_Put_def demoCodec_def rcOK_def workerRelease_def batch_release_def
      releaseAddrSlot_def sem_recv_def setSem_def waitDone_def finishJob_def)

lemma demoCodec_keeps: "json_keeps_success demoCodec"
  by (simp add: json_keeps_success_def demoCodec_def)

theorem batch_command_builds_all_witness:
  "\<exists>b. runs (batch_step demoCommandOpts) demoCommandEvents demoBatch = Some b \<and> b_pc b = Returned None \<and>
     builtAll demoCodec (op_skipFail demoCommand) (jb_specs demoJob) [] (rs_db (b_rs b))"
proof -
  obtain b where "runs (batch_step demoCommandOpts) demoCommandEvents demoBatch = Some b" "b_pc b = Returned None" "b_dropped b = []"
    using demo_command_returns by blast
  moreover have "sv_json (bo_store demoCommandOpts) = demoCodec" by (simp add: demoCommandOpts_def)
  ultimately show ?thesis using batch_command_builds_all [OF demoCodec_keeps _ demo_command_starts] by force
qed

subsection \<open>A streaming command\<close>

definition demoDir :: image_dir where
  "demoDir = \<lparr>im_name = ''b'', im_isDir = True, im_dockerStat = StatRegular, im_metaStat = StatRegular, im_copyErr = None, im_key = Inr ''l'',
     im_dockerfile = Inr ''FROM a'', im_metadata = Inr ''m'', im_statErr = None, im_writeErr = None\<rparr>"

definition demoStreaming :: build_options where
  "demoStreaming = demoCommand\<lparr>op_imageDirs := ''/i'', op_vars := [], op_target := ''''\<rparr>"

definition demoStreamBatch :: batch where
  "demoStreamBatch = batchInit True 1 [] demoBatchPool 1 \<lparr>rs_db = [], rs_logs = None, rs_logFile = None\<rparr> (newBuildOutcomeCounters 1 [])"

definition demoStreamEvents :: "batch_event list" where
  "demoStreamEvents = [Receive demoJob, LoopStep, TrySlot 0, SendGlobal, Prepared None, LoopStep,
     BuildReturns 0 0 ioOK rcOK ''1.0s'' demoRun, Release 0, Release 0, LoopStep]"

lemma demo_stream_starts:
  "runBuildCommandStreamingImageDirs (Inr \<lparr>rs_db = [], rs_logs = None, rs_logFile = None\<rparr>) (Inr [demoDir]) None demoStreaming =
     StartRun demoStreamBatch"
  by (simp add: runBuildCommandStreamingImageDirs_def startLoop_def demoStreamBatch_def demoBatchPool_def demoStreaming_def demoCommand_def)

lemma demo_stream_jobs:
  "fst (streamPreparedBuildJobs demoDockerLib () (\<lambda>_. Inr ''r/b'') (streamOptsOf ''/'' [True] demoStreaming) (\<lambda>_. False) (\<lambda>_. 9)
      (\<lambda>_ target. db_Get demoCodec rcOK target []) 0 [demoDir] (newBuildOutcomeCounters 1 [])) = [demoJob]"
  "snd (snd (streamPreparedBuildJobs demoDockerLib () (\<lambda>_. Inr ''r/b'') (streamOptsOf ''/'' [True] demoStreaming) (\<lambda>_. False) (\<lambda>_. 9)
      (\<lambda>_ target. db_Get demoCodec rcOK target []) 0 [demoDir] (newBuildOutcomeCounters 1 []))) = None"
  "dirSpecs demoDockerLib () (\<lambda>_. Inr ''r/b'') (streamOptsOf ''/'' [True] demoStreaming) demoDir = Inr (jb_specs demoJob)"
  by code_simp+

lemma demo_stream_returns:
  "\<exists>b. runs (batch_step demoCommandOpts) demoStreamEvents demoStreamBatch = Some b \<and> b_pc b = Returned None \<and> b_dropped b = []"
  unfolding demoStreamEvents_def
  by (simp add: demoStreamBatch_def batchInit_def batch_step_def loopHead_def takeSlot_def waitForAvailableAddrSlot_def demo_pick demoJob_def
      takeGlobal_def sem_trySend_def makeSem_def workerBuild_def Let_def demoRun_def demoTaken_def executeBuild_def afterBuild_def
      demoCommandOpts_def demoOpts_def demoStoreEnv_def UpsertResult_def db_Put_def demoCodec_def rcOK_def workerRelease_def batch_release_def
      releaseAddrSlot_def sem_recv_def setSem_def waitDone_def finishJob_def)

theorem streaming_command_builds_all_witness:
  "\<exists>b. runs (batch_step demoCommandOpts) demoStreamEvents demoStreamBatch = Some b \<and> b_pc b = Returned None \<and>
     (\<forall>s \<in> set (jb_specs demoJob). specDone (lookupResult demoCodec (rs_db (b_rs b))) s)"
proof -
  obtain b where b: "runs (batch_step demoCommandOpts) demoStreamEvents demoStreamBatch = Some b" "b_pc b = Returned None" "b_dropped b = []"
    using demo_stream_returns by blast
  let ?get = "\<lambda>(_ :: nat) target. db_Get demoCodec rcOK target []"
  obtain c' where st: "streamPreparedBuildJobs demoDockerLib () (\<lambda>_. Inr ''r/b'') (streamOptsOf ''/'' [True] demoStreaming) (\<lambda>_. False) (\<lambda>_. 9)
      ?get 0 [demoDir] (newBuildOutcomeCounters 1 []) = ([demoJob], c', None)"
    using demo_stream_jobs(1,2) by (metis prod.collapse)
  have js: "sv_json (bo_store demoCommandOpts) = demoCodec" by (simp add: demoCommandOpts_def)
  have ch: "receivedJobs demoStreamEvents = [demoJob]" "\<And>e. Prepared e \<in> set demoStreamEvents \<Longrightarrow> e = None"
    by (auto simp: receivedJobs_def demoStreamEvents_def)
  have lk: "\<exists>n bi rc. runs (batch_step demoCommandOpts) (take n demoStreamEvents) demoStreamBatch = Some bi \<and>
      ?get i = (\<lambda>target. db_Get demoCodec (rc target) target (rs_db (b_rs bi)))" for i
    by (rule exI [of _ 0], rule exI [of _ demoStreamBatch], rule exI [of _ "\<lambda>_. rcOK"]) (simp add: demoStreamBatch_def batchInit_def)
  have "\<not> op_skipFail demoStreaming" by code_simp
  with streaming_command_builds_all [OF demoCodec_keeps js demo_stream_starts st b ch lk, of 0] demo_stream_jobs(3)
  show ?thesis using b by simp
qed

end
