(* ===== verification/Go_Float.thy ===== *)
theory Go_Float
  imports Go_Prelude Complex_Main "HOL-Library.Log_Nat"
begin

text \<open>
  Go's \<^verbatim>\<open>float64\<close> arithmetic as the programs use it. A float is the rational number it stands for,
  and an operation is the exact one followed by \<open>float64\<close>, the rounding to 53 significant bits with ties
  to even. The exponent has no bounds here: the values the programs compute (seconds of a duration of 63
  bits and their tenths) are zero or between \<^verbatim>\<open>1e-9\<close> and \<^verbatim>\<open>1e20\<close>, far from the ends of the
  exponent's range. The sign of a zero is kept by the operations that print.
\<close>

section \<open>Rounding\<close>

text \<open>To the nearest integer: ties to even, and, as \<^verbatim>\<open>math.Round\<close> does, ties away from zero.\<close>

definition roundEven :: "rat \<Rightarrow> int" where
  "roundEven x = (let n = \<lfloor>x\<rfloor>; r = x - of_int n in
     if r < 1/2 then n else if 1/2 < r then n + 1 else if even n then n else n + 1)"

definition math_Round :: "rat \<Rightarrow> int" where
  "math_Round x = (if x < 0 then - \<lfloor>- x + 1/2\<rfloor> else \<lfloor>x + 1/2\<rfloor>)"

text \<open>The binary exponent of a positive number, and the rounding to 53 bits.\<close>

definition exponent2 :: "rat \<Rightarrow> int" where
  "exponent2 x = (let (p, q) = quotient_of x; k = bitlen p - bitlen q in if 2 powi k \<le> x then k else k - 1)"

definition float64 :: "rat \<Rightarrow> rat" where
  "float64 x = (if x = 0 then 0 else
     let ulp = 2 powi (exponent2 \<bar>x\<bar> - 52) in of_int (roundEven (x / ulp)) * ulp)"

text \<open>The tenths that \<^verbatim>\<open>%.1f\<close> prints of a number, and their text.\<close>

definition showTenths :: "bool \<Rightarrow> nat \<Rightarrow> string" where
  "showTenths neg t = (if neg then ''-'' else []) @ showNat (t div 10) @ ''.'' @ showNat (t mod 10)"

definition format_1f :: "bool \<Rightarrow> rat \<Rightarrow> string" where
  "format_1f neg x = showTenths neg (nat (roundEven (10 * \<bar>x\<bar>)))"

section \<open>Errors of the roundings\<close>

lemma roundEven_error: "\<bar>of_int (roundEven x) - x\<bar> \<le> 1/2"
proof -
  have "of_int \<lfloor>x\<rfloor> \<le> x" "x < of_int \<lfloor>x\<rfloor> + 1" by linarith+
  then show ?thesis unfolding roundEven_def Let_def abs_le_iff by (simp only: of_int_add of_int_1 split: if_split) linarith
qed

lemma roundEven_of_int [simp]: "roundEven (of_int n) = n"
  by (simp add: roundEven_def)

lemma roundEven_near:
  assumes "\<bar>x - of_int n\<bar> < 1/2"
  shows "roundEven x = n"
proof -
  have "\<bar>of_int (roundEven x) - of_int n :: rat\<bar> < 1" using roundEven_error [of x] assms by linarith
  then have "\<bar>of_int (roundEven x - n) :: rat\<bar> < 1" by simp
  then show ?thesis by linarith
qed

lemma math_Round_error: "\<bar>of_int (math_Round x) - x\<bar> \<le> 1/2"
proof -
  have "of_int \<lfloor>y\<rfloor> \<le> y" "y < of_int \<lfloor>y\<rfloor> + 1" for y :: rat by linarith+
  from this [of "x + 1/2"] this [of "- x + 1/2"] show ?thesis
    unfolding math_Round_def abs_le_iff by (simp only: of_int_minus split: if_split) linarith
qed

lemma math_Round_sign: "0 \<le> x \<Longrightarrow> 0 \<le> math_Round x"
  by (simp add: math_Round_def)

lemma pow2_cases: "0 \<le> k \<Longrightarrow> (2 :: rat) powi k = 2 ^ nat k"
  by (simp add: power_int_def)

lemma bitlen_rat:
  assumes "0 < p"
  shows "2 powi (bitlen p - 1) \<le> (of_int p :: rat)" "(of_int p :: rat) < 2 powi (bitlen p)"
proof -
  note b = bitlen_bounds [OF assms]
  have l: "1 \<le> bitlen p" using assms bitlen_eq_zero_iff [of p] bitlen_nonneg [of p] by linarith
  have "(of_int (2 ^ nat (bitlen p - 1)) :: rat) \<le> of_int p" using b by (simp only: of_int_le_iff)
  then show "2 powi (bitlen p - 1) \<le> (of_int p :: rat)" using l by (simp add: pow2_cases)
  have "(of_int p :: rat) < of_int (2 ^ nat (bitlen p))" using b by (simp only: of_int_less_iff)
  then show "(of_int p :: rat) < 2 powi (bitlen p)" using l by (simp add: pow2_cases)
qed

lemma exponent2_bounds:
  assumes "0 < x"
  shows "2 powi (exponent2 x) \<le> x" "x < 2 powi (exponent2 x + 1)"
proof -
  obtain p q where pq: "quotient_of x = (p, q)" by fastforce
  have x: "x = of_int p / of_int q" and q: "0 < q" using quotient_of_div [OF pq] quotient_of_denom_pos [OF pq] by auto
  then have p: "0 < p" using assms by (simp add: zero_less_divide_iff)
  let ?k = "bitlen p - bitlen q"
  note bp = bitlen_rat [OF p] and bq = bitlen_rat [OF q]
  have "x < 2 powi (bitlen p) / 2 powi (bitlen q - 1)"
    unfolding x using bp bq q p by (intro frac_less) auto
  then have up: "x < 2 powi (?k + 1)" by (simp add: power_int_diff power_int_add)
  have "2 powi (bitlen p - 1) / 2 powi (bitlen q) \<le> x"
    unfolding x using bp bq q p by (intro frac_le) auto
  then have low: "2 powi (?k - 1) \<le> x" by (simp add: power_int_diff)
  show "2 powi (exponent2 x) \<le> x" "x < 2 powi (exponent2 x + 1)"
    using up low pq by (auto simp: exponent2_def Let_def)
qed

lemma float64_error: "\<bar>float64 x - x\<bar> \<le> \<bar>x\<bar> / 2 ^ 53"
proof (cases "x = 0")
  case False
  define u :: rat where "u = 2 powi (exponent2 \<bar>x\<bar> - 52)"
  have u: "0 < u" by (simp add: u_def)
  have "float64 x - x = (of_int (roundEven (x / u)) - x / u) * u" using False u by (simp add: float64_def u_def [symmetric] Let_def field_simps)
  then have "\<bar>float64 x - x\<bar> \<le> 1/2 * u" using roundEven_error [of "x / u"] u by (simp add: abs_mult)
  also have "u = 2 powi (exponent2 \<bar>x\<bar>) / 2 ^ 52" by (simp add: u_def power_int_diff)
  also have "1/2 * (2 powi (exponent2 \<bar>x\<bar>) / 2 ^ 52) \<le> \<bar>x\<bar> / 2 ^ 53" using exponent2_bounds [of "\<bar>x\<bar>"] False by simp
  finally show ?thesis by simp
qed (simp add: float64_def)

lemma float64_nonneg:
  assumes "0 \<le> x"
  shows "0 \<le> float64 x"
proof -
  have "x / 2 ^ 53 \<le> x" using assms by (simp add: divide_le_eq)
  then show ?thesis using float64_error [of x] assms by linarith
qed

text \<open>Integers of 53 bits are floats.\<close>

lemma float64_int:
  assumes "\<bar>n\<bar> < 2 ^ 53"
  shows "float64 (of_int n) = of_int n"
proof (cases "n = 0")
  case False
  let ?e = "exponent2 \<bar>of_int n\<bar>"
  have "2 powi ?e \<le> \<bar>of_int n :: rat\<bar>" using exponent2_bounds(1) [of "\<bar>of_int n\<bar>"] False by simp
  also have "\<bar>of_int n :: rat\<bar> < 2 powi 53"
  proof -
    have "(of_int \<bar>n\<bar> :: rat) < of_int (2 ^ 53)" using assms by (simp only: of_int_less_iff)
    then show ?thesis by (simp add: pow2_cases)
  qed
  finally have "?e < 53" using power_int_increasing [of 53 ?e "2 :: rat"] by (simp add: not_le [symmetric]) blast
  then have "(2 :: rat) powi (52 - ?e) = of_int (2 ^ nat (52 - ?e))" by (simp add: pow2_cases)
  moreover have "of_int n / (2 :: rat) powi (?e - 52) = of_int n * 2 powi (52 - ?e)" by (simp add: power_int_diff)
  ultimately have "of_int n / (2 :: rat) powi (?e - 52) = of_int (n * 2 ^ nat (52 - ?e))" by (simp del: of_int_power)
  then have "float64 (of_int n) = of_int n / 2 powi (?e - 52) * 2 powi (?e - 52)"
    using False by (simp only: float64_def Let_def roundEven_of_int of_int_eq_0_iff if_False)
  then show ?thesis by simp
qed (simp add: float64_def)

end
