(* ===== verification/Batch_Logging.thy ===== *)
theory Batch_Logging
  imports Go_Float Batch_Results
begin

text \<open>
  The log output of the batch commands (\<^verbatim>\<open>logging.go\<close>) and the elapsed times in result entries
  (\<^verbatim>\<open>results.go\<close>): the progress counters, the line of a message, the two formats of a duration, and
  the decoding of an entry, which also accepts the elapsed time as a number of seconds. The property
  bounds what \<^verbatim>\<open>formatElapsed\<close> prints through its floating-point arithmetic.
\<close>

section \<open>Progress and the start of the command\<close>

record log_state =
  ls_current :: int
  ls_total :: int
  ls_startNano :: int

definition resetLogProgress :: "int \<Rightarrow> log_state \<Rightarrow> log_state" where
  "resetLogProgress n l = l\<lparr>ls_current := 0, ls_total := n\<rparr>"

definition advanceLogProgress :: "log_state \<Rightarrow> log_state \<times> int" where
  "advanceLogProgress l = (let n = wrap64 (ls_current l + 1) in (l\<lparr>ls_current := n\<rparr>, n))"

definition clearLogProgress :: "log_state \<Rightarrow> log_state" where
  "clearLogProgress l = l\<lparr>ls_current := 0, ls_total := 0\<rparr>"

definition resetCommandStartTime :: "time \<Rightarrow> log_state \<Rightarrow> log_state" where
  "resetCommandStartTime start l = l\<lparr>ls_startNano := start\<rparr>"

definition currentCommandStartTime :: "time \<Rightarrow> log_state \<Rightarrow> time" where
  "currentCommandStartTime now l = (if ls_startNano l = 0 then now else ls_startNano l)"

section \<open>Durations as text\<close>

text \<open>
  Go's division of signed integers truncates: the quotient and the remainder have the sign of the
  dividend. \<^verbatim>\<open>Duration.Seconds\<close> adds the whole seconds and the rest, each a float.
\<close>

definition quotGo :: "int \<Rightarrow> int \<Rightarrow> int" where
  "quotGo a b = sgn a * (\<bar>a\<bar> div b)"

definition remGo :: "int \<Rightarrow> int \<Rightarrow> int" where
  "remGo a b = sgn a * (\<bar>a\<bar> mod b)"

definition duration_Seconds :: "duration \<Rightarrow> rat" where
  "duration_Seconds d = float64 (float64 (of_int (quotGo d second)) + float64 (float64 (of_int (remGo d second)) / 1000000000))"

text \<open>\<^verbatim>\<open>roundElapsedSeconds\<close>: the tenths that \<^verbatim>\<open>math.Round\<close> gives, and the float of their tenth part.\<close>

definition elapsedTenths :: "duration \<Rightarrow> int" where
  "elapsedTenths d = math_Round (float64 (duration_Seconds d * 10))"

definition roundElapsedSeconds :: "duration \<Rightarrow> rat" where
  "roundElapsedSeconds d = float64 (float64 (of_int (elapsedTenths d)) / 10)"

text \<open>The conversion \<^verbatim>\<open>int(s)\<close> drops the fraction; a negative duration prints with its sign, also as zero.\<close>

definition formatElapsed :: "duration \<Rightarrow> string" where
  "formatElapsed d = (let s = roundElapsedSeconds d in
     if s < 60 then format_1f (d < 0) s @ ''s''
     else let m = \<lfloor>s\<rfloor> div 60; rs = float64 (s - float64 (of_int (m * 60)))
          in showInt m @ ''m'' @ format_1f (rs < 0) rs @ ''s'')"

text \<open>\<^verbatim>\<open>Duration.Round\<close> to a positive unit, and \<^verbatim>\<open>Duration.String\<close> of a duration that is not negative.\<close>

definition maxDuration :: duration where
  "maxDuration = 2 ^ 63 - 1"

definition duration_Round :: "duration \<Rightarrow> duration \<Rightarrow> duration" where
  "duration_Round d unit = (let r = d mod unit in
     if r + r < unit then d - r
     else let d1 = wrap64 (d + unit - r) in if d < d1 then d1 else maxDuration)"

fun dropTrailingZeros :: "string \<Rightarrow> string" where
  "dropTrailingZeros s = rev (dropWhile (\<lambda>c. c = CHR ''0'') (rev s))"

definition padDigits :: "nat \<Rightarrow> nat \<Rightarrow> string" where
  "padDigits w n = replicate (w - length (showNat n)) CHR ''0'' @ showNat n"

definition fmtFrac :: "nat \<Rightarrow> nat \<Rightarrow> string" where
  "fmtFrac prec v = (let f = dropTrailingZeros (padDigits prec (v mod 10 ^ prec)) in
     showNat (v div 10 ^ prec) @ (if f = [] then [] else ''.'' @ f))"

definition duration_String :: "duration \<Rightarrow> string" where
  "duration_String d = (let u = nat d in
     if u = 0 then ''0s''
     else if u < 1000 then showNat u @ ''ns''
     else if u < 1000000 then fmtFrac 3 u @ [CHR 0xC2, CHR 0xB5] @ ''s''
     else if u < 1000000000 then fmtFrac 6 u @ ''ms''
     else let secs = u div 1000000000; mins = secs div 60; hours = mins div 60;
              s = fmtFrac 9 (secs mod 60 * 1000000000 + u mod 1000000000) @ ''s''
          in if mins = 0 then s
             else if hours = 0 then showNat (mins mod 60) @ ''m'' @ s
             else showNat hours @ ''h'' @ showNat (mins mod 60) @ ''m'' @ s)"

definition formatLogElapsed :: "duration \<Rightarrow> string" where
  "formatLogElapsed d = (if d \<le> 0 then ''0s'' else duration_String (duration_Round d 100000000))"

section \<open>Lines\<close>

text \<open>
  A line of the log: \<open>stamp\<close> is the time in RFC 3339, which has no percent sign, so that the prefix is
  literal text in the format; \<open>msg\<close> is the formatted message.
\<close>

definition logWithLevel :: "string \<Rightarrow> time \<Rightarrow> string \<Rightarrow> string \<Rightarrow> log_state \<Rightarrow> string" where
  "logWithLevel stamp now level msg l =
     ''['' @ stamp @ ''] ['' @ formatLogElapsed (now - currentCommandStartTime now l) @ ''] ['' @
     showInt (ls_current l) @ ''/'' @ showInt (ls_total l) @ ''] ['' @ level @ ''] '' @ msg @ [CHR 0x0A]"

definition logInfo :: "string \<Rightarrow> time \<Rightarrow> string \<Rightarrow> log_state \<Rightarrow> string" where
  "logInfo stamp now msg l = logWithLevel stamp now ''INFO'' msg l"

definition logError :: "string \<Rightarrow> time \<Rightarrow> string \<Rightarrow> log_state \<Rightarrow> string" where
  "logError stamp now msg l = logWithLevel stamp now ''ERROR'' msg l"

definition printBuildResult :: "string \<Rightarrow> time \<Rightarrow> resultEntry \<Rightarrow> int \<times> int \<times> int \<Rightarrow> log_state \<Rightarrow> string" where
  "printBuildResult stamp now entry counts l = (case counts of (succeeded, targets, failed) \<Rightarrow>
     let status = (if re_Success entry then ''OK'' else ''FAIL'');
         nodeIP = (if trimSpace (re_NodeIP entry) = '''' then ''unknown'' else re_NodeIP entry)
     in logInfo stamp now (''['' @ status @ ''] success='' @ showInt succeeded @ ''/'' @ showInt targets @ '' fail='' @ showInt failed @
          '' target='' @ re_Target entry @ '' node-ip='' @ nodeIP @ '' elapsed='' @ re_Elapsed entry) l)"

section \<open>Decoding an entry\<close>

text \<open>
  \<^verbatim>\<open>UnmarshalJSON\<close>: \<open>ej_Raw\<close> is the decoder of the raw entry, \<open>ej_String\<close> and \<open>ej_Number\<close> decode a JSON value
  as a string and as the text of a number, \<open>ej_Float\<close> is \<^verbatim>\<open>strconv.ParseFloat\<close>. Go leaves the
  conversion of a float outside the range of the integer type to the implementation: \<open>ej_convert\<close>.
\<close>

record rawResultEntry =
  rw_StartedAt :: string
  rw_FinishedAt :: string
  rw_Elapsed :: string
  rw_Target :: string
  rw_NodeIP :: string
  rw_Success :: bool
  rw_Logs :: string
  rw_Reason :: string

record elapsed_json =
  ej_Raw :: "string \<Rightarrow> rawResultEntry result"
  ej_String :: "string \<Rightarrow> string result"
  ej_Number :: "string \<Rightarrow> string result"
  ej_Float :: "string \<Rightarrow> rat result"
  ej_show :: "rat \<Rightarrow> string"
  ej_convert :: "rat \<Rightarrow> int"

definition toInt64 :: "(rat \<Rightarrow> int) \<Rightarrow> rat \<Rightarrow> int" where
  "toInt64 convert x = (let n = (if x < 0 then \<lceil>x\<rceil> else \<lfloor>x\<rfloor>) in
     if - (2 ^ 63) \<le> n \<and> n < 2 ^ 63 then n else convert x)"

definition parseElapsedJSON :: "elapsed_json \<Rightarrow> string \<Rightarrow> string result" where
  "parseElapsedJSON lib data = (let trimmed = trimSpace data in
     if trimmed = '''' \<or> trimmed = ''null'' then Inr ''''
     else case ej_String lib trimmed of
       Inr s \<Rightarrow> Inr s
     | Inl _ \<Rightarrow> (case ej_Number lib trimmed of
         Inl e \<Rightarrow> Inl (wrapErr ''decode elapsed'' e)
       | Inr n \<Rightarrow> (case ej_Float lib n of
           Inl e \<Rightarrow> Inl (wrapErr ''parse elapsed number'' e)
         | Inr seconds \<Rightarrow>
             if seconds < 0 then Inl (Errorf (''parse elapsed number: negative value '' @ ej_show lib seconds))
             else Inr (formatElapsed (toInt64 (ej_convert lib) (float64 (seconds * 1000000000)))))))"

definition UnmarshalJSON :: "elapsed_json \<Rightarrow> string \<Rightarrow> resultEntry result" where
  "UnmarshalJSON lib data = (case ej_Raw lib data of
      Inl e \<Rightarrow> Inl e
    | Inr raw \<Rightarrow> (case parseElapsedJSON lib (rw_Elapsed raw) of
        Inl e \<Rightarrow> Inl e
      | Inr elapsed \<Rightarrow> Inr \<lparr>re_StartedAt = rw_StartedAt raw, re_FinishedAt = rw_FinishedAt raw, re_Elapsed = elapsed,
          re_Target = rw_Target raw, re_NodeIP = rw_NodeIP raw, re_Success = rw_Success raw, re_Logs = rw_Logs raw,
          re_Reason = rw_Reason raw\<rparr>))"

section \<open>What is printed\<close>

text \<open>The tenths that are printed, as minutes and seconds.\<close>

definition showElapsed :: "nat \<Rightarrow> string" where
  "showElapsed k = (if k < 600 then showTenths False k @ ''s''
     else showNat (k div 600) @ ''m'' @ showTenths False (k mod 600) @ ''s'')"

text \<open>In the range of durations and their tenths a rounding moves a number by less than \<open>1 / 2 ^ 16\<close>.\<close>

lemma float64_near:
  assumes "0 \<le> x" "x \<le> 2 ^ 37"
  shows "\<bar>float64 x - x\<bar> \<le> 1 / 65536" "0 \<le> float64 x"
proof -
  have "\<bar>x\<bar> / 2 ^ 53 \<le> 2 ^ 37 / 2 ^ 53" using assms by (intro divide_right_mono) auto
  then show "\<bar>float64 x - x\<bar> \<le> 1 / 65536" using float64_error [of x] by simp
  show "0 \<le> float64 x" using assms(1) by (rule float64_nonneg)
qed

lemma duration_Seconds_near:
  assumes "0 \<le> d" "d < 2 ^ 63"
  shows "\<bar>duration_Seconds d - of_int d / 1000000000\<bar> \<le> 2 / 65536" "0 \<le> duration_Seconds d"
proof -
  let ?q = "d div 1000000000" and ?r = "d mod 1000000000"
  have qr: "quotGo d second = ?q" "remGo d second = ?r" using assms(1) by (auto simp: quotGo_def remGo_def sgn_if)
  have q: "0 \<le> ?q" "?q < 2 ^ 34" using assms by auto
  have r: "0 \<le> ?r" "?r < 1000000000" by simp_all
  let ?f = "float64 (of_int ?r / 1000000000)"
  have S: "duration_Seconds d = float64 (of_int ?q + ?f)"
    using q r by (simp add: duration_Seconds_def qr float64_int)
  have r': "0 \<le> (of_int ?r :: rat) / 1000000000" "(of_int ?r :: rat) / 1000000000 < 1" using r by simp_all
  then have f: "\<bar>?f - of_int ?r / 1000000000\<bar> \<le> 1 / 65536" "0 \<le> ?f" using float64_near [of "of_int ?r / 1000000000"] by simp_all
  have "(of_int ?q :: rat) \<le> 17179869184" using q by simp
  then have "of_int ?q + ?f \<le> 17179869186" using f r' by linarith
  then have up: "of_int ?q + ?f \<le> 2 ^ 37" by simp
  have low: "0 \<le> of_int ?q + ?f" using q f by simp
  have "(of_int d :: rat) = of_int (?q * 1000000000 + ?r)" by simp
  then have "(of_int d :: rat) / 1000000000 = of_int ?q + of_int ?r / 1000000000" by (simp only: of_int_add of_int_mult) (simp add: field_simps)
  then show "\<bar>duration_Seconds d - of_int d / 1000000000\<bar> \<le> 2 / 65536"
    using float64_near(1) [OF low up] f(1) unfolding S by linarith
  show "0 \<le> duration_Seconds d" unfolding S by (rule float64_near(2) [OF low up])
qed

lemma elapsedTenths_near:
  assumes "0 \<le> d" "d < 2 ^ 63"
  shows "\<bar>of_int (elapsedTenths d) - of_int d / 100000000 :: rat\<bar> \<le> 1/2 + 1/2048" "0 \<le> elapsedTenths d" "elapsedTenths d < 2 ^ 37"
proof -
  let ?s = "duration_Seconds d"
  note s = duration_Seconds_near [OF assms]
  have "(of_int d :: rat) < of_int (2 ^ 63)" using assms(2) by (simp only: of_int_less_iff)
  then have d: "(of_int d :: rat) / 1000000000 \<le> 9223372037" by simp
  have "?s \<le> 9223372038" using s(1) d by linarith
  then have up: "?s * 10 \<le> 2 ^ 37" by simp
  have low: "0 \<le> ?s * 10" using s(2) by simp
  note f = float64_near [OF low up]
  have near: "\<bar>of_int (elapsedTenths d) - float64 (?s * 10)\<bar> \<le> 1/2" unfolding elapsedTenths_def by (rule math_Round_error)
  show "\<bar>of_int (elapsedTenths d) - of_int d / 100000000 :: rat\<bar> \<le> 1/2 + 1/2048" using near f(1) s(1) by linarith
  show "0 \<le> elapsedTenths d" unfolding elapsedTenths_def using f(2) by (rule math_Round_sign)
  have "(of_int (elapsedTenths d) :: rat) < 137438953472" using near f(1) s(1) d by linarith
  then show "elapsedTenths d < 2 ^ 37" by simp
qed

text \<open>The float of a number of tenths is next to it, with the same whole seconds.\<close>

lemma tenths_float:
  assumes "0 \<le> k" "k < 2 ^ 37"
  shows "\<bar>float64 (of_int k / 10) - of_int k / 10\<bar> \<le> 1 / 65536" "\<lfloor>float64 (of_int k / 10)\<rfloor> = k div 10"
proof -
  have k: "(of_int k :: rat) = 10 * of_int (k div 10) + of_int (k mod 10)" by (metis mult_div_mod_eq of_int_add of_int_mult of_int_numeral)
  have "(of_int k :: rat) \<le> of_int (2 ^ 37)" using assms by (simp only: of_int_le_iff)
  then show near: "\<bar>float64 (of_int k / 10) - of_int k / 10\<bar> \<le> 1 / 65536" using assms by (intro float64_near) auto
  show "\<lfloor>float64 (of_int k / 10)\<rfloor> = k div 10"
  proof (cases "k mod 10 = 0")
    case True
    then have "(of_int k :: rat) / 10 = of_int (k div 10)" using k by simp
    moreover have "\<bar>k div 10\<bar> < 2 ^ 53" using assms by simp
    ultimately show ?thesis by (simp only: float64_int floor_of_int)
  next
    case False
    then have "1 \<le> k mod 10" "k mod 10 \<le> 9" using pos_mod_bound [of 10 k] pos_mod_sign [of 10 k] by simp_all
    then have "(1 :: rat) \<le> of_int (k mod 10)" "(of_int (k mod 10) :: rat) \<le> 9" by (simp_all add: of_int_le_numeral_iff)
    then show ?thesis using near k by (intro floor_unique) linarith+
  qed
qed

lemma format_1f_tenths:
  assumes "0 \<le> x" "\<bar>x - of_int t / 10\<bar> < 1/20"
  shows "format_1f neg x = showTenths neg (nat t)"
proof -
  have "\<bar>10 * \<bar>x\<bar> - of_int t\<bar> < 1/2" using assms by (simp add: abs_if split: if_splits) 
  then show ?thesis by (simp only: format_1f_def roundEven_near)
qed

text \<open>The seconds that are left after the minutes print as the tenths that are left.\<close>

lemma rest_tenths:
  assumes k: "0 \<le> k" "k < 2 ^ 37" and s: "s = float64 (of_int k / 10)"
  shows "format_1f (float64 (s - of_int (k div 600 * 60)) < 0) (float64 (s - of_int (k div 600 * 60))) = showTenths False (nat (k mod 600))"
proof -
  let ?m = "k div 600" and ?t = "k mod 600"
  let ?rs = "float64 (s - of_int (?m * 60))"
  note t = tenths_float [OF k, folded s]
  have kk: "(of_int k :: rat) / 10 = of_int (?m * 60) + of_int ?t / 10"
  proof -
    have "(of_int k :: rat) = of_int (?m * 600 + ?t)" by simp
    then show ?thesis by (simp only: of_int_add of_int_mult) simp
  qed
  have "of_int (?m * 60) \<le> (of_int \<lfloor>s\<rfloor> :: rat)" unfolding t(2) using k by (simp only: of_int_le_iff)
  then have low: "0 \<le> s - of_int (?m * 60)" using of_int_floor_le [of s] by linarith
  have "(of_int ?t :: rat) < 600" by (simp add: of_int_less_numeral_iff)
  then have "s - of_int (?m * 60) \<le> 61" using t(1) kk by linarith
  then have up: "s - of_int (?m * 60) \<le> 2 ^ 37" by simp
  note rs = float64_near [OF low up]
  have "\<bar>?rs - of_int ?t / 10\<bar> < 1/20" using rs(1) t(1) kk by linarith
  then show ?thesis using rs(2) format_1f_tenths [of ?rs ?t False] by simp
qed

lemma formatElapsed_tenths:
  assumes "0 \<le> d" "d < 2 ^ 63"
  shows "formatElapsed d = showElapsed (nat (elapsedTenths d))"
proof -
  let ?k = "elapsedTenths d"
  let ?s = "roundElapsedSeconds d"
  note k = elapsedTenths_near(2,3) [OF assms]
  have s: "?s = float64 (of_int ?k / 10)" using k by (simp add: roundElapsedSeconds_def float64_int)
  note t = tenths_float [OF k, folded s]
  have pos: "0 \<le> ?s" using t(2) k by (metis pos_imp_zdiv_nonneg_iff zero_le_floor zero_less_numeral)
  have small: "?s < 60 \<longleftrightarrow> nat ?k < 600"
  proof -
    have "?s < 60 \<longleftrightarrow> \<lfloor>?s\<rfloor> < 60" by (simp add: floor_less_iff)
    then show ?thesis using t(2) k by auto
  qed
  show ?thesis
  proof (cases "?s < 60")
    case True
    have "format_1f False ?s = showTenths False (nat ?k)" using t(1) pos by (intro format_1f_tenths) auto
    then show ?thesis using True small assms(1) by (simp add: formatElapsed_def showElapsed_def)
  next
    case False
    let ?m = "?k div 600" and ?t = "?k mod 600"
    have m: "\<lfloor>?s\<rfloor> div 60 = ?m" using t(2) by (simp add: zdiv_zmult2_eq [symmetric])
    have e: "float64 (of_int (?m * 60)) = of_int (?m * 60)" using k by (intro float64_int) auto
    note rest_tenths [OF k s]
    moreover have "nat ?k div 600 = nat ?m" "nat ?k mod 600 = nat ?t" using k by (simp_all add: nat_div_distrib nat_mod_distrib)
    moreover have "\<not> ?m < 0" using k by (simp add: not_less pos_imp_zdiv_nonneg_iff)
    moreover have "\<not> nat ?k < 600" using False small by blast
    ultimately show ?thesis using False unfolding formatElapsed_def showElapsed_def Let_def showInt_def m e by (simp only: if_False)
  qed
qed

text \<open>
  An entry with the elapsed time in seconds as a number, as older versions wrote it, is read with
  the tenths of those seconds. The conversion to nanoseconds is in range.
\<close>

lemma parseElapsedJSON_number:
  assumes "trimSpace data \<noteq> ''''" "trimSpace data \<noteq> ''null''" "ej_String lib (trimSpace data) = Inl err"
    "ej_Number lib (trimSpace data) = Inr n" "ej_Float lib n = Inr x" "0 \<le> x" "x \<le> 9000000000"
  shows "\<exists>k. parseElapsedJSON lib data = Inr (showElapsed k) \<and> \<bar>of_nat k - 10 * x\<bar> \<le> 1/2 + 1/1024"
proof -
  let ?y = "float64 (x * 1000000000)"
  let ?d = "toInt64 (ej_convert lib) ?y"
  have "\<bar>x * 1000000000\<bar> / 2 ^ 53 \<le> 9000000000000000000 / 2 ^ 53" using assms(6,7) by (intro divide_right_mono) auto
  then have y: "\<bar>?y - x * 1000000000\<bar> \<le> 1000" using float64_error [of "x * 1000000000"] by simp
  have y0: "0 \<le> ?y" using assms(6) by (simp add: float64_nonneg)
  have "of_int \<lfloor>?y\<rfloor> \<le> (9000000000000001000 :: rat)" using y assms(7) of_int_floor_le [of ?y] by linarith
  then have "\<lfloor>?y\<rfloor> < 2 ^ 63" by simp
  then have d: "?d = \<lfloor>?y\<rfloor>" "0 \<le> ?d" "?d < 2 ^ 63" using y0 by (simp_all add: toInt64_def Let_def)
  have dx: "\<bar>of_int ?d - x * 1000000000\<bar> \<le> 1001" using y of_int_floor_le [of ?y] floor_correct [of ?y] unfolding d(1) by linarith
  note k = elapsedTenths_near [OF d(2,3)]
  have "\<bar>of_nat (nat (elapsedTenths ?d)) - 10 * x\<bar> \<le> 1/2 + 1/1024" 
  proof -
    have "(of_nat (nat (elapsedTenths ?d)) :: rat) = of_int (elapsedTenths ?d)" using k(2) by simp
    then show ?thesis using k(1) dx by linarith
  qed
  moreover have "parseElapsedJSON lib data = Inr (showElapsed (nat (elapsedTenths ?d)))"
    using assms(1-6) formatElapsed_tenths [OF d(2,3)] by (simp add: parseElapsedJSON_def Let_def)
  ultimately show ?thesis by blast
qed

text \<open>
  The decoder under the codec of \<open>Batch_Results\<close>: when the JSON library decodes what it encoded into the
  raw entry, with the elapsed time as a JSON string, the entry is read back.
\<close>

definition rawOf :: "resultEntry \<Rightarrow> string \<Rightarrow> rawResultEntry" where
  "rawOf e elapsed = \<lparr>rw_StartedAt = re_StartedAt e, rw_FinishedAt = re_FinishedAt e, rw_Elapsed = elapsed, rw_Target = re_Target e,
     rw_NodeIP = re_NodeIP e, rw_Success = re_Success e, rw_Logs = re_Logs e, rw_Reason = re_Reason e\<rparr>"

lemma UnmarshalJSON_codec:
  assumes "\<And>p. marshal e = Inr p \<Longrightarrow> \<exists>raw. ej_Raw lib p = Inr (rawOf e raw) \<and> trimSpace raw \<noteq> '''' \<and> trimSpace raw \<noteq> ''null'' \<and>
      ej_String lib (trimSpace raw) = Inr (re_Elapsed e)"
  shows "entry_codec \<lparr>rj_Marshal = marshal, rj_Unmarshal = UnmarshalJSON lib\<rparr> e"
  unfolding entry_codec_def using assms by (fastforce simp: UnmarshalJSON_def parseElapsedJSON_def rawOf_def Let_def)

text \<open>A log line shows the elapsed time to the nearest tenth of a second.\<close>

lemma duration_Round_near:
  assumes "0 < d" "d + 100000000 < 2 ^ 63"
  shows "100000000 dvd duration_Round d 100000000" "\<bar>duration_Round d 100000000 - d\<bar> \<le> 50000000"
proof -
  let ?r = "d mod 100000000"
  have r: "0 \<le> ?r" "?r < 100000000" by simp_all
  have w: "wrap64 (d + 100000000 - ?r) = d + 100000000 - ?r" using assms r by (intro wrap64_id) auto
  have "100000000 dvd d - ?r" by (simp add: minus_mod_eq_mult_div)
  moreover have "100000000 dvd d - ?r + 100000000" using calculation by (intro dvd_add) auto
  ultimately show "100000000 dvd duration_Round d 100000000" using r w by (auto simp: duration_Round_def Let_def algebra_simps)
  show "\<bar>duration_Round d 100000000 - d\<bar> \<le> 50000000" using r w by (auto simp: duration_Round_def Let_def)
qed

section \<open>Claims\<close>

text \<open>
  C38. The elapsed time of a build is printed right through its floating-point arithmetic. For every
  duration that is not negative the text is the one of a number of tenths of a second, as seconds below a minute
  and as minutes and seconds below 60.0 from there on, never \<^verbatim>\<open>1m60.0s\<close>, and these tenths are
  the duration rounded to its nearest tenth, up to a 2048th of a tenth where it lies between two.
\<close>

theorem formatElapsed_bounds:
  assumes "0 \<le> d" "d < 2 ^ 63"
  shows "\<exists>k. formatElapsed d = (if k < 600 then showTenths False k @ ''s''
      else showNat (k div 600) @ ''m'' @ showTenths False (k mod 600) @ ''s'') \<and>
    \<bar>of_nat k - of_int d / 100000000 :: rat\<bar> \<le> 1/2 + 1/2048"
proof (intro exI conjI)
  show "formatElapsed d = (if nat (elapsedTenths d) < 600 then showTenths False (nat (elapsedTenths d)) @ ''s''
      else showNat (nat (elapsedTenths d) div 600) @ ''m'' @ showTenths False (nat (elapsedTenths d) mod 600) @ ''s'')"
    by (rule formatElapsed_tenths [OF assms, unfolded showElapsed_def])
  show "\<bar>of_nat (nat (elapsedTenths d)) - of_int d / 100000000 :: rat\<bar> \<le> 1/2 + 1/2048"
    using elapsedTenths_near(1,2) [OF assms] by simp
qed

theorem formatElapsed_bounds_witness: "formatElapsed 119960000000 = ''2m0.0s''"
proof -
  obtain k where k: "formatElapsed 119960000000 = (if k < 600 then showTenths False k @ ''s''
      else showNat (k div 600) @ ''m'' @ showTenths False (k mod 600) @ ''s'')" "\<bar>of_nat k - 11996 / 10 :: rat\<bar> \<le> 1/2 + 1/2048"
    using formatElapsed_bounds [of 119960000000] by auto
  have "k = 1200"
  proof -
    have "(of_nat k :: rat) < 1201" "1199 < (of_nat k :: rat)" using k(2) by linarith+
    then show ?thesis by simp
  qed
  moreover have "showNat (1200 div 600) @ ''m'' @ showTenths False (1200 mod 600) @ ''s'' = ''2m0.0s''" by code_simp
  ultimately show ?thesis using k(1) by simp
qed

end
