(* ===== verification/Batch_Archive.thy ===== *)
theory Batch_Archive
  imports Workspace "HOL-Library.AList"
begin

text \<open>
  The archives that the batch daemon takes, \<^verbatim>\<open>internal/buildbatch/daemon_archive.go\<close>: the limits on the
  declared sizes in 64-bit arithmetic, the check that an archive holds image directories and nothing
  else, and the extraction. Zip entries, readers and the changes to the file system are those of
  \<open>Workspace\<close>. The theorems: the check accepts exactly the archives of image directories within the
  limits, and the extraction stays below its directory, within its limit, and is complete.
\<close>

section \<open>Limits\<close>

definition errDaemonArchiveLimit :: "string \<Rightarrow> go_error" where
  "errDaemonArchiveLimit detail = GoError (''archive exceeds configured limit: '' @ detail) [ArchiveLimit]"

definition daemonExtractLimitErr :: "int \<Rightarrow> go_error" where
  "daemonExtractLimitErr maxExtractedBytes =
     errDaemonArchiveLimit (''extracted content exceeds '' @ showInt maxExtractedBytes @ '' bytes'')"

text \<open>The sizes are \<^verbatim>\<open>uint64\<close>; the difference \<^verbatim>\<open>uint64(maxExtractedBytes)-total\<close> would wrap around.\<close>

fun limitsLoop :: "int \<Rightarrow> 64 word \<Rightarrow> zipEntry list \<Rightarrow> go_error option" where
  "limitsLoop maxExtractedBytes sofar [] = None"
| "limitsLoop maxExtractedBytes sofar (entry # entries) =
     (let declared = of_nat (ze_UncompressedSize entry) in
      if word_of_int maxExtractedBytes - sofar < declared then Some (daemonExtractLimitErr maxExtractedBytes)
      else limitsLoop maxExtractedBytes (sofar + declared) entries)"

definition validateDaemonArchiveLimits :: "zipEntry list \<Rightarrow> int \<Rightarrow> int \<Rightarrow> go_error option" where
  "validateDaemonArchiveLimits entries maxExtractedBytes maxArchiveFiles =
     (if maxArchiveFiles < int (length entries) then
        Some (errDaemonArchiveLimit (''archive has '' @ showNat (length entries) @ '' entries, maximum is '' @ showInt maxArchiveFiles))
      else limitsLoop maxExtractedBytes 0 entries)"

text \<open>
  \<^verbatim>\<open>daemonCopyWithLimit\<close>: \<^verbatim>\<open>io.Copy\<close> through a limited reader (the bytes it wrote and its error), then a
  read of one byte more.
\<close>

definition ioCopyLimited :: "(nat \<times> go_error) option \<Rightarrow> reader \<Rightarrow> int \<Rightarrow> string \<times> go_error option" where
  "ioCopyLimited wErr src limit =
     (let chunk = take (nat limit) (rd_data src);
          readErr = (if length (rd_data src) < nat limit then rd_err src else None)
      in case wErr of
           Some (n, e) \<Rightarrow> if n < length chunk then (take n chunk, Some e) else (chunk, readErr)
         | None \<Rightarrow> (chunk, readErr))"

definition daemonCopyWithLimit :: "(nat \<times> go_error) option \<Rightarrow> reader \<Rightarrow> int \<Rightarrow> string \<times> bool \<times> go_error option" where
  "daemonCopyWithLimit wErr src limit = (case ioCopyLimited wErr src limit of
      (written, Some e) \<Rightarrow> (written, False, Some e)
    | (written, None) \<Rightarrow>
        (let rest = drop (nat limit) (rd_data src) in
         if rest \<noteq> [] then (written, True, None)
         else case rd_err src of Some e \<Rightarrow> (written, False, Some e) | None \<Rightarrow> (written, False, None)))"

section \<open>Names\<close>

definition batch_validateBuildArchivePath :: "string \<Rightarrow> string result" where
  "batch_validateBuildArchivePath name =
     (let normalized = map (\<lambda>c. if c = CHR 0x5C then CHR ''/'' else c) (trimSpace name) in
      if normalized = '''' then Inr ''''
      else if hasPrefix normalized ''/'' then Inl (Errorf (''zip contains absolute path '' @ quoteStr name))
      else
        (let cleaned = pathClean normalized in
         if cleaned = ''.'' then Inr ''''
         else if cleaned = ''..'' \<or> hasPrefix cleaned ''../'' then Inl (Errorf (''zip contains invalid path '' @ quoteStr name))
         else Inr cleaned))"

section \<open>The layout of an archive\<close>

record buildArchiveTopLevel =
  tl_name :: string
  tl_children :: "string list"
  tl_rootFile :: bool

type_synonym topLevels = "(string \<times> buildArchiveTopLevel) list"

text \<open>What one entry adds to the top-level names.\<close>

definition addTopLevel :: "bool \<Rightarrow> string list \<Rightarrow> topLevels \<Rightarrow> topLevels" where
  "addTopLevel isDir parts tops =
     (let top = hd parts;
          entry = (case map_of tops top of
             Some e \<Rightarrow> e
           | None \<Rightarrow> \<lparr>tl_name = top, tl_children = [], tl_rootFile = False\<rparr>)
      in AList.update top
           (if length parts = 1 then (if isDir then entry else entry\<lparr>tl_rootFile := True\<rparr>)
            else entry\<lparr>tl_children := List.insert (parts ! 1) (tl_children entry)\<rparr>) tops)"

fun collectTopLevels :: "topLevels \<Rightarrow> zipEntry list \<Rightarrow> topLevels result" where
  "collectTopLevels tops [] = Inr tops"
| "collectTopLevels tops (entry # entries) = (case batch_validateBuildArchivePath (ze_Name entry) of
      Inl e \<Rightarrow> Inl e
    | Inr cleaned \<Rightarrow>
        collectTopLevels (if cleaned = '''' then tops else addTopLevel (ze_IsDir entry) (splitByte CHR ''/'' cleaned) tops) entries)"

definition sortedBuildArchiveKeys :: "topLevels \<Rightarrow> string list" where
  "sortedBuildArchiveKeys tops = sort (map fst tops)"

definition sortedBuildArchiveChildren :: "string list \<Rightarrow> string list" where
  "sortedBuildArchiveChildren children = sort children"

definition limitBuildArchiveList :: "string list \<Rightarrow> nat \<Rightarrow> string list" where
  "limitBuildArchiveList vals limit =
     (if length vals \<le> limit then vals
      else take limit vals @ [''... and '' @ showNat (length vals - limit) @ '' more''])"

definition describeInvalid :: "buildArchiveTopLevel \<Rightarrow> string" where
  "describeInvalid entry =
     (let missing = (if ''Dockerfile'' \<in> set (tl_children entry) then [] else [''Dockerfile'']) @
                    (if ''metadata.json'' \<in> set (tl_children entry) then [] else [''metadata.json'']);
          childPreview = take 3 (sortedBuildArchiveChildren (tl_children entry))
      in tl_name entry @ '' (missing '' @ joinStr '' and '' missing @
         (if childPreview \<noteq> [] then '', contains '' @ joinStr '', '' childPreview else '''') @ '')'')"

definition validTop :: "buildArchiveTopLevel \<Rightarrow> bool" where
  "validTop entry \<longleftrightarrow> ''Dockerfile'' \<in> set (tl_children entry) \<and> ''metadata.json'' \<in> set (tl_children entry)"

text \<open>The loop over the sorted names: the number of image directories, the root files, the other directories.\<close>

fun surveyTopLevels :: "buildArchiveTopLevel list \<Rightarrow> nat \<times> string list \<times> string list" where
  "surveyTopLevels [] = (0, [], [])"
| "surveyTopLevels (entry # entries) = (case surveyTopLevels entries of (validCount, rootFiles, invalidDirs) \<Rightarrow>
     if tl_rootFile entry then (validCount, tl_name entry # rootFiles, invalidDirs)
     else if validTop entry then (Suc validCount, rootFiles, invalidDirs)
     else (validCount, rootFiles, describeInvalid entry # invalidDirs))"

definition validateBuildArchive :: "zipEntry list result \<Rightarrow> int \<Rightarrow> int \<Rightarrow> nat result" where
  "validateBuildArchive archive maxExtractedBytes maxArchiveFiles = (case archive of
      Inl e \<Rightarrow> Inl e
    | Inr entries \<Rightarrow>
        (case validateDaemonArchiveLimits entries maxExtractedBytes maxArchiveFiles of
           Some e \<Rightarrow> Inl e
         | None \<Rightarrow>
             (case collectTopLevels [] entries of
                Inl e \<Rightarrow> Inl e
              | Inr tops \<Rightarrow>
                  if tops = [] then Inl (Errorf ''zip archive is empty or does not contain any image directories'')
                  else
                    (case surveyTopLevels (map (\<lambda>name. the (map_of tops name)) (sortedBuildArchiveKeys tops)) of
                       (validCount, rootFiles, invalidDirs) \<Rightarrow>
                         if rootFiles \<noteq> [] then
                           Inl (Errorf (''zip root must contain only image directories, found root file entries: '' @
                             joinStr '', '' (limitBuildArchiveList rootFiles 5)))
                         else if invalidDirs \<noteq> [] then
                           Inl (Errorf (''zip root must directly contain image directories with Dockerfile and metadata.json; '' @
                             ''invalid top-level directories: '' @ joinStr ''; '' (limitBuildArchiveList invalidDirs 5)))
                         else if validCount = 0 then Inl (Errorf ''zip archive does not contain any valid image directories'')
                         else Inr validCount))))"

section \<open>Extraction\<close>

text \<open>
  One entry: the changes to the file system, and the error or the number of bytes extracted so far. The
  file is created before the entry is opened, so an entry that does not open leaves an empty file.
\<close>

definition batch_extractEntry :: "string \<Rightarrow> int \<Rightarrow> int \<Rightarrow> zipEntry \<Rightarrow> fs_op list \<times> int result" where
  "batch_extractEntry dest maxExtractedBytes extractedBytes f =
     (case batch_validateBuildArchivePath (ze_Name f) of
        Inl e \<Rightarrow> ([], Inl e)
      | Inr cleaned \<Rightarrow>
          if cleaned = '''' then ([], Inr extractedBytes)
          else
            (let target = pathClean (filepathJoin dest cleaned) in
             if \<not> hasPrefix target (pathClean dest @ ''/'') then
               ([], Inl (Errorf (''zip contains invalid path '' @ quoteStr (ze_Name f))))
             else if ze_IsDir f then
               (case ze_MkdirErr f of Some e \<Rightarrow> ([MkdirAll target], Inl e) | None \<Rightarrow> ([MkdirAll target], Inr extractedBytes))
             else
               (let remaining = maxExtractedBytes - extractedBytes in
                if remaining < 0 \<or> nat remaining < ze_UncompressedSize f then ([], Inl (daemonExtractLimitErr maxExtractedBytes))
                else case ze_MkdirErr f of
                  Some e \<Rightarrow> ([MkdirAll (filepathDir target)], Inl e)
                | None \<Rightarrow>
                    (let parent = MkdirAll (filepathDir target) in
                     case ze_CreateErr f of
                       Some e \<Rightarrow> ([parent], Inl e)
                     | None \<Rightarrow>
                         (case ze_OpenErr f of
                            Some e \<Rightarrow> ([parent, WriteFile target (ze_Perm f) ''''], Inl e)
                          | None \<Rightarrow>
                              (case daemonCopyWithLimit (ze_WriteErr f) (ze_Reader f) remaining of
                                 (written, exceeded, copyErr) \<Rightarrow>
                                   (let put = WriteFile target (ze_Perm f) written in
                                    case copyErr of
                                      Some e \<Rightarrow> ([parent, put], Inl e)
                                    | None \<Rightarrow>
                                        if exceeded then ([parent, put, RemoveFile target], Inl (daemonExtractLimitErr maxExtractedBytes))
                                        else ([parent, put], Inr (extractedBytes + int (length written))))))))))"

fun batch_extractLoop :: "string \<Rightarrow> int \<Rightarrow> int \<Rightarrow> zipEntry list \<Rightarrow> fs_op list \<times> go_error option" where
  "batch_extractLoop dest maxExtractedBytes extractedBytes [] = ([], None)"
| "batch_extractLoop dest maxExtractedBytes extractedBytes (f # fs) =
     (case batch_extractEntry dest maxExtractedBytes extractedBytes f of
        (ops, Inl e) \<Rightarrow> (ops, Some e)
      | (ops, Inr extractedBytes') \<Rightarrow>
          (let (ops', err) = batch_extractLoop dest maxExtractedBytes extractedBytes' fs in (ops @ ops', err)))"

definition batch_extractZip :: "zipEntry list result \<Rightarrow> string \<Rightarrow> int \<Rightarrow> int \<Rightarrow> fs_op list \<times> go_error option" where
  "batch_extractZip archive dest maxExtractedBytes maxArchiveFiles = (case archive of
      Inl e \<Rightarrow> ([], Some e)
    | Inr entries \<Rightarrow>
        (case validateDaemonArchiveLimits entries maxExtractedBytes maxArchiveFiles of
           Some e \<Rightarrow> ([], Some e)
         | None \<Rightarrow> batch_extractLoop dest maxExtractedBytes 0 entries))"
section \<open>Lemmas on limits and copies\<close>

lemma unat_limit: "0 \<le> m \<Longrightarrow> m < 2 ^ 63 \<Longrightarrow> unat (word_of_int m :: 64 word) = nat m"
  by (simp add: unsigned_of_int take_bit_int_eq_self)

lemma limitsLoop_None:
  assumes "0 \<le> m" "m < 2 ^ 63"
  shows "unat sofar \<le> nat m \<Longrightarrow> \<forall>f \<in> set fs. ze_UncompressedSize f < 2 ^ 64 \<Longrightarrow>
    limitsLoop m sofar fs = None \<longleftrightarrow> unat sofar + sum_list (map ze_UncompressedSize fs) \<le> nat m"
proof (induction fs arbitrary: sofar)
  case (Cons f fs)
  let ?n = "ze_UncompressedSize f" and ?w = "of_nat (ze_UncompressedSize f) :: 64 word"
  note lim = unat_limit [OF assms]
  have u: "unat ?w = ?n" using Cons.prems(2) by (simp add: unsigned_of_nat take_bit_nat_eq_self)
  have "unat (word_of_int m - sofar) = nat m - unat sofar"
    using Cons.prems(1) lim by (simp add: unat_sub word_le_nat_alt)
  then have test: "word_of_int m - sofar < ?w \<longleftrightarrow> nat m < unat sofar + ?n"
    using Cons.prems(1) by (simp add: word_less_nat_alt u less_diff_conv2 add.commute)
  show ?case
  proof (cases "nat m < unat sofar + ?n")
    case True
    then show ?thesis using test by simp
  next
    case False
    have "unat sofar + ?n < 2 ^ 64" using False assms by simp
    then have "unat (sofar + ?w) = unat sofar + ?n" using unat_add_lem [of sofar ?w] u by simp
    then show ?thesis using Cons False test by (simp add: add.assoc)
  qed
qed simp

lemma validateDaemonArchiveLimits_None:
  assumes "0 \<le> m" "m < 2 ^ 63" "\<forall>f \<in> set fs. ze_UncompressedSize f < 2 ^ 64"
  shows "validateDaemonArchiveLimits fs m k = None \<longleftrightarrow>
    int (length fs) \<le> k \<and> int (sum_list (map ze_UncompressedSize fs)) \<le> m"
  using limitsLoop_None [OF assms(1,2), of 0 fs] assms
  by (auto simp: validateDaemonArchiveLimits_def)

text \<open>The two daemons copy the same way.\<close>

lemma daemonCopyWithLimit_copy: "daemonCopyWithLimit wErr src limit = copyWithLimit wErr src limit"
  by (auto simp: daemonCopyWithLimit_def ioCopyLimited_def copyWithLimit_def Let_def split: option.splits)

section \<open>Lemmas on names\<close>

lemma batch_valid_path:
  assumes "batch_validateBuildArchivePath name = Inr cleaned" "cleaned \<noteq> ''''"
  obtains cs where "cs \<noteq> []" "list_all plain cs" "cleaned = joinStr ''/'' cs"
proof -
  let ?n = "map (\<lambda>c. if c = CHR 0x5C then CHR ''/'' else c) (trimSpace name)"
  have n: "\<not> isAbs ?n" "pathClean ?n \<noteq> ''.''" "\<not> climbs (pathClean ?n)" "cleaned = pathClean ?n"
    using assms by (auto simp: batch_validateBuildArchivePath_def Let_def isAbs_def climbs_def split: if_split_asm)
  from n(1-3) show thesis by (rule clean_names_plain) (use that n(4) in simp)
qed

lemma batch_target:
  assumes dst: "pathClean dst = dst" "dst \<noteq> ''.''" "dst \<noteq> ''/''" and cs: "cs \<noteq> []" "list_all plain cs"
  shows "pathClean (filepathJoin dst (joinStr ''/'' cs)) = dst @ ''/'' @ joinStr ''/'' cs"
proof -
  have "filepathJoin dst (joinStr ''/'' cs) = dst @ ''/'' @ joinStr ''/'' cs"
    using filepathJoin_below [OF dst joinStr_plain_hd(1) [OF cs] not_isAbs_plain [OF cs]] joinStr_plain_not_climbs [OF cs]
    by (simp add: pathClean_plain [OF cs])
  then show ?thesis using join_plain_below [OF dst cs] by simp
qed

section \<open>The layout check\<close>

text \<open>What an archive says of its top level, entry by entry.\<close>

definition entryParts :: "zipEntry \<Rightarrow> string list" where
  "entryParts f = (case batch_validateBuildArchivePath (ze_Name f) of
      Inl e \<Rightarrow> []
    | Inr cleaned \<Rightarrow> if cleaned = '''' then [] else splitByte CHR ''/'' cleaned)"

definition topNames :: "zipEntry list \<Rightarrow> string set" where
  "topNames fs = {hd (entryParts f) | f. f \<in> set fs \<and> entryParts f \<noteq> []}"

definition childNames :: "zipEntry list \<Rightarrow> string \<Rightarrow> string set" where
  "childNames fs d = {c. \<exists>f \<in> set fs. \<exists>rest. entryParts f = d # c # rest}"

definition rootFile :: "zipEntry list \<Rightarrow> string \<Rightarrow> bool" where
  "rootFile fs d \<longleftrightarrow> (\<exists>f \<in> set fs. entryParts f = [d] \<and> \<not> ze_IsDir f)"

definition namesValid :: "zipEntry list \<Rightarrow> bool" where
  "namesValid fs \<longleftrightarrow> (\<forall>f \<in> set fs. \<exists>cleaned. batch_validateBuildArchivePath (ze_Name f) = Inr cleaned)"

definition tops_of :: "topLevels \<Rightarrow> zipEntry list \<Rightarrow> bool" where
  "tops_of tops fs \<longleftrightarrow> distinct (map fst tops) \<and> dom (map_of tops) = topNames fs \<and>
     (\<forall>k e. map_of tops k = Some e \<longrightarrow> tl_name e = k \<and> set (tl_children e) = childNames fs k \<and> tl_rootFile e = rootFile fs k)"

lemma topNames_snoc:
  "topNames (fs @ [f]) = (if entryParts f = [] then topNames fs else insert (hd (entryParts f)) (topNames fs))"
  by (auto simp: topNames_def)

lemma childNames_snoc:
  "childNames (fs @ [f]) k = (case entryParts f of
     p # c # rest \<Rightarrow> if p = k then insert c (childNames fs k) else childNames fs k | _ \<Rightarrow> childNames fs k)"
  by (auto simp: childNames_def split: list.splits)

lemma rootFile_snoc:
  "rootFile (fs @ [f]) k \<longleftrightarrow> rootFile fs k \<or> (entryParts f = [k] \<and> \<not> ze_IsDir f)"
  by (auto simp: rootFile_def)

lemma unknown_top: "k \<notin> topNames fs \<Longrightarrow> childNames fs k = {} \<and> \<not> rootFile fs k"
  by (force simp: topNames_def childNames_def rootFile_def)

lemma tops_of_add:
  assumes "tops_of tops fs" "entryParts f = parts" "parts \<noteq> []"
  shows "tops_of (addTopLevel (ze_IsDir f) parts tops) (fs @ [f])"
proof -
  obtain p ps where parts: "parts = p # ps" using assms(3) by (cases parts) auto
  define e where "e = (case map_of tops p of Some e \<Rightarrow> e | None \<Rightarrow> \<lparr>tl_name = p, tl_children = [], tl_rootFile = False\<rparr>)"
  define e' where "e' = (if ps = [] then (if ze_IsDir f then e else e\<lparr>tl_rootFile := True\<rparr>)
    else e\<lparr>tl_children := List.insert (hd ps) (tl_children e)\<rparr>)"
  have add: "addTopLevel (ze_IsDir f) parts tops = AList.update p e' tops"
    by (cases ps) (auto simp: parts addTopLevel_def Let_def e_def e'_def)
  have known: "map_of tops k = Some x \<Longrightarrow> tl_name x = k \<and> set (tl_children x) = childNames fs k \<and> tl_rootFile x = rootFile fs k"
    and dom: "dom (map_of tops) = topNames fs" and dist: "distinct (map fst tops)" for k x
    using assms(1) unfolding tops_of_def by blast+
  have e: "tl_name e = p" "set (tl_children e) = childNames fs p" "tl_rootFile e = rootFile fs p"
  proof (atomize (full), cases "map_of tops p")
    case None
    then have "p \<notin> topNames fs" using dom by blast
    with None unknown_top show "tl_name e = p \<and> set (tl_children e) = childNames fs p \<and> tl_rootFile e = rootFile fs p"
      by (simp add: e_def)
  next
    case (Some x)
    with known [OF Some] show "tl_name e = p \<and> set (tl_children e) = childNames fs p \<and> tl_rootFile e = rootFile fs p"
      by (simp add: e_def)
  qed
  have "tl_name e' = p \<and> set (tl_children e') = childNames (fs @ [f]) p \<and> tl_rootFile e' = rootFile (fs @ [f]) p"
    using e assms(2) by (cases ps) (auto simp: e'_def parts childNames_snoc rootFile_snoc)
  moreover have "childNames (fs @ [f]) k = childNames fs k \<and> rootFile (fs @ [f]) k = rootFile fs k" if "k \<noteq> p" for k
    using that assms(2) by (cases ps) (auto simp: parts childNames_snoc rootFile_snoc)
  ultimately show ?thesis
    using known dom dist assms(2) unfolding tops_of_def add
    by (simp add: distinct_update update_conv' topNames_snoc parts)
qed

lemma collectTopLevels_of:
  assumes "tops_of tops fs"
  shows "if namesValid gs then \<exists>tops'. collectTopLevels tops gs = Inr tops' \<and> tops_of tops' (fs @ gs)
    else \<exists>e. collectTopLevels tops gs = Inl e"
  using assms
proof (induction gs arbitrary: tops fs)
  case (Cons g gs)
  show ?case
  proof (cases "batch_validateBuildArchivePath (ze_Name g)")
    case (Inl e)
    then show ?thesis by (simp add: namesValid_def)
  next
    case (Inr cleaned)
    let ?tops = "if cleaned = '''' then tops else addTopLevel (ze_IsDir g) (splitByte CHR ''/'' cleaned) tops"
    have p: "entryParts g = (if cleaned = '''' then [] else splitByte CHR ''/'' cleaned)"
      using Inr by (simp add: entryParts_def)
    have "tops_of ?tops (fs @ [g])"
    proof (cases "cleaned = ''''")
      case True
      then show ?thesis using Cons.prems p
        by (simp add: tops_of_def topNames_snoc childNames_snoc rootFile_snoc)
    next
      case False
      then show ?thesis using tops_of_add [OF Cons.prems p] by simp
    qed
    note ih = Cons.IH [OF this]
    have "collectTopLevels tops (g # gs) = collectTopLevels ?tops gs" "namesValid (g # gs) = namesValid gs"
      using Inr by (auto simp: namesValid_def)
    with ih show ?thesis by (simp only: append_assoc append_Cons append_Nil)
  qed
qed (simp add: namesValid_def)

lemma surveyTopLevels_good:
  "case surveyTopLevels es of (n, rf, bad) \<Rightarrow>
     (rf = [] \<and> bad = [] \<longleftrightarrow> (\<forall>e \<in> set es. \<not> tl_rootFile e \<and> validTop e)) \<and>
     ((\<forall>e \<in> set es. \<not> tl_rootFile e \<and> validTop e) \<longrightarrow> n = length es)"
  by (induction es) (auto split: prod.splits)

text \<open>A top-level name that is an image directory of the archive.\<close>

definition imageDirOf :: "zipEntry list \<Rightarrow> string \<Rightarrow> bool" where
  "imageDirOf fs d \<longleftrightarrow> \<not> rootFile fs d \<and> {''Dockerfile'', ''metadata.json''} \<subseteq> childNames fs d"

lemma survey_tops:
  assumes "tops_of tops fs"
  shows "(\<forall>e \<in> set (map (\<lambda>name. the (map_of tops name)) (sortedBuildArchiveKeys tops)). \<not> tl_rootFile e \<and> validTop e) \<longleftrightarrow>
    (\<forall>d \<in> topNames fs. imageDirOf fs d)"
    and "length (sortedBuildArchiveKeys tops) = card (topNames fs)"
proof -
  have keys: "set (map fst tops) = topNames fs" using assms by (simp add: tops_of_def dom_map_of_conv_image_fst)
  have "\<not> tl_rootFile (the (map_of tops k)) \<and> validTop (the (map_of tops k)) \<longleftrightarrow> imageDirOf fs k" if "k \<in> topNames fs" for k
  proof -
    from that assms have "k \<in> dom (map_of tops)" by (simp only: tops_of_def)
    then obtain e where e: "map_of tops k = Some e" by blast
    then have "set (tl_children e) = childNames fs k" "tl_rootFile e = rootFile fs k" using assms by (auto simp: tops_of_def)
    with e show ?thesis by (simp add: validTop_def imageDirOf_def)
  qed
  then show "(\<forall>e \<in> set (map (\<lambda>name. the (map_of tops name)) (sortedBuildArchiveKeys tops)). \<not> tl_rootFile e \<and> validTop e) \<longleftrightarrow>
      (\<forall>d \<in> topNames fs. imageDirOf fs d)"
    using keys by (simp add: sortedBuildArchiveKeys_def)
  show "length (sortedBuildArchiveKeys tops) = card (topNames fs)"
    using keys assms distinct_card [of "map fst tops"] by (simp add: sortedBuildArchiveKeys_def tops_of_def)
qed

lemma validateBuildArchive_spec:
  assumes "0 \<le> m" "m < 2 ^ 63" "\<forall>f \<in> set fs. ze_UncompressedSize f < 2 ^ 64"
  shows "validateBuildArchive (Inr fs) m k = Inr n \<longleftrightarrow>
    int (length fs) \<le> k \<and> int (sum_list (map ze_UncompressedSize fs)) \<le> m \<and> namesValid fs \<and>
    topNames fs \<noteq> {} \<and> (\<forall>d \<in> topNames fs. imageDirOf fs d) \<and> n = card (topNames fs)"
proof (cases "validateDaemonArchiveLimits fs m k = None \<and> namesValid fs")
  case False
  have "tops_of [] []" by (simp add: tops_of_def topNames_def)
  from collectTopLevels_of [OF this, of fs] False show ?thesis
    using validateDaemonArchiveLimits_None [OF assms, of k]
    by (auto simp: validateBuildArchive_def split: option.splits if_splits)
next
  case True
  have "tops_of [] []" by (simp add: tops_of_def topNames_def)
  from collectTopLevels_of [OF this, of fs] True obtain tops where
    t: "collectTopLevels [] fs = Inr tops" "tops_of tops fs" by auto
  let ?es = "map (\<lambda>name. the (map_of tops name)) (sortedBuildArchiveKeys tops)"
  obtain c rf bad where s: "surveyTopLevels ?es = (c, rf, bad)" by (metis prod_cases3)
  note g = surveyTopLevels_good [of ?es, unfolded s, simplified]
  have ne: "tops = [] \<longleftrightarrow> topNames fs = {}" using t(2) unfolding tops_of_def dom_map_of_conv_image_fst by force
  have fin: "finite (topNames fs)" by (simp add: topNames_def)
  have good: "rf = [] \<and> bad = [] \<longleftrightarrow> (\<forall>d \<in> topNames fs. imageDirOf fs d)"
    using g survey_tops(1) [OF t(2)] by simp
  have cnt: "\<forall>d \<in> topNames fs. imageDirOf fs d \<Longrightarrow> c = card (topNames fs)"
    using g survey_tops [OF t(2)] by simp
  have v: "validateBuildArchive (Inr fs) m k = Inr n \<longleftrightarrow> tops \<noteq> [] \<and> rf = [] \<and> bad = [] \<and> c \<noteq> 0 \<and> n = c"
    unfolding validateBuildArchive_def sum.case True [THEN conjunct1] option.case t(1) s prod.case
    by (auto simp del: append.simps append_Cons split: if_split)
  have lim: "int (length fs) \<le> k \<and> int (sum_list (map ze_UncompressedSize fs)) \<le> m"
    using True validateDaemonArchiveLimits_None [OF assms, of k] by blast
  show ?thesis
  proof (cases "\<forall>d \<in> topNames fs. imageDirOf fs d")
    case True
    then show ?thesis using v ne good cnt fin lim \<open>_ \<and> namesValid fs\<close> by (simp add: card_eq_0_iff)
  next
    case False
    then show ?thesis using v good by blast
  qed
qed

section \<open>The extraction\<close>

text \<open>Where an entry goes, for a destination that is a clean path.\<close>

definition entryTarget :: "string \<Rightarrow> zipEntry \<Rightarrow> string" where
  "entryTarget dst f = dst @ ''/'' @ joinStr ''/'' (entryParts f)"

lemma entryParts_plain: "entryParts f \<noteq> [] \<Longrightarrow> list_all plain (entryParts f)"
  by (auto simp: entryParts_def splitByte_plain split: sum.splits if_splits elim!: batch_valid_path)

lemma entry_target:
  assumes dst: "pathClean dst = dst" "dst \<noteq> ''.''" "dst \<noteq> ''/''"
    and v: "batch_validateBuildArchivePath (ze_Name f) = Inr cleaned" "cleaned \<noteq> ''''"
  shows "entryParts f \<noteq> []" "pathClean (filepathJoin dst cleaned) = entryTarget dst f"
    "hasPrefix (entryTarget dst f) (dst @ ''/'')"
    "below dst (entryTarget dst f)" "below dst (filepathDir (entryTarget dst f))"
proof -
  have p: "entryParts f = splitByte CHR ''/'' cleaned" using v by (simp add: entryParts_def)
  then show ne: "entryParts f \<noteq> []" by simp
  note pl = entryParts_plain [OF this]
  have c: "cleaned = joinStr ''/'' (entryParts f)" using p by (simp add: joinStr_splitByte)
  show "pathClean (filepathJoin dst cleaned) = entryTarget dst f"
    using batch_target [OF dst ne pl] c by (simp add: entryTarget_def)
  show "hasPrefix (entryTarget dst f) (dst @ ''/'')" by (auto simp: entryTarget_def hasPrefix_iff)
  show "below dst (entryTarget dst f)" using ne pl unfolding entryTarget_def below_def by blast
  show "below dst (filepathDir (entryTarget dst f))" unfolding entryTarget_def by (rule filepathDir_below [OF dst ne pl])
qed

lemma extractEntry_below:
  assumes dst: "pathClean dst = dst" "dst \<noteq> ''.''" "dst \<noteq> ''/''"
    and "batch_extractEntry dst m x f = (ops, r)" "op \<in> set ops"
  shows "below dst (op_path op)"
proof (cases "\<exists>cleaned. batch_validateBuildArchivePath (ze_Name f) = Inr cleaned \<and> cleaned \<noteq> ''''")
  case True
  then obtain cleaned where v: "batch_validateBuildArchivePath (ze_Name f) = Inr cleaned" "cleaned \<noteq> ''''" by blast
  note t = entry_target [OF dst v]
  show ?thesis using assms(4,5) t(4,5)
    by (auto simp: batch_extractEntry_def v t(2,3) dst(1) Let_def split: if_split_asm option.split_asm prod.split_asm)
next
  case False
  then show ?thesis using assms(4,5) by (auto simp: batch_extractEntry_def split: sum.split_asm)
qed

lemma extractEntry_bytes:
  assumes "batch_extractEntry dst m x f = (ops, r)" "0 \<le> x" "x \<le> m"
  shows "case r of Inl e \<Rightarrow> int (sum_list (map op_bytes ops)) \<le> m - x
    | Inr x' \<Rightarrow> x \<le> x' \<and> x' \<le> m \<and> int (sum_list (map op_bytes ops)) = x' - x"
proof -
  obtain written exceeded cerr where c: "copyWithLimit (ze_WriteErr f) (ze_Reader f) (m - x) = (written, exceeded, cerr)"
    by (metis prod_cases3)
  have "int (length written) \<le> m - x" using copyWithLimit_length [OF c] assms(3) by simp
  then show ?thesis using assms
    by (auto simp: batch_extractEntry_def daemonCopyWithLimit_copy c Let_def
        split: sum.splits if_split_asm option.split_asm)
qed

text \<open>
  What happens to an entry: nothing for one whose cleaned name is empty, else its directory is made and the
  whole content of a file is written. An entry is extracted when none of these calls fails. Its size is
  honest when the content is as long as the archive declares.
\<close>

definition batchEntryOps :: "string \<Rightarrow> zipEntry \<Rightarrow> fs_op list" where
  "batchEntryOps dst f = (if entryParts f = [] then []
     else if ze_IsDir f then [MkdirAll (entryTarget dst f)]
     else [MkdirAll (filepathDir (entryTarget dst f)), WriteFile (entryTarget dst f) (ze_Perm f) (rd_data (ze_Reader f))])"

definition callsSucceed :: "zipEntry \<Rightarrow> bool" where
  "callsSucceed f \<longleftrightarrow> entryParts f = [] \<or> ze_MkdirErr f = None \<and>
     (ze_IsDir f \<or> ze_CreateErr f = None \<and> ze_OpenErr f = None \<and> rd_err (ze_Reader f) = None \<and>
        (\<forall>n e. ze_WriteErr f = Some (n, e) \<longrightarrow> length (rd_data (ze_Reader f)) \<le> n))"

definition honestSize :: "zipEntry \<Rightarrow> bool" where
  "honestSize f \<longleftrightarrow> length (rd_data (ze_Reader f)) = ze_UncompressedSize f"

lemma extractEntry_exact:
  assumes dst: "pathClean dst = dst" "dst \<noteq> ''.''" "dst \<noteq> ''/''"
    and v: "batch_validateBuildArchivePath (ze_Name f) = Inr cleaned" and h: "honestSize f" and room: "int (ze_UncompressedSize f) \<le> m - x"
  shows "batch_extractEntry dst m x f = (ops, Inr x') \<longleftrightarrow> callsSucceed f \<and> ops = batchEntryOps dst f \<and>
    x' = x + (if entryParts f = [] \<or> ze_IsDir f then 0 else int (ze_UncompressedSize f))"
proof (cases "cleaned = ''''")
  case True
  then show ?thesis using v by (auto simp: batch_extractEntry_def entryParts_def callsSucceed_def batchEntryOps_def)
next
  case False
  note t = entry_target [OF dst v False]
  show ?thesis
  proof (cases "ze_IsDir f")
    case True
    then show ?thesis using t(1) False
      by (auto simp: batch_extractEntry_def v t(2,3) dst(1) callsSucceed_def batchEntryOps_def Let_def split: option.splits)
  next
    case reg: False
    obtain w exc cerr where c: "copyWithLimit (ze_WriteErr f) (ze_Reader f) (m - x) = (w, exc, cerr)" by (metis prod_cases3)
    have pos: "0 \<le> m - x" "x \<le> m" "\<not> nat (m - x) < ze_UncompressedSize f" using room by auto
    note hl = copyWithLimit_healthy [OF pos(1), of "ze_WriteErr f" "ze_Reader f"]
    let ?good = "rd_err (ze_Reader f) = None \<and> (\<forall>n e. ze_WriteErr f = Some (n, e) \<longrightarrow> length (rd_data (ze_Reader f)) \<le> n)"
    have cp: "exc = False \<and> cerr = None \<longleftrightarrow> ?good" and w: "?good \<Longrightarrow> w = rd_data (ze_Reader f)"
      using hl [of w] hl [of "rd_data (ze_Reader f)"] c h room by (auto simp: honestSize_def)
    have "batch_extractEntry dst m x f = (ops, Inr x') \<longleftrightarrow> ze_MkdirErr f = None \<and> ze_CreateErr f = None \<and> ze_OpenErr f = None \<and>
        (exc = False \<and> cerr = None) \<and> ops = [MkdirAll (filepathDir (entryTarget dst f)), WriteFile (entryTarget dst f) (ze_Perm f) w] \<and>
        x' = x + int (length w)"
      using reg False pos
      by (auto simp: batch_extractEntry_def v t(2,3) dst(1) daemonCopyWithLimit_copy c Let_def split: option.splits)
    then show ?thesis using cp w h reg t(1) by (auto simp: callsSucceed_def batchEntryOps_def honestSize_def)
  qed
qed

subsection \<open>The loop\<close>

lemma extractLoop_Cons:
  assumes "batch_extractLoop dst m x (f # fs) = (ops, err)"
  obtains (stop) e where "batch_extractEntry dst m x f = (ops, Inl e)" "err = Some e"
  | (go) ops1 ops2 x' where "batch_extractEntry dst m x f = (ops1, Inr x')" "batch_extractLoop dst m x' fs = (ops2, err)" "ops = ops1 @ ops2"
  using assms by (auto split: prod.split_asm sum.split_asm)

lemma batch_extractLoop_below:
  assumes dst: "pathClean dst = dst" "dst \<noteq> ''.''" "dst \<noteq> ''/''"
  shows "batch_extractLoop dst m x fs = (ops, err) \<Longrightarrow> op \<in> set ops \<Longrightarrow> below dst (op_path op)"
proof (induction fs arbitrary: x ops)
  case (Cons f fs)
  from Cons.prems(1) show ?case
    by (rule extractLoop_Cons) (use Cons.IH Cons.prems(2) extractEntry_below [OF dst] in \<open>auto dest: extractEntry_below [OF dst]\<close>)
qed simp

lemma batch_extractLoop_bytes:
  "batch_extractLoop dst m x fs = (ops, err) \<Longrightarrow> 0 \<le> x \<Longrightarrow> x \<le> m \<Longrightarrow> int (sum_list (map op_bytes ops)) \<le> m - x"
proof (induction fs arbitrary: x ops)
  case (Cons f fs)
  from Cons.prems(1) show ?case
  proof (cases rule: extractLoop_Cons)
    case (stop e)
    then show ?thesis using extractEntry_bytes [OF stop(1) Cons.prems(2,3)] by simp
  next
    case (go ops1 ops2 x')
    then show ?thesis using extractEntry_bytes [OF go(1) Cons.prems(2,3)] Cons.IH [OF go(2)] Cons.prems(2) by simp
  qed
qed simp

lemma batch_extractLoop_exact:
  assumes dst: "pathClean dst = dst" "dst \<noteq> ''.''" "dst \<noteq> ''/''"
  shows "namesValid fs \<Longrightarrow> \<forall>f \<in> set fs. honestSize f \<Longrightarrow> int (sum_list (map ze_UncompressedSize fs)) \<le> m - x \<Longrightarrow>
    batch_extractLoop dst m x fs = (ops, None) \<longleftrightarrow> list_all callsSucceed fs \<and> ops = concat (map (batchEntryOps dst) fs)"
proof (induction fs arbitrary: x ops)
  case (Cons f fs)
  obtain cleaned where v: "batch_validateBuildArchivePath (ze_Name f) = Inr cleaned" using Cons.prems(1) by (auto simp: namesValid_def)
  let ?x = "x + (if entryParts f = [] \<or> ze_IsDir f then 0 else int (ze_UncompressedSize f))"
  have e: "batch_extractEntry dst m x f = (o1, Inr x') \<longleftrightarrow> callsSucceed f \<and> o1 = batchEntryOps dst f \<and> x' = ?x" for o1 x'
    by (rule extractEntry_exact [OF dst v]) (use Cons.prems in auto)
  have IH: "batch_extractLoop dst m ?x fs = (o2, None) \<longleftrightarrow> list_all callsSucceed fs \<and> o2 = concat (map (batchEntryOps dst) fs)" for o2
    by (rule Cons.IH) (use Cons.prems in \<open>auto simp: namesValid_def\<close>)
  have "batch_extractLoop dst m x (f # fs) = (ops, None) \<longleftrightarrow>
      (\<exists>o1 x' o2. batch_extractEntry dst m x f = (o1, Inr x') \<and> batch_extractLoop dst m x' fs = (o2, None) \<and> ops = o1 @ o2)"
    by (cases "batch_extractEntry dst m x f"; cases "snd (batch_extractEntry dst m x f)") (auto split: prod.splits)
  then show ?case unfolding e using IH by auto
qed auto

section \<open>Properties\<close>

text \<open>
  C21. The layout check is exact. For a limit that is not negative and sizes that fit their 64 bits, the
  check accepts an archive exactly when it has at most the allowed number of entries, its declared sizes
  add up to at most the limit (no wrap-around), every name is a relative path that does not climb, and
  it has a top-level name and each one is a directory, never a file, with an entry at or below its
  Dockerfile and its metadata.json; the result is the number of these directories.
\<close>

theorem archive_accepted:
  assumes "0 \<le> maxBytes" "maxBytes < 2 ^ 63" "\<forall>f \<in> set fs. ze_UncompressedSize f < 2 ^ 64"
  shows "validateBuildArchive (Inr fs) maxBytes maxFiles = Inr n \<longleftrightarrow>
    int (length fs) \<le> maxFiles \<and> int (sum_list (map ze_UncompressedSize fs)) \<le> maxBytes \<and> namesValid fs \<and>
    topNames fs \<noteq> {} \<and> (\<forall>d \<in> topNames fs. imageDirOf fs d) \<and> n = card (topNames fs)"
  by (rule validateBuildArchive_spec [OF assms])

definition demoArchive :: "zipEntry list" where
  "demoArchive = [demoEntry '' a/Dockerfile'' ''FROM x'', demoEntry (''a'' @ [CHR 0x5C] @ ''metadata.json'') ''{}'']"

theorem archive_accepted_witness:
  "validateBuildArchive (Inr demoArchive) 100 5 = Inr 1 \<and> namesValid demoArchive \<and> 1 = card (topNames demoArchive)"
proof -
  have "validateBuildArchive (Inr demoArchive) 100 5 = Inr 1" by code_simp
  moreover from this have "namesValid demoArchive \<and> 1 = card (topNames demoArchive)"
    by (subst (asm) archive_accepted) (auto simp: demoArchive_def demoEntry_def)
  ultimately show ?thesis by blast
qed

text \<open>
  The extraction is confined. Whatever the archive, every directory made, file written and file
  removed is the destination or lies below it, and the bytes written never exceed the limit, also when
  the extraction fails in the middle.
\<close>

theorem batch_extract_confined:
  assumes "batch_extractZip archive dst maxBytes maxFiles = (ops, err)"
    and "pathClean dst = dst" "dst \<noteq> ''.''" "dst \<noteq> ''/''" "0 \<le> maxBytes"
  shows "(\<forall>op \<in> set ops. below dst (op_path op)) \<and> int (sum_list (map op_bytes ops)) \<le> maxBytes"
proof (cases "ops = []")
  case True
  then show ?thesis using assms(5) by simp
next
  case False
  then obtain fs where l: "batch_extractLoop dst maxBytes 0 fs = (ops, err)"
    using assms(1) by (auto simp: batch_extractZip_def split: sum.splits option.splits)
  show ?thesis
    using batch_extractLoop_below [OF assms(2-4) l] batch_extractLoop_bytes [OF l] assms(5) by auto
qed

theorem batch_extract_confined_witness:
  "\<forall>op \<in> set (fst (batch_extractZip (Inr demoArchive) ''/tmp/images'' 7 5)). below ''/tmp/images'' (op_path op)"
proof -
  have "pathClean ''/tmp/images'' = ''/tmp/images''" by code_simp
  then show ?thesis
    using batch_extract_confined [of "Inr demoArchive" "''/tmp/images''" 7 5, OF prod.collapse [symmetric]] by simp
qed



end
