(* ===== verification/Batch_Daemon.thy ===== *)
theory Batch_Daemon
  imports Batch_Archive Batch_Options
begin

text \<open>
  The batch daemon, \<^verbatim>\<open>internal/buildbatch/daemon.go\<close> and \<^verbatim>\<open>daemon_handlers.go\<close>: an HTTP server that runs
  one batch at a time on an uploaded archive. A build request is accepted under a lock, checked, and
  handed to a goroutine that extracts the archive to a fixed directory, runs the build command and
  cleans up in deferred calls. The machine has one program point per access to shared state; requests,
  cancellations, the shutdown and every goroutine interleave. A \<^verbatim>\<open>done\<close> channel and a cancel function are
  named by the index of their build. What the build command returns is an argument of its event.
\<close>

section \<open>State\<close>

record daemonState =
  ds_Status :: string
  ds_Error :: string

definition statusIs :: "string \<Rightarrow> daemonState" where
  "statusIs s = \<lparr>ds_Status = s, ds_Error = ''''\<rparr>"

definition statusFailed :: "string \<Rightarrow> daemonState" where
  "statusFailed e = \<lparr>ds_Status = ''failed'', ds_Error = e\<rparr>"

record daemon_env =
  de_net :: net_env
  de_frac :: "int \<Rightarrow> nat \<Rightarrow> int \<Rightarrow> int"
  de_defaultAddrs :: string

text \<open>
  The program points of an accepted build request: the upload, the steps of a refusal in the order of the
  handler, the spawned goroutine, and its deferred calls.
\<close>

datatype run_pc =
    Uploading
  | SetFailed nat string | FailCancel nat | FailClose nat | FailClear nat | FailRemove nat | FailReply nat
  | Replied nat daemonState
  | SetOneshot | AsyncStart | RemoveOld | Extract | Command
  | SetState daemonState
  | DeferRemoveDir | DeferRemoveZip | DeferClear | DeferClose | DeferShutdown | Exited

record build_run =
  br_query :: url_values
  br_pc :: run_pc
  br_canceled :: bool
  br_oneshot :: bool
  br_zip :: bool
  br_archive :: "zipEntry list result"

text \<open>The server's own goroutine: it serves, waits for the build it saw when it was told to stop, has ended.\<close>

datatype main_pc = Serving | Draining "nat option" | Stopped "go_error option"

record daemonServer =
  dm_build :: daemonState
  dm_buildCancel :: "nat option"
  dm_buildDone :: "nat option"
  dm_oneshot :: bool
  dm_shutdown :: bool
  dm_runs :: "build_run list"
  dm_closed :: "nat list"
  dm_cancels :: "nat list"
  dm_images :: "(nat \<times> fs_op list) option"
  dm_main :: main_pc

definition newDaemon :: daemonServer where
  "newDaemon = \<lparr>dm_build = statusIs ''idle'', dm_buildCancel = None, dm_buildDone = None, dm_oneshot = False, dm_shutdown = False,
     dm_runs = [], dm_closed = [], dm_cancels = [], dm_images = None, dm_main = Serving\<rparr>"

definition daemonImageDir :: string where
  "daemonImageDir = ''/tmp/buildctl-batch-images''"

definition daemonResultDB :: string where
  "daemonResultDB = ''/tmp/result.lmdb''"

definition daemonLogsFile :: string where
  "daemonLogsFile = ''/tmp/logs.jsonl''"

definition daemonMaxUploadBytes :: int where
  "daemonMaxUploadBytes = 512 * 2 ^ 20"

definition daemonMaxExtractedBytes :: int where
  "daemonMaxExtractedBytes = 4 * 2 ^ 30"

definition daemonMaxArchiveFiles :: int where
  "daemonMaxArchiveFiles = 100000"

section \<open>Helpers\<close>

definition setBuildState :: "daemonState \<Rightarrow> daemonServer \<Rightarrow> daemonServer" where
  "setBuildState st d = d\<lparr>dm_build := st\<rparr>"

definition getBuildState :: "daemonServer \<Rightarrow> daemonState" where
  "getBuildState d = dm_build d"

definition clearBuildExecution :: "nat \<Rightarrow> daemonServer \<Rightarrow> daemonServer" where
  "clearBuildExecution i d = (if dm_buildDone d = Some i then d\<lparr>dm_buildDone := None, dm_buildCancel := None\<rparr> else d)"

text \<open>\<^verbatim>\<open>sync.Once\<close> around the close of the channel.\<close>

definition triggerShutdown :: "daemonServer \<Rightarrow> daemonServer" where
  "triggerShutdown d = d\<lparr>dm_shutdown := True\<rparr>"

text \<open>Closing a channel that is closed panics: the step does not exist.\<close>

definition close_chan :: "nat \<Rightarrow> daemonServer \<Rightarrow> daemonServer option" where
  "close_chan i d = (if i \<in> set (dm_closed d) then None else Some (d\<lparr>dm_closed := dm_closed d @ [i]\<rparr>))"

definition set_pc :: "nat \<Rightarrow> run_pc \<Rightarrow> daemonServer \<Rightarrow> daemonServer" where
  "set_pc i pc d = d\<lparr>dm_runs := (dm_runs d)[i := (dm_runs d ! i)\<lparr>br_pc := pc\<rparr>]\<rparr>"

definition cancelRun :: "nat \<Rightarrow> daemonServer \<Rightarrow> daemonServer" where
  "cancelRun i d = d\<lparr>dm_runs := (dm_runs d)[i := (dm_runs d ! i)\<lparr>br_canceled := True\<rparr>]\<rparr>"

definition removeZip :: "nat \<Rightarrow> daemonServer \<Rightarrow> daemonServer" where
  "removeZip i d = d\<lparr>dm_runs := (dm_runs d)[i := (dm_runs d ! i)\<lparr>br_zip := False\<rparr>]\<rparr>"

section \<open>Requests\<close>

definition daemonOptions :: "daemon_env \<Rightarrow> url_values \<Rightarrow> build_options result" where
  "daemonOptions env q = buildOptionsFromQuery (de_net env) (de_frac env) q (de_defaultAddrs env) daemonResultDB daemonLogsFile"

text \<open>The locked section of \<^verbatim>\<open>handleBuildPost\<close>: the request is refused with 409, or it becomes the running build.\<close>

definition handleBuildPost :: "url_values \<Rightarrow> daemonServer \<Rightarrow> daemonServer \<times> (nat \<times> daemonState) option" where
  "handleBuildPost q d =
     (if ds_Status (dm_build d) = ''running'' then (d, Some (409, \<lparr>ds_Status = ''error'', ds_Error = ''a build is already running''\<rparr>))
      else (d\<lparr>dm_build := statusIs ''running'', dm_buildCancel := Some (length (dm_runs d)), dm_buildDone := Some (length (dm_runs d)),
              dm_runs := dm_runs d @ [\<lparr>br_query = q, br_pc = Uploading, br_canceled = False, br_oneshot = False, br_zip = False,
                br_archive = Inr []\<rparr>]\<rparr>, None))"

text \<open>The upload: the temporary file cannot be created, or the body with what the zip reader finds in it.\<close>

datatype upload = CreateTempFails go_error | UploadBody "(nat \<times> go_error) option" reader "zipEntry list result"

text \<open>
  The checks of the request: the status code and error of a refusal with whether the file is still there,
  or whether the build is a oneshot.
\<close>

definition receiveUpload :: "daemon_env \<Rightarrow> url_values \<Rightarrow> upload \<Rightarrow> (nat \<times> string \<times> bool) + bool" where
  "receiveUpload env q up = (case up of
      CreateTempFails e \<Rightarrow> Inl (500, err_text e, False)
    | UploadBody wErr body archive \<Rightarrow>
        (case daemonCopyWithLimit wErr body daemonMaxUploadBytes of
           (written, exceeded, Some e) \<Rightarrow> Inl (500, ''receive zip: '' @ err_text e, False)
         | (written, exceeded, None) \<Rightarrow>
             if exceeded then Inl (413, ''compressed upload exceeds 512 MiB'', False)
             else case daemonOptions env q of
               Inl e \<Rightarrow> Inl (400, err_text e, True)
             | Inr _ \<Rightarrow>
                 (case validateBuildArchive archive daemonMaxExtractedBytes daemonMaxArchiveFiles of
                    Inl e \<Rightarrow> Inl (if errors_Is e ArchiveLimit then 413 else 400, err_text e, True)
                  | Inr _ \<Rightarrow>
                      (case queryBoolStrict q ''oneshot'' False of
                         Inl e \<Rightarrow> Inl (400, err_text e, True)
                       | Inr oneshot \<Rightarrow> Inr oneshot))))"

definition uploadArchive :: "upload \<Rightarrow> zipEntry list result" where
  "uploadArchive up = (case up of CreateTempFails e \<Rightarrow> Inl e | UploadBody wErr body archive \<Rightarrow> archive)"

definition uploadDone :: "daemon_env \<Rightarrow> upload \<Rightarrow> nat \<Rightarrow> daemonServer \<Rightarrow> daemonServer option" where
  "uploadDone env up i d =
     (let r = dm_runs d ! i in
      if br_pc r \<noteq> Uploading then None
      else Some (d\<lparr>dm_runs := (dm_runs d)[i := (case receiveUpload env (br_query r) up of
          Inl (code, e, left) \<Rightarrow> r\<lparr>br_pc := SetFailed code e, br_zip := left\<rparr>
        | Inr oneshot \<Rightarrow> r\<lparr>br_pc := SetOneshot, br_zip := True, br_oneshot := oneshot, br_archive := uploadArchive up\<rparr>)]\<rparr>))"

text \<open>One step of a request or of its goroutine that needs no input.\<close>

definition advance :: "daemon_env \<Rightarrow> nat \<Rightarrow> daemonServer \<Rightarrow> daemonServer option" where
  "advance env i d = (let r = dm_runs d ! i in case br_pc r of
      SetFailed code e \<Rightarrow> Some (set_pc i (FailCancel code) (setBuildState (statusFailed e) d))
    | FailCancel code \<Rightarrow> Some (set_pc i (FailClose code) (cancelRun i d))
    | FailClose code \<Rightarrow> map_option (set_pc i (FailClear code)) (close_chan i d)
    | FailClear code \<Rightarrow> Some (set_pc i (FailRemove code) (clearBuildExecution i d))
    | FailRemove code \<Rightarrow> Some (set_pc i (FailReply code) (removeZip i d))
    | FailReply code \<Rightarrow> Some (set_pc i (Replied code (getBuildState d)) d)
    | SetOneshot \<Rightarrow> Some (set_pc i AsyncStart (if br_oneshot r then d\<lparr>dm_oneshot := True\<rparr> else d))
    | AsyncStart \<Rightarrow> (case daemonOptions env (br_query r) of
        Inl e \<Rightarrow> Some (set_pc i (SetState (statusFailed (err_text e))) d)
      | Inr opts \<Rightarrow> Some (set_pc i RemoveOld d))
    | RemoveOld \<Rightarrow> Some (set_pc i Extract (d\<lparr>dm_images := None\<rparr>))
    | Extract \<Rightarrow>
        (case batch_extractZip (br_archive r) daemonImageDir daemonMaxExtractedBytes daemonMaxArchiveFiles of
           (ops, Some e) \<Rightarrow> Some (set_pc i (SetState (statusFailed (''extract zip: '' @ err_text e))) (d\<lparr>dm_images := Some (i, ops)\<rparr>))
         | (ops, None) \<Rightarrow> Some (set_pc i Command (d\<lparr>dm_images := Some (i, ops)\<rparr>)))
    | SetState st \<Rightarrow> Some (set_pc i DeferRemoveDir (setBuildState st d))
    | DeferRemoveDir \<Rightarrow> Some (set_pc i DeferRemoveZip (d\<lparr>dm_images := None\<rparr>))
    | DeferRemoveZip \<Rightarrow> Some (set_pc i DeferClear (removeZip i d))
    | DeferClear \<Rightarrow> Some (set_pc i DeferClose (clearBuildExecution i d))
    | DeferClose \<Rightarrow> map_option (set_pc i (if br_oneshot r then DeferShutdown else Exited)) (close_chan i d)
    | DeferShutdown \<Rightarrow> Some (set_pc i Exited (triggerShutdown d))
    | _ \<Rightarrow> None)"

text \<open>
  The build command returns; an invalid combination of options is its error. The options are those of
  the request, with the directory of the extracted archive.
\<close>

definition commandResult :: "daemon_env \<Rightarrow> url_values \<Rightarrow> go_error option \<Rightarrow> go_error option option" where
  "commandResult env q result = (case daemonOptions env q of
      Inl e \<Rightarrow> None
    | Inr opts \<Rightarrow>
        Some (case runBuildCommand (opts\<lparr>op_imageDirs := daemonImageDir\<rparr>) of Inl e \<Rightarrow> Some e | Inr _ \<Rightarrow> result))"

definition finalState :: "go_error option \<Rightarrow> daemonState" where
  "finalState err = (case err of Some e \<Rightarrow> statusFailed (err_text e) | None \<Rightarrow> statusIs ''completed'')"

definition commandReturns :: "daemon_env \<Rightarrow> go_error option \<Rightarrow> nat \<Rightarrow> daemonServer \<Rightarrow> daemonServer option" where
  "commandReturns env result i d =
     (let r = dm_runs d ! i in
      if br_pc r \<noteq> Command then None
      else map_option (\<lambda>err. set_pc i (SetState (finalState err)) d) (commandResult env (br_query r) result))"

text \<open>\<^verbatim>\<open>handleBuildCancel\<close> reads the state under the lock and calls the cancel function afterwards.\<close>

definition handleBuildCancel :: "daemonServer \<Rightarrow> daemonServer \<times> nat \<times> daemonState" where
  "handleBuildCancel d = (case dm_buildCancel d of
      Some i \<Rightarrow>
        if ds_Status (dm_build d) \<noteq> ''running'' then (d, 200, dm_build d)
        else (d\<lparr>dm_cancels := dm_cancels d @ [i]\<rparr>, 202, statusIs ''running'')
    | None \<Rightarrow> (d, 200, dm_build d))"

definition handleBuildStatus :: "daemonServer \<Rightarrow> nat \<times> daemonState" where
  "handleBuildStatus d = (200, getBuildState d)"

definition handleHealth :: "nat \<times> daemonState" where
  "handleHealth = (200, statusIs ''ok'')"

definition handleShutdown :: "daemonServer \<Rightarrow> daemonServer \<times> nat \<times> daemonState" where
  "handleShutdown d = (triggerShutdown d, 202, statusIs ''shutting-down'')"

text \<open>\<^verbatim>\<open>handleExport\<close>: the body of a 200 is the exported text.\<close>

definition handleExport ::
    "result_json \<Rightarrow> lmdb_rc \<Rightarrow> lmdbResultDB \<Rightarrow> go_error option \<Rightarrow> go_error option \<Rightarrow> url_values \<Rightarrow> nat \<times> (daemonState + string)" where
  "handleExport json rc db tempErr openErr q =
     (let fails = (\<lambda>code e. (code, Inl \<lparr>ds_Status = ''error'', ds_Error = err_text e\<rparr>)) in
      case exportOptionsFromQuery q daemonResultDB of
        Inl e \<Rightarrow> fails 400 e
      | Inr opts \<Rightarrow>
          (case tempErr of
             Some e \<Rightarrow> fails 500 e
           | None \<Rightarrow>
               (case runExport json rc (xo_oci opts) (xo_withFail opts) db of
                  Inl e \<Rightarrow> fails 500 e
                | Inr text \<Rightarrow> (case openErr of Some e \<Rightarrow> fails 500 e | None \<Rightarrow> (200, Inr text)))))"

definition handlePreheat :: "(preheat_options \<Rightarrow> go_error option) \<Rightarrow> url_values \<Rightarrow> nat \<times> daemonState" where
  "handlePreheat runPreheat q = (case preheatOptionsFromQuery q daemonResultDB of
      Inl e \<Rightarrow> (400, \<lparr>ds_Status = ''error'', ds_Error = err_text e\<rparr>)
    | Inr opts \<Rightarrow>
        (case runPreheat opts of
           Some e \<Rightarrow> (500, \<lparr>ds_Status = ''error'', ds_Error = err_text e\<rparr>)
         | None \<Rightarrow> (200, statusIs ''completed'')))"

section \<open>The server\<close>

definition completionError :: "daemonServer \<Rightarrow> go_error option" where
  "completionError d =
     (if dm_oneshot d \<and> ds_Status (dm_build d) = ''failed''
      then Some (Errorf (''oneshot build failed: '' @ ds_Error (dm_build d))) else None)"

text \<open>
  The goroutine that ends the server: it sees the signal or the shutdown channel, reads the channel of the
  build, waits for it or for the timeout, and stops the listener; \<^verbatim>\<open>runDaemon\<close> then returns.
\<close>

datatype batch_daemon_event =
    Post url_values
  | Upload upload nat
  | Advance nat
  | CommandReturns "go_error option" nat
  | CancelRequest
  | CancelCall
  | ShutdownRequest
  | Stop bool
  | Drained bool

definition gracefulShutdown :: "bool \<Rightarrow> daemonServer \<Rightarrow> daemonServer option" where
  "gracefulShutdown timedOut d = (case dm_main d of
      Draining (Some i) \<Rightarrow> if timedOut \<or> i \<in> set (dm_closed d) then Some (d\<lparr>dm_main := Stopped (completionError d)\<rparr>) else None
    | Draining None \<Rightarrow> Some (d\<lparr>dm_main := Stopped (completionError d)\<rparr>)
    | _ \<Rightarrow> None)"

definition serverOpen :: "daemonServer \<Rightarrow> bool" where
  "serverOpen d \<longleftrightarrow> (case dm_main d of Stopped r \<Rightarrow> False | _ \<Rightarrow> True)"

definition batch_daemon_step :: "daemon_env \<Rightarrow> batch_daemon_event \<Rightarrow> daemonServer \<Rightarrow> daemonServer option" where
  "batch_daemon_step env ev d =
     (if \<not> serverOpen d then None
      else case ev of
        Post q \<Rightarrow> Some (fst (handleBuildPost q d))
      | Upload up i \<Rightarrow> if i < length (dm_runs d) then uploadDone env up i d else None
      | Advance i \<Rightarrow> if i < length (dm_runs d) then advance env i d else None
      | CommandReturns result i \<Rightarrow> if i < length (dm_runs d) then commandReturns env result i d else None
      | CancelRequest \<Rightarrow> Some (fst (handleBuildCancel d))
      | CancelCall \<Rightarrow> (case dm_cancels d of [] \<Rightarrow> None | i # rest \<Rightarrow> Some (cancelRun i (d\<lparr>dm_cancels := rest\<rparr>)))
      | ShutdownRequest \<Rightarrow> Some (fst (handleShutdown d))
      | Stop signal \<Rightarrow> if dm_main d = Serving \<and> (signal \<or> dm_shutdown d) then Some (d\<lparr>dm_main := Draining (dm_buildDone d)\<rparr>) else None
      | Drained timedOut \<Rightarrow> gracefulShutdown timedOut d)"

text \<open>
  \<^verbatim>\<open>writeDockerAuth\<close> and \<^verbatim>\<open>RunDaemon\<close>: the file with the credentials is written before the server starts.
  Base64 decoding is the argument \<open>decode\<close>.
\<close>

definition writeDockerAuth :: "(string \<Rightarrow> string result) \<Rightarrow> go_error option \<Rightarrow> go_error option \<Rightarrow> string \<Rightarrow> fs_op list \<times> go_error option" where
  "writeDockerAuth decode mkdirErr writeErr b64 = (case decode b64 of
      Inl e \<Rightarrow> ([], Some (wrapErr ''decode --auth'' e))
    | Inr raw \<Rightarrow>
        (case mkdirErr of
           Some e \<Rightarrow> ([], Some e)
         | None \<Rightarrow>
             (case writeErr of
                Some e \<Rightarrow> ([MkdirAll ''/root/.docker''], Some e)
              | None \<Rightarrow> ([MkdirAll ''/root/.docker'', WriteFile ''/root/.docker/config.json'' 384 raw], None))))"

definition RunDaemon ::
    "(string \<Rightarrow> string result) \<Rightarrow> go_error option \<Rightarrow> go_error option \<Rightarrow> go_error option \<Rightarrow> string \<Rightarrow> string \<Rightarrow> fs_op list \<times> daemonServer result" where
  "RunDaemon decode mkdirErr writeErr listenErr auth socketPath =
     (case (if auth \<noteq> '''' then writeDockerAuth decode mkdirErr writeErr auth else ([], None)) of
        (ops, Some e) \<Rightarrow> (ops, Inl e)
      | (ops, None) \<Rightarrow>
          (case listenErr of
             Some e \<Rightarrow> (ops @ [RemoveFile socketPath], Inl (wrapErr (''listen on '' @ socketPath) e))
           | None \<Rightarrow> (ops @ [RemoveFile socketPath], Inr newDaemon)))"

section \<open>One build at a time\<close>

text \<open>A run that has not yet set the final state of its build, and one whose channel is closed.\<close>

definition activeRun :: "build_run \<Rightarrow> bool" where
  "activeRun r \<longleftrightarrow> (case br_pc r of
      Uploading \<Rightarrow> True | SetFailed _ _ \<Rightarrow> True | SetOneshot \<Rightarrow> True | AsyncStart \<Rightarrow> True | RemoveOld \<Rightarrow> True | Extract \<Rightarrow> True
    | Command \<Rightarrow> True | SetState _ \<Rightarrow> True | _ \<Rightarrow> False)"

definition closedRun :: "build_run \<Rightarrow> bool" where
  "closedRun r \<longleftrightarrow> (case br_pc r of
      FailClear _ \<Rightarrow> True | FailRemove _ \<Rightarrow> True | FailReply _ \<Rightarrow> True | Replied _ _ \<Rightarrow> True
    | DeferShutdown \<Rightarrow> True | Exited \<Rightarrow> True | _ \<Rightarrow> False)"

definition zipGone :: "build_run \<Rightarrow> bool" where
  "zipGone r \<longleftrightarrow> (case br_pc r of
      Uploading \<Rightarrow> True | FailReply _ \<Rightarrow> True | Replied _ _ \<Rightarrow> True | DeferClear \<Rightarrow> True | DeferClose \<Rightarrow> True | DeferShutdown \<Rightarrow> True | Exited \<Rightarrow> True
    | _ \<Rightarrow> False)"

definition optionsChecked :: "build_run \<Rightarrow> bool" where
  "optionsChecked r \<longleftrightarrow> br_pc r \<in> {RemoveOld, Extract, Command}"

text \<open>What holds of each run by itself.\<close>

definition run_ok :: "daemon_env \<Rightarrow> daemonServer \<Rightarrow> nat \<Rightarrow> build_run \<Rightarrow> bool" where
  "run_ok env d i r \<longleftrightarrow>
     (activeRun r \<longrightarrow> dm_buildDone d = Some i) \<and> (activeRun r \<longrightarrow> ds_Status (dm_build d) = ''running'') \<and>
     (closedRun r \<longleftrightarrow> i \<in> set (dm_closed d)) \<and> (zipGone r \<longrightarrow> \<not> br_zip r) \<and>
     (\<forall>st. br_pc r = SetState st \<longrightarrow> ds_Status st \<noteq> ''running'') \<and>
     (optionsChecked r \<longrightarrow> (\<exists>opts. daemonOptions env (br_query r) = Inr opts)) \<and>
     (br_pc r = Exited \<and> br_oneshot r \<longrightarrow> dm_shutdown d)"

definition daemon_inv :: "daemon_env \<Rightarrow> daemonServer \<Rightarrow> bool" where
  "daemon_inv env d \<longleftrightarrow>
     (\<forall>i < length (dm_runs d). run_ok env d i (dm_runs d ! i)) \<and>
     (ds_Status (dm_build d) = ''running'' \<longrightarrow> (\<exists>i < length (dm_runs d). activeRun (dm_runs d ! i))) \<and>
     dm_buildCancel d = dm_buildDone d \<and> distinct (dm_closed d) \<and>
     set (dm_closed d) \<subseteq> {..< length (dm_runs d)} \<and> set (dm_cancels d) \<subseteq> {..< length (dm_runs d)} \<and>
     (\<forall>i. dm_buildDone d = Some i \<longrightarrow> i < length (dm_runs d))"

lemmas run_pc_classes = activeRun_def closedRun_def zipGone_def optionsChecked_def
lemmas daemon_ops = setBuildState_def getBuildState_def clearBuildExecution_def triggerShutdown_def close_chan_def set_pc_def
  cancelRun_def removeZip_def statusIs_def statusFailed_def

lemma daemon_inv_new: "daemon_inv env newDaemon"
  by (simp add: daemon_inv_def newDaemon_def statusIs_def)

text \<open>
  A step of run \<open>i\<close> replaces that run and may change the shared fields; the other runs keep what they have
  when the fields they speak of are kept or concern run \<open>i\<close> only.
\<close>

lemma daemon_inv_step:
  assumes inv: "daemon_inv env d" and i: "i < length (dm_runs d)" and runs: "dm_runs d' = (dm_runs d)[i := r']"
    and ok: "run_ok env d' i r'"
    and others: "\<And>j. j < length (dm_runs d) \<Longrightarrow> j \<noteq> i \<Longrightarrow> activeRun (dm_runs d ! j) \<Longrightarrow>
      dm_buildDone d' = Some j \<and> ds_Status (dm_build d') = ''running''"
    and closed: "dm_closed d' = dm_closed d \<or> dm_closed d' = dm_closed d @ [i] \<and> i \<notin> set (dm_closed d)"
    and shut: "dm_shutdown d \<longrightarrow> dm_shutdown d'"
    and run: "ds_Status (dm_build d') = ''running'' \<longrightarrow> activeRun r' \<or> (\<exists>j < length (dm_runs d). j \<noteq> i \<and> activeRun (dm_runs d ! j))"
    and cancel: "dm_buildCancel d' = dm_buildDone d'" "set (dm_cancels d') \<subseteq> set (dm_cancels d)"
    and buildDone: "dm_buildDone d' = dm_buildDone d \<or> dm_buildDone d' = None"
  shows "daemon_inv env d'"
proof -
  have "run_ok env d' j (dm_runs d' ! j)" if j: "j < length (dm_runs d)" for j
  proof (cases "j = i")
    case True
    then show ?thesis using ok i by (simp add: runs)
  next
    case False
    have "run_ok env d j (dm_runs d ! j)" using inv j by (simp add: daemon_inv_def)
    moreover have "j \<in> set (dm_closed d') \<longleftrightarrow> j \<in> set (dm_closed d)" using closed False by auto
    ultimately show ?thesis using False others [OF j False] shut unfolding run_ok_def by (simp add: runs)
  qed
  moreover have "\<exists>j < length (dm_runs d'). activeRun (dm_runs d' ! j)" if "ds_Status (dm_build d') = ''running''"
    using run that i by (auto simp: runs intro: exI [of _ i])
  ultimately show ?thesis
    using inv i closed cancel buildDone unfolding daemon_inv_def by (auto simp: runs)
qed

lemma active_unique:
  assumes "daemon_inv env d" "i < length (dm_runs d)" "j < length (dm_runs d)" "activeRun (dm_runs d ! i)" "activeRun (dm_runs d ! j)"
  shows "i = j"
proof -
  have "run_ok env d i (dm_runs d ! i)" "run_ok env d j (dm_runs d ! j)" using assms(1-3) by (auto simp: daemon_inv_def)
  then show ?thesis using assms(4,5) by (simp add: run_ok_def)
qed

lemma advance_inv:
  assumes inv: "daemon_inv env d" and i: "i < length (dm_runs d)" and s: "advance env i d = Some d'"
  shows "daemon_inv env d'"
proof -
  let ?r = "dm_runs d ! i"
  have r: "run_ok env d i ?r" using inv i by (simp add: daemon_inv_def)
  have act: "\<And>j. j < length (dm_runs d) \<Longrightarrow> activeRun (dm_runs d ! j) \<Longrightarrow>
      dm_buildDone d = Some j \<and> ds_Status (dm_build d) = ''running''"
    using inv unfolding daemon_inv_def run_ok_def by blast
  have run: "ds_Status (dm_build d) = ''running'' \<Longrightarrow> \<exists>j < length (dm_runs d). activeRun (dm_runs d ! j)"
    using inv by (simp add: daemon_inv_def)
  have cd: "dm_buildCancel d = dm_buildDone d" using inv by (simp add: daemon_inv_def)
  note uniq = active_unique [OF inv i]
  note split = run_pc.split_asm if_split_asm option.split_asm sum.split_asm prod.split_asm
  note defs = advance_def Let_def daemon_ops
  show ?thesis
  proof (rule daemon_inv_step [OF inv i, where r' = "dm_runs d' ! i"])
    show "dm_runs d' = (dm_runs d)[i := dm_runs d' ! i]" using s i by (auto simp: defs split: split)
    show "run_ok env d' i (dm_runs d' ! i)" using s r i by (auto simp: defs run_ok_def run_pc_classes split: split)
    show "dm_closed d' = dm_closed d \<or> dm_closed d' = dm_closed d @ [i] \<and> i \<notin> set (dm_closed d)"
      using s by (auto simp: defs split: split)
    show "dm_shutdown d \<longrightarrow> dm_shutdown d'" using s by (auto simp: defs split: split)
    show "dm_buildCancel d' = dm_buildDone d'" using s cd by (auto simp: defs split: split)
    show "set (dm_cancels d') \<subseteq> set (dm_cancels d)" using s by (auto simp: defs split: split)
    show "dm_buildDone d' = dm_buildDone d \<or> dm_buildDone d' = None" using s by (auto simp: defs split: split)
    show "dm_buildDone d' = Some j \<and> ds_Status (dm_build d') = ''running''"
      if j: "j < length (dm_runs d)" "j \<noteq> i" "activeRun (dm_runs d ! j)" for j
    proof -
      have "\<not> activeRun ?r" using uniq [OF j(1) _ j(3)] j(2) by blast
      then show ?thesis using s act [OF j(1,3)] j(2) by (auto simp: defs run_pc_classes split: split)
    qed
    show "ds_Status (dm_build d') = ''running'' \<longrightarrow>
        activeRun (dm_runs d' ! i) \<or> (\<exists>j < length (dm_runs d). j \<noteq> i \<and> activeRun (dm_runs d ! j))"
    proof (cases "activeRun ?r")
      case True
      then show ?thesis using s r i by (auto simp: defs run_ok_def run_pc_classes split: split)
    next
      case False
      then have "dm_build d' = dm_build d" using s by (auto simp: defs run_pc_classes split: split)
      then show ?thesis using run False by metis
    qed
  qed
qed

lemma daemon_inv_active:
  assumes "daemon_inv env d" "j < length (dm_runs d)" "activeRun (dm_runs d ! j)"
  shows "dm_buildDone d = Some j \<and> ds_Status (dm_build d) = ''running''"
  using assms unfolding daemon_inv_def run_ok_def by blast

lemma run_ok_fields:
  assumes "run_ok env d i r" "dm_build d' = dm_build d" "dm_buildDone d' = dm_buildDone d" "dm_closed d' = dm_closed d"
    "dm_shutdown d \<longrightarrow> dm_shutdown d'"
  shows "run_ok env d' i r"
  using assms unfolding run_ok_def by simp

text \<open>A step that changes nothing but its own run, which stays active or not.\<close>

lemma daemon_inv_local:
  assumes inv: "daemon_inv env d" and i: "i < length (dm_runs d)"
    and ok: "run_ok env d i r'" and same: "activeRun r' = activeRun (dm_runs d ! i)"
  shows "daemon_inv env (d\<lparr>dm_runs := (dm_runs d)[i := r']\<rparr>)" (is "daemon_inv env ?d")
proof (rule daemon_inv_step [OF inv i, where r' = r'])
  show "run_ok env ?d i r'" using ok by (simp add: run_ok_def)
  show "dm_buildDone ?d = Some j \<and> ds_Status (dm_build ?d) = ''running''"
    if "j < length (dm_runs d)" "activeRun (dm_runs d ! j)" for j
    using daemon_inv_active [OF inv that] by simp
  show "ds_Status (dm_build ?d) = ''running'' \<longrightarrow> activeRun r' \<or> (\<exists>j < length (dm_runs d). j \<noteq> i \<and> activeRun (dm_runs d ! j))"
    using inv same unfolding daemon_inv_def by auto
  show "dm_buildCancel ?d = dm_buildDone ?d" using inv unfolding daemon_inv_def by simp
qed simp_all

lemma uploadDone_inv:
  assumes inv: "daemon_inv env d" and i: "i < length (dm_runs d)" and s: "uploadDone env up i d = Some d'"
  shows "daemon_inv env d'"
proof -
  let ?r = "dm_runs d ! i"
  define r' where "r' = (case receiveUpload env (br_query ?r) up of
      Inl (code, e, left) \<Rightarrow> ?r\<lparr>br_pc := SetFailed code e, br_zip := left\<rparr>
    | Inr oneshot \<Rightarrow> ?r\<lparr>br_pc := SetOneshot, br_zip := True, br_oneshot := oneshot, br_archive := uploadArchive up\<rparr>)"
  have pc: "br_pc ?r = Uploading" and d': "d' = d\<lparr>dm_runs := (dm_runs d)[i := r']\<rparr>"
    using s by (auto simp: uploadDone_def r'_def Let_def split: if_split_asm)
  have r: "run_ok env d i ?r" using inv i by (simp add: daemon_inv_def)
  then have "run_ok env d i r'"
    using pc by (auto simp: r'_def run_ok_def run_pc_classes split: sum.splits prod.splits)
  moreover have "activeRun r' = activeRun ?r" using pc by (auto simp: r'_def activeRun_def split: sum.splits prod.splits)
  ultimately show ?thesis unfolding d' by (rule daemon_inv_local [OF inv i])
qed

lemma commandReturns_inv:
  assumes inv: "daemon_inv env d" and i: "i < length (dm_runs d)" and s: "commandReturns env result i d = Some d'"
  shows "daemon_inv env d'"
proof -
  let ?r = "dm_runs d ! i"
  obtain err where pc: "br_pc ?r = Command" and d': "d' = set_pc i (SetState (finalState err)) d"
    using s by (auto simp: commandReturns_def Let_def split: if_split_asm)
  define st where "st = finalState err"
  have st: "ds_Status st \<noteq> ''running''" by (simp add: st_def finalState_def statusFailed_def statusIs_def split: option.split)
  have r: "run_ok env d i ?r" using inv i by (simp add: daemon_inv_def)
  then have "run_ok env d i (?r\<lparr>br_pc := SetState st\<rparr>)" "activeRun (?r\<lparr>br_pc := SetState st\<rparr>) = activeRun ?r"
    using pc st by (simp_all add: run_ok_def run_pc_classes)
  from daemon_inv_local [OF inv i this] show ?thesis unfolding d' set_pc_def st_def by simp
qed

lemma daemon_inv_fields:
  assumes "daemon_inv env d" "dm_runs d' = dm_runs d" "dm_build d' = dm_build d" "dm_buildDone d' = dm_buildDone d"
    "dm_buildCancel d' = dm_buildCancel d" "dm_closed d' = dm_closed d" "dm_shutdown d \<longrightarrow> dm_shutdown d'"
    "set (dm_cancels d') \<subseteq> {..< length (dm_runs d)}"
  shows "daemon_inv env d'"
proof -
  have "run_ok env d' i (dm_runs d ! i)" if "i < length (dm_runs d)" for i
    using assms(1) that run_ok_fields [OF _ assms(3,4,6,7)] unfolding daemon_inv_def by blast
  then show ?thesis using assms unfolding daemon_inv_def by metis
qed

lemma cancelRun_inv:
  assumes inv: "daemon_inv env d" and c: "dm_cancels d = i # rest"
  shows "daemon_inv env (cancelRun i (d\<lparr>dm_cancels := rest\<rparr>))"
proof -
  let ?r = "dm_runs d ! i" and ?d = "d\<lparr>dm_cancels := rest\<rparr>"
  have i: "i < length (dm_runs d)" "set rest \<subseteq> {..< length (dm_runs d)}" using inv c unfolding daemon_inv_def by simp_all
  then have inv': "daemon_inv env ?d" by (intro daemon_inv_fields [OF inv]) simp_all
  have "run_ok env ?d i ?r" using inv' i(1) by (simp add: daemon_inv_def)
  then have "run_ok env ?d i (?r\<lparr>br_canceled := True\<rparr>)" "activeRun (?r\<lparr>br_canceled := True\<rparr>) = activeRun ?r"
    by (simp_all add: run_ok_def run_pc_classes)
  then show ?thesis using daemon_inv_local [OF inv', of i] i(1) by (simp add: cancelRun_def)
qed

lemma handleBuildPost_inv:
  assumes inv: "daemon_inv env d"
  shows "daemon_inv env (fst (handleBuildPost q d))"
proof (cases "ds_Status (dm_build d) = ''running''")
  case False
  let ?n = "length (dm_runs d)"
  let ?r = "\<lparr>br_query = q, br_pc = Uploading, br_canceled = False, br_oneshot = False, br_zip = False, br_archive = Inr []\<rparr>"
  let ?d = "d\<lparr>dm_build := statusIs ''running'', dm_buildCancel := Some ?n, dm_buildDone := Some ?n, dm_runs := dm_runs d @ [?r]\<rparr>"
  have d: "fst (handleBuildPost q d) = ?d" using False by (simp add: handleBuildPost_def)
  have ok: "run_ok env d i (dm_runs d ! i)" if "i < ?n" for i using inv that by (simp add: daemon_inv_def)
  have old: "run_ok env ?d i (dm_runs d ! i)" if i: "i < ?n" for i
    using ok [OF i] False unfolding run_ok_def by simp
  have "?n \<notin> set (dm_closed d)" using inv unfolding daemon_inv_def by blast
  then have new: "run_ok env ?d ?n ?r" by (simp add: run_ok_def run_pc_classes statusIs_def)
  have "run_ok env ?d i (dm_runs ?d ! i)" if "i < length (dm_runs ?d)" for i
    using that old new by (cases "i = ?n") (simp_all add: nth_append)
  moreover have "activeRun (dm_runs ?d ! ?n)" by (simp add: activeRun_def)
  moreover have "set (dm_closed d) \<subseteq> {..< Suc ?n}" "set (dm_cancels d) \<subseteq> {..< Suc ?n}" "distinct (dm_closed d)"
    using inv unfolding daemon_inv_def by force+
  ultimately have "daemon_inv env ?d" unfolding daemon_inv_def by auto
  then show ?thesis using d by simp
qed (simp add: handleBuildPost_def inv)

lemma daemon_step_inv:
  assumes inv: "daemon_inv env d" and s: "batch_daemon_step env ev d = Some d'"
  shows "daemon_inv env d'"
proof -
  have cs: "set (dm_cancels d) \<subseteq> {..< length (dm_runs d)}" using inv unfolding daemon_inv_def by blast
  show ?thesis
  proof (cases ev)
    case CancelRequest
  then have d': "d' = fst (handleBuildCancel d)" using s by (auto simp: batch_daemon_step_def split: if_split_asm)
  have "set (dm_cancels d') \<subseteq> {..< length (dm_runs d)}"
    using cs inv unfolding d' handleBuildCancel_def daemon_inv_def by (auto split: option.split)
  then show ?thesis by (rule daemon_inv_fields [OF inv, rotated -1]) (auto simp: d' handleBuildCancel_def split: option.splits)
next
  case CancelCall
  then show ?thesis using s cancelRun_inv [OF inv] by (auto simp: batch_daemon_step_def split: if_split_asm list.split_asm)
next
  case (Post q)
  then show ?thesis using s handleBuildPost_inv [OF inv, of q] by (simp add: batch_daemon_step_def split: if_split_asm)
next
  case (Upload up i)
  then show ?thesis using s uploadDone_inv [OF inv] by (simp add: batch_daemon_step_def split: if_split_asm)
next
  case (Advance i)
  then show ?thesis using s advance_inv [OF inv] by (simp add: batch_daemon_step_def split: if_split_asm)
next
  case (CommandReturns result i)
  then show ?thesis using s commandReturns_inv [OF inv] by (simp add: batch_daemon_step_def split: if_split_asm)
next
  case ShutdownRequest
  then show ?thesis using s cs
    by (intro daemon_inv_fields [OF inv]) (auto simp: batch_daemon_step_def handleShutdown_def triggerShutdown_def split: if_split_asm)
next
  case (Stop signal)
  then show ?thesis using s cs by (intro daemon_inv_fields [OF inv]) (auto simp: batch_daemon_step_def split: if_split_asm)
next
  case (Drained timedOut)
  then show ?thesis using s cs
    by (intro daemon_inv_fields [OF inv])
       (auto simp: batch_daemon_step_def gracefulShutdown_def split: if_split_asm main_pc.split_asm option.split_asm)
  qed
qed

interpretation batch_daemon: ts_invariant "\<lambda>d. d = newDaemon" "batch_daemon_step env" "daemon_inv env" for env
  by unfold_locales (auto simp: daemon_inv_new intro: daemon_step_inv)

section \<open>Every accepted request ends\<close>

text \<open>The steps that a run has left, and its next event; the upload and the result of the command come from outside.\<close>

fun stepsLeft :: "run_pc \<Rightarrow> nat" where
  "stepsLeft Uploading = 12"
| "stepsLeft SetOneshot = 11" | "stepsLeft AsyncStart = 10" | "stepsLeft RemoveOld = 9" | "stepsLeft Extract = 8"
| "stepsLeft Command = 7" | "stepsLeft (SetState st) = 6" | "stepsLeft DeferRemoveDir = 5" | "stepsLeft DeferRemoveZip = 4"
| "stepsLeft DeferClear = 3" | "stepsLeft DeferClose = 2" | "stepsLeft DeferShutdown = 1" | "stepsLeft Exited = 0"
| "stepsLeft (SetFailed code e) = 6" | "stepsLeft (FailCancel code) = 5" | "stepsLeft (FailClose code) = 4"
| "stepsLeft (FailClear code) = 3" | "stepsLeft (FailRemove code) = 2" | "stepsLeft (FailReply code) = 1"
| "stepsLeft (Replied code st) = 0"

fun nextEvent :: "upload \<Rightarrow> go_error option \<Rightarrow> nat \<Rightarrow> run_pc \<Rightarrow> batch_daemon_event" where
  "nextEvent up result i Uploading = Upload up i"
| "nextEvent up result i Command = CommandReturns result i"
| "nextEvent up result i _ = Advance i"

lemma run_progress:
  assumes inv: "daemon_inv env d" and i: "i < length (dm_runs d)" and left: "0 < stepsLeft (br_pc (dm_runs d ! i))" and op: "serverOpen d"
  shows "\<exists>d'. batch_daemon_step env (nextEvent up result i (br_pc (dm_runs d ! i))) d = Some d' \<and>
    length (dm_runs d') = length (dm_runs d) \<and> stepsLeft (br_pc (dm_runs d' ! i)) < stepsLeft (br_pc (dm_runs d ! i)) \<and>
    (\<forall>j. j \<noteq> i \<longrightarrow> dm_runs d' ! j = dm_runs d ! j)"
proof -
  let ?r = "dm_runs d ! i"
  have r: "run_ok env d i ?r" using inv i by (simp add: daemon_inv_def)
  have open_chan: "\<not> closedRun ?r \<Longrightarrow> i \<notin> set (dm_closed d)" using r by (simp add: run_ok_def)
  have opts: "optionsChecked ?r \<Longrightarrow> \<exists>opts. daemonOptions env (br_query ?r) = Inr opts" using r by (simp add: run_ok_def)
  show ?thesis
  proof (cases "br_pc ?r")
    case Uploading
    then show ?thesis using i op
      by (auto simp: batch_daemon_step_def uploadDone_def Let_def split: sum.splits prod.splits)
  next
    case Command
    then obtain o' where "daemonOptions env (br_query ?r) = Inr o'" using opts by (auto simp: optionsChecked_def)
    then show ?thesis using i op Command by (auto simp: batch_daemon_step_def commandReturns_def commandResult_def set_pc_def Let_def)
  qed (use i op left open_chan in \<open>auto simp: batch_daemon_step_def advance_def daemon_ops closedRun_def Let_def split: sum.splits prod.splits option.splits\<close>)
qed

section \<open>A concrete daemon\<close>

definition demoBatchDaemon :: daemon_env where
  "demoBatchDaemon = \<lparr>de_net = demoNet, de_frac = (\<lambda>f k u. 0), de_defaultAddrs = ''10.0.0.1:1''\<rparr>"

definition demoUpload :: upload where
  "demoUpload = UploadBody None \<lparr>rd_data = ''PK'', rd_err = None\<rparr> (Inr demoArchive)"

lemma demo_daemonOptions: "\<exists>opts. daemonOptions demoBatchDaemon [] = Inr opts"
proof -
  have "isl (daemonOptions demoBatchDaemon []) = False" by code_simp
  then show ?thesis by (cases "daemonOptions demoBatchDaemon []") auto
qed

lemma demoArchive_limits:
  "\<forall>f \<in> set demoArchive. ze_UncompressedSize f < 2 ^ 64" "\<forall>f \<in> set demoArchive. callsSucceed f \<and> honestSize f"
  "sum_list (map ze_UncompressedSize demoArchive) = 8" "length demoArchive = 2"
  by (simp_all add: demoArchive_def Workspace.demoEntry_def callsSucceed_def honestSize_def)

lemma demoArchive_valid: "validateBuildArchive (Inr demoArchive) daemonMaxExtractedBytes daemonMaxArchiveFiles = Inr 1"
proof -
  have v: "validateBuildArchive (Inr demoArchive) 100 5 = Inr 1" by code_simp
  note s = v [unfolded validateBuildArchive_spec [OF _ _ demoArchive_limits(1), of 100, simplified]]
  show ?thesis
    by (subst validateBuildArchive_spec)
       (use s demoArchive_limits in \<open>auto simp: daemonMaxExtractedBytes_def daemonMaxArchiveFiles_def\<close>)
qed

lemma demo_receive: "receiveUpload demoBatchDaemon [] demoUpload = Inr False"
proof -
  have "queryBoolStrict [] ''oneshot'' False = Inr False" by (simp add: queryBoolStrict_def queryValue_def)
  moreover have "daemonCopyWithLimit None \<lparr>rd_data = ''PK'', rd_err = None\<rparr> daemonMaxUploadBytes = (''PK'', False, None)"
    by (simp add: daemonCopyWithLimit_copy copyWithLimit_def daemonMaxUploadBytes_def)
  ultimately show ?thesis
    using demo_daemonOptions demoArchive_valid by (auto simp: receiveUpload_def demoUpload_def)
qed

lemma demo_extract: "\<exists>ops. batch_extractZip (Inr demoArchive) daemonImageDir daemonMaxExtractedBytes daemonMaxArchiveFiles = (ops, None)"
proof -
  have dst: "pathClean daemonImageDir = daemonImageDir" "daemonImageDir \<noteq> ''.''" "daemonImageDir \<noteq> ''/''"
    by (code_simp, simp_all add: daemonImageDir_def)
  have "namesValid demoArchive"
    using demoArchive_valid demoArchive_limits(1)
    by (subst (asm) validateBuildArchive_spec) (auto simp: daemonMaxExtractedBytes_def)
  then obtain ops where "batch_extractLoop daemonImageDir daemonMaxExtractedBytes 0 demoArchive = (ops, None)"
    using batch_extractLoop_exact [OF dst, of demoArchive daemonMaxExtractedBytes 0] demoArchive_limits(2,3)
    by (auto simp: daemonMaxExtractedBytes_def list_all_iff)
  moreover have "validateDaemonArchiveLimits demoArchive daemonMaxExtractedBytes daemonMaxArchiveFiles = None"
    by (subst validateDaemonArchiveLimits_None) (use demoArchive_limits in \<open>auto simp: daemonMaxExtractedBytes_def daemonMaxArchiveFiles_def\<close>)
  ultimately show ?thesis by (simp add: batch_extractZip_def)
qed

lemmas daemon_run_simps = batch_daemon_step_def serverOpen_def newDaemon_def handleBuildPost_def uploadDone_def advance_def
  commandReturns_def commandResult_def daemon_ops Let_def nth_append

text \<open>From the request to the running command, in a state without other runs.\<close>

definition toCommand :: "nat \<Rightarrow> batch_daemon_event list" where
  "toCommand i = [Post [], Upload demoUpload i, Advance i, Advance i, Advance i, Advance i]"

text \<open>
  The directory of the images is shared by the builds, and a build is over for the next request before it
  has removed it: a second build can be extracted and be running when the first one removes the directory.
\<close>

lemma image_dir_race:
  "\<exists>d. runs (batch_daemon_step demoBatchDaemon)
     (toCommand 0 @ [CommandReturns None 0, Advance 0] @ toCommand 1 @ [Advance 0]) newDaemon = Some d \<and>
     br_pc (dm_runs d ! 1) = Command \<and> dm_images d = None"
proof -
  obtain opts where o: "daemonOptions demoBatchDaemon [] = Inr opts" using demo_daemonOptions by blast
  obtain ops where x: "batch_extractZip (Inr demoArchive) daemonImageDir daemonMaxExtractedBytes daemonMaxArchiveFiles = (ops, None)"
    using demo_extract by blast
  have u: "uploadArchive demoUpload = Inr demoArchive" by (simp add: uploadArchive_def demoUpload_def)
  have f: "ds_Status (finalState e) \<noteq> ''running''" for e by (simp add: finalState_def statusFailed_def statusIs_def split: option.split)
  show ?thesis by (simp add: toCommand_def daemon_run_simps o x u f demo_receive)
qed

section \<open>Properties\<close>

text \<open>
  C33. One build at a time. In every reachable state at most one build request is between its acceptance
  and its final state; the reported status is running exactly while there is one, and the cancel function
  and the channel that the daemon keeps are then those of that build, so that a cancel request reaches it
  and no other.
\<close>

theorem one_build_at_a_time:
  assumes "reach (\<lambda>d. d = newDaemon) (batch_daemon_step env) d"
  shows "(ds_Status (dm_build d) = ''running'' \<longleftrightarrow> (\<exists>i < length (dm_runs d). activeRun (dm_runs d ! i))) \<and>
    (\<forall>i < length (dm_runs d). activeRun (dm_runs d ! i) \<longrightarrow>
       dm_buildCancel d = Some i \<and> dm_buildDone d = Some i \<and>
       (\<forall>j < length (dm_runs d). activeRun (dm_runs d ! j) \<longrightarrow> j = i))"
proof -
  have inv: "daemon_inv env d" by (rule batch_daemon.reach_inv [OF assms])
  have "dm_buildCancel d = dm_buildDone d" "ds_Status (dm_build d) = ''running'' \<Longrightarrow> \<exists>i < length (dm_runs d). activeRun (dm_runs d ! i)"
    using inv unfolding daemon_inv_def by blast+
  then show ?thesis using daemon_inv_active [OF inv] active_unique [OF inv] by auto
qed

text \<open>
  C34. Every accepted request ends and cleans up. In every reachable state a request that is not over has
  an enabled next step, whatever the upload and the result of the command, which brings it closer to its
  end and leaves the other requests alone; in particular its channel is never closed twice. A request
  that is over has closed its channel and removed its archive, and a oneshot build has started the shutdown.
\<close>

theorem request_ends:
  assumes "reach (\<lambda>d. d = newDaemon) (batch_daemon_step env) d" "i < length (dm_runs d)"
  shows "if stepsLeft (br_pc (dm_runs d ! i)) = 0
    then i \<in> set (dm_closed d) \<and> \<not> br_zip (dm_runs d ! i) \<and>
      (br_pc (dm_runs d ! i) = Exited \<and> br_oneshot (dm_runs d ! i) \<longrightarrow> dm_shutdown d)
    else serverOpen d \<longrightarrow> (\<exists>d'. batch_daemon_step env (nextEvent up result i (br_pc (dm_runs d ! i))) d = Some d' \<and>
      stepsLeft (br_pc (dm_runs d' ! i)) < stepsLeft (br_pc (dm_runs d ! i)) \<and>
      (\<forall>j. j \<noteq> i \<longrightarrow> dm_runs d' ! j = dm_runs d ! j))"
proof -
  have inv: "daemon_inv env d" by (rule batch_daemon.reach_inv [OF assms(1)])
  then have r: "run_ok env d i (dm_runs d ! i)" using assms(2) by (simp add: daemon_inv_def)
  show ?thesis
  proof (cases "stepsLeft (br_pc (dm_runs d ! i)) = 0")
    case True
    then have "closedRun (dm_runs d ! i) \<and> zipGone (dm_runs d ! i)"
      by (cases "br_pc (dm_runs d ! i)") (simp_all add: closedRun_def zipGone_def)
    then show ?thesis using True r by (simp add: run_ok_def)
  next
    case False
    then show ?thesis using run_progress [OF inv assms(2), of up result] by auto
  qed
qed

definition demoAccepted :: daemonServer where
  "demoAccepted = fst (handleBuildPost [] newDaemon)"

lemma demoAccepted_reachable: "reach (\<lambda>d. d = newDaemon) (batch_daemon_step demoBatchDaemon) demoAccepted"
proof (rule runs_reach)
  show "runs (batch_daemon_step demoBatchDaemon) [Post []] newDaemon = Some demoAccepted"
    by (simp add: batch_daemon_step_def serverOpen_def newDaemon_def demoAccepted_def)
qed (simp add: reach_init)

theorem one_build_at_a_time_witness:
  "ds_Status (dm_build demoAccepted) = ''running'' \<and> (\<exists>i < length (dm_runs demoAccepted). activeRun (dm_runs demoAccepted ! i))"
  using one_build_at_a_time [OF demoAccepted_reachable]
  by (simp add: demoAccepted_def handleBuildPost_def newDaemon_def statusIs_def)

theorem request_ends_witness:
  "\<exists>d'. batch_daemon_step demoBatchDaemon (Upload demoUpload 0) demoAccepted = Some d' \<and> stepsLeft (br_pc (dm_runs d' ! 0)) < 12"
proof -
  have "0 < length (dm_runs demoAccepted)" "br_pc (dm_runs demoAccepted ! 0) = Uploading" "serverOpen demoAccepted"
    by (simp_all add: demoAccepted_def handleBuildPost_def newDaemon_def statusIs_def serverOpen_def)
  then show ?thesis using request_ends [OF demoAccepted_reachable, of 0 demoUpload None] by auto
qed

end
