(* ===== verification/Preheat.thy ===== *)
theory Preheat
  imports Batch_Options
begin

text \<open>
  The preheat command, \<^verbatim>\<open>internal/buildbatch/preheat.go\<close>: the images of a result database are handed to a
  Dragonfly scheduler, several at a time. The manifest URL of an image is a pure function; the loop with
  its semaphore, its goroutines and its cancellation is a step machine. Running \<^verbatim>\<open>grpcurl\<close> is an arbitrary
  error. A time is taken at each turn of the throttle.
\<close>

section \<open>The URL of a manifest\<close>

definition indexOr :: "nat option \<Rightarrow> int" where
  "indexOr i = (case i of None \<Rightarrow> -1 | Some n \<Rightarrow> int n)"

text \<open>Repository and reference: a digest, else a tag, else \<^verbatim>\<open>latest\<close>.\<close>

definition splitReference :: "string \<Rightarrow> string \<times> string" where
  "splitReference remainder = (case lastIndexByte remainder CHR ''@'' of
      Some i \<Rightarrow> (take i remainder, drop (Suc i) remainder)
    | None \<Rightarrow>
        (let lastSlash = indexOr (lastIndexByte remainder CHR ''/'');
             lastColon = indexOr (lastIndexByte remainder CHR '':'')
         in if lastSlash < lastColon then (take (nat lastColon) remainder, drop (Suc (nat lastColon)) remainder)
            else (remainder, ''latest'')))"

definition buildPreheatURL :: "string \<Rightarrow> string result" where
  "buildPreheatURL target =
     (let trimmed = trimSpace target;
          unqualified = Inl (Errorf (''preheat target '' @ quoteStr target @ '' is not a fully qualified image reference'')) in
      if trimmed = '''' then Inl (Errorf ''preheat target is empty'')
      else if hasPrefix trimmed ''http://'' \<or> hasPrefix trimmed ''https://'' then Inr trimmed
      else
        (let normalized = trimPrefix (trimPrefix trimmed ''docker://'') ''oci://'' in
         case indexByte normalized CHR ''/'' of
           None \<Rightarrow> unqualified
         | Some firstSlash \<Rightarrow>
             if firstSlash = 0 \<or> firstSlash = length normalized - 1 then unqualified
             else
               (let registry = take firstSlash normalized;
                    remainder = drop (Suc firstSlash) normalized in
                if \<not> containsStr registry ''.'' \<and> \<not> containsStr registry '':'' \<and> registry \<noteq> ''localhost'' then unqualified
                else
                  (let (repo, reference) = splitReference remainder
                   in if repo = '''' \<or> reference = '''' then
                        Inl (Errorf (''preheat target '' @ quoteStr target @ '' is not a valid image reference''))
                      else Inr (''https://'' @ registry @ ''/v2/'' @ repo @ ''/manifests/'' @ reference)))))"

section \<open>One preheat\<close>

text \<open>The command line and the fields of the request on its standard input.\<close>

record preheat_request =
  pq_url :: string
  pq_username :: string
  pq_password :: string
  pq_scope :: string
  pq_insecureSkipVerify :: bool

definition preheatArgs :: "preheat_options \<Rightarrow> string list" where
  "preheatArgs opts = [''-plaintext'', ''-d'', ''@'', po_schedulerAddr opts, ''scheduler.v2.Scheduler.PreheatImage'']"

record grpcurl_run =
  gr_args :: "string list"
  gr_request :: preheat_request
  gr_err :: "go_error option"

text \<open>\<^verbatim>\<open>executePreheat\<close>: its error, for a run of \<^verbatim>\<open>grpcurl\<close> with its arguments; \<^const>\<open>None\<close> for another run.\<close>

definition executePreheat :: "preheat_options \<Rightarrow> string \<Rightarrow> grpcurl_run \<Rightarrow> go_error option option" where
  "executePreheat opts target run = (case buildPreheatURL target of
      Inl e \<Rightarrow> Some (Some e)
    | Inr url \<Rightarrow>
        if gr_args run = preheatArgs opts \<and>
           gr_request run = \<lparr>pq_url = url, pq_username = '''', pq_password = '''', pq_scope = ''all_seed_peers'', pq_insecureSkipVerify = False\<rparr>
        then Some (gr_err run) else None)"

section \<open>The loop\<close>

datatype preheater_pc = PwRunning | PwCancel | PwRelease | PwGone

record preheater =
  pw_target :: string
  pw_pc :: preheater_pc
  pw_err :: "go_error option"

datatype preheat_pc = PhHead | PhThrottle string | PhSend string | PhWait | PhReturned "go_error option"

text \<open>\<open>ph_leaked\<close> records that a slot was taken by a send that found the context canceled.\<close>

record preheat =
  ph_pc :: preheat_pc
  ph_todo :: "string list"
  ph_workers :: "preheater list"
  ph_sem :: csem
  ph_anyError :: bool
  ph_canceled :: bool
  ph_lastTime :: "time option"
  ph_leaked :: bool

definition preheatInit :: "preheat_options \<Rightarrow> string list \<Rightarrow> preheat" where
  "preheatInit opts targets = \<lparr>ph_pc = PhHead, ph_todo = targets, ph_workers = [], ph_sem = makeSem (nat (po_concurrency opts)),
     ph_anyError = False, ph_canceled = False, ph_lastTime = None, ph_leaked = False\<rparr>"

text \<open>The targets: the successful entries of the database for the format, or why there are none.\<close>

definition preheatTargets :: "result_json \<Rightarrow> lmdb_rc \<Rightarrow> go_error option \<Rightarrow> preheat_options \<Rightarrow> lmdbResultDB \<Rightarrow> string list result" where
  "preheatTargets json rc openErr opts db =
     (if po_schedulerAddr opts = '''' then Inl (Errorf ''--dragonfly-scheduler-addr is required'')
      else case openErr of
        Some e \<Rightarrow> Inl (wrapErr ''open result database'' e)
      | None \<Rightarrow>
          (case db_All json rc db of
             Inl e \<Rightarrow> Inl e
           | Inr entries \<Rightarrow> Inr (map re_Target (filter (\<lambda>entry. re_Success entry \<and> targetMatchesMode (re_Target entry) (po_oci opts)) entries))))"

definition preheatHead :: "preheat_options \<Rightarrow> preheat \<Rightarrow> preheat" where
  "preheatHead opts s = (case ph_todo s of
      [] \<Rightarrow> s\<lparr>ph_pc := PhWait\<rparr>
    | t # rest \<Rightarrow>
        if ph_anyError s \<and> po_failfast opts then s\<lparr>ph_pc := PhWait\<rparr>
        else if ph_canceled s then s\<lparr>ph_pc := PhWait\<rparr>
        else s\<lparr>ph_todo := rest, ph_pc := (if 0 < po_interval opts then PhThrottle t else PhSend t)\<rparr>)"

text \<open>The wait of the throttle, from the time \<open>start\<close>: \<^verbatim>\<open>time.Since\<close> saturates and the product wraps around.\<close>

definition throttleWait :: "preheat_options \<Rightarrow> time \<Rightarrow> time option \<Rightarrow> duration" where
  "throttleWait opts start lastTime =
     (let since = (case lastTime of None \<Rightarrow> 2 ^ 63 - 1 | Some t \<Rightarrow> min (2 ^ 63 - 1) (start - t))
      in wrap64 (wrap64 (po_interval opts * second) - since))"

definition preheatThrottle :: "preheat_options \<Rightarrow> time \<Rightarrow> time \<Rightarrow> string \<Rightarrow> preheat \<Rightarrow> preheat option" where
  "preheatThrottle opts start now t s =
     (let wait = throttleWait opts start (ph_lastTime s) in
      if wait \<le> 0 \<or> start + wait \<le> now \<or> ph_canceled s then Some (s\<lparr>ph_lastTime := Some now, ph_pc := PhSend t\<rparr>) else None)"

text \<open>The send to the semaphore, and the other branch of the select.\<close>

definition preheatSend :: "string \<Rightarrow> preheat \<Rightarrow> preheat option" where
  "preheatSend t s = map_option (\<lambda>sem.
     if ph_canceled s then s\<lparr>ph_sem := sem, ph_leaked := True, ph_todo := t # ph_todo s, ph_pc := PhWait\<rparr>
     else s\<lparr>ph_sem := sem, ph_pc := PhHead, ph_workers := ph_workers s @ [\<lparr>pw_target = t, pw_pc = PwRunning, pw_err = None\<rparr>]\<rparr>)
     (sem_trySend (ph_sem s))"

definition preheatSeeCanceled :: "string \<Rightarrow> preheat \<Rightarrow> preheat option" where
  "preheatSeeCanceled t s = (if ph_canceled s then Some (s\<lparr>ph_todo := t # ph_todo s, ph_pc := PhWait\<rparr>) else None)"

definition preheatReturn :: "preheat \<Rightarrow> preheat option" where
  "preheatReturn s =
     (if \<forall>w \<in> set (ph_workers s). pw_pc w = PwGone then
        Some (s\<lparr>ph_pc := PhReturned (if ph_anyError s then Some (Errorf ''one or more preheat tasks failed'') else None)\<rparr>)
      else None)"

text \<open>A goroutine: the preheat with the flag of its failure, the cancellation, the deferred receive.\<close>

definition set_preheater :: "nat \<Rightarrow> preheater \<Rightarrow> preheat \<Rightarrow> preheat" where
  "set_preheater i w s = s\<lparr>ph_workers := (ph_workers s)[i := w]\<rparr>"

definition preheaterRuns :: "preheat_options \<Rightarrow> grpcurl_run \<Rightarrow> nat \<Rightarrow> preheat \<Rightarrow> preheat option" where
  "preheaterRuns opts run i s =
     (let w = ph_workers s ! i in
      if pw_pc w \<noteq> PwRunning then None
      else map_option (\<lambda>err. case err of
          Some e \<Rightarrow> set_preheater i (w\<lparr>pw_err := Some e, pw_pc := (if po_failfast opts then PwCancel else PwRelease)\<rparr>) (s\<lparr>ph_anyError := True\<rparr>)
        | None \<Rightarrow> set_preheater i (w\<lparr>pw_pc := PwRelease\<rparr>) s) (executePreheat opts (pw_target w) run))"

definition preheaterStep :: "nat \<Rightarrow> preheat \<Rightarrow> preheat option" where
  "preheaterStep i s =
     (let w = ph_workers s ! i in
      case pw_pc w of
        PwCancel \<Rightarrow> Some (set_preheater i (w\<lparr>pw_pc := PwRelease\<rparr>) (s\<lparr>ph_canceled := True\<rparr>))
      | PwRelease \<Rightarrow> map_option (\<lambda>sem. set_preheater i (w\<lparr>pw_pc := PwGone\<rparr>) (s\<lparr>ph_sem := sem\<rparr>)) (sem_recv (ph_sem s))
      | _ \<Rightarrow> None)"

datatype preheat_event =
    PhLoop
  | PhTick time time
  | PhSendSlot
  | PhSeeCanceled
  | PhFinish
  | PwReturns grpcurl_run nat
  | PwStep nat

definition preheat_step :: "preheat_options \<Rightarrow> preheat_event \<Rightarrow> preheat \<Rightarrow> preheat option" where
  "preheat_step opts ev s = (case ev of
      PhLoop \<Rightarrow> if ph_pc s = PhHead then Some (preheatHead opts s) else None
    | PhTick start now \<Rightarrow> (case ph_pc s of PhThrottle t \<Rightarrow> preheatThrottle opts start now t s | _ \<Rightarrow> None)
    | PhSendSlot \<Rightarrow> (case ph_pc s of PhSend t \<Rightarrow> preheatSend t s | _ \<Rightarrow> None)
    | PhSeeCanceled \<Rightarrow> (case ph_pc s of PhSend t \<Rightarrow> preheatSeeCanceled t s | _ \<Rightarrow> None)
    | PhFinish \<Rightarrow> if ph_pc s = PhWait then preheatReturn s else None
    | PwReturns run i \<Rightarrow> if i < length (ph_workers s) then preheaterRuns opts run i s else None
    | PwStep i \<Rightarrow> if i < length (ph_workers s) then preheaterStep i s else None)"

section \<open>The invariant\<close>

definition pcTarget :: "preheat_pc \<Rightarrow> string list" where
  "pcTarget pc = (case pc of PhThrottle t \<Rightarrow> [t] | PhSend t \<Rightarrow> [t] | _ \<Rightarrow> [])"

definition preheaterHolds :: "preheater \<Rightarrow> bool" where
  "preheaterHolds w \<longleftrightarrow> pw_pc w \<noteq> PwGone"

definition preheaterFailed :: "preheater \<Rightarrow> bool" where
  "preheaterFailed w \<longleftrightarrow> pw_err w \<noteq> None"

definition preheater_ok :: "preheater \<Rightarrow> bool" where
  "preheater_ok w \<longleftrightarrow> (pw_pc w = PwCancel \<longrightarrow> preheaterFailed w) \<and> (pw_pc w = PwRunning \<longrightarrow> \<not> preheaterFailed w)"

definition loopOver :: "preheat_pc \<Rightarrow> bool" where
  "loopOver pc \<longleftrightarrow> (case pc of PhWait \<Rightarrow> True | PhReturned r \<Rightarrow> True | _ \<Rightarrow> False)"

definition preheat_inv :: "preheat_options \<Rightarrow> string list \<Rightarrow> preheat \<Rightarrow> bool" where
  "preheat_inv opts targets s \<longleftrightarrow>
     targets = map pw_target (ph_workers s) @ pcTarget (ph_pc s) @ ph_todo s \<and>
     list_all preheater_ok (ph_workers s) \<and>
     (ph_anyError s \<longleftrightarrow> list_ex preheaterFailed (ph_workers s)) \<and> (ph_canceled s \<longrightarrow> ph_anyError s) \<and>
     (loopOver (ph_pc s) \<and> ph_todo s \<noteq> [] \<longrightarrow> ph_anyError s) \<and> (ph_leaked s \<longrightarrow> loopOver (ph_pc s)) \<and>
     (\<forall>r. ph_pc s = PhReturned r \<longrightarrow> list_all (\<lambda>w. pw_pc w = PwGone) (ph_workers s) \<and> (r \<noteq> None \<longleftrightarrow> ph_anyError s)) \<and>
     sem_cap (ph_sem s) = nat (po_concurrency opts) \<and> sem_ok (ph_sem s) \<and>
     sem_len (ph_sem s) = count_if preheaterHolds (ph_workers s) + of_bool (ph_leaked s)"

lemma preheat_inv_init: "preheat_inv opts targets (preheatInit opts targets)"
  by (simp add: preheat_inv_def preheatInit_def pcTarget_def loopOver_def makeSem_def sem_ok_def)

text \<open>A goroutine's step: the loop stays where it is.\<close>

lemma preheat_inv_worker:
  assumes inv: "preheat_inv opts targets s" and i: "i < length (ph_workers s)"
    and w: "pw_target w' = pw_target (ph_workers s ! i)" "preheater_ok w'"
    and s': "ph_workers s' = (ph_workers s)[i := w']" "ph_pc s' = ph_pc s" "ph_todo s' = ph_todo s" "ph_leaked s' = ph_leaked s"
    and pc: "pw_pc (ph_workers s ! i) \<noteq> PwGone"
    and err: "ph_anyError s' \<longleftrightarrow> list_ex preheaterFailed (ph_workers s')" "ph_anyError s \<longrightarrow> ph_anyError s'" "ph_canceled s' \<longrightarrow> ph_anyError s'"
    and sem: "sem_cap (ph_sem s') = sem_cap (ph_sem s)"
      "sem_len (ph_sem s') + of_bool (preheaterHolds (ph_workers s ! i)) = sem_len (ph_sem s) + of_bool (preheaterHolds w')"
  shows "preheat_inv opts targets s'"
proof -
  have notRet: "ph_pc s \<noteq> PhReturned r" for r
    using inv i pc by (auto simp: preheat_inv_def list_all_length)
  have len: "sem_len (ph_sem s') = count_if preheaterHolds (ph_workers s') + of_bool (ph_leaked s')"
    using count_if_update [OF i, of preheaterHolds w'] sem(2) inv by (simp add: s' preheat_inv_def)
  have hold: "preheaterHolds (ph_workers s ! i)" using pc by (simp add: preheaterHolds_def)
  then have "sem_len (ph_sem s') \<le> sem_len (ph_sem s)" using sem(2) by (cases "preheaterHolds w'") simp_all
  then have "sem_ok (ph_sem s')" using inv sem(1) by (simp add: preheat_inv_def sem_ok_def)
  then show ?thesis
    using inv w s' err sem(1) len notRet map_update_same [OF i, of pw_target w'] list_all_update [of preheater_ok]
    by (auto simp: preheat_inv_def)
qed

lemma preheaterRuns_inv:
  assumes inv: "preheat_inv opts targets s" and i: "i < length (ph_workers s)" and r: "preheaterRuns opts run i s = Some s'"
  shows "preheat_inv opts targets s'"
proof -
  let ?w = "ph_workers s ! i"
  have pc: "pw_pc ?w = PwRunning" using r by (auto simp: preheaterRuns_def Let_def split: if_split_asm)
  have ok: "preheater_ok ?w" using inv i by (simp add: preheat_inv_def list_all_length)
  obtain err where e: "executePreheat opts (pw_target ?w) run = Some err"
    using r pc by (auto simp: preheaterRuns_def Let_def)
  have ex: "ph_anyError s \<longleftrightarrow> list_ex preheaterFailed (ph_workers s)" "ph_canceled s \<longrightarrow> ph_anyError s"
    using inv unfolding preheat_inv_def by blast+
  show ?thesis
  proof (cases err)
    case None
    then have s': "s' = set_preheater i (?w\<lparr>pw_pc := PwRelease\<rparr>) s" using r pc e by (simp add: preheaterRuns_def Let_def)
    show ?thesis
      using pc ok ex list_ex_update_same [OF i, of preheaterFailed "?w\<lparr>pw_pc := PwRelease\<rparr>"]
      by (intro preheat_inv_worker [OF inv i, of "?w\<lparr>pw_pc := PwRelease\<rparr>"])
         (simp_all add: s' set_preheater_def preheater_ok_def preheaterFailed_def preheaterHolds_def)
  next
    case (Some e')
    let ?w' = "?w\<lparr>pw_err := Some e', pw_pc := (if po_failfast opts then PwCancel else PwRelease)\<rparr>"
    have s': "s' = set_preheater i ?w' (s\<lparr>ph_anyError := True\<rparr>)" using r pc e Some by (simp add: preheaterRuns_def Let_def)
    have "list_ex preheaterFailed ((ph_workers s)[i := ?w'])"
      using i by (auto simp: list_ex_length preheaterFailed_def intro: exI [of _ i])
    then show ?thesis
      using pc by (intro preheat_inv_worker [OF inv i, of ?w'])
         (simp_all add: s' set_preheater_def preheater_ok_def preheaterFailed_def preheaterHolds_def)
  qed
qed

lemma preheaterStep_inv:
  assumes inv: "preheat_inv opts targets s" and i: "i < length (ph_workers s)" and r: "preheaterStep i s = Some s'"
  shows "preheat_inv opts targets s'"
proof -
  let ?w = "ph_workers s ! i"
  have ok: "preheater_ok ?w" using inv i by (simp add: preheat_inv_def list_all_length)
  have ex: "ph_anyError s \<longleftrightarrow> list_ex preheaterFailed (ph_workers s)" "ph_canceled s \<longrightarrow> ph_anyError s"
    using inv unfolding preheat_inv_def by blast+
  have any: "preheaterFailed ?w \<Longrightarrow> ph_anyError s" using ex(1) i by (auto simp: list_ex_length)
  have same: "list_ex preheaterFailed ((ph_workers s)[i := ?w\<lparr>pw_pc := pc\<rparr>]) = list_ex preheaterFailed (ph_workers s)" for pc
    by (rule list_ex_update_same [OF i]) (simp add: preheaterFailed_def)
  show ?thesis
  proof (cases "pw_pc ?w")
    case PwCancel
    then have s': "s' = set_preheater i (?w\<lparr>pw_pc := PwRelease\<rparr>) (s\<lparr>ph_canceled := True\<rparr>)" using r by (simp add: preheaterStep_def Let_def)
    show ?thesis
      using PwCancel ok ex any same [of PwRelease]
      by (intro preheat_inv_worker [OF inv i, of "?w\<lparr>pw_pc := PwRelease\<rparr>"])
         (simp_all add: s' set_preheater_def preheater_ok_def preheaterHolds_def)
  next
    case PwRelease
    then have s': "0 < sem_len (ph_sem s)" "s' = set_preheater i (?w\<lparr>pw_pc := PwGone\<rparr>) (s\<lparr>ph_sem := (ph_sem s)\<lparr>sem_len := sem_len (ph_sem s) - 1\<rparr>\<rparr>)"
      using r by (auto simp: preheaterStep_def Let_def)
    show ?thesis
      using PwRelease ok ex same [of PwGone] s'(1)
      by (intro preheat_inv_worker [OF inv i, of "?w\<lparr>pw_pc := PwGone\<rparr>"])
         (simp_all add: s'(2) set_preheater_def preheater_ok_def preheaterHolds_def)
  qed (use r in \<open>simp_all add: preheaterStep_def Let_def\<close>)
qed

lemma preheat_loop_inv:
  assumes inv: "preheat_inv opts targets s" and s: "preheat_step opts ev s = Some s'"
    and ev: "\<forall>run i. ev \<noteq> PwReturns run i" "\<forall>i. ev \<noteq> PwStep i"
  shows "preheat_inv opts targets s'"
proof (cases ev)
  case PhLoop
  then have "ph_pc s = PhHead" "s' = preheatHead opts s" using s by (auto simp: preheat_step_def split: if_split_asm)
  then show ?thesis using inv unfolding preheat_inv_def
    by (auto simp: preheatHead_def pcTarget_def loopOver_def split: list.splits)
next
  case (PhTick start now)
  then obtain t where "ph_pc s = PhThrottle t" "s' = s\<lparr>ph_lastTime := Some now, ph_pc := PhSend t\<rparr>"
    using s by (auto simp: preheat_step_def preheatThrottle_def Let_def split: preheat_pc.split_asm if_split_asm)
  then show ?thesis using inv unfolding preheat_inv_def by (auto simp: pcTarget_def loopOver_def)
next
  case PhSendSlot
  then obtain t where t: "ph_pc s = PhSend t" "preheatSend t s = Some s'"
    using s by (auto simp: preheat_step_def split: preheat_pc.split_asm)
  have nl: "\<not> ph_leaked s" using inv t(1) by (auto simp: preheat_inv_def loopOver_def)
  show ?thesis using inv t nl unfolding preheat_inv_def
    by (auto simp: preheatSend_def pcTarget_def loopOver_def sem_ok_def preheaterHolds_def preheater_ok_def preheaterFailed_def
        split: if_split_asm)
next
  case PhSeeCanceled
  then obtain t where "ph_pc s = PhSend t" "ph_canceled s" "s' = s\<lparr>ph_todo := t # ph_todo s, ph_pc := PhWait\<rparr>"
    using s by (auto simp: preheat_step_def preheatSeeCanceled_def split: preheat_pc.split_asm if_split_asm)
  then show ?thesis using inv unfolding preheat_inv_def by (auto simp: pcTarget_def loopOver_def)
next
  case PhFinish
  then have "ph_pc s = PhWait" "\<forall>w \<in> set (ph_workers s). pw_pc w = PwGone"
    "s' = s\<lparr>ph_pc := PhReturned (if ph_anyError s then Some (Errorf ''one or more preheat tasks failed'') else None)\<rparr>"
    using s by (auto simp: preheat_step_def preheatReturn_def split: if_split_asm)
  then show ?thesis using inv unfolding preheat_inv_def by (auto simp: pcTarget_def loopOver_def list_all_iff)
qed (use ev in auto)

interpretation preheating: ts_invariant "\<lambda>s. s = preheatInit opts targets" "preheat_step opts" "preheat_inv opts targets" for opts targets
proof
  show "preheat_inv opts targets s" if "s = preheatInit opts targets" for s using that preheat_inv_init by simp
  show "preheat_inv opts targets s'" if "preheat_inv opts targets s" "preheat_step opts ev s = Some s'" for s ev s'
  proof (cases ev)
    case (PwReturns run i)
    then show ?thesis using that preheaterRuns_inv by (auto simp: preheat_step_def split: if_split_asm)
  next
    case (PwStep i)
    then show ?thesis using that preheaterStep_inv by (auto simp: preheat_step_def split: if_split_asm)
  qed (use that preheat_loop_inv in blast)+
qed

section \<open>Lemmas on URLs\<close>

lemma first_slash_unique:
  assumes "x @ CHR ''/'' # u = registry @ CHR ''/'' # rem" "CHR ''/'' \<notin> set x" "CHR ''/'' \<notin> set registry"
  shows "x = registry \<and> u = rem"
proof -
  have t: "takeWhile (\<lambda>c. c \<noteq> CHR ''/'') (y @ CHR ''/'' # v) = y" if "CHR ''/'' \<notin> set y" for y v
    using that by (subst takeWhile_append2) auto
  have "x = registry" using t [OF assms(2), of u] t [OF assms(3), of rem] assms(1) by simp
  then show ?thesis using assms(1) by simp
qed

lemma no_scheme:
  assumes "CHR ''/'' \<notin> set registry" "rem \<noteq> ''''" "hd rem \<noteq> CHR ''/''" "CHR ''/'' \<notin> set x"
  shows "\<not> hasPrefix (registry @ ''/'' @ rem) (x @ ''//'')"
proof
  assume "hasPrefix (registry @ ''/'' @ rem) (x @ ''//'')"
  then obtain u where "registry @ ''/'' @ rem = x @ CHR ''/'' # (CHR ''/'' # u)" by (auto simp: hasPrefix_iff)
  then have "rem = CHR ''/'' # u" using first_slash_unique [of x "CHR ''/'' # u" registry rem] assms(1,4) by simp
  then show False using assms(3) by simp
qed

lemma buildPreheatURL_parts:
  assumes reg: "registry \<noteq> ''''" "CHR ''/'' \<notin> set registry"
      "containsStr registry ''.'' \<or> containsStr registry '':'' \<or> registry = ''localhost''"
    and rem: "rem \<noteq> ''''" "hd rem \<noteq> CHR ''/''" "splitReference rem = (repo, reference)" "repo \<noteq> ''''" "reference \<noteq> ''''"
    and scheme: "scheme \<in> {'''', ''docker://'', ''oci://''}"
    and sp: "\<not> isSpace (hd registry)" "\<not> isSpace (last rem)"
  shows "buildPreheatURL (scheme @ registry @ ''/'' @ rem) = Inr (''https://'' @ registry @ ''/v2/'' @ repo @ ''/manifests/'' @ reference)"
proof -
  let ?n = "registry @ ''/'' @ rem"
  note no = no_scheme [OF reg(2) rem(1,2)]
  have n: "\<not> hasPrefix ?n ''http://''" "\<not> hasPrefix ?n ''https://''" "\<not> hasPrefix ?n ''docker://''" "\<not> hasPrefix ?n ''oci://''"
    using no [of "''http:''"] no [of "''https:''"] no [of "''docker:''"] no [of "''oci:''"] by simp_all
  have t: "trimSpace (scheme @ ?n) = scheme @ ?n"
    using scheme sp reg(1) rem(1) by (auto simp: trimSpace_id_iff isSpace_def)
  have h: "\<not> hasPrefix (scheme @ ?n) ''http://''" "\<not> hasPrefix (scheme @ ?n) ''https://''"
    using scheme n by (auto simp: hasPrefix_def)
  have norm: "trimPrefix (trimPrefix (scheme @ ?n) ''docker://'') ''oci://'' = ?n"
  proof -
    have "trimPrefix ?n ''docker://'' = ?n" "trimPrefix ?n ''oci://'' = ?n" using n by (simp_all add: trimPrefix_def)
    moreover have "trimPrefix (''docker://'' @ ?n) ''docker://'' = ?n" "trimPrefix (''oci://'' @ ?n) ''oci://'' = ?n"
      by (rule trimPrefix_append)+
    moreover have "trimPrefix (''oci://'' @ ?n) ''docker://'' = ''oci://'' @ ?n" by (simp add: trimPrefix_def hasPrefix_def)
    ultimately show ?thesis using scheme by auto
  qed
  have i: "indexByte ?n CHR ''/'' = Some (length registry)" using indexByte_append [OF reg(2), of rem] by simp
  have "length registry \<noteq> 0" "length registry \<noteq> length ?n - 1" using reg(1) rem(1) by simp_all
  moreover have "take (length registry) ?n = registry" "drop (Suc (length registry)) ?n = rem" by simp_all
  moreover have "scheme @ ?n \<noteq> ''''" using reg(1) by simp
  ultimately show ?thesis
    unfolding buildPreheatURL_def Let_def t norm i option.case
    using h reg(3) rem(3-5) by (simp del: append_assoc)
qed

lemma lastIndexByte_None: "lastIndexByte s c = None \<longleftrightarrow> c \<notin> set s"
  by (simp add: lastIndexByte_def indexByte_None)

lemma lastIndexByte_less: "lastIndexByte s c = Some i \<Longrightarrow> i < length s"
  by (cases s) (auto simp: lastIndexByte_def)

lemma splitReference_tag:
  assumes "CHR ''@'' \<notin> set repo" "CHR ''@'' \<notin> set tag" "CHR ''/'' \<notin> set tag" "CHR '':'' \<notin> set tag"
  shows "splitReference (repo @ '':'' @ tag) = (repo, tag)"
proof -
  have a: "lastIndexByte (repo @ '':'' @ tag) CHR ''@'' = None" using assms by (simp add: lastIndexByte_None)
  have c: "lastIndexByte (repo @ '':'' @ tag) CHR '':'' = Some (length repo)"
    using lastIndexByte_append [OF assms(4), of repo] by simp
  have "indexOr (lastIndexByte (repo @ '':'' @ tag) CHR ''/'') < int (length repo)"
  proof (cases "lastIndexByte (repo @ '':'' @ tag) CHR ''/''")
    case (Some i)
    then have "CHR ''/'' \<in> set (repo @ '':'' @ tag)" using lastIndexByte_None [of "repo @ '':'' @ tag" "CHR ''/''"] by auto
    then obtain x y where r: "repo = x @ CHR ''/'' # y" "CHR ''/'' \<notin> set y"
      using assms(3) by (auto dest: split_list_last)
    then have "lastIndexByte (repo @ '':'' @ tag) CHR ''/'' = Some (length x)"
      using lastIndexByte_append [of "CHR ''/''" "y @ '':'' @ tag" x] assms(3) by simp
    then show ?thesis using r by (simp add: indexOr_def)
  qed (simp add: indexOr_def)
  then show ?thesis using a c by (simp add: splitReference_def indexOr_def)
qed

lemma splitReference_digest:
  "CHR ''@'' \<notin> set digest \<Longrightarrow> splitReference (repo @ ''@'' @ digest) = (repo, digest)"
  using lastIndexByte_append [of "CHR ''@''" digest repo] by (simp add: splitReference_def)

lemma splitReference_bare:
  assumes "CHR ''@'' \<notin> set repo" "CHR '':'' \<notin> set repo"
  shows "splitReference repo = (repo, ''latest'')"
proof -
  have "lastIndexByte repo CHR ''@'' = None" "lastIndexByte repo CHR '':'' = None" using assms by (simp_all add: lastIndexByte_None)
  then show ?thesis by (cases "lastIndexByte repo CHR ''/''") (simp_all add: splitReference_def indexOr_def)
qed

section \<open>Properties\<close>

text \<open>
  The preheat URL names the manifest of the image. For a fully qualified reference, with or without
  the prefix of a transport, the URL has its registry, its repository and its digest, else its tag, else
  \<^verbatim>\<open>latest\<close>.
\<close>

theorem preheat_url:
  assumes "registry \<noteq> ''''" "CHR ''/'' \<notin> set registry" "\<not> isSpace (hd registry)"
      "containsStr registry ''.'' \<or> containsStr registry '':'' \<or> registry = ''localhost''"
    and "repo \<noteq> ''''" "hd repo \<noteq> CHR ''/''" "CHR ''@'' \<notin> set repo" "scheme \<in> {'''', ''docker://'', ''oci://''}"
    and suffix: "sfx = '':'' @ reference \<and> CHR ''@'' \<notin> set reference \<and> CHR ''/'' \<notin> set reference \<and> CHR '':'' \<notin> set reference \<and> reference \<noteq> '''' \<or>
      sfx = ''@'' @ reference \<and> CHR ''@'' \<notin> set reference \<and> reference \<noteq> '''' \<or>
      sfx = '''' \<and> reference = ''latest'' \<and> CHR '':'' \<notin> set repo"
    and "\<not> isSpace (last (repo @ sfx))"
  shows "buildPreheatURL (scheme @ registry @ ''/'' @ repo @ sfx) = Inr (''https://'' @ registry @ ''/v2/'' @ repo @ ''/manifests/'' @ reference)"
proof (rule buildPreheatURL_parts)
  show "splitReference (repo @ sfx) = (repo, reference)"
    using suffix assms(7) splitReference_tag splitReference_digest splitReference_bare by fastforce
  show "reference \<noteq> ''''" using suffix by auto
  show "hd (repo @ sfx) \<noteq> CHR ''/''" using assms(5,6) by simp
qed (use assms in auto)

theorem preheat_url_witness:
  "buildPreheatURL ''docker://reg.example:5000/team/app@sha256:ab'' = Inr ''https://reg.example:5000/v2/team/app/manifests/sha256:ab''"
  using preheat_url [of "''reg.example:5000''" "''team/app''" "''docker://''" "''@sha256:ab''" "''sha256:ab''"]
  by (simp add: isSpace_def hasPrefix_def)

text \<open>
  C35. What the preheat command returns. In every reachable state the targets are those of the goroutines
  started, in their order, followed by the ones still to start, so that none is preheated twice; when the
  command returns without an error every target was preheated and none failed, and when it returns an
  error one of them failed.
\<close>

theorem preheat_complete:
  assumes "reach (\<lambda>s. s = preheatInit opts targets) (preheat_step opts) s"
  shows "targets = map pw_target (ph_workers s) @ pcTarget (ph_pc s) @ ph_todo s \<and>
    (ph_pc s = PhReturned None \<longrightarrow> map pw_target (ph_workers s) = targets \<and> list_all (\<lambda>w. pw_pc w = PwGone \<and> pw_err w = None) (ph_workers s)) \<and>
    (\<forall>e. ph_pc s = PhReturned (Some e) \<longrightarrow> list_ex (\<lambda>w. pw_err w \<noteq> None) (ph_workers s))"
proof -
  have inv: "preheat_inv opts targets s" by (rule preheating.reach_inv [OF assms])
  then have t: "targets = map pw_target (ph_workers s) @ pcTarget (ph_pc s) @ ph_todo s"
    and e: "ph_anyError s \<longleftrightarrow> list_ex preheaterFailed (ph_workers s)"
    and l: "loopOver (ph_pc s) \<and> ph_todo s \<noteq> [] \<longrightarrow> ph_anyError s"
    and r: "\<And>r. ph_pc s = PhReturned r \<Longrightarrow> list_all (\<lambda>w. pw_pc w = PwGone) (ph_workers s) \<and> (r \<noteq> None \<longleftrightarrow> ph_anyError s)"
    unfolding preheat_inv_def by blast+
  show ?thesis
  proof (intro conjI impI allI)
    assume p: "ph_pc s = PhReturned None"
    then have "\<not> ph_anyError s" "list_all (\<lambda>w. pw_pc w = PwGone) (ph_workers s)" using r by blast+
    then show "map pw_target (ph_workers s) = targets" "list_all (\<lambda>w. pw_pc w = PwGone \<and> pw_err w = None) (ph_workers s)"
      using p t l e by (auto simp: loopOver_def pcTarget_def list_all_iff list_ex_iff preheaterFailed_def)
  next
    fix e' assume "ph_pc s = PhReturned (Some e')"
    then show "list_ex (\<lambda>w. pw_err w \<noteq> None) (ph_workers s)" using r e by (force simp: list_ex_iff preheaterFailed_def)
  qed (rule t)
qed

definition demoPreheat :: preheat_options where
  "demoPreheat = DefaultPreheatConfig\<lparr>po_schedulerAddr := ''s:1'', po_interval := 0\<rparr>"

definition demoPreheatRun :: "preheat option" where
  "demoPreheatRun = runs (preheat_step demoPreheat) [PhLoop, PhSendSlot, PwReturns \<lparr>gr_args = preheatArgs demoPreheat,
      gr_request = \<lparr>pq_url = ''https://r.io/v2/a/manifests/latest'', pq_username = '''', pq_password = '''', pq_scope = ''all_seed_peers'',
        pq_insecureSkipVerify = False\<rparr>, gr_err = None\<rparr> 0, PwStep 0, PhLoop, PhFinish] (preheatInit demoPreheat [''r.io/a''])"

theorem preheat_complete_witness:
  "\<exists>s. demoPreheatRun = Some s \<and> ph_pc s = PhReturned None \<and> map pw_target (ph_workers s) = [''r.io/a'']"
proof -
  have u: "buildPreheatURL ''r.io/a'' = Inr ''https://r.io/v2/a/manifests/latest''" by code_simp
  have "map_option ph_pc demoPreheatRun = Some (PhReturned None)"
    by (simp add: demoPreheatRun_def demoPreheat_def DefaultPreheatConfig_def preheat_step_def preheatInit_def preheatHead_def preheatSend_def
        makeSem_def sem_trySend_def sem_recv_def preheaterRuns_def executePreheat_def u set_preheater_def preheaterStep_def preheatReturn_def)
  then obtain s where s: "demoPreheatRun = Some s" "ph_pc s = PhReturned None" by auto
  have "reach (\<lambda>s. s = preheatInit demoPreheat [''r.io/a'']) (preheat_step demoPreheat) s"
    by (rule runs_reach [OF s(1) [unfolded demoPreheatRun_def]]) (simp add: reach_init)
  then have "map pw_target (ph_workers s) = [''r.io/a'']"
    by (rule preheat_complete [THEN conjunct2, THEN conjunct1, THEN mp, THEN conjunct1]) (rule s(2))
  with s show ?thesis by (intro exI [of _ s] conjI)
qed

text \<open>A goroutine that is not gone can step: it holds a slot, and its call may return.\<close>

lemma preheat_run_exists: "\<exists>run err. executePreheat opts t run = Some err"
  by (cases "buildPreheatURL t") (auto simp: executePreheat_def intro: exI [of _ "\<lparr>gr_args = preheatArgs opts, gr_request = _, gr_err = None\<rparr>"])

lemma preheater_enabled:
  assumes "i < length (ph_workers s)" "pw_pc (ph_workers s ! i) \<noteq> PwGone" "count_if preheaterHolds (ph_workers s) \<le> sem_len (ph_sem s)"
  shows "\<exists>ev. preheat_step opts ev s \<noteq> None"
proof (cases "pw_pc (ph_workers s ! i)")
  case PwRunning
  obtain run err where "executePreheat opts (pw_target (ph_workers s ! i)) run = Some err" using preheat_run_exists by blast
  then have "preheat_step opts (PwReturns run i) s \<noteq> None" using assms(1) PwRunning by (simp add: preheat_step_def preheaterRuns_def Let_def)
  then show ?thesis ..
next
  case PwCancel
  then have "preheat_step opts (PwStep i) s \<noteq> None" using assms(1) by (simp add: preheat_step_def preheaterStep_def Let_def)
  then show ?thesis ..
next
  case PwRelease
  have "preheaterHolds (ph_workers s ! i)" using assms(2) by (simp add: preheaterHolds_def)
  then have "0 < count_if preheaterHolds (ph_workers s)" using assms(1) by (metis count_if_pos)
  then have "0 < sem_len (ph_sem s)" using assms(3) by linarith
  then have "preheat_step opts (PwStep i) s \<noteq> None" using assms(1) PwRelease by (simp add: preheat_step_def preheaterStep_def Let_def sem_recv_def)
  then show ?thesis ..
qed (use assms(2) in simp)

text \<open>The loop waits for goroutines only: for a slot that one of them holds, or for their end.\<close>

lemma preheat_loop_enabled:
  assumes "\<And>r. ph_pc s \<noteq> PhReturned r" "\<forall>w \<in> set (ph_workers s). pw_pc w = PwGone"
    "\<And>t. ph_pc s = PhSend t \<Longrightarrow> sem_len (ph_sem s) < sem_cap (ph_sem s)"
  shows "\<exists>ev. preheat_step opts ev s \<noteq> None"
proof (cases "ph_pc s")
  case PhHead
  then have "preheat_step opts PhLoop s \<noteq> None" by (simp add: preheat_step_def)
  then show ?thesis ..
next
  case (PhThrottle t)
  then have "preheat_step opts (PhTick 0 (throttleWait opts 0 (ph_lastTime s))) s \<noteq> None"
    by (simp add: preheat_step_def preheatThrottle_def Let_def)
  then show ?thesis ..
next
  case (PhSend t)
  then have "preheat_step opts PhSendSlot s \<noteq> None" using assms(3) by (simp add: preheat_step_def preheatSend_def sem_trySend_def)
  then show ?thesis ..
next
  case PhWait
  then have "preheat_step opts PhFinish s \<noteq> None" using assms(2) by (simp add: preheat_step_def preheatReturn_def)
  then show ?thesis ..
qed (use assms(1) in simp)

text \<open>
  The preheat command keeps its bound and does not block. With a concurrency of at least one, the
  goroutines that run are never more than the concurrency, and in every state in which the command has
  not returned some step is possible, whatever the outcome of the calls.
\<close>

lemma preheat_bounded_progress:
  assumes "reach (\<lambda>s. s = preheatInit opts targets) (preheat_step opts) s" "1 \<le> po_concurrency opts"
  shows "int (count_if (\<lambda>w. pw_pc w \<noteq> PwGone) (ph_workers s)) \<le> po_concurrency opts \<and>
    ((\<exists>r. ph_pc s = PhReturned r) \<or> (\<exists>ev s'. preheat_step opts ev s = Some s'))"
proof -
  have inv: "preheat_inv opts targets s" by (rule preheating.reach_inv [OF assms(1)])
  then have cap: "sem_cap (ph_sem s) = nat (po_concurrency opts)" "sem_len (ph_sem s) \<le> sem_cap (ph_sem s)"
    "sem_len (ph_sem s) = count_if preheaterHolds (ph_workers s) + of_bool (ph_leaked s)" "ph_leaked s \<longrightarrow> loopOver (ph_pc s)"
    unfolding preheat_inv_def sem_ok_def by blast+
  have "\<exists>ev. preheat_step opts ev s \<noteq> None" if open_pc: "\<And>r. ph_pc s \<noteq> PhReturned r"
  proof (cases "\<forall>w \<in> set (ph_workers s). pw_pc w = PwGone")
    case True
    then have "count_if preheaterHolds (ph_workers s) = 0" by (simp add: preheaterHolds_def)
    then show ?thesis using open_pc True cap assms(2) by (intro preheat_loop_enabled) (auto simp: loopOver_def)
  next
    case False
    then obtain i where "i < length (ph_workers s)" "pw_pc (ph_workers s ! i) \<noteq> PwGone" by (auto simp: in_set_conv_nth)
    then show ?thesis using cap(3) by (intro preheater_enabled) auto
  qed
  moreover have "int (count_if (\<lambda>w. pw_pc w \<noteq> PwGone) (ph_workers s)) \<le> po_concurrency opts"
    using cap(1-3) assms(2) by (simp add: preheaterHolds_def [abs_def])
  ultimately show ?thesis by blast
qed

lemma preheat_bounded_progress_witness:
  "\<exists>ev s'. preheat_step demoPreheat ev (preheatInit demoPreheat [''r.io/a'']) = Some s'"
proof -
  have "reach (\<lambda>s. s = preheatInit demoPreheat [''r.io/a'']) (preheat_step demoPreheat) (preheatInit demoPreheat [''r.io/a''])"
    by (simp add: reach_init)
  from preheat_bounded_progress [OF this] show ?thesis
    by (simp add: demoPreheat_def DefaultPreheatConfig_def preheatInit_def)
qed

text \<open>
  The command line does not check the concurrency: with zero the channel has no buffer, and the first send
  blocks for ever, since nothing receives and nothing cancels.
\<close>

lemma preheat_zero_blocks:
  assumes "po_concurrency opts = 0" "po_interval opts \<le> 0"
  shows "\<exists>s. preheat_step opts PhLoop (preheatInit opts [t]) = Some s \<and> ph_pc s = PhSend t \<and> (\<forall>ev. preheat_step opts ev s = None)"
  using assms
  by (auto simp: preheat_step_def preheatInit_def preheatHead_def preheatSend_def preheatSeeCanceled_def makeSem_def sem_trySend_def
      split: preheat_event.split)

end
