(* ===== verification/Batch_Tree.thy ===== *)
theory Batch_Tree
  imports Go_Path Build_Steps
begin

unbundle bit_operations_syntax

text \<open>
  Source contexts as file trees: \<^verbatim>\<open>internal/buildbatch/workspace_copy.go\<close>, which copies the directory of an
  image before it is rewritten, and \<^verbatim>\<open>source_hash.go\<close>, which gives the copy its scheduling key. Both walk the
  tree with \<^verbatim>\<open>filepath.WalkDir\<close>. A path below the root of a tree is the list of its components. The copy
  writes into a file system, a map from these paths to entries; every call that the operating system may
  refuse has its error in \<open>fs_env\<close>. Set-user-id, set-group-id and sticky bits are outside the model, and a
  path through a symbolic link does not occur, since the destination is a new directory.
\<close>

section \<open>Trees and the walk\<close>

type_synonym perm = "9 word"

text \<open>
  A node with its permission bits. The children of a directory come in the order of \<^verbatim>\<open>os.ReadDir\<close>, by
  name. \<open>OtherNode\<close> is a device, a pipe or a socket with what reading it yields: bytes up to an end, or
  bytes for ever.
\<close>

datatype reading = Ends string | Endless "nat \<Rightarrow> char"

datatype fsnode =
    FileNode perm string
  | LinkNode perm string
  | DirNode perm "(string \<times> fsnode) list"
  | OtherNode perm reading

text \<open>
  A callback gets the path, the node and its state; it returns the new state and its error, or does not
  return (\<^const>\<open>None\<close>).
\<close>

type_synonym 's walk_result = "('s \<times> go_error option) option"
type_synonym 's walk_fn = "string list \<Rightarrow> fsnode \<Rightarrow> 's \<Rightarrow> 's walk_result"

text \<open>
  \<^verbatim>\<open>filepath.WalkDir\<close> for the callbacks of this package, which pass on the error of \<^verbatim>\<open>os.ReadDir\<close> and never
  skip a directory.
\<close>

fun walkDir :: "(string list \<Rightarrow> go_error option) \<Rightarrow> 's walk_fn \<Rightarrow> string list \<Rightarrow> fsnode \<Rightarrow> 's \<Rightarrow> 's walk_result"
and walkDirs :: "(string list \<Rightarrow> go_error option) \<Rightarrow> 's walk_fn \<Rightarrow> string list \<Rightarrow> (string \<times> fsnode) list \<Rightarrow> 's \<Rightarrow> 's walk_result" where
  "walkDir readDir fn names (DirNode m ch) s = (case fn names (DirNode m ch) s of
      None \<Rightarrow> None
    | Some (s', Some e) \<Rightarrow> Some (s', Some e)
    | Some (s', None) \<Rightarrow>
        (case readDir names of Some e \<Rightarrow> Some (s', Some e) | None \<Rightarrow> walkDirs readDir fn names ch s'))"
| "walkDir readDir fn names (FileNode m c) s = fn names (FileNode m c) s"
| "walkDir readDir fn names (LinkNode m c) s = fn names (LinkNode m c) s"
| "walkDir readDir fn names (OtherNode m c) s = fn names (OtherNode m c) s"
| "walkDirs readDir fn names [] s = Some (s, None)"
| "walkDirs readDir fn names ((name, n) # rest) s = (case walkDir readDir fn (names @ [name]) n s of
      None \<Rightarrow> None
    | Some (s', Some e) \<Rightarrow> Some (s', Some e)
    | Some (s', None) \<Rightarrow> walkDirs readDir fn names rest s')"

fun lookupTree :: "fsnode \<Rightarrow> string list \<Rightarrow> fsnode option" where
  "lookupTree t [] = Some t"
| "lookupTree (DirNode m ch) (name # names) = (case map_of ch name of Some n \<Rightarrow> lookupTree n names | None \<Rightarrow> None)"
| "lookupTree (FileNode m c) (name # names) = None"
| "lookupTree (LinkNode m c) (name # names) = None"
| "lookupTree (OtherNode m c) (name # names) = None"

definition pathOf :: "string \<Rightarrow> string list \<Rightarrow> string" where
  "pathOf root names = (if names = [] then root else root @ ''/'' @ joinStr ''/'' names)"

section \<open>The file system that the copy writes\<close>

datatype fsentry = FileEntry perm string | LinkEntry string | DirEntry perm

type_synonym fs = "string list \<Rightarrow> fsentry option"

text \<open>
  Who runs the program, and the errors of its calls by path: \<open>fe_copy\<close> is an error of \<^verbatim>\<open>io.Copy\<close> after a
  number of bytes.
\<close>

record fs_env =
  fe_root :: bool
  fe_umask :: perm
  fe_lstat :: "string list \<Rightarrow> go_error option"
  fe_readDir :: "string list \<Rightarrow> go_error option"
  fe_info :: "string list \<Rightarrow> go_error option"
  fe_readlink :: "string list \<Rightarrow> go_error option"
  fe_mkdir :: "string list \<Rightarrow> go_error option"
  fe_symlink :: "string list \<Rightarrow> go_error option"
  fe_open :: "string list \<Rightarrow> go_error option"
  fe_create :: "string list \<Rightarrow> go_error option"
  fe_copy :: "string list \<Rightarrow> (nat \<times> go_error) option"
  fe_close :: "string list \<Rightarrow> go_error option"

definition pathError :: "string \<Rightarrow> string \<Rightarrow> string \<Rightarrow> go_error" where
  "pathError op path msg = Errorf (op @ '' '' @ path @ '': '' @ msg)"

text \<open>
  Why nothing can be created at a path: the parent has to be a directory that the user may write and
  search. The parent of the destination itself is the new temporary directory.
\<close>

definition ownerWX :: "perm \<Rightarrow> bool" where
  "ownerWX m \<longleftrightarrow> m AND 0xC0 = 0xC0"

definition parentErr :: "fs_env \<Rightarrow> fs \<Rightarrow> string list \<Rightarrow> string option" where
  "parentErr env fs p =
     (if p = [] then None
      else case fs (butlast p) of
        None \<Rightarrow> Some ''no such file or directory''
      | Some (DirEntry m) \<Rightarrow> if fe_root env \<or> ownerWX m then None else Some ''permission denied''
      | Some _ \<Rightarrow> Some ''not a directory'')"

definition mkdir :: "fs_env \<Rightarrow> string \<Rightarrow> fs \<Rightarrow> string list \<Rightarrow> perm \<Rightarrow> fs \<times> go_error option" where
  "mkdir env dst fs p m = (case fe_mkdir env p of
      Some e \<Rightarrow> (fs, Some e)
    | None \<Rightarrow>
        (case parentErr env fs p of
           Some msg \<Rightarrow> (fs, Some (pathError ''mkdir'' (pathOf dst p) msg))
         | None \<Rightarrow> (fs(p \<mapsto> DirEntry (m AND NOT (fe_umask env))), None)))"

function mkdirAll :: "fs_env \<Rightarrow> string \<Rightarrow> fs \<Rightarrow> string list \<Rightarrow> perm \<Rightarrow> fs \<times> go_error option" where
  "mkdirAll env dst fs p m = (case fs p of
      Some (DirEntry _) \<Rightarrow> (fs, None)
    | Some _ \<Rightarrow> (fs, Some (pathError ''mkdir'' (pathOf dst p) ''not a directory''))
    | None \<Rightarrow>
        if p = [] then mkdir env dst fs p m
        else (case mkdirAll env dst fs (butlast p) m of
           (fs', Some e) \<Rightarrow> (fs', Some e)
         | (fs', None) \<Rightarrow> mkdir env dst fs' p m))"
  by pat_completeness auto
termination
  by (relation "measure (\<lambda>(env, dst, fs, p, m). length p)") auto

declare mkdirAll.simps [simp del]

definition symlink :: "fs_env \<Rightarrow> string \<Rightarrow> fs \<Rightarrow> string \<Rightarrow> string list \<Rightarrow> fs \<times> go_error option" where
  "symlink env dst fs linkTarget p =
     (let failed = (\<lambda>msg. (fs, Some (pathError ''symlink'' (linkTarget @ '' '' @ pathOf dst p) msg))) in
      case fe_symlink env p of
        Some e \<Rightarrow> (fs, Some e)
      | None \<Rightarrow>
          if fs p \<noteq> None then failed ''file exists''
          else case parentErr env fs p of
            Some msg \<Rightarrow> failed msg
          | None \<Rightarrow> (fs(p \<mapsto> LinkEntry linkTarget), None))"

text \<open>\<^verbatim>\<open>os.OpenFile(dst, os.O_CREATE|os.O_WRONLY|os.O_TRUNC, mode)\<close>: a file that is there keeps its mode.\<close>

definition createTrunc :: "fs_env \<Rightarrow> string \<Rightarrow> fs \<Rightarrow> string list \<Rightarrow> perm \<Rightarrow> (fs \<times> perm) result" where
  "createTrunc env dst fs p m =
     (let failed = (\<lambda>msg. Inl (pathError ''open'' (pathOf dst p) msg)) in
      case fe_create env p of
        Some e \<Rightarrow> Inl e
      | None \<Rightarrow>
          (case fs p of
             Some (DirEntry _) \<Rightarrow> failed ''is a directory''
           | Some (LinkEntry _) \<Rightarrow> failed ''too many levels of symbolic links''
           | Some (FileEntry m' _) \<Rightarrow> Inr (fs(p \<mapsto> FileEntry m' ''''), m')
           | None \<Rightarrow>
               (case parentErr env fs p of
                  Some msg \<Rightarrow> failed msg
                | None \<Rightarrow> let m' = m AND NOT (fe_umask env) in Inr (fs(p \<mapsto> FileEntry m' ''''), m'))))"

section \<open>The copy\<close>

definition readUpTo :: "nat \<Rightarrow> reading \<Rightarrow> string" where
  "readUpTo n r = (case r of Ends c \<Rightarrow> take n c | Endless f \<Rightarrow> map f [0..<n])"

text \<open>
  The parent of the destination itself is the temporary directory, which is there; for every other path the
  parent is made when it is missing.
\<close>

definition copyFile :: "fs_env \<Rightarrow> string \<Rightarrow> string list \<Rightarrow> perm \<Rightarrow> reading \<Rightarrow> fs \<Rightarrow> fs walk_result" where
  "copyFile env dst p m content fs = (case (if p = [] then (fs, None) else mkdirAll env dst fs (butlast p) 0x1ED) of
      (fs1, Some e) \<Rightarrow> Some (fs1, Some e)
    | (fs1, None) \<Rightarrow>
        (case fe_open env p of
           Some e \<Rightarrow> Some (fs1, Some e)
         | None \<Rightarrow>
             (case createTrunc env dst fs1 p m of
                Inl e \<Rightarrow> Some (fs1, Some e)
              | Inr (fs2, m') \<Rightarrow>
                  (case fe_copy env p of
                     Some (n, e) \<Rightarrow> Some (fs2(p \<mapsto> FileEntry m' (readUpTo n content)), Some e)
                   | None \<Rightarrow>
                       (case content of
                          Endless _ \<Rightarrow> None
                        | Ends c \<Rightarrow> Some (fs2(p \<mapsto> FileEntry m' c), fe_close env p))))))"

text \<open>The callback of \<^verbatim>\<open>copyDirectory\<close>.\<close>

definition copyEntry :: "fs_env \<Rightarrow> string \<Rightarrow> fs walk_fn" where
  "copyEntry env dst names node fs = (case fe_info env names of
      Some e \<Rightarrow> Some (fs, Some e)
    | None \<Rightarrow>
        (case node of
           DirNode m ch \<Rightarrow> Some (mkdirAll env dst fs names m)
         | LinkNode m linkTarget \<Rightarrow>
             (case fe_readlink env names of
                Some e \<Rightarrow> Some (fs, Some e)
              | None \<Rightarrow> Some (symlink env dst fs linkTarget names))
         | FileNode m c \<Rightarrow> copyFile env dst names m (Ends c) fs
         | OtherNode m r \<Rightarrow> copyFile env dst names m r fs))"

definition copyDirectory :: "fs_env \<Rightarrow> fsnode \<Rightarrow> string \<Rightarrow> fs \<Rightarrow> fs walk_result" where
  "copyDirectory env src dst fs = (case fe_lstat env [] of
      Some e \<Rightarrow> Some (fs, Some e)
    | None \<Rightarrow> walkDir (fe_readDir env) (copyEntry env dst) [] src fs)"

section \<open>The scheduling hash\<close>

fun showOct :: "nat \<Rightarrow> string" where
  "showOct n = (if n < 8 then [digitChar n] else showOct (n div 8) @ [digitChar (n mod 8)])"

declare showOct.simps [simp del]

definition nul :: char where
  "nul = CHR 0x00"

definition hashedNode :: "fsnode \<Rightarrow> bool" where
  "hashedNode n = (case n of OtherNode _ _ \<Rightarrow> False | _ \<Rightarrow> True)"

text \<open>The callback that collects the paths.\<close>

definition collectPath :: "fs_env \<Rightarrow> string \<Rightarrow> string list walk_fn" where
  "collectPath env dir names node paths =
     (if names = [] then Some (paths, None)
      else case fe_info env names of
        Some e \<Rightarrow> Some (paths, Some e)
      | None \<Rightarrow> if \<not> hashedNode node then Some (paths, None) else Some (paths @ [pathOf dir names], None))"

text \<open>
  The text that one path adds to the hash; \<open>rel\<close> is \<^verbatim>\<open>filepath.Rel(dir, path)\<close>. What is neither a directory nor a
  link is opened and read to its end.
\<close>

definition hashFile :: "fs_env \<Rightarrow> string \<Rightarrow> string list \<Rightarrow> perm \<Rightarrow> reading \<Rightarrow> string result option" where
  "hashFile env rel names m r =
     (let wrap = (\<lambda>what e. Some (Inl (wrapErr (what @ '' source context file '' @ rel) e))) in
      case fe_open env names of
        Some e \<Rightarrow> wrap ''open'' e
      | None \<Rightarrow>
          (case fe_copy env names of
             Some (n, e) \<Rightarrow> wrap ''hash'' e
           | None \<Rightarrow>
               (case r of
                  Endless _ \<Rightarrow> None
                | Ends c \<Rightarrow>
                    (case fe_close env names of
                       Some e \<Rightarrow> wrap ''close'' e
                     | None \<Rightarrow> Some (Inr (''file:'' @ rel @ [nul] @ showOct (unat m) @ [nul] @ c @ [nul]))))))"

definition hashRecord :: "fs_env \<Rightarrow> string \<Rightarrow> fsnode \<Rightarrow> string \<Rightarrow> string result option" where
  "hashRecord env dir t path =
     (let rel = drop (length dir + 1) path; names = splitByte CHR ''/'' rel;
          wrap = (\<lambda>what e. Some (Inl (wrapErr (what @ '' '' @ rel) e))) in
      case fe_lstat env names of
        Some e \<Rightarrow> wrap ''stat source context path'' e
      | None \<Rightarrow>
          (case lookupTree t names of
             None \<Rightarrow> wrap ''stat source context path'' (GoError (''lstat '' @ path @ '': no such file or directory'') [NotExist])
           | Some (DirNode m _) \<Rightarrow> Some (Inr (''dir:'' @ rel @ [nul] @ showOct (unat m) @ [nul]))
           | Some (LinkNode m target) \<Rightarrow>
               (case fe_readlink env names of
                  Some e \<Rightarrow> wrap ''read source context symlink'' e
                | None \<Rightarrow> Some (Inr (''symlink:'' @ rel @ [nul] @ showOct (unat m) @ [nul] @ target @ [nul])))
           | Some (FileNode m c) \<Rightarrow> hashFile env rel names m (Ends c)
           | Some (OtherNode m r) \<Rightarrow> hashFile env rel names m r))"

fun hashRecords :: "fs_env \<Rightarrow> string \<Rightarrow> fsnode \<Rightarrow> string list \<Rightarrow> string result option" where
  "hashRecords env dir t [] = Some (Inr '''')"
| "hashRecords env dir t (path # paths) = (case hashRecord env dir t path of
      None \<Rightarrow> None
    | Some (Inl e) \<Rightarrow> Some (Inl e)
    | Some (Inr r) \<Rightarrow> map_option (map_sum id ((@) r)) (hashRecords env dir t paths))"

text \<open>\<open>sha256\<close> is the digest of a text in hexadecimal.\<close>

definition batch_sourceContextContentHash :: "(string \<Rightarrow> string) \<Rightarrow> fs_env \<Rightarrow> string \<Rightarrow> fsnode \<Rightarrow> string result option" where
  "batch_sourceContextContentHash sha256 env dir t =
     (let walked = (case fe_lstat env [] of
             Some e \<Rightarrow> Some ([], Some e)
           | None \<Rightarrow> walkDir (fe_readDir env) (collectPath env dir) [] t []) in
      case walked of
        None \<Rightarrow> None
      | Some (paths, Some e) \<Rightarrow> Some (Inl (wrapErr ''walk source context for scheduling hash'' e))
      | Some (paths, None) \<Rightarrow>
          map_option (map_sum id (\<lambda>text. ''source:'' @ sha256 text)) (hashRecords env dir t (sort paths)))"
section \<open>A copy holds what the source holds\<close>

definition nameOk :: "string \<Rightarrow> bool" where
  "nameOk name \<longleftrightarrow> name \<noteq> '''' \<and> CHR ''/'' \<notin> set name \<and> nul \<notin> set name"

text \<open>The children of a directory are listed by \<^verbatim>\<open>os.ReadDir\<close> in the order of their names.\<close>

fun treeOk :: "fsnode \<Rightarrow> bool" and childrenOk :: "(string \<times> fsnode) list \<Rightarrow> bool" where
  "treeOk (DirNode m ch) \<longleftrightarrow> sorted_wrt (<) (map fst ch) \<and> childrenOk ch"
| "treeOk (FileNode m c) \<longleftrightarrow> True"
| "treeOk (LinkNode m c) \<longleftrightarrow> True"
| "treeOk (OtherNode m r) \<longleftrightarrow> True"
| "childrenOk [] \<longleftrightarrow> True"
| "childrenOk ((name, n) # rest) \<longleftrightarrow> nameOk name \<and> treeOk n \<and> childrenOk rest"

text \<open>
  The calls for the node at a path that the operating system must not refuse: a directory is made and
  listed, the target of a link is read and the link made, anything else is opened, created, read, written
  and closed.
\<close>

definition callsOk :: "fs_env \<Rightarrow> string list \<Rightarrow> fsnode \<Rightarrow> bool" where
  "callsOk env p n \<longleftrightarrow> fe_info env p = None \<and> (case n of
      DirNode _ _ \<Rightarrow> fe_mkdir env p = None
    | LinkNode _ _ \<Rightarrow> fe_readlink env p = None \<and> fe_symlink env p = None
    | _ \<Rightarrow> fe_open env p = None \<and> fe_create env p = None \<and> fe_copy env p = None \<and> fe_close env p = None)"

text \<open>
  What may be copied: every call succeeds (so the source is readable to the user), nothing is read without
  end, and a directory that has entries lets its owner write and search it once the umask is applied,
  unless the user is root.
\<close>

fun copyable :: "fs_env \<Rightarrow> string list \<Rightarrow> fsnode \<Rightarrow> bool"
and copyables :: "fs_env \<Rightarrow> string list \<Rightarrow> (string \<times> fsnode) list \<Rightarrow> bool" where
  "copyable env p (DirNode m ch) \<longleftrightarrow> callsOk env p (DirNode m ch) \<and> fe_readDir env p = None \<and>
     (ch \<noteq> [] \<longrightarrow> fe_root env \<or> ownerWX (m AND NOT (fe_umask env))) \<and> copyables env p ch"
| "copyable env p (FileNode m c) \<longleftrightarrow> callsOk env p (FileNode m c)"
| "copyable env p (LinkNode m c) \<longleftrightarrow> callsOk env p (LinkNode m c)"
| "copyable env p (OtherNode m r) \<longleftrightarrow> callsOk env p (OtherNode m r) \<and> (case r of Ends _ \<Rightarrow> True | Endless _ \<Rightarrow> False)"
| "copyables env p [] \<longleftrightarrow> True"
| "copyables env p ((name, n) # rest) \<longleftrightarrow> copyable env (p @ [name]) n \<and> copyables env p rest"

text \<open>The copy: the same tree with the umask applied and every special file turned into a regular one.\<close>

fun copyOf :: "perm \<Rightarrow> fsnode \<Rightarrow> fsnode" and copiesOf :: "perm \<Rightarrow> (string \<times> fsnode) list \<Rightarrow> (string \<times> fsnode) list" where
  "copyOf u (DirNode m ch) = DirNode (m AND NOT u) (copiesOf u ch)"
| "copyOf u (FileNode m c) = FileNode (m AND NOT u) c"
| "copyOf u (LinkNode m c) = LinkNode m c"
| "copyOf u (OtherNode m r) = FileNode (m AND NOT u) (case r of Ends c \<Rightarrow> c | Endless _ \<Rightarrow> '''')"
| "copiesOf u [] = []"
| "copiesOf u ((name, n) # rest) = (name, copyOf u n) # copiesOf u rest"

definition entryOf :: "fsnode \<Rightarrow> fsentry" where
  "entryOf n = (case n of
      FileNode m c \<Rightarrow> FileEntry m c | LinkNode m c \<Rightarrow> LinkEntry c | DirNode m ch \<Rightarrow> DirEntry m
    | OtherNode m r \<Rightarrow> FileEntry m '''')"

definition entriesOf :: "fsnode \<Rightarrow> fs" where
  "entriesOf t names = map_option entryOf (lookupTree t names)"

definition childEntries :: "(string \<times> fsnode) list \<Rightarrow> fs" where
  "childEntries ch q = (case q of
      [] \<Rightarrow> None
    | name # names \<Rightarrow> (case map_of ch name of Some n \<Rightarrow> entriesOf n names | None \<Rightarrow> None))"

text \<open>A file system hung in at a path.\<close>

definition graft :: "string list \<Rightarrow> fs \<Rightarrow> fs" where
  "graft p fs q = (if take (length p) q = p then fs (drop (length p) q) else None)"

definition noErrors :: "fs_env \<Rightarrow> bool" where
  "noErrors env \<longleftrightarrow>
     fe_lstat env = (\<lambda>_. None) \<and> fe_readDir env = (\<lambda>_. None) \<and> fe_info env = (\<lambda>_. None) \<and> fe_readlink env = (\<lambda>_. None) \<and>
     fe_mkdir env = (\<lambda>_. None) \<and> fe_symlink env = (\<lambda>_. None) \<and> fe_open env = (\<lambda>_. None) \<and> fe_create env = (\<lambda>_. None) \<and>
     fe_copy env = (\<lambda>_. None) \<and> fe_close env = (\<lambda>_. None)"

lemma noErrors_calls:
  assumes "noErrors env"
  shows "fe_lstat env p = None" "fe_readDir env p = None" "fe_info env p = None" "fe_readlink env p = None" "fe_mkdir env p = None"
    "fe_symlink env p = None" "fe_open env p = None" "fe_create env p = None" "fe_copy env p = None" "fe_close env p = None"
  using assms by (simp_all add: noErrors_def)

lemma entriesOf_simps [simp]:
  "entriesOf (DirNode m ch) = (childEntries ch)([] \<mapsto> DirEntry m)"
  "entriesOf (FileNode m c) = [[] \<mapsto> FileEntry m c]"
  "entriesOf (LinkNode m c) = [[] \<mapsto> LinkEntry c]"
  by (rule ext, rename_tac q, case_tac q, simp_all add: entriesOf_def entryOf_def childEntries_def split: option.split)+

lemma childEntries_Nil [simp]: "childEntries [] = Map.empty"
  by (rule ext) (simp add: childEntries_def split: list.split)

lemma childEntries_Cons:
  assumes "map_of ch name = None"
  shows "childEntries ((name, n) # ch) = graft [name] (entriesOf n) ++ childEntries ch"
proof (rule ext)
  fix q show "childEntries ((name, n) # ch) q = (graft [name] (entriesOf n) ++ childEntries ch) q"
    using assms by (cases q) (auto simp: childEntries_def graft_def map_add_def split: option.split)
qed

lemma graft_empty [simp]: "graft p Map.empty = Map.empty" and graft_Nil [simp]: "graft [] fs = fs"
  by (auto simp: graft_def)

lemma graft_upd: "graft p (fs([] \<mapsto> x)) = (graft p fs)(p \<mapsto> x)"
proof (rule ext)
  fix q :: "string list"
  have "take (length p) q = p \<and> drop (length p) q = [] \<longleftrightarrow> q = p" by (metis append_Nil2 append_take_drop_id append_eq_conv_conj)
  then show "graft p (fs([] \<mapsto> x)) q = ((graft p fs)(p \<mapsto> x)) q" by (auto simp: graft_def)
qed

lemma graft_graft: "graft p (graft r fs) = graft (p @ r) fs"
proof (rule ext)
  fix q :: "string list"
  have "take (length p + length r) q = p @ r \<longleftrightarrow> take (length p) q = p \<and> take (length r) (drop (length p) q) = r"
    by (simp add: take_add) (metis append_eq_append_conv append_take_drop_id length_take min.absorb2 nat_le_linear take_all append_eq_conv_conj)
  then show "graft p (graft r fs) q = graft (p @ r) fs q" by (auto simp: graft_def add.commute)
qed

lemma graft_add: "graft p (m1 ++ m2) = graft p m1 ++ graft p m2"
  by (rule ext) (auto simp: graft_def map_add_def split: option.split)

lemma map_of_copiesOf: "map_of (copiesOf u ch) name = map_option (copyOf u) (map_of ch name)"
  by (induction ch) auto

text \<open>With the parent there and the path free, only the calls of the node itself decide.\<close>

lemma parentErr_parent:
  "parentErr env fs p = None \<longleftrightarrow> p = [] \<or> (\<exists>m. fs (butlast p) = Some (DirEntry m) \<and> (fe_root env \<or> ownerWX m))"
  by (auto simp: parentErr_def split: option.splits fsentry.splits if_splits)

lemma mkdirAll_there: "fs p = Some (DirEntry m') \<Longrightarrow> mkdirAll env dst fs p m = (fs, None)"
  by (subst mkdirAll.simps) simp

lemma mkdirAll_free:
  assumes "parentErr env fs p = None" "fs p = None"
  shows "mkdirAll env dst fs p m =
    (case fe_mkdir env p of Some e \<Rightarrow> (fs, Some e) | None \<Rightarrow> (fs(p \<mapsto> DirEntry (m AND NOT (fe_umask env))), None))"
proof -
  have "p = [] \<or> mkdirAll env dst fs (butlast p) m = (fs, None)" using assms(1) mkdirAll_there by (auto simp: parentErr_parent)
  then show ?thesis using assms by (subst mkdirAll.simps) (auto simp: mkdir_def split: option.split)
qed

lemma copyEntry_exact:
  assumes pe: "parentErr env fs p = None" and free: "fs p = None" and root: "p = [] \<Longrightarrow> \<exists>m ch. n = DirNode m ch"
  shows "copyEntry env dst p n fs = Some (fs', None) \<longleftrightarrow> callsOk env p n \<and> (\<forall>m f. n \<noteq> OtherNode m (Endless f)) \<and>
    fs' = fs(p \<mapsto> entryOf (copyOf (fe_umask env) n))"
proof (cases "\<exists>m ch. n = DirNode m ch")
  case True
  then show ?thesis
    by (auto simp: copyEntry_def callsOk_def entryOf_def mkdirAll_free [OF pe free] split: option.splits)
next
  case False
  then obtain m' where "fs (butlast p) = Some (DirEntry m')" using pe root by (auto simp: parentErr_parent)
  note parent = mkdirAll_there [of fs "butlast p", OF this]
  have cf: "copyFile env dst p m r fs = Some (fs', None) \<longleftrightarrow> fe_open env p = None \<and> fe_create env p = None \<and> fe_copy env p = None \<and>
      fe_close env p = None \<and> (\<exists>c. r = Ends c \<and> fs' = fs(p \<mapsto> FileEntry (m AND NOT (fe_umask env)) c))" for m r
    using pe free by (auto simp: copyFile_def parent createTrunc_def Let_def split: option.splits reading.splits)
  show ?thesis using False pe free
    by (cases n) (auto simp: copyEntry_def callsOk_def entryOf_def cf symlink_def Let_def split: option.splits reading.splits)
qed

lemma walk_denied:
  assumes "fs p = Some (DirEntry m)" "\<not> (fe_root env \<or> ownerWX m)" "fs (p @ [name]) = None"
  shows "walkDir (fe_readDir env) (copyEntry env dst) (p @ [name]) n fs \<noteq> Some (fs', None)"
proof -
  have pe: "parentErr env fs (p @ [name]) = Some ''permission denied''" using assms(1,2) by (simp add: parentErr_def)
  have mk: "mkdirAll env dst fs (p @ [name]) m' \<noteq> (fs2, None)" for m' fs2
    using assms(3) pe mkdirAll_there [of fs p, OF assms(1)] by (subst mkdirAll.simps) (auto simp: mkdir_def split: option.split)
  have cf: "copyFile env dst (p @ [name]) m' r fs \<noteq> Some (fs2, None)" for m' r fs2
    using assms(3) pe mkdirAll_there [of fs p, OF assms(1)] by (auto simp: copyFile_def createTrunc_def Let_def split: option.splits)
  have sl: "symlink env dst fs c (p @ [name]) \<noteq> (fs2, None)" for c fs2
    using assms(3) pe by (auto simp: symlink_def Let_def split: option.splits)
  have "copyEntry env dst (p @ [name]) n fs \<noteq> Some (fs2, None)" for fs2
    by (simp add: copyEntry_def mk cf sl split: option.splits fsnode.splits)
  then show ?thesis by (cases n) (auto split: option.splits)
qed

text \<open>The children of a directory that is there are copied below it, one after the other.\<close>

lemma graft_single [simp]: "graft p [[] \<mapsto> x] = [p \<mapsto> x]"
  using graft_upd [of p Map.empty x] by simp

lemma graft_leaf:
  "fs ++ graft p (entriesOf (FileNode m c)) = fs(p \<mapsto> FileEntry m c)"
  "fs ++ graft p (entriesOf (LinkNode m c)) = fs(p \<mapsto> LinkEntry c)"
  by (simp_all add: entriesOf_simps [abs_def])

lemma graft_apart: "take (length p) q \<noteq> p \<Longrightarrow> graft p fs q = None"
  by (simp add: graft_def)

lemma graft_siblings:
  "(fs ++ graft (p @ [name]) x) p = fs p"
  "name' \<noteq> name \<Longrightarrow> (fs ++ graft (p @ [name]) x) (p @ name' # q) = fs (p @ name' # q)"
  by (simp_all add: map_add_def graft_apart)

lemma walk_exact:
  shows "treeOk t \<Longrightarrow> parentErr env fs p = None \<Longrightarrow> (\<And>q. fs (p @ q) = None) \<Longrightarrow> (p = [] \<Longrightarrow> \<exists>m ch. t = DirNode m ch) \<Longrightarrow>
      walkDir (fe_readDir env) (copyEntry env dst) p t fs = Some (fs', None) \<longleftrightarrow>
        copyable env p t \<and> fs' = fs ++ graft p (entriesOf (copyOf (fe_umask env) t))"
    and "childrenOk ch \<Longrightarrow> distinct (map fst ch) \<Longrightarrow> fs p = Some (DirEntry m) \<Longrightarrow>
      (\<And>name q. name \<in> fst ` set ch \<Longrightarrow> fs (p @ name # q) = None) \<Longrightarrow>
      walkDirs (fe_readDir env) (copyEntry env dst) p ch fs = Some (fs', None) \<longleftrightarrow>
        (ch \<noteq> [] \<longrightarrow> fe_root env \<or> ownerWX m) \<and> copyables env p ch \<and>
        fs' = fs ++ graft p (childEntries (copiesOf (fe_umask env) ch))"
proof (induction t and ch arbitrary: fs p fs' and fs p m fs' rule: treeOk_childrenOk.induct)
  case (1 m ch)
  let ?m = "m AND NOT (fe_umask env)"
  let ?fs = "fs(p \<mapsto> DirEntry ?m)"
  have mk: "copyEntry env dst p (DirNode m ch) fs = Some (fs1, None) \<longleftrightarrow> callsOk env p (DirNode m ch) \<and> fs1 = ?fs" for fs1
    using copyEntry_exact [OF "1.prems"(2), of "DirNode m ch"] "1.prems"(3) [of "[]"] by (simp add: entryOf_def)
  have "distinct (map fst ch)" using "1.prems"(1) by (simp add: strict_sorted_iff)
  then have "walkDirs (fe_readDir env) (copyEntry env dst) p ch ?fs = Some (fs', None) \<longleftrightarrow>
      (ch \<noteq> [] \<longrightarrow> fe_root env \<or> ownerWX ?m) \<and> copyables env p ch \<and> fs' = ?fs ++ graft p (childEntries (copiesOf (fe_umask env) ch))"
    using "1.prems" by (intro "1.IH") auto
  moreover have "?fs ++ graft p (childEntries (copiesOf (fe_umask env) ch))
      = fs ++ graft p (entriesOf (copyOf (fe_umask env) (DirNode m ch)))"
    by (rule ext) (auto simp: graft_upd map_add_def graft_def childEntries_def split: option.split)
  moreover have "walkDir (fe_readDir env) (copyEntry env dst) p (DirNode m ch) fs = Some (fs', None) \<longleftrightarrow>
      (\<exists>fs1. copyEntry env dst p (DirNode m ch) fs = Some (fs1, None) \<and> fe_readDir env p = None \<and>
         walkDirs (fe_readDir env) (copyEntry env dst) p ch fs1 = Some (fs', None))"
    by (auto split: option.splits)
  ultimately show ?case unfolding mk by (simp del: walkDir.simps walkDirs.simps entriesOf_simps copyOf.simps)
next
  case (2 m c)
  then have "p \<noteq> []" by auto
  with 2 copyEntry_exact [OF "2.prems"(2), of "FileNode m c"] "2.prems"(3) [of "[]"] show ?case
    by (simp del: entriesOf_simps add: graft_leaf entryOf_def fun_upd_def)
next
  case (3 m c)
  then have "p \<noteq> []" by auto
  with 3 copyEntry_exact [OF "3.prems"(2), of "LinkNode m c"] "3.prems"(3) [of "[]"] show ?case
    by (simp del: entriesOf_simps add: graft_leaf entryOf_def fun_upd_def)
next
  case (4 m r)
  then have "p \<noteq> []" by auto
  with 4 copyEntry_exact [OF "4.prems"(2), of "OtherNode m r"] "4.prems"(3) [of "[]"] show ?case
    by (cases r) (simp_all del: entriesOf_simps add: graft_leaf entryOf_def fun_upd_def)
next
  case 5
  then show ?case by auto
next
  case (6 name n rest)
  let ?fs = "fs ++ graft (p @ [name]) (entriesOf (copyOf (fe_umask env) n))"
  let ?ok = "fe_root env \<or> ownerWX m"
  have none: "fs (p @ name # q) = None" for q using "6.prems"(4) by simp
  have one: "walkDir (fe_readDir env) (copyEntry env dst) (p @ [name]) n fs = Some (fs1, None) \<longleftrightarrow>
      copyable env (p @ [name]) n \<and> fs1 = ?fs" if ?ok for fs1
    by (rule "6.IH"(1)) (use "6.prems" that none in \<open>auto simp: parentErr_parent\<close>)
  have tl: "walkDirs (fe_readDir env) (copyEntry env dst) p rest ?fs = Some (fs', None) \<longleftrightarrow> (rest \<noteq> [] \<longrightarrow> ?ok) \<and> copyables env p rest \<and>
      fs' = ?fs ++ graft p (childEntries (copiesOf (fe_umask env) rest))"
  proof (rule "6.IH"(2))
    show "?fs p = Some (DirEntry m)" using "6.prems"(3) by (simp add: graft_siblings)
    show "?fs (p @ name' # q) = None" if "name' \<in> fst ` set rest" for name' q
    proof -
      have "name' \<noteq> name" "name' \<in> fst ` set ((name, n) # rest)" using that "6.prems"(2) by auto
      then show ?thesis using "6.prems"(4) graft_siblings(2) by metis
    qed
  qed (use "6.prems" in auto)
  have "map_of (copiesOf (fe_umask env) rest) name = None"
    using "6.prems"(2) by (auto simp: map_of_copiesOf map_of_eq_None_iff)
  then have eq: "fs ++ graft p (childEntries (copiesOf (fe_umask env) ((name, n) # rest))) =
      ?fs ++ graft p (childEntries (copiesOf (fe_umask env) rest))"
    by (simp add: childEntries_Cons graft_add graft_graft)
  have step: "walkDirs (fe_readDir env) (copyEntry env dst) p ((name, n) # rest) fs = Some (fs', None) \<longleftrightarrow>
      (\<exists>fs1. walkDir (fe_readDir env) (copyEntry env dst) (p @ [name]) n fs = Some (fs1, None) \<and>
         walkDirs (fe_readDir env) (copyEntry env dst) p rest fs1 = Some (fs', None))"
    by (auto split: option.splits)
  have denied: "?ok" if "walkDir (fe_readDir env) (copyEntry env dst) (p @ [name]) n fs = Some (fs1, None)" for fs1
    using walk_denied [of fs p m env name, OF "6.prems"(3)] none that by metis
  show ?case
  proof (cases ?ok)
    case True
    then show ?thesis unfolding step one [OF True] using tl eq by (simp del: walkDirs.simps copiesOf.simps)
  next
    case False
    then show ?thesis unfolding step using denied by blast
  qed
qed

text \<open>
  C24. A source directory is copied into a new directory without an error if and only if no call of the
  copy is refused by the operating system (so every source file is readable), nothing in it is
  read without end and every directory with entries stays writable and searchable to its owner under the
  umask (or the user is root), and then the copy is the source: the same paths, contents and link
  targets, permissions with the umask applied, special files as regular ones.
\<close>

theorem copy_exact:
  assumes "treeOk (DirNode m ch)"
  shows "copyDirectory env (DirNode m ch) dst Map.empty = Some (fs, None) \<longleftrightarrow>
     fe_lstat env [] = None \<and> copyable env [] (DirNode m ch) \<and> fs = entriesOf (copyOf (fe_umask env) (DirNode m ch))"
proof -
  have pe: "parentErr env Map.empty [] = None" by (simp add: parentErr_def)
  have "walkDir (fe_readDir env) (copyEntry env dst) [] (DirNode m ch) Map.empty = Some (fs, None) \<longleftrightarrow>
      copyable env [] (DirNode m ch) \<and> fs = entriesOf (copyOf (fe_umask env) (DirNode m ch))"
    using walk_exact(1) [OF assms pe, of dst fs] by (simp del: walkDir.simps copyOf.simps entriesOf_simps copyable.simps)
  then show ?thesis
    by (simp add: copyDirectory_def split: option.split del: walkDir.simps copyOf.simps entriesOf_simps copyable.simps)
qed

section \<open>What the scheduling key tells apart\<close>

text \<open>The nodes below the root that the walk collects, in its order.\<close>

fun treeNames :: "string list \<Rightarrow> fsnode \<Rightarrow> string list list"
and namesBelow :: "string list \<Rightarrow> (string \<times> fsnode) list \<Rightarrow> string list list" where
  "treeNames p (DirNode m ch) = (if p = [] then [] else [p]) @ namesBelow p ch"
| "treeNames p (FileNode m c) = (if p = [] then [] else [p])"
| "treeNames p (LinkNode m c) = (if p = [] then [] else [p])"
| "treeNames p (OtherNode m r) = []"
| "namesBelow p [] = []"
| "namesBelow p ((name, n) # rest) = treeNames (p @ [name]) n @ namesBelow p rest"

lemma walk_collect:
  assumes "noErrors env"
  shows "walkDir (fe_readDir env) (collectPath env dir) p t acc = Some (acc @ map (pathOf dir) (treeNames p t), None)"
    and "walkDirs (fe_readDir env) (collectPath env dir) p ch acc = Some (acc @ map (pathOf dir) (namesBelow p ch), None)"
proof (induction p t and p ch arbitrary: acc and acc rule: treeNames_namesBelow.induct)
  case (1 p m ch)
  have "collectPath env dir p (DirNode m ch) acc = Some (acc @ map (pathOf dir) (if p = [] then [] else [p]), None)"
    by (simp add: collectPath_def hashedNode_def noErrors_calls(3) [OF assms])
  then show ?case using 1 by (simp add: noErrors_calls(2) [OF assms, of p])
qed (simp_all add: collectPath_def hashedNode_def noErrors_calls(3) [OF assms])

definition collectedAt :: "fsnode \<Rightarrow> string list \<Rightarrow> bool" where
  "collectedAt t names \<longleftrightarrow> (\<exists>n. lookupTree t names = Some n \<and> hashedNode n)"

lemma collectedAt_simps [simp]:
  "collectedAt (FileNode m c) names \<longleftrightarrow> names = []" "collectedAt (LinkNode m c) names \<longleftrightarrow> names = []"
  "\<not> collectedAt (OtherNode m r) names"
  "collectedAt (DirNode m ch) [] "
  "collectedAt (DirNode m ch) (name # names) \<longleftrightarrow> (\<exists>n. map_of ch name = Some n \<and> collectedAt n names)"
  by (cases names; auto simp: collectedAt_def hashedNode_def split: option.split)+

lemma set_treeNames:
  shows "treeOk t \<Longrightarrow> set (treeNames p t) = {p @ q | q. p @ q \<noteq> [] \<and> collectedAt t q}"
    and "childrenOk ch \<Longrightarrow> distinct (map fst ch) \<Longrightarrow>
      set (namesBelow p ch) = {p @ name # q | name q. \<exists>n. map_of ch name = Some n \<and> collectedAt n q}"
proof (induction p t and p ch rule: treeNames_namesBelow.induct)
  case (1 p m ch)
  then have "set (namesBelow p ch) = {p @ name # q | name q. \<exists>n. map_of ch name = Some n \<and> collectedAt n q}"
    by (simp add: strict_sorted_iff)
  moreover have "{p @ q | q. p @ q \<noteq> [] \<and> collectedAt (DirNode m ch) q} =
      (if p = [] then {} else {p}) \<union> {p @ name # q | name q. \<exists>n. map_of ch name = Some n \<and> collectedAt n q}"
    by (auto simp: neq_Nil_conv) (metis append_Nil2 collectedAt_simps(5) list.exhaust)+
  ultimately show ?case by simp
next
  case (6 p name n rest)
  then have "map_of rest name = None" by (auto simp: map_of_eq_None_iff)
  then show ?case using 6 by (auto split: if_splits) (metis fst_conv image_eqI)+
qed auto

lemma distinct_treeNames:
  shows "treeOk t \<Longrightarrow> distinct (treeNames p t)"
    and "childrenOk ch \<Longrightarrow> distinct (map fst ch) \<Longrightarrow> distinct (namesBelow p ch)"
proof (induction p t and p ch rule: treeNames_namesBelow.induct)
  case (1 p m ch)
  then show ?case using set_treeNames(2) [of ch p] by (auto simp: strict_sorted_iff)
next
  case (6 p name n rest)
  then have "set (treeNames (p @ [name]) n) \<inter> set (namesBelow p rest) = {}"
    using set_treeNames(1) [of n "p @ [name]"] set_treeNames(2) [of rest p] by (auto dest!: map_of_SomeD) force
  with 6 show ?case by simp
qed auto

text \<open>The paths below a directory are ordered as the relative paths are.\<close>

lemma append_le_iff: "p @ a \<le> p @ b \<longleftrightarrow> a \<le> (b :: string)"
  by (induction p) auto

lemma sort_append_prefix: "sort (map ((@) p) xs) = map ((@) p) (sort xs)" for p :: string
proof (rule properties_for_sort)
  show "mset (map ((@) p) (sort xs)) = mset (map ((@) p) xs)" by simp
  show "sorted (map ((@) p) (sort xs))"
    using sorted_sort [of xs] by (simp add: sorted_map append_le_iff sorted_wrt_iff_nth_less)
qed

definition relPath :: "string list \<Rightarrow> string" where
  "relPath = joinStr ''/''"

definition recordText :: "string \<Rightarrow> fsnode \<Rightarrow> string" where
  "recordText rel n = (case n of
      DirNode m _ \<Rightarrow> ''dir:'' @ rel @ nul # showOct (unat m) @ [nul]
    | LinkNode m target \<Rightarrow> ''symlink:'' @ rel @ nul # showOct (unat m) @ nul # target @ [nul]
    | FileNode m c \<Rightarrow> ''file:'' @ rel @ nul # showOct (unat m) @ nul # c @ [nul]
    | OtherNode m r \<Rightarrow> '''')"

definition recordAt :: "fsnode \<Rightarrow> string \<Rightarrow> string" where
  "recordAt t rel = (case lookupTree t (splitByte CHR ''/'' rel) of Some n \<Rightarrow> recordText rel n | None \<Rightarrow> '''')"

definition relPaths :: "fsnode \<Rightarrow> string list" where
  "relPaths t = sort (map relPath (treeNames [] t))"

definition contextText :: "fsnode \<Rightarrow> string" where
  "contextText t = concat (map (recordAt t) (relPaths t))"

lemma lookupTree_names:
  shows "treeOk t \<Longrightarrow> lookupTree t names = Some n \<Longrightarrow> name \<in> set names \<Longrightarrow> nameOk name"
proof (induction t names rule: lookupTree.induct)
  case (2 m ch x names)
  have ok: "nameOk x \<and> treeOk n" if "childrenOk ch" "(x, n) \<in> set ch" for x n ch
    using that by (induction ch) auto
  obtain c where c: "map_of ch x = Some c" "lookupTree c names = Some n" using "2.prems"(2) by (auto split: option.splits)
  then have "nameOk x" "treeOk c" using ok "2.prems"(1) map_of_SomeD [OF c(1)] by auto
  then show ?case using "2.IH" [OF c(1)] c(2) "2.prems"(3) by auto
qed auto

lemma split_relPath:
  assumes "treeOk t" "lookupTree t names = Some n" "names \<noteq> []"
  shows "splitByte CHR ''/'' (relPath names) = names"
  using lookupTree_names [OF assms(1,2)] assms(3) unfolding relPath_def by (intro splitByte_joinStr) (auto simp: nameOk_def)

lemma treeNames_lookup:
  assumes "treeOk t" "names \<in> set (treeNames [] t)"
  shows "\<exists>n. lookupTree t names = Some n \<and> hashedNode n \<and> names \<noteq> [] \<and> splitByte CHR ''/'' (relPath names) = names"
  using assms set_treeNames(1) [OF assms(1), of "[]"] split_relPath [OF assms(1)] by (auto simp: collectedAt_def)

lemma hashRecords_text:
  assumes "noErrors env" "treeOk t" "\<forall>rel \<in> set rels. \<exists>names \<in> set (treeNames [] t). rel = relPath names"
  shows "hashRecords env dir t (map ((@) (dir @ ''/'')) rels) = Some (Inr (concat (map (recordAt t) rels)))"
  using assms(3)
proof (induction rels)
  case (Cons rel rels)
  then obtain names where n: "names \<in> set (treeNames [] t)" "rel = relPath names" by auto
  obtain node where "lookupTree t names = Some node" "hashedNode node" "splitByte CHR ''/'' rel = names"
    using treeNames_lookup [OF assms(2) n(1)] n(2) by auto
  then have "hashRecord env dir t (dir @ ''/'' @ rel) = Some (Inr (recordAt t rel))"
    by (cases node) (auto simp: hashRecord_def hashFile_def recordAt_def recordText_def hashedNode_def noErrors_calls [OF assms(1)] Let_def)
  with Cons show ?case by simp
qed simp

lemma hash_of_input:
  assumes "noErrors env" "treeOk t"
  shows "batch_sourceContextContentHash sha256 env dir t = Some (Inr (''source:'' @ sha256 (contextText t)))"
proof -
  have "map (pathOf dir) (treeNames [] t) = map ((@) (dir @ ''/'')) (map relPath (treeNames [] t))"
    using treeNames_lookup [OF assms(2)] by (auto simp: pathOf_def relPath_def)
  then have "sort (map (pathOf dir) (treeNames [] t)) = map ((@) (dir @ ''/'')) (relPaths t)"
    unfolding relPaths_def by (metis sort_append_prefix)
  moreover have "hashRecords env dir t (map ((@) (dir @ ''/'')) (relPaths t)) = Some (Inr (contextText t))"
    unfolding contextText_def by (rule hashRecords_text [OF assms]) (auto simp: relPaths_def)
  ultimately show ?thesis
    by (simp add: batch_sourceContextContentHash_def noErrors_calls [OF assms(1)] walk_collect(1) [OF assms(1)] Let_def)
qed

text \<open>
  The records of a text: names, permissions and contents without a NUL byte end at the first one, so a
  sequence of records can be read back.
\<close>

datatype node_view = DirView perm | LinkView perm string | FileView perm string | NoView

definition nodeView :: "fsnode \<Rightarrow> node_view" where
  "nodeView n = (case n of
      DirNode m _ \<Rightarrow> DirView m | LinkNode m target \<Rightarrow> LinkView m target | FileNode m c \<Rightarrow> FileView m c
    | OtherNode m r \<Rightarrow> NoView)"

definition textNode :: "fsnode \<Rightarrow> bool" where
  "textNode n \<longleftrightarrow> (case n of FileNode m c \<Rightarrow> nul \<notin> set c | LinkNode m c \<Rightarrow> nul \<notin> set c | _ \<Rightarrow> True)"

lemma nul_field:
  assumes "nul \<notin> set a" "nul \<notin> set b"
  shows "a @ nul # s = b @ nul # t \<longleftrightarrow> a = b \<and> s = t"
proof
  assume e: "a @ nul # s = b @ nul # t"
  have "takeWhile ((\<noteq>) nul) (a @ nul # s) = a" "takeWhile ((\<noteq>) nul) (b @ nul # t) = b"
    using assms by (auto simp: takeWhile_append2 takeWhile_tail)
  with e show "a = b \<and> s = t" by auto
qed simp

lemma showOct_digit: "c \<in> set (showOct n) \<Longrightarrow> \<exists>d < 8. c = digitChar d"
proof (induction n rule: showOct.induct)
  case (1 n)
  have "\<exists>d < 8. digitChar (n mod 8) = digitChar d" by (rule exI [of _ "n mod 8"]) simp
  then show ?case using 1 by (subst (asm) (2) showOct.simps) (auto split: if_splits)
qed

lemma digitChar_inj: "a < 10 \<Longrightarrow> b < 10 \<Longrightarrow> digitChar a = digitChar b \<Longrightarrow> a = b"
  by (metis add_left_cancel of_char_digitChar)

lemma showOct_inj: "showOct a = showOct b \<Longrightarrow> a = b"
proof (induction a arbitrary: b rule: showOct.induct)
  case (1 a)
  have len: "[] \<noteq> showOct n" for n by (subst showOct.simps) simp
  have e: "(if a < 8 then [digitChar a] else showOct (a div 8) @ [digitChar (a mod 8)]) =
      (if b < 8 then [digitChar b] else showOct (b div 8) @ [digitChar (b mod 8)])"
    using "1.prems" showOct.simps by metis
  show ?case
  proof (cases "a < 8 \<or> b < 8")
    case True
    then have "a < 8 \<and> b < 8 \<and> digitChar a = digitChar b" using e len len [symmetric] by (auto split: if_splits)
    then show ?thesis by (auto intro: digitChar_inj)
  next
    case False
    then have "showOct (a div 8) = showOct (b div 8)" "digitChar (a mod 8) = digitChar (b mod 8)" using e by auto
    then have "a div 8 = b div 8" "a mod 8 = b mod 8" using "1.IH" False digitChar_inj [of "a mod 8" "b mod 8"] by auto
    then show ?thesis by (metis div_mult_mod_eq)
  qed
qed

lemma nul_showOct: "nul \<notin> set (showOct n)"
proof
  assume "nul \<in> set (showOct n)"
  then obtain d where "d < 8" "nul = digitChar d" using showOct_digit by blast
  then have "(of_char nul :: nat) = 48 + d" using of_char_digitChar [of d] by simp
  then show False by (simp add: nul_def)
qed

lemma recordText_inj:
  assumes "recordText rel n @ s = recordText rel' n' @ s'" "nul \<notin> set rel" "nul \<notin> set rel'"
    "hashedNode n" "hashedNode n'" "textNode n" "textNode n'"
  shows "rel = rel' \<and> nodeView n = nodeView n' \<and> s = s'"
  using assms
  by (cases n; cases n') (auto simp: recordText_def hashedNode_def textNode_def nodeView_def nul_field nul_showOct word_unat_eq_iff dest!: showOct_inj)

lemma records_inj:
  assumes "concat (map (\<lambda>(rel, n). recordText rel n) xs) = concat (map (\<lambda>(rel, n). recordText rel n) ys)"
    "\<forall>(rel, n) \<in> set xs \<union> set ys. nul \<notin> set rel \<and> hashedNode n \<and> textNode n"
  shows "map (\<lambda>(rel, n). (rel, nodeView n)) xs = map (\<lambda>(rel, n). (rel, nodeView n)) ys"
  using assms
proof (induction xs arbitrary: ys)
  case Nil
  have "recordText rel n \<noteq> ''''" if "hashedNode n" for rel n
    using that by (cases n) (auto simp: recordText_def hashedNode_def)
  with Nil show ?case by (cases ys) force+
next
  case (Cons x xs)
  obtain rel n where x: "x = (rel, n)" by (cases x)
  have ne: "recordText rel n \<noteq> ''''" if "hashedNode n" for rel n
    using that by (cases n) (auto simp: recordText_def hashedNode_def)
  obtain y ys' where ys: "ys = y # ys'" using Cons.prems x ne by (cases ys) force+
  obtain rel' n' where y: "y = (rel', n')" by (cases y)
  have "rel = rel' \<and> nodeView n = nodeView n' \<and>
      concat (map (\<lambda>(rel, n). recordText rel n) xs) = concat (map (\<lambda>(rel, n). recordText rel n) ys')"
    using Cons.prems unfolding x ys y by (intro recordText_inj) auto
  then show ?case using Cons.IH [of ys'] Cons.prems(2) unfolding x ys y by simp
qed

text \<open>
  What the key is meant to depend on: for every path below the root, whether a directory, a link or a
  regular file is there, its permissions and its content. Special files do not count.
\<close>

definition contextView :: "fsnode \<Rightarrow> string list \<Rightarrow> node_view option" where
  "contextView t names = (case lookupTree t names of
      Some n \<Rightarrow> if hashedNode n \<and> names \<noteq> [] then Some (nodeView n) else None | None \<Rightarrow> None)"

fun textTree :: "fsnode \<Rightarrow> bool" and textTrees :: "(string \<times> fsnode) list \<Rightarrow> bool" where
  "textTree (DirNode m ch) \<longleftrightarrow> textTrees ch"
| "textTree (FileNode m c) \<longleftrightarrow> nul \<notin> set c"
| "textTree (LinkNode m c) \<longleftrightarrow> nul \<notin> set c"
| "textTree (OtherNode m r) \<longleftrightarrow> True"
| "textTrees [] \<longleftrightarrow> True"
| "textTrees ((name, n) # rest) \<longleftrightarrow> textTree n \<and> textTrees rest"

lemma textTree_lookup: "textTree t \<Longrightarrow> lookupTree t names = Some n \<Longrightarrow> textNode n"
proof (induction t names rule: lookupTree.induct)
  case (1 t)
  then show ?case by (cases t) (auto simp: textNode_def nodeView_def)
next
  case (2 m ch x names)
  have ok: "textTree n" if "textTrees ch" "(x, n) \<in> set ch" for x n ch
    using that by (induction ch) auto
  obtain c where c: "map_of ch x = Some c" "lookupTree c names = Some n" using "2.prems"(2) by (auto split: option.splits)
  then show ?case using "2.IH" [OF c(1)] ok "2.prems"(1) map_of_SomeD [OF c(1)] by auto
qed auto

lemma contextView_Some:
  "contextView t names = Some v \<longleftrightarrow> (\<exists>n. lookupTree t names = Some n \<and> hashedNode n \<and> names \<noteq> [] \<and> v = nodeView n)"
  by (auto simp: contextView_def split: option.split)

lemma set_treeNames_view: "treeOk t \<Longrightarrow> set (treeNames [] t) = dom (contextView t)"
proof -
  assume "treeOk t"
  moreover have "names \<in> dom (contextView t) \<longleftrightarrow> names \<noteq> [] \<and> collectedAt t names" for names
    by (auto simp: domIff contextView_def collectedAt_def split: option.split)
  ultimately show ?thesis using set_treeNames(1) [of t "[]"] by auto
qed

text \<open>The records as pairs of a relative path and its node.\<close>

definition recordsOf :: "fsnode \<Rightarrow> (string \<times> fsnode) list" where
  "recordsOf t = map (\<lambda>rel. (rel, the (lookupTree t (splitByte CHR ''/'' rel)))) (relPaths t)"

lemma relPaths_mem:
  assumes "treeOk t"
  shows "rel \<in> set (relPaths t) \<longleftrightarrow> rel = relPath (splitByte CHR ''/'' rel) \<and> splitByte CHR ''/'' rel \<in> dom (contextView t)"
proof -
  have split: "splitByte CHR ''/'' (relPath names) = names" if "names \<in> set (treeNames [] t)" for names
    using treeNames_lookup [OF assms that] by blast
  have "rel \<in> set (relPaths t) \<longleftrightarrow> (\<exists>names \<in> set (treeNames [] t). rel = relPath names)" by (auto simp: relPaths_def)
  also have "\<dots> \<longleftrightarrow> rel = relPath (splitByte CHR ''/'' rel) \<and> splitByte CHR ''/'' rel \<in> set (treeNames [] t)"
    by (auto dest: treeNames_lookup [OF assms] simp: split)
  finally show ?thesis by (simp add: set_treeNames_view [OF assms])
qed

lemma contextText_records: "treeOk t \<Longrightarrow> contextText t = concat (map (\<lambda>(rel, n). recordText rel n) (recordsOf t))"
proof -
  assume t: "treeOk t"
  have "recordAt t rel = recordText rel (the (lookupTree t (splitByte CHR ''/'' rel)))" if "rel \<in> set (relPaths t)" for rel
    using that relPaths_mem [OF t] by (auto simp: recordAt_def contextView_def split: option.splits)
  then have "map (recordAt t) (relPaths t) = map (\<lambda>(rel, n). recordText rel n) (recordsOf t)" by (simp add: recordsOf_def)
  then show ?thesis unfolding contextText_def by (rule arg_cong)
qed

lemma recordsOf_view:
  assumes "treeOk t"
  shows "map (\<lambda>(rel, n). (rel, nodeView n)) (recordsOf t) = map (\<lambda>rel. (rel, the (contextView t (splitByte CHR ''/'' rel)))) (relPaths t)"
  using relPaths_mem [OF assms] by (auto simp: recordsOf_def contextView_def split: option.splits if_splits)

lemma relPaths_view:
  assumes "treeOk t1" "treeOk t2"
  shows "contextView t1 = contextView t2 \<Longrightarrow> relPaths t1 = relPaths t2"
proof -
  assume v: "contextView t1 = contextView t2"
  have "distinct (relPaths t)" if "treeOk t" for t
    using distinct_treeNames(1) [OF that, of "[]"] treeNames_lookup [OF that]
    by (auto simp: relPaths_def distinct_map inj_on_def) metis
  moreover have "set (relPaths t1) = set (relPaths t2)" using relPaths_mem [OF assms(1)] relPaths_mem [OF assms(2)] v by auto
  moreover have "sorted (relPaths t)" for t by (simp add: relPaths_def)
  ultimately show ?thesis using assms by (intro sorted_distinct_set_unique) auto
qed

text \<open>Equal contexts give equal records, and a text tells its records.\<close>

lemma contextText_view: "treeOk t1 \<Longrightarrow> treeOk t2 \<Longrightarrow> contextView t1 = contextView t2 \<Longrightarrow> contextText t1 = contextText t2"
proof -
  assume t: "treeOk t1" "treeOk t2" and v: "contextView t1 = contextView t2"
  have same: "recordText rel n = recordText rel n'" if "nodeView n = nodeView n'" "hashedNode n" "hashedNode n'" for rel n n'
    using that by (cases n; cases n') (auto simp: nodeView_def recordText_def hashedNode_def)
  have "recordAt t1 rel = recordAt t2 rel" if r: "rel \<in> set (relPaths t1)" for rel
  proof -
    obtain w where w: "contextView t1 (splitByte CHR ''/'' rel) = Some w" using r relPaths_mem [OF t(1), of rel] by blast
    obtain n1 where n1: "lookupTree t1 (splitByte CHR ''/'' rel) = Some n1" "hashedNode n1" "w = nodeView n1"
      using w by (auto simp: contextView_Some)
    obtain n2 where n2: "lookupTree t2 (splitByte CHR ''/'' rel) = Some n2" "hashedNode n2" "w = nodeView n2"
      using w v by (auto simp: contextView_Some)
    have "nodeView n1 = nodeView n2" using n1(3) n2(3) by (rule subst)
    from same [OF this n1(2) n2(2), of rel] show ?thesis unfolding recordAt_def n1(1) n2(1) by simp
  qed
  then have "map (recordAt t1) (relPaths t1) = map (recordAt t2) (relPaths t1)" by simp
  then show ?thesis unfolding contextText_def using relPaths_view [OF t v] by metis
qed

lemma nul_joinStr: "(\<And>w. w \<in> set ws \<Longrightarrow> nul \<notin> set w) \<Longrightarrow> nul \<notin> set (joinStr ''/'' ws)"
proof (induction ws)
  case (Cons w ws)
  then show ?case by (cases "ws = []") (auto simp: joinStr_Cons nul_def)
qed simp

lemma view_contextText:
  assumes t: "treeOk t1" "treeOk t2" "textTree t1" "textTree t2" and e: "contextText t1 = contextText t2"
  shows "contextView t1 = contextView t2"
proof -
  have ok: "nul \<notin> set rel \<and> hashedNode n \<and> textNode n" if "treeOk t" "textTree t" "(rel, n) \<in> set (recordsOf t)" for t rel n
  proof -
    have "rel \<in> set (relPaths t)" and n: "n = the (lookupTree t (splitByte CHR ''/'' rel))" using that(3) by (auto simp: recordsOf_def)
    then have r: "rel = relPath (splitByte CHR ''/'' rel)" "splitByte CHR ''/'' rel \<in> dom (contextView t)"
      using relPaths_mem [OF that(1)] by auto
    then have l: "lookupTree t (splitByte CHR ''/'' rel) = Some n" "hashedNode n"
      using n by (auto simp: contextView_def split: option.splits if_splits)
    have "nul \<notin> set rel" using lookupTree_names [OF that(1) l(1)] nul_joinStr [of "splitByte CHR ''/'' rel"] r(1)
      unfolding relPath_def nameOk_def by metis
    then show ?thesis using l textTree_lookup [OF that(2) l(1)] by blast
  qed
  have "map (\<lambda>(rel, n). (rel, nodeView n)) (recordsOf t1) = map (\<lambda>(rel, n). (rel, nodeView n)) (recordsOf t2)"
    using e t ok by (intro records_inj) (auto simp: contextText_records)
  then have view: "map (\<lambda>rel. (rel, the (contextView t1 (splitByte CHR ''/'' rel)))) (relPaths t1) =
      map (\<lambda>rel. (rel, the (contextView t2 (splitByte CHR ''/'' rel)))) (relPaths t2)"
    using t by (simp add: recordsOf_view)
  then have "map fst (map (\<lambda>rel. (rel, the (contextView t1 (splitByte CHR ''/'' rel)))) (relPaths t1)) =
      map fst (map (\<lambda>rel. (rel, the (contextView t2 (splitByte CHR ''/'' rel)))) (relPaths t2))" by (rule arg_cong)
  then have p: "relPaths t1 = relPaths t2" by (simp add: comp_def)
  then have v: "\<forall>rel \<in> set (relPaths t1). the (contextView t1 (splitByte CHR ''/'' rel)) = the (contextView t2 (splitByte CHR ''/'' rel))"
    using view by simp
  have mem: "names \<in> dom (contextView t) \<Longrightarrow> relPath names \<in> set (relPaths t) \<and> splitByte CHR ''/'' (relPath names) = names"
    if "treeOk t" for t names
    using treeNames_lookup [OF that, of names] set_treeNames_view [OF that] by (auto simp: relPaths_def)
  have dom: "dom (contextView t1) = dom (contextView t2)"
    using mem [OF t(1)] mem [OF t(2)] p relPaths_mem [OF t(1)] relPaths_mem [OF t(2)] by (metis subsetI subset_antisym)
  show ?thesis
  proof (rule ext)
    fix names
    show "contextView t1 names = contextView t2 names"
    proof (cases "names \<in> dom (contextView t1)")
      case True
      then have "the (contextView t1 names) = the (contextView t2 names)" using v mem [OF t(1) True] by metis
      then show ?thesis using True dom by (metis domD option.sel)
    qed (metis dom domIff)
  qed
qed

text \<open>
  C25. The scheduling key of a directory is the digest of a text that identifies the context: for two trees
  whose files and link targets hold no NUL byte, the texts agree exactly when the trees agree on every
  path, on its kind, permissions and content. Neither the place of the directory nor the order in
  which its entries are met matters.
\<close>

theorem source_hash_identifies:
  assumes "noErrors env1" "noErrors env2" "treeOk t1" "treeOk t2" "textTree t1" "textTree t2"
  shows "\<exists>text1 text2.
     (\<forall>sha256. batch_sourceContextContentHash sha256 env1 dir1 t1 = Some (Inr (''source:'' @ sha256 text1))) \<and>
     (\<forall>sha256. batch_sourceContextContentHash sha256 env2 dir2 t2 = Some (Inr (''source:'' @ sha256 text2))) \<and>
     (text1 = text2 \<longleftrightarrow> contextView t1 = contextView t2)"
  using hash_of_input [OF assms(1,3)] hash_of_input [OF assms(2,4)] contextText_view [OF assms(3,4)] view_contextText [OF assms(3-6)]
  by blast

text \<open>Two contexts: one file whose content spells out a second record, and the two files it spells.\<close>

definition cleanEnv :: "bool \<Rightarrow> perm \<Rightarrow> fs_env" where
  "cleanEnv asRoot umask = \<lparr>fe_root = asRoot, fe_umask = umask, fe_lstat = (\<lambda>_. None), fe_readDir = (\<lambda>_. None), fe_info = (\<lambda>_. None),
     fe_readlink = (\<lambda>_. None), fe_mkdir = (\<lambda>_. None), fe_symlink = (\<lambda>_. None), fe_open = (\<lambda>_. None), fe_create = (\<lambda>_. None),
     fe_copy = (\<lambda>_. None), fe_close = (\<lambda>_. None)\<rparr>"

lemma noErrors_cleanEnv: "noErrors (cleanEnv asRoot umask)"
  by (simp add: noErrors_def cleanEnv_def)

definition twoFiles :: fsnode where
  "twoFiles = DirNode 0x1ED [(''a'', FileNode 0x1A4 ''x''), (''b'', FileNode 0x1A4 ''y'')]"

definition oneFile :: fsnode where
  "oneFile = DirNode 0x1ED [(''a'', FileNode 0x1A4 (''x'' @ [nul] @ ''file:b'' @ [nul] @ ''644'' @ [nul] @ ''y''))]"

text \<open>
  Without the restriction to text the key does not identify the context: a file's content is not
  delimited, so a NUL byte in it can pass for the end of its record.
\<close>

lemma source_hash_collision:
  "contextView oneFile \<noteq> contextView twoFiles"
  "batch_sourceContextContentHash sha256 (cleanEnv False 0) dir oneFile = batch_sourceContextContentHash sha256 (cleanEnv False 0) dir twoFiles"
proof -
  have ok: "treeOk oneFile" "treeOk twoFiles" by (code_simp, code_simp)
  have "contextView oneFile [''b''] \<noteq> contextView twoFiles [''b'']" by code_simp
  then show "contextView oneFile \<noteq> contextView twoFiles" by metis
  have "contextText oneFile = contextText twoFiles" by code_simp
  then show "batch_sourceContextContentHash sha256 (cleanEnv False 0) dir oneFile = batch_sourceContextContentHash sha256 (cleanEnv False 0) dir twoFiles"
    using hash_of_input [OF noErrors_cleanEnv] ok by simp
qed

definition contextTree :: fsnode where
  "contextTree = DirNode 0x1ED [(''Dockerfile'', FileNode 0x1B6 ''FROM scratch''),
     (''nested'', DirNode 0x1E8 [(''link'', LinkNode 0x1FF ''../Dockerfile'')])]"

theorem source_hash_identifies_witness:
  "\<exists>text1 text2.
     (\<forall>sha256. batch_sourceContextContentHash sha256 (cleanEnv False 0) ''/tmp/x'' twoFiles = Some (Inr (''source:'' @ sha256 text1))) \<and>
     (\<forall>sha256. batch_sourceContextContentHash sha256 (cleanEnv True 0) ''/tmp/y'' contextTree = Some (Inr (''source:'' @ sha256 text2))) \<and>
     text1 \<noteq> text2"
proof -
  have ok: "treeOk twoFiles" "textTree twoFiles" "treeOk contextTree" "textTree contextTree" by (code_simp, code_simp, code_simp, code_simp)
  have "contextView twoFiles [''b''] \<noteq> contextView contextTree [''b'']" by code_simp
  then have "contextView twoFiles \<noteq> contextView contextTree" by metis
  then show ?thesis
    using source_hash_identifies [OF noErrors_cleanEnv noErrors_cleanEnv ok(1,3,2,4), of False 0 "''/tmp/x''" True 0 "''/tmp/y''"] by blast
qed

theorem copy_exact_witness:
  "\<exists>fs. copyDirectory (cleanEnv False 0x12) contextTree ''/tmp/copy'' Map.empty = Some (fs, None) \<and>
     fs [''Dockerfile''] = Some (FileEntry 0x1A4 ''FROM scratch'') \<and> fs [''nested'', ''link''] = Some (LinkEntry ''../Dockerfile'')"
proof -
  have ok: "treeOk contextTree" "fe_lstat (cleanEnv False 0x12) [] = None" "copyable (cleanEnv False 0x12) [] contextTree"
    by (code_simp, code_simp, code_simp)
  let ?fs = "entriesOf (copyOf (fe_umask (cleanEnv False 0x12)) contextTree)"
  have "?fs [''Dockerfile''] = Some (FileEntry 0x1A4 ''FROM scratch'')" by code_simp
  moreover have "?fs [''nested'', ''link''] = Some (LinkEntry ''../Dockerfile'')" by code_simp
  ultimately show ?thesis
    using copy_exact [of _ _ "cleanEnv False 0x12" "''/tmp/copy''" ?fs] ok unfolding contextTree_def by blast
qed

end
