(* ===== verification/Batch_Store.thy ===== *)
theory Batch_Store
  imports Batch_Results
begin

text \<open>
  The life of the result database, \<^verbatim>\<open>internal/buildbatch/lmdb_store_linux.go\<close> and the stub of other platforms:
  the calls into the LMDB library that opening, reading, writing, syncing and closing make, in order, with a
  return code for each. \<open>Batch_Results\<close> says what the calls do to the stored entries; here every environment,
  transaction and cursor that was opened is accounted for. \<open>rc call\<close> is the error text of a call, \<^const>\<open>None\<close>
  when it returns 0.
\<close>

section \<open>Calls\<close>

datatype lmdb_call =
    EnvCreate | SetMaxDbs | SetMapSize | EnvOpen | EnvSync | EnvClose | DbiOpen | DbiClose
  | TxnBegin | TxnCommit | TxnAbort | TxnPut | TxnGet | CursorOpen | CursorGet nat | CursorClose

definition lmdbError :: "string \<Rightarrow> string \<Rightarrow> go_error" where
  "lmdbError action msg = Errorf (action @ '': '' @ msg)"

text \<open>A handle: whether its environment is open, and the flag that \<^verbatim>\<open>Close\<close> has been called.\<close>

record lmdb_handle =
  lh_env :: bool
  lh_closed :: bool

definition openLMDBResultDB :: "(lmdb_call \<Rightarrow> string option) \<Rightarrow> go_error option \<Rightarrow> lmdb_call list \<times> lmdb_handle result" where
  "openLMDBResultDB rc mkdirErr = (case mkdirErr of
      Some e \<Rightarrow> ([], Inl e)
    | None \<Rightarrow>
        (case rc EnvCreate of
           Some msg \<Rightarrow> ([EnvCreate], Inl (lmdbError ''create environment'' msg))
         | None \<Rightarrow>
             (case rc SetMaxDbs of
                Some msg \<Rightarrow> ([EnvCreate, SetMaxDbs, EnvClose], Inl (lmdbError ''set max dbs'' msg))
              | None \<Rightarrow>
                  (case rc SetMapSize of
                     Some msg \<Rightarrow> ([EnvCreate, SetMaxDbs, SetMapSize, EnvClose], Inl (lmdbError ''set map size'' msg))
                   | None \<Rightarrow>
                       (case rc EnvOpen of
                          Some msg \<Rightarrow> ([EnvCreate, SetMaxDbs, SetMapSize, EnvOpen, EnvClose], Inl (lmdbError ''open environment'' msg))
                        | None \<Rightarrow>
                            (case rc TxnBegin of
                               Some msg \<Rightarrow> ([EnvCreate, SetMaxDbs, SetMapSize, EnvOpen, TxnBegin, EnvClose], Inl (lmdbError ''begin open transaction'' msg))
                             | None \<Rightarrow>
                                 (case rc DbiOpen of
                                    Some msg \<Rightarrow> ([EnvCreate, SetMaxDbs, SetMapSize, EnvOpen, TxnBegin, DbiOpen, TxnAbort, EnvClose],
                                      Inl (lmdbError ''open database'' msg))
                                  | None \<Rightarrow>
                                      (case rc TxnCommit of
                                         Some msg \<Rightarrow> ([EnvCreate, SetMaxDbs, SetMapSize, EnvOpen, TxnBegin, DbiOpen, TxnCommit, EnvClose],
                                           Inl (lmdbError ''commit open transaction'' msg))
                                       | None \<Rightarrow> ([EnvCreate, SetMaxDbs, SetMapSize, EnvOpen, TxnBegin, DbiOpen, TxnCommit],
                                           Inr \<lparr>lh_env = True, lh_closed = False\<rparr>)))))))))"

definition putCalls :: "(lmdb_call \<Rightarrow> string option) \<Rightarrow> go_error option \<Rightarrow> lmdb_call list \<times> go_error option" where
  "putCalls rc marshalErr = (case marshalErr of
      Some e \<Rightarrow> ([], Some e)
    | None \<Rightarrow>
        (case rc TxnBegin of
           Some msg \<Rightarrow> ([TxnBegin], Some (lmdbError ''begin write transaction'' msg))
         | None \<Rightarrow>
             (case rc TxnPut of
                Some msg \<Rightarrow> ([TxnBegin, TxnPut, TxnAbort], Some (lmdbError ''put entry'' msg))
              | None \<Rightarrow> ([TxnBegin, TxnPut, TxnCommit], map_option (lmdbError ''commit write transaction'') (rc TxnCommit)))))"

text \<open>The deferred \<^verbatim>\<open>mdb_txn_abort\<close> ends a read transaction on every path.\<close>

definition getCalls :: "(lmdb_call \<Rightarrow> string option) \<Rightarrow> lmdb_call list \<times> go_error option" where
  "getCalls rc = (case rc TxnBegin of
      Some msg \<Rightarrow> ([TxnBegin], Some (lmdbError ''begin read transaction'' msg))
    | None \<Rightarrow> ([TxnBegin, TxnGet, TxnAbort], map_option (lmdbError ''get entry'') (rc TxnGet)))"

text \<open>The cursor: \<open>n\<close> entries are left; the call after the last one finds none. \<open>decoded i\<close> is the error of decoding entry \<open>i\<close>.\<close>

fun scanCalls :: "(lmdb_call \<Rightarrow> string option) \<Rightarrow> (nat \<Rightarrow> go_error option) \<Rightarrow> nat \<Rightarrow> nat \<Rightarrow> lmdb_call list \<times> go_error option" where
  "scanCalls rc decoded i 0 = ([CursorGet i], None)"
| "scanCalls rc decoded i (Suc n) = (case rc (CursorGet i) of
      Some msg \<Rightarrow> ([CursorGet i], Some (lmdbError ''iterate cursor'' msg))
    | None \<Rightarrow>
        (case decoded i of
           Some e \<Rightarrow> ([CursorGet i], Some e)
         | None \<Rightarrow> map_prod (\<lambda>cs. CursorGet i # cs) id (scanCalls rc decoded (Suc i) n)))"

definition allCalls :: "(lmdb_call \<Rightarrow> string option) \<Rightarrow> (nat \<Rightarrow> go_error option) \<Rightarrow> nat \<Rightarrow> lmdb_call list \<times> go_error option" where
  "allCalls rc decoded n = (case rc TxnBegin of
      Some msg \<Rightarrow> ([TxnBegin], Some (lmdbError ''begin scan transaction'' msg))
    | None \<Rightarrow>
        (case rc CursorOpen of
           Some msg \<Rightarrow> ([TxnBegin, CursorOpen, TxnAbort], Some (lmdbError ''open cursor'' msg))
         | None \<Rightarrow> map_prod (\<lambda>cs. [TxnBegin, CursorOpen] @ cs @ [CursorClose, TxnAbort]) id (scanCalls rc decoded 0 n)))"

definition lmdb_Sync :: "(lmdb_call \<Rightarrow> string option) \<Rightarrow> lmdb_handle \<Rightarrow> lmdb_call list \<times> go_error option" where
  "lmdb_Sync rc h = (if lh_closed h then ([], None) else ([EnvSync], map_option (lmdbError ''sync environment'') (rc EnvSync)))"

definition lmdb_Close :: "lmdb_handle \<Rightarrow> lmdb_call list \<times> lmdb_handle" where
  "lmdb_Close h =
     (if lh_closed h then ([], h)
      else if lh_env h then ([DbiClose, EnvClose], \<lparr>lh_env = False, lh_closed = True\<rparr>)
      else ([], h\<lparr>lh_closed := True\<rparr>))"

text \<open>Without LMDB every operation but the close is the same error.\<close>

definition stubError :: go_error where
  "stubError = Errorf ''lmdb support requires linux with cgo enabled''"

definition stub_open :: "string \<Rightarrow> lmdb_handle result" where
  "stub_open path = Inl stubError"

section \<open>Using a database\<close>

datatype db_use = UsePut "go_error option" | UseGet | UseAll "nat \<Rightarrow> go_error option" nat | UseSync

definition useCalls :: "(lmdb_call \<Rightarrow> string option) \<Rightarrow> lmdb_handle \<Rightarrow> db_use \<Rightarrow> lmdb_call list" where
  "useCalls rc h u = (case u of
      UsePut marshalErr \<Rightarrow> fst (putCalls rc marshalErr)
    | UseGet \<Rightarrow> fst (getCalls rc)
    | UseAll decoded n \<Rightarrow> fst (allCalls rc decoded n)
    | UseSync \<Rightarrow> fst (lmdb_Sync rc h))"

text \<open>
  A session of a command: open, the uses while it is open, the deferred close. The return codes of each
  part are its own.
\<close>

definition session ::
    "(lmdb_call \<Rightarrow> string option) \<Rightarrow> go_error option \<Rightarrow> ((lmdb_call \<Rightarrow> string option) \<times> db_use) list \<Rightarrow> lmdb_call list \<times> lmdb_handle result" where
  "session rc mkdirErr uses = (case openLMDBResultDB rc mkdirErr of
      (calls, Inl e) \<Rightarrow> (calls, Inl e)
    | (calls, Inr h) \<Rightarrow>
        (case lmdb_Close h of (closing, h') \<Rightarrow> (calls @ concat (map (\<lambda>(rc, u). useCalls rc h u) uses) @ closing, Inr h')))"

section \<open>Everything opened is closed\<close>

text \<open>
  What is open after a sequence of calls: the environment, a transaction of it, a cursor of the
  transaction. A call that is not allowed in a state has no successor; a call that failed opens nothing.
\<close>

datatype lmdb_state = Unopened | EnvOpened | InTxn | InScan

fun lmdb_next :: "bool \<Rightarrow> lmdb_call \<Rightarrow> lmdb_state \<Rightarrow> lmdb_state option" where
  "lmdb_next ok EnvCreate Unopened = Some (if ok then EnvOpened else Unopened)"
| "lmdb_next ok SetMaxDbs EnvOpened = Some EnvOpened"
| "lmdb_next ok SetMapSize EnvOpened = Some EnvOpened"
| "lmdb_next ok EnvOpen EnvOpened = Some EnvOpened"
| "lmdb_next ok EnvSync EnvOpened = Some EnvOpened"
| "lmdb_next ok DbiClose EnvOpened = Some EnvOpened"
| "lmdb_next ok EnvClose EnvOpened = Some Unopened"
| "lmdb_next ok TxnBegin EnvOpened = Some (if ok then InTxn else EnvOpened)"
| "lmdb_next ok DbiOpen InTxn = Some InTxn"
| "lmdb_next ok TxnPut InTxn = Some InTxn"
| "lmdb_next ok TxnGet InTxn = Some InTxn"
| "lmdb_next ok TxnCommit InTxn = Some EnvOpened"
| "lmdb_next ok TxnAbort InTxn = Some EnvOpened"
| "lmdb_next ok CursorOpen InTxn = Some (if ok then InScan else InTxn)"
| "lmdb_next ok (CursorGet i) InScan = Some InScan"
| "lmdb_next ok CursorClose InScan = Some InTxn"
| "lmdb_next ok c s = None"

fun lmdb_after :: "(lmdb_call \<Rightarrow> string option) \<Rightarrow> lmdb_call list \<Rightarrow> lmdb_state \<Rightarrow> lmdb_state option" where
  "lmdb_after rc [] s = Some s"
| "lmdb_after rc (c # cs) s = (case lmdb_next (rc c = None) c s of None \<Rightarrow> None | Some s' \<Rightarrow> lmdb_after rc cs s')"

lemma lmdb_after_append: "lmdb_after rc (cs @ ds) s = (case lmdb_after rc cs s of None \<Rightarrow> None | Some s' \<Rightarrow> lmdb_after rc ds s')"
  by (induction cs arbitrary: s) (auto split: option.split)

lemma open_balanced:
  "lmdb_after rc (fst (openLMDBResultDB rc mkdirErr)) Unopened = Some (case snd (openLMDBResultDB rc mkdirErr) of Inl e \<Rightarrow> Unopened | Inr h \<Rightarrow> EnvOpened)"
  by (auto simp: openLMDBResultDB_def split: option.split)

lemma scan_balanced: "lmdb_after rc (fst (scanCalls rc decoded i n)) InScan = Some InScan"
  by (induction n arbitrary: i) (auto split: option.split)

lemma use_balanced: "lmdb_after rc (useCalls rc h u) EnvOpened = Some EnvOpened"
  by (cases u) (auto simp: useCalls_def putCalls_def getCalls_def allCalls_def lmdb_Sync_def lmdb_after_append scan_balanced split: option.split)

text \<open>
  The calls of a session in order with their codes: opening with its own, each use with its own, and the close.
\<close>

fun uses_after :: "((lmdb_call \<Rightarrow> string option) \<times> lmdb_call list) list \<Rightarrow> lmdb_state \<Rightarrow> lmdb_state option" where
  "uses_after [] s = Some s"
| "uses_after ((rc, calls) # rest) s = (case lmdb_after rc calls s of None \<Rightarrow> None | Some s' \<Rightarrow> uses_after rest s')"

definition sessionParts ::
    "(lmdb_call \<Rightarrow> string option) \<Rightarrow> go_error option \<Rightarrow> ((lmdb_call \<Rightarrow> string option) \<times> db_use) list \<Rightarrow>
     ((lmdb_call \<Rightarrow> string option) \<times> lmdb_call list) list" where
  "sessionParts rc mkdirErr uses = (case openLMDBResultDB rc mkdirErr of
      (calls, Inl e) \<Rightarrow> [(rc, calls)]
    | (calls, Inr h) \<Rightarrow> (rc, calls) # map (\<lambda>(rc, u). (rc, useCalls rc h u)) uses @ [(rc, fst (lmdb_Close h))])"

lemma uses_after_append: "uses_after (xs @ ys) s = (case uses_after xs s of None \<Rightarrow> None | Some s' \<Rightarrow> uses_after ys s')"
  by (induction xs s rule: uses_after.induct) (auto split: option.split)

lemma session_calls: "fst (session rc mkdirErr uses) = concat (map snd (sessionParts rc mkdirErr uses))"
  by (auto simp: session_def sessionParts_def comp_def case_prod_unfold split: sum.split prod.split)

text \<open>
  Whatever the library answers, a session never makes a call in a state that does not allow it, and leaves
  no environment, transaction or cursor open; a second close is no call.
\<close>

lemma session_balanced: "uses_after (sessionParts rc mkdirErr uses) Unopened = Some Unopened"
proof -
  have uses: "uses_after (map (\<lambda>(rc, u). (rc, useCalls rc h u)) uses) EnvOpened = Some EnvOpened" for h
    by (induction uses) (auto simp: use_balanced)
  obtain calls r where o: "openLMDBResultDB rc mkdirErr = (calls, r)" by (metis surj_pair)
  show ?thesis
  proof (cases r)
    case (Inl e)
    then show ?thesis using o open_balanced [of rc mkdirErr] by (simp add: sessionParts_def)
  next
    case (Inr h)
    then have "h = \<lparr>lh_env = True, lh_closed = False\<rparr>" using o by (auto simp: openLMDBResultDB_def split: option.splits)
    then show ?thesis
      using o Inr open_balanced [of rc mkdirErr] uses [of h] by (simp add: sessionParts_def uses_after_append lmdb_Close_def)
  qed
qed

lemma lmdb_Close_twice: "lmdb_Close (snd (lmdb_Close h)) = ([], snd (lmdb_Close h))"
  by (cases h) (simp add: lmdb_Close_def)

end
