(* ===== verification/Observer.thy ===== *)
theory Observer
  imports Build_Client
begin

text \<open>
  The observer of one BuildKit worker: \<^verbatim>\<open>internal/buildobserver/observer.go\<close> and
  \<^verbatim>\<open>cmd/buildkit-observer/main.go\<close>. A snapshot adds up the cache records and counts the builds that are
  running; a sample puts a snapshot into the exported gauges or counts an error. The answers of the worker
  are arguments. A gauge is the integer it was set to: its conversion to a floating-point number is outside
  the model.
\<close>

section \<open>Snapshots\<close>

record usageInfo =
  ui_InUse :: bool
  ui_Size :: int

record snapshot =
  sn_Active :: int
  sn_Bytes :: "(string \<times> int) list"
  sn_Records :: "(string \<times> int) list"

text \<open>\<^verbatim>\<open>m[k] += v\<close> on a map of \<^verbatim>\<open>int64\<close>.\<close>

definition addTo :: "string \<Rightarrow> int \<Rightarrow> (string \<times> int) list \<Rightarrow> (string \<times> int) list" where
  "addTo k v m = AList.update k (wrap64 ((case map_of m k of Some x \<Rightarrow> x | None \<Rightarrow> 0) + v)) m"

definition cacheState :: "usageInfo \<Rightarrow> string" where
  "cacheState r = (if ui_InUse r then ''in_use'' else ''reclaimable'')"

definition summarizeRecord :: "usageInfo \<Rightarrow> snapshot \<Rightarrow> snapshot" where
  "summarizeRecord r s =
     (let s1 = s\<lparr>sn_Records := addTo (cacheState r) 1 (sn_Records s)\<rparr>
      in if 0 < ui_Size r then s1\<lparr>sn_Bytes := addTo (cacheState r) (ui_Size r) (sn_Bytes s1)\<rparr> else s1)"

definition Summarize :: "usageInfo list \<Rightarrow> snapshot" where
  "Summarize usage = fold summarizeRecord usage
     \<lparr>sn_Active = 0, sn_Bytes = [(''in_use'', 0), (''reclaimable'', 0)], sn_Records = [(''in_use'', 0), (''reclaimable'', 0)]\<rparr>"

text \<open>An event of the build history with its record: the reference and whether the build has completed.\<close>

type_synonym history_event = "(string \<times> bool) option"

text \<open>The loop over the events up to the end of the stream, \<^const>\<open>None\<close>, or its error.\<close>

fun readHistory :: "history_event list \<Rightarrow> go_error option \<Rightarrow> string list \<Rightarrow> string list result" where
  "readHistory [] None active = Inr active"
| "readHistory [] (Some e) active = Inl e"
| "readHistory (ev # evs) end active = (case ev of
      Some (ref, completed) \<Rightarrow> readHistory evs end (if completed then active else List.insert ref active)
    | None \<Rightarrow> readHistory evs end active)"

definition observer_Read :: "usageInfo list result \<Rightarrow> (history_event list \<times> go_error option) result \<Rightarrow> snapshot result" where
  "observer_Read usage history = (case usage of
      Inl e \<Rightarrow> Inl e
    | Inr records \<Rightarrow>
        (case history of
           Inl e \<Rightarrow> Inl e
         | Inr (events, end) \<Rightarrow>
             (case readHistory events end [] of
                Inl e \<Rightarrow> Inl e
              | Inr active \<Rightarrow> Inr ((Summarize records)\<lparr>sn_Active := int (length active)\<rparr>))))"

section \<open>Metrics\<close>

record observer_metrics =
  om_up :: int
  om_last :: time
  om_duration :: duration
  om_active :: int
  om_errors :: nat
  om_bytes :: "(string \<times> int) list"
  om_records :: "(string \<times> int) list"

definition NewMetrics :: observer_metrics where
  "NewMetrics = \<lparr>om_up = 0, om_last = 0, om_duration = 0, om_active = 0, om_errors = 0, om_bytes = [], om_records = []\<rparr>"

definition setGauges :: "(string \<times> int) list \<Rightarrow> (string \<times> int) list \<Rightarrow> (string \<times> int) list" where
  "setGauges vals g = foldl (\<lambda>g (state, v). AList.update state v g) g vals"

text \<open>One sample: when it started, when the read was over, when the gauges were set, and what was read.\<close>

record sample =
  sm_started :: time
  sm_read :: time
  sm_set :: time
  sm_result :: "snapshot result"

definition Sample :: "sample \<Rightarrow> observer_metrics \<Rightarrow> observer_metrics" where
  "Sample sm m =
     (let m1 = m\<lparr>om_duration := sm_read sm - sm_started sm\<rparr> in
      case sm_result sm of
        Inl e \<Rightarrow> m1\<lparr>om_up := 0, om_errors := om_errors m1 + 1\<rparr>
      | Inr s \<Rightarrow> m1\<lparr>om_bytes := setGauges (sn_Bytes s) (om_bytes m1), om_records := setGauges (sn_Records s) (om_records m1),
          om_active := sn_Active s, om_last := sm_set sm, om_up := 1\<rparr>)"

section \<open>The program\<close>

record observer_flags =
  of_addr :: string
  of_listen :: string
  of_interval :: duration
  of_timeout :: duration
  of_tlsdir :: string
  of_tlsservername :: string

definition observerDefaults :: observer_flags where
  "observerDefaults = \<lparr>of_addr = ''tcp://127.0.0.1:9094'', of_listen = '':9301'', of_interval = 30 * second, of_timeout = 5 * second,
     of_tlsdir = '''', of_tlsservername = ''''\<rparr>"

definition observerClientOpts :: "observer_flags \<Rightarrow> client_opt list" where
  "observerClientOpts fl =
     (if of_tlsdir fl \<noteq> '''' then
        [WithServerConfig (of_tlsservername fl) (filepathJoin (of_tlsdir fl) ''ca.pem''),
         WithCredentials (filepathJoin (of_tlsdir fl) ''cert.pem'') (filepathJoin (of_tlsdir fl) ''key.pem'')]
      else [])"

text \<open>
  \<^verbatim>\<open>run\<close>: \<open>new\<close> is the error of dialling with the options. The polling goroutine samples once at the start and
  then at every tick; \<open>served\<close> is the error of \<^verbatim>\<open>ListenAndServe\<close>, \<^const>\<open>None\<close> for \<^verbatim>\<open>http.ErrServerClosed\<close>. The
  result is the error of the program and the metrics after the samples.
\<close>

definition observer_run ::
    "(string \<Rightarrow> client_opt list \<Rightarrow> go_error option) \<Rightarrow> sample list \<Rightarrow> go_error option \<Rightarrow> observer_flags \<Rightarrow> go_error option \<times> observer_metrics" where
  "observer_run new samples served fl =
     (if of_interval fl \<le> 0 \<or> of_timeout fl \<le> 0 then (Some (Errorf ''interval and timeout must be positive''), NewMetrics)
      else case new (of_addr fl) (observerClientOpts fl) of
        Some e \<Rightarrow> (Some e, NewMetrics)
      | None \<Rightarrow> (served, fold Sample samples NewMetrics))"

section \<open>What a snapshot says\<close>

lemma wrap64_add: "wrap64 (wrap64 a + b) = wrap64 (a + b)"
  by (simp add: wrap64_def mod_simps algebra_simps)

definition bytesOf :: "string \<Rightarrow> usageInfo list \<Rightarrow> int" where
  "bytesOf state usage = sum_list (map ui_Size (filter (\<lambda>r. cacheState r = state \<and> 0 < ui_Size r) usage))"

definition recordsIn :: "string \<Rightarrow> usageInfo list \<Rightarrow> int" where
  "recordsIn state usage = int (length (filter (\<lambda>r. cacheState r = state) usage))"

lemma map_of_addTo: "map_of (addTo k v m) k' = (if k' = k then Some (wrap64 ((case map_of m k of Some x \<Rightarrow> x | None \<Rightarrow> 0) + v)) else map_of m k')"
  by (simp add: addTo_def update_conv')

lemma Summarize_fold:
  assumes "map_of (sn_Bytes s) state = Some (wrap64 b)" "map_of (sn_Records s) state = Some (wrap64 n)"
  shows "map_of (sn_Bytes (fold summarizeRecord usage s)) state = Some (wrap64 (b + bytesOf state usage)) \<and>
     map_of (sn_Records (fold summarizeRecord usage s)) state = Some (wrap64 (n + recordsIn state usage))"
  using assms
proof (induction usage arbitrary: s b n)
  case (Cons r usage)
  let ?s = "summarizeRecord r s"
  let ?b = "if cacheState r = state \<and> 0 < ui_Size r then b + ui_Size r else b"
  let ?n = "if cacheState r = state then n + 1 else n"
  have "map_of (sn_Bytes ?s) state = Some (wrap64 ?b)" "map_of (sn_Records ?s) state = Some (wrap64 ?n)"
    using Cons.prems by (auto simp: summarizeRecord_def map_of_addTo wrap64_add Let_def)
  from Cons.IH [OF this] show ?case by (auto simp: bytesOf_def recordsIn_def ac_simps)
qed (simp add: bytesOf_def recordsIn_def)

lemma fst_addTo: "k \<in> fst ` set m \<Longrightarrow> map fst (addTo k v m) = map fst m"
  by (simp add: addTo_def update_keys)

abbreviation cacheStates :: "string list" where
  "cacheStates \<equiv> [''in_use'', ''reclaimable'']"

lemma Summarize_keys:
  "map fst (sn_Bytes (Summarize usage)) = cacheStates \<and> map fst (sn_Records (Summarize usage)) = cacheStates"
proof -
  have "map fst (sn_Bytes (fold summarizeRecord usage s)) = cacheStates \<and> map fst (sn_Records (fold summarizeRecord usage s)) = cacheStates"
    if "map fst (sn_Bytes s) = cacheStates" "map fst (sn_Records s) = cacheStates" for s
    using that
  proof (induction usage arbitrary: s)
    case (Cons r usage)
    have k: "cacheState r \<in> fst ` set m" if "map fst m = cacheStates" for m :: "(string \<times> int) list"
      using arg_cong [OF that, of set] by (simp add: cacheState_def)
    have "map fst (sn_Bytes (summarizeRecord r s)) = cacheStates" "map fst (sn_Records (summarizeRecord r s)) = cacheStates"
      using Cons.prems k by (simp_all add: summarizeRecord_def fst_addTo Let_def)
    then show ?case using Cons.IH by simp
  qed simp
  then show ?thesis by (simp add: Summarize_def)
qed

lemma readHistory_active:
  "readHistory evs end active = (case end of
      Some e \<Rightarrow> Inl e
    | None \<Rightarrow> Inr (fold (\<lambda>ev active. case ev of Some (ref, False) \<Rightarrow> List.insert ref active | _ \<Rightarrow> active) evs active))"
  by (induction evs "end" active rule: readHistory.induct) (auto split: option.split bool.split)

lemma active_refs:
  assumes "distinct active"
  shows "length (fold (\<lambda>ev active. case ev of Some (ref, False) \<Rightarrow> List.insert ref active | _ \<Rightarrow> active) evs active)
     = card (set active \<union> {ref. Some (ref, False) \<in> set evs})"
  using assms
proof (induction evs arbitrary: active)
  case (Cons ev evs)
  have "set (case ev of Some (ref, False) \<Rightarrow> List.insert ref active | _ \<Rightarrow> active) \<union> {ref. Some (ref, False) \<in> set evs}
      = set active \<union> {ref. Some (ref, False) \<in> set (ev # evs)}" by (auto split: option.splits bool.splits)
  moreover have "distinct (case ev of Some (ref, False) \<Rightarrow> List.insert ref active | _ \<Rightarrow> active)"
    using Cons.prems by (auto split: option.split bool.split)
  ultimately show ?case using Cons.IH by simp
qed (simp add: distinct_card)

lemma Summarize_maps:
  "map_of (sn_Bytes (Summarize usage)) = [''in_use'' \<mapsto> wrap64 (bytesOf ''in_use'' usage), ''reclaimable'' \<mapsto> wrap64 (bytesOf ''reclaimable'' usage)]"
  "map_of (sn_Records (Summarize usage)) = [''in_use'' \<mapsto> wrap64 (recordsIn ''in_use'' usage), ''reclaimable'' \<mapsto> wrap64 (recordsIn ''reclaimable'' usage)]"
proof -
  have z: "wrap64 0 = 0" by (simp add: wrap64_id)
  have f: "map_of (sn_Bytes (Summarize usage)) state = Some (wrap64 (bytesOf state usage)) \<and>
      map_of (sn_Records (Summarize usage)) state = Some (wrap64 (recordsIn state usage))" if "state \<in> set cacheStates" for state
    unfolding Summarize_def using that z Summarize_fold [where b = 0 and n = 0 and state = state and usage = usage] by auto
  have none: "map_of m k = None" if "map fst m = cacheStates" "k \<notin> set cacheStates" for m :: "(string \<times> int) list" and k
    using arg_cong [OF that(1), of set] that(2) by (simp add: map_of_eq_None_iff)
  show "map_of (sn_Bytes (Summarize usage)) = [''in_use'' \<mapsto> wrap64 (bytesOf ''in_use'' usage), ''reclaimable'' \<mapsto> wrap64 (bytesOf ''reclaimable'' usage)]"
    by (rule ext, rename_tac k, case_tac "k \<in> set cacheStates") (use f none Summarize_keys in auto)
  show "map_of (sn_Records (Summarize usage)) = [''in_use'' \<mapsto> wrap64 (recordsIn ''in_use'' usage), ''reclaimable'' \<mapsto> wrap64 (recordsIn ''reclaimable'' usage)]"
    by (rule ext, rename_tac k, case_tac "k \<in> set cacheStates") (use f none Summarize_keys in auto)
qed

text \<open>
  A snapshot says what the worker reports: for each of the two states of a cache record, the number of
  records and the sum of their positive sizes as 64-bit numbers, and the number of different builds that some
  event of the history shows as not completed. The end of the stream is the only way to a snapshot.
\<close>

theorem snapshot_accounts:
  assumes "observer_Read usage history = Inr s"
  shows "\<exists>records events. usage = Inr records \<and> history = Inr (events, None) \<and>
    sn_Active s = int (card {ref. Some (ref, False) \<in> set events}) \<and>
    map_of (sn_Bytes s) = [''in_use'' \<mapsto> wrap64 (bytesOf ''in_use'' records), ''reclaimable'' \<mapsto> wrap64 (bytesOf ''reclaimable'' records)] \<and>
    map_of (sn_Records s) = [''in_use'' \<mapsto> wrap64 (recordsIn ''in_use'' records), ''reclaimable'' \<mapsto> wrap64 (recordsIn ''reclaimable'' records)]"
proof -
  obtain records events where r: "usage = Inr records" "history = Inr (events, None)"
    using assms by (auto simp: observer_Read_def readHistory_active split: sum.splits option.splits)
  then have "s = (Summarize records)\<lparr>sn_Active := int (card {ref. Some (ref, False) \<in> set events})\<rparr>"
    using assms active_refs [of "[]" events] by (simp add: observer_Read_def readHistory_active)
  then show ?thesis using r Summarize_maps [of records] by simp
qed

theorem snapshot_accounts_witness:
  "\<exists>s. observer_Read (Inr [\<lparr>ui_InUse = True, ui_Size = 5\<rparr>, \<lparr>ui_InUse = True, ui_Size = - 1\<rparr>]) (Inr ([Some (''b'', False), Some (''b'', False)], None)) = Inr s \<and>
     sn_Active s = 1 \<and> map_of (sn_Records s) ''in_use'' = Some 2"
proof -
  let ?u = "Inr [\<lparr>ui_InUse = True, ui_Size = 5\<rparr>, \<lparr>ui_InUse = True, ui_Size = - 1\<rparr>] :: usageInfo list result"
  let ?h = "Inr ([Some (''b'', False), Some (''b'', False)], None) :: (history_event list \<times> go_error option) result"
  obtain s where s: "observer_Read ?u ?h = Inr s" by (simp add: observer_Read_def)
  have "{ref. Some (ref, False) \<in> set [Some (''b'', False), Some (''b'', False)]} = {''b''}" by auto
  then show ?thesis using s snapshot_accounts [OF s] by (simp add: recordsIn_def cacheState_def wrap64_def)
qed

section \<open>What the metrics say\<close>

lemma map_of_setGauges: "distinct (map fst vals) \<Longrightarrow> map_of (setGauges vals g) k = (case map_of vals k of Some v \<Rightarrow> Some v | None \<Rightarrow> map_of g k)"
proof (induction vals arbitrary: g)
  case (Cons x vals)
  then have "map_of vals (fst x) = None" by (simp add: map_of_eq_None_iff)
  with Cons show ?case by (cases x) (auto simp: setGauges_def update_conv' split: option.split)
qed (simp add: setGauges_def)

definition failedSample :: "sample \<Rightarrow> bool" where
  "failedSample sm \<longleftrightarrow> (case sm_result sm of Inl e \<Rightarrow> True | Inr s \<Rightarrow> False)"

lemma Sample_failed:
  "failedSample sm \<Longrightarrow> Sample sm m = m\<lparr>om_duration := sm_read sm - sm_started sm, om_up := 0, om_errors := om_errors m + 1\<rparr>"
  by (auto simp: failedSample_def Sample_def split: sum.splits)

lemma Sample_errors: "om_errors (fold Sample sms m) = om_errors m + length (filter failedSample sms)"
  by (induction sms arbitrary: m) (auto simp: Sample_def failedSample_def Let_def split: sum.splits)

lemma Sample_keeps:
  assumes "list_all failedSample sms"
  shows "om_active (fold Sample sms m) = om_active m" "om_last (fold Sample sms m) = om_last m"
    "om_bytes (fold Sample sms m) = om_bytes m" "om_records (fold Sample sms m) = om_records m"
    "om_up (fold Sample sms m) = (if sms = [] then om_up m else 0)"
  using assms by (induction sms arbitrary: m) (simp_all add: Sample_failed)

text \<open>
  C26. After any sequence of samples the exported metrics are those of the last snapshot that succeeded,
  with the time at which it was taken: failed samples change nothing but the duration, the flag
  \<^verbatim>\<open>observer_up\<close>, which is 1 exactly when the last sample succeeded, and the error counter, which counts them all.
\<close>

theorem metrics_last_success:
  assumes "0 < of_interval fl" "0 < of_timeout fl" "new (of_addr fl) (observerClientOpts fl) = None"
    and "sms = before @ ok # failed" "sm_result ok = observer_Read usage history" "sm_result ok = Inr s" "list_all failedSample failed"
    and "observer_run new sms served fl = (err, m)"
  shows "err = served \<and> om_errors m = length (filter failedSample sms) \<and> om_up m = (if failed = [] then 1 else 0) \<and>
     om_last m = sm_set ok \<and> om_active m = sn_Active s \<and>
     (\<forall>state v. map_of (sn_Bytes s) state = Some v \<longrightarrow> map_of (om_bytes m) state = Some v) \<and>
     (\<forall>state v. map_of (sn_Records s) state = Some v \<longrightarrow> map_of (om_records m) state = Some v)"
proof -
  have m: "m = fold Sample failed (Sample ok (fold Sample before NewMetrics))" and e: "err = served" and r: "m = fold Sample sms NewMetrics"
    using assms(1-4,8) by (auto simp: observer_run_def)
  obtain records where "sn_Bytes s = sn_Bytes (Summarize records)" "sn_Records s = sn_Records (Summarize records)"
    using assms(5,6) by (auto simp: observer_Read_def split: sum.splits)
  then have d: "distinct (map fst (sn_Bytes s))" "distinct (map fst (sn_Records s))" using Summarize_keys [of records] by auto
  show ?thesis
    using e Sample_errors [of sms NewMetrics] unfolding r [symmetric]
    unfolding m Sample_keeps [OF assms(7)]
    using assms(6) by (simp add: Sample_def map_of_setGauges [OF d(1)] map_of_setGauges [OF d(2)] NewMetrics_def Let_def)
qed

definition demoSnapshot :: "snapshot result" where
  "demoSnapshot = observer_Read (Inr [\<lparr>ui_InUse = True, ui_Size = 5\<rparr>]) (Inr ([], None))"

definition goodSample :: sample where
  "goodSample = \<lparr>sm_started = 1, sm_read = 2, sm_set = 3, sm_result = demoSnapshot\<rparr>"

definition badSample :: sample where
  "badSample = \<lparr>sm_started = 4, sm_read = 9, sm_set = 0, sm_result = Inl context_DeadlineExceeded\<rparr>"

theorem metrics_last_success_witness:
  "\<exists>m. observer_run (\<lambda>_ _. None) [goodSample, badSample] None observerDefaults = (None, m) \<and>
     om_up m = 0 \<and> om_errors m = 1 \<and> om_last m = 3 \<and> map_of (om_bytes m) ''in_use'' = Some 5"
proof -
  obtain err m where run: "observer_run (\<lambda>_ _. None) [goodSample, badSample] None observerDefaults = (err, m)" by (metis surj_pair)
  obtain s where s: "demoSnapshot = Inr s" "map_of (sn_Bytes s) ''in_use'' = Some 5"
    by (simp add: demoSnapshot_def observer_Read_def Summarize_def summarizeRecord_def cacheState_def addTo_def wrap64_def)
  have f: "filter failedSample [goodSample, badSample] = [badSample]" "list_all failedSample [badSample]"
    by (simp_all add: failedSample_def goodSample_def badSample_def s(1))
  have "err = None \<and> om_errors m = length (filter failedSample [goodSample, badSample]) \<and> om_up m = (if [badSample] = [] then 1 else 0) \<and>
     om_last m = sm_set goodSample \<and> om_active m = sn_Active s \<and>
     (\<forall>state v. map_of (sn_Bytes s) state = Some v \<longrightarrow> map_of (om_bytes m) state = Some v) \<and>
     (\<forall>state v. map_of (sn_Records s) state = Some v \<longrightarrow> map_of (om_records m) state = Some v)"
    using run f(2) s(1) demoSnapshot_def
    by (intro metrics_last_success [where before = "[]" and usage = "Inr [\<lparr>ui_InUse = True, ui_Size = 5\<rparr>]" and history = "Inr ([], None)"])
       (auto simp: observerDefaults_def goodSample_def)
  then show ?thesis using run f(1) s(2) by (simp add: goodSample_def)
qed

end
