(* ===== verification/Command_Lines.thy ===== *)
theory Command_Lines
  imports Daemon_Config Batch_Daemon
begin

text \<open>
  The command lines of the two programs, \<^verbatim>\<open>cmd/buildctl-daemon/cli.go\<close> and \<^verbatim>\<open>cmd/buildctl-batch/cli.go\<close>: the
  flags they declare, the configurations they fill from them, and the start of tracing,
  \<^verbatim>\<open>pkg/telemetry/telemetry.go\<close>, that comes before a command runs. The flag library is outside: a context
  is the values it returns by name, and \<open>cli_reads\<close> says what they are for given settings of flags.
\<close>

section \<open>Flags\<close>

record cli_context =
  cli_String :: "string \<Rightarrow> string"
  cli_StringSlice :: "string \<Rightarrow> string list"
  cli_Bool :: "string \<Rightarrow> bool"
  cli_Int :: "string \<Rightarrow> int"
  cli_Int64 :: "string \<Rightarrow> int"
  cli_Uint64 :: "string \<Rightarrow> nat"
  cli_Duration :: "string \<Rightarrow> duration"
  cli_FirstArg :: string

text \<open>A flag with its value: the default where it is declared, the given one where it is set.\<close>

datatype cli_flag =
    StringFlag string string
  | StringSliceFlag string "string list"
  | BoolFlag string bool
  | IntFlag string int
  | Int64Flag string int
  | Uint64Flag string nat
  | DurationFlag string duration

definition cli_reads :: "cli_context \<Rightarrow> cli_flag list \<Rightarrow> bool" where
  "cli_reads c flags = list_all (\<lambda>f. case f of
      StringFlag name v \<Rightarrow> cli_String c name = v
    | StringSliceFlag name v \<Rightarrow> cli_StringSlice c name = v
    | BoolFlag name v \<Rightarrow> cli_Bool c name = v
    | IntFlag name v \<Rightarrow> cli_Int c name = v
    | Int64Flag name v \<Rightarrow> cli_Int64 c name = v
    | Uint64Flag name v \<Rightarrow> cli_Uint64 c name = v
    | DurationFlag name v \<Rightarrow> cli_Duration c name = v) flags"

text \<open>The declaration of a flag without its value.\<close>

definition flagDecl :: "cli_flag \<Rightarrow> cli_flag" where
  "flagDecl f = (case f of
      StringFlag name v \<Rightarrow> StringFlag name ''''
    | StringSliceFlag name v \<Rightarrow> StringSliceFlag name []
    | BoolFlag name v \<Rightarrow> BoolFlag name False
    | IntFlag name v \<Rightarrow> IntFlag name 0
    | Int64Flag name v \<Rightarrow> Int64Flag name 0
    | Uint64Flag name v \<Rightarrow> Uint64Flag name 0
    | DurationFlag name v \<Rightarrow> DurationFlag name 0)"

section \<open>buildctl-daemon\<close>

definition daemonFlags :: "cli_flag list" where
  "daemonFlags =
     [StringFlag ''listen'' (c_Listen DefaultConfig),
      StringFlag ''buildkitd-addr'' (c_BuildkitdAddrs DefaultConfig),
      StringFlag ''auth-token'' '''',
      StringFlag ''auth-token-file'' '''',
      StringFlag ''work-dir'' (c_WorkDir DefaultConfig),
      StringFlag ''default-mode'' (c_DefaultMode DefaultConfig),
      StringFlag ''modes-json'' '''',
      StringFlag ''routing-targets-json'' '''',
      DurationFlag ''keep-ttl'' (c_KeepTTL DefaultConfig),
      StringFlag ''pprof-listen'' '''',
      Int64Flag ''max-log-bytes'' (c_MaxLogBytes DefaultConfig),
      Int64Flag ''max-request-bytes'' (c_MaxRequestBytes DefaultConfig),
      Int64Flag ''max-extracted-bytes'' (c_MaxExtractedBytes DefaultConfig),
      IntFlag ''max-archive-files'' (c_MaxArchiveFiles DefaultConfig),
      IntFlag ''max-retained-tasks'' (c_MaxRetainedTasks DefaultConfig),
      Int64Flag ''max-work-dir-bytes'' (c_MaxWorkDirBytes DefaultConfig),
      DurationFlag ''upload-read-timeout'' (c_UploadReadTimeout DefaultConfig),
      IntFlag ''addr-concurrency'' (c_AddrConcurrency DefaultConfig),
      IntFlag ''max-concurrency'' 0,
      Uint64Flag ''rlimit-nofile'' 0,
      DurationFlag ''registry-check-timeout'' (c_RegistryTimeout DefaultConfig),
      StringFlag ''registry-check-host-rules'' '''',
      IntFlag ''registry-check-concurrency'' (c_RegistryChecks DefaultConfig),
      StringFlag ''tlscacert'' '''',
      StringFlag ''tlscert'' '''',
      StringFlag ''tlskey'' '''',
      StringFlag ''tlsdir'' '''',
      StringFlag ''tlsservername'' '''']"

definition configFromCLI :: "cli_context \<Rightarrow> Config" where
  "configFromCLI c =
     \<lparr>c_Listen = cli_String c ''listen'', c_BuildkitdAddrs = cli_String c ''buildkitd-addr'',
      c_AuthToken = cli_String c ''auth-token'', c_AuthTokenFile = cli_String c ''auth-token-file'',
      c_WorkDir = cli_String c ''work-dir'', c_DefaultMode = cli_String c ''default-mode'',
      c_ModesJSON = cli_String c ''modes-json'', c_RoutingTargetsJSON = cli_String c ''routing-targets-json'',
      c_KeepTTL = cli_Duration c ''keep-ttl'', c_PprofListen = cli_String c ''pprof-listen'',
      c_MaxLogBytes = cli_Int64 c ''max-log-bytes'', c_MaxRequestBytes = cli_Int64 c ''max-request-bytes'',
      c_MaxExtractedBytes = cli_Int64 c ''max-extracted-bytes'', c_MaxArchiveFiles = cli_Int c ''max-archive-files'',
      c_MaxRetainedTasks = cli_Int c ''max-retained-tasks'', c_MaxWorkDirBytes = cli_Int64 c ''max-work-dir-bytes'',
      c_UploadReadTimeout = cli_Duration c ''upload-read-timeout'', c_AddrConcurrency = cli_Int c ''addr-concurrency'',
      c_MaxConcurrency = cli_Int c ''max-concurrency'', c_RLimitNoFile = cli_Uint64 c ''rlimit-nofile'',
      c_RegistryTimeout = cli_Duration c ''registry-check-timeout'', c_RegistryRules = cli_String c ''registry-check-host-rules'',
      c_RegistryChecks = cli_Int c ''registry-check-concurrency'',
      c_TLS = \<lparr>tls_CACert = cli_String c ''tlscacert'', tls_Cert = cli_String c ''tlscert'', tls_Key = cli_String c ''tlskey'',
        tls_Dir = cli_String c ''tlsdir'', tls_ServerName = cli_String c ''tlsservername''\<rparr>\<rparr>"

text \<open>\<^verbatim>\<open>runCommand\<close>: \<open>app\<close> is the error of the application on the arguments; the result is the text and the exit code.\<close>

definition runCommand :: "go_error option \<Rightarrow> string \<times> nat" where
  "runCommand app = (case app of Some e \<Rightarrow> (''buildctl-daemon: '' @ err_text e @ [CHR 0x0A], 1) | None \<Rightarrow> ('''', 0))"

section \<open>buildctl-batch\<close>

definition buildFlags :: "cli_flag list" where
  "buildFlags =
     [StringFlag ''image-dirs'' '''', StringFlag ''addrs'' '''', StringSliceFlag ''var'' [],
      IntFlag ''concurrency'' (bcf_Concurrency batch_DefaultConfig), BoolFlag ''fail-fast'' False, BoolFlag ''oci'' False,
      BoolFlag ''both-formats'' False, DurationFlag ''oom-cooldown'' (bcf_OOMCooldown batch_DefaultConfig),
      StringFlag ''result'' (bcf_ResultPath batch_DefaultConfig), StringFlag ''logs'' (bcf_LogsPath batch_DefaultConfig),
      IntFlag ''timeout'' (bcf_Timeout batch_DefaultConfig), IntFlag ''retry'' 0, BoolFlag ''skip-fail'' False, BoolFlag ''verbose'' False]"

definition buildConfigFromCLI :: "cli_context \<Rightarrow> batch_config" where
  "buildConfigFromCLI c =
     \<lparr>bcf_ImageDirs = cli_String c ''image-dirs'', bcf_Addrs = cli_String c ''addrs'', bcf_Variables = cli_StringSlice c ''var'',
      bcf_Concurrency = cli_Int c ''concurrency'', bcf_FailFast = cli_Bool c ''fail-fast'', bcf_OCI = cli_Bool c ''oci'',
      bcf_BothFormats = cli_Bool c ''both-formats'', bcf_OOMCooldown = cli_Duration c ''oom-cooldown'',
      bcf_ResultPath = cli_String c ''result'', bcf_LogsPath = cli_String c ''logs'', bcf_Timeout = cli_Int c ''timeout'',
      bcf_Retry = cli_Int c ''retry'', bcf_Verbose = cli_Bool c ''verbose'', bcf_Target = trimSpace (cli_FirstArg c),
      bcf_SkipFail = cli_Bool c ''skip-fail''\<rparr>"

definition exportFlags :: "cli_flag list" where
  "exportFlags =
     [StringFlag ''from-result'' (xo_fromResultPath DefaultExportConfig), StringFlag ''result'' (xo_resultPath DefaultExportConfig),
      BoolFlag ''oci'' False, BoolFlag ''with-fail'' False]"

definition exportConfigFromCLI :: "cli_context \<Rightarrow> export_options" where
  "exportConfigFromCLI c =
     \<lparr>xo_fromResultPath = cli_String c ''from-result'', xo_resultPath = cli_String c ''result'', xo_oci = cli_Bool c ''oci'',
      xo_withFail = cli_Bool c ''with-fail''\<rparr>"

definition preheatFlags :: "cli_flag list" where
  "preheatFlags =
     [StringFlag ''from-result'' (po_fromResultPath DefaultPreheatConfig), StringFlag ''dragonfly-scheduler-addr'' '''',
      IntFlag ''concurrency'' (po_concurrency DefaultPreheatConfig), IntFlag ''interval'' (po_interval DefaultPreheatConfig),
      IntFlag ''timeout'' (po_timeout DefaultPreheatConfig), BoolFlag ''fail-fast'' False, BoolFlag ''oci'' False, BoolFlag ''verbose'' False]"

definition preheatConfigFromCLI :: "cli_context \<Rightarrow> preheat_options" where
  "preheatConfigFromCLI c =
     \<lparr>po_fromResultPath = cli_String c ''from-result'', po_schedulerAddr = cli_String c ''dragonfly-scheduler-addr'',
      po_concurrency = cli_Int c ''concurrency'', po_interval = cli_Int c ''interval'', po_timeout = cli_Int c ''timeout'',
      po_failfast = cli_Bool c ''fail-fast'', po_oci = cli_Bool c ''oci'', po_verbose = cli_Bool c ''verbose''\<rparr>"

record DaemonConfig =
  dcf_Socket :: string
  dcf_Addrs :: string
  dcf_Auth :: string

definition DefaultDaemonConfig :: DaemonConfig where
  "DefaultDaemonConfig = \<lparr>dcf_Socket = ''/tmp/buildctl-batch.sock'', dcf_Addrs = '''', dcf_Auth = ''''\<rparr>"

definition batchDaemonFlags :: "cli_flag list" where
  "batchDaemonFlags = [StringFlag ''socket'' (dcf_Socket DefaultDaemonConfig), StringFlag ''addrs'' '''', StringFlag ''auth'' '''']"

definition daemonConfigFromCLI :: "cli_context \<Rightarrow> DaemonConfig" where
  "daemonConfigFromCLI c = \<lparr>dcf_Socket = cli_String c ''socket'', dcf_Addrs = cli_String c ''addrs'', dcf_Auth = cli_String c ''auth''\<rparr>"

definition resolvePprofServerAddr :: "(string \<Rightarrow> string) \<Rightarrow> string \<Rightarrow> string" where
  "resolvePprofServerAddr getenv flagValue =
     (let trimmed = trimSpace flagValue in
      if trimmed \<noteq> '''' then trimmed else trimSpace (getenv ''BUILDCTL_BATCH_PPROF_SERVER''))"

section \<open>Tracing\<close>

datatype trace_exporter = GrpcExporter | HttpExporter

text \<open>What \<^verbatim>\<open>Start\<close> leaves behind: nothing, or a provider for the service, and whether an exporter was shut down again.\<close>

datatype tracing = NoTracing | Tracing trace_exporter string

definition telemetry_Start ::
    "(string \<Rightarrow> string) \<Rightarrow> (trace_exporter \<Rightarrow> go_error option) \<Rightarrow> go_error option \<Rightarrow> string \<Rightarrow> tracing \<times> trace_exporter list \<times> go_error option" where
  "telemetry_Start getenv newErr resourceErr service =
     (let exporter = getenv ''OTEL_TRACES_EXPORTER'' in
      if exporter = ''none'' \<or> (exporter = '''' \<and> getenv ''OTEL_EXPORTER_OTLP_ENDPOINT'' = '''' \<and> getenv ''OTEL_EXPORTER_OTLP_TRACES_ENDPOINT'' = '''')
      then (NoTracing, [], None)
      else if exporter \<noteq> '''' \<and> exporter \<noteq> ''otlp'' then
        (NoTracing, [], Some (Errorf (''unsupported OTEL_TRACES_EXPORTER '' @ quoteStr exporter)))
      else
        (let proto0 = getenv ''OTEL_EXPORTER_OTLP_TRACES_PROTOCOL'';
             proto = (if proto0 = '''' then getenv ''OTEL_EXPORTER_OTLP_PROTOCOL'' else proto0);
             start = (\<lambda>exp. case newErr exp of
                 Some e \<Rightarrow> (NoTracing, [], Some e)
               | None \<Rightarrow> (case resourceErr of Some e \<Rightarrow> (NoTracing, [exp], Some e) | None \<Rightarrow> (Tracing exp service, [], None)))
         in if proto = '''' \<or> proto = ''grpc'' then start GrpcExporter
            else if proto = ''http/protobuf'' then start HttpExporter
            else (NoTracing, [], Some (Errorf (''unsupported OTLP traces protocol '' @ quoteStr proto)))))"

text \<open>The action of the daemon's application: tracing first, then \<^verbatim>\<open>run\<close> with the configuration.\<close>

definition daemonAction :: "tracing \<times> trace_exporter list \<times> go_error option \<Rightarrow> (Config \<Rightarrow> go_error option) \<Rightarrow> cli_context \<Rightarrow> go_error option" where
  "daemonAction started run c = (case started of
      (_, _, Some e) \<Rightarrow> Some e
    | (_, _, None) \<Rightarrow> run (configFromCLI c))"

text \<open>\<^verbatim>\<open>TraceEnvironment\<close>: \<open>carrier\<close> is what the propagator injects, in the order of the loop over the map.\<close>

definition TraceEnvironment :: "(string \<times> string) list \<Rightarrow> string list \<Rightarrow> string list" where
  "TraceEnvironment carrier env = env @ map (\<lambda>(k, v). toUpper k @ ''='' @ v) carrier"

section \<open>The flags configure everything\<close>

text \<open>Settings of the daemon's flags for a configuration.\<close>

definition daemonSettings :: "Config \<Rightarrow> cli_flag list" where
  "daemonSettings cfg =
     [StringFlag ''listen'' (c_Listen cfg), StringFlag ''buildkitd-addr'' (c_BuildkitdAddrs cfg),
      StringFlag ''auth-token'' (c_AuthToken cfg), StringFlag ''auth-token-file'' (c_AuthTokenFile cfg),
      StringFlag ''work-dir'' (c_WorkDir cfg), StringFlag ''default-mode'' (c_DefaultMode cfg),
      StringFlag ''modes-json'' (c_ModesJSON cfg), StringFlag ''routing-targets-json'' (c_RoutingTargetsJSON cfg),
      DurationFlag ''keep-ttl'' (c_KeepTTL cfg), StringFlag ''pprof-listen'' (c_PprofListen cfg),
      Int64Flag ''max-log-bytes'' (c_MaxLogBytes cfg), Int64Flag ''max-request-bytes'' (c_MaxRequestBytes cfg),
      Int64Flag ''max-extracted-bytes'' (c_MaxExtractedBytes cfg), IntFlag ''max-archive-files'' (c_MaxArchiveFiles cfg),
      IntFlag ''max-retained-tasks'' (c_MaxRetainedTasks cfg), Int64Flag ''max-work-dir-bytes'' (c_MaxWorkDirBytes cfg),
      DurationFlag ''upload-read-timeout'' (c_UploadReadTimeout cfg), IntFlag ''addr-concurrency'' (c_AddrConcurrency cfg),
      IntFlag ''max-concurrency'' (c_MaxConcurrency cfg), Uint64Flag ''rlimit-nofile'' (c_RLimitNoFile cfg),
      DurationFlag ''registry-check-timeout'' (c_RegistryTimeout cfg), StringFlag ''registry-check-host-rules'' (c_RegistryRules cfg),
      IntFlag ''registry-check-concurrency'' (c_RegistryChecks cfg), StringFlag ''tlscacert'' (tls_CACert (c_TLS cfg)),
      StringFlag ''tlscert'' (tls_Cert (c_TLS cfg)), StringFlag ''tlskey'' (tls_Key (c_TLS cfg)), StringFlag ''tlsdir'' (tls_Dir (c_TLS cfg)),
      StringFlag ''tlsservername'' (tls_ServerName (c_TLS cfg))]"

definition buildSettings :: "batch_config \<Rightarrow> cli_flag list" where
  "buildSettings cfg =
     [StringFlag ''image-dirs'' (bcf_ImageDirs cfg), StringFlag ''addrs'' (bcf_Addrs cfg), StringSliceFlag ''var'' (bcf_Variables cfg),
      IntFlag ''concurrency'' (bcf_Concurrency cfg), BoolFlag ''fail-fast'' (bcf_FailFast cfg), BoolFlag ''oci'' (bcf_OCI cfg),
      BoolFlag ''both-formats'' (bcf_BothFormats cfg), DurationFlag ''oom-cooldown'' (bcf_OOMCooldown cfg),
      StringFlag ''result'' (bcf_ResultPath cfg), StringFlag ''logs'' (bcf_LogsPath cfg), IntFlag ''timeout'' (bcf_Timeout cfg),
      IntFlag ''retry'' (bcf_Retry cfg), BoolFlag ''skip-fail'' (bcf_SkipFail cfg), BoolFlag ''verbose'' (bcf_Verbose cfg)]"

lemma daemonSettings_read: "cli_reads c (daemonSettings cfg) \<Longrightarrow> configFromCLI c = cfg"
  by (cases cfg) (simp add: cli_reads_def daemonSettings_def configFromCLI_def)

lemma daemonSettings_declared: "map flagDecl (daemonSettings cfg) = map flagDecl daemonFlags"
  by (simp add: daemonSettings_def daemonFlags_def flagDecl_def)

lemma daemonSettings_default: "daemonSettings DefaultConfig = daemonFlags"
  by (simp add: daemonSettings_def daemonFlags_def DefaultConfig_def noTLS_def)

lemma buildSettings_read: "cli_reads c (buildSettings cfg) \<Longrightarrow> buildConfigFromCLI c = cfg\<lparr>bcf_Target := trimSpace (cli_FirstArg c)\<rparr>"
  by (cases cfg) (simp add: cli_reads_def buildSettings_def buildConfigFromCLI_def)

lemma buildSettings_declared: "map flagDecl (buildSettings cfg) = map flagDecl buildFlags"
  by (simp add: buildSettings_def buildFlags_def flagDecl_def)

lemma buildSettings_default: "buildSettings batch_DefaultConfig = buildFlags"
  by (simp add: buildSettings_def buildFlags_def batch_DefaultConfig_def)

text \<open>
  Without flags every command runs with its default configuration, and no part of a configuration is
  out of reach: for every configuration of the daemon and of a batch build there are values of the declared
  flags, each of its declared type, that give exactly this configuration.
\<close>

theorem flags_configure:
  assumes "cli_reads d daemonFlags" "cli_reads b buildFlags" "cli_reads x exportFlags" "cli_reads p preheatFlags" "cli_reads s batchDaemonFlags"
  shows "configFromCLI d = DefaultConfig \<and> buildConfigFromCLI b = batch_DefaultConfig\<lparr>bcf_Target := trimSpace (cli_FirstArg b)\<rparr> \<and>
    exportConfigFromCLI x = DefaultExportConfig \<and> preheatConfigFromCLI p = DefaultPreheatConfig \<and> daemonConfigFromCLI s = DefaultDaemonConfig \<and>
    (\<forall>cfg. \<exists>settings. map flagDecl settings = map flagDecl daemonFlags \<and> (\<forall>c. cli_reads c settings \<longrightarrow> configFromCLI c = cfg)) \<and>
    (\<forall>cfg. \<exists>settings. map flagDecl settings = map flagDecl buildFlags \<and>
       (\<forall>c. cli_reads c settings \<longrightarrow> buildConfigFromCLI c = cfg\<lparr>bcf_Target := trimSpace (cli_FirstArg c)\<rparr>))"
proof -
  have "configFromCLI d = DefaultConfig" using assms(1) daemonSettings_read daemonSettings_default by metis
  moreover have "buildConfigFromCLI b = batch_DefaultConfig\<lparr>bcf_Target := trimSpace (cli_FirstArg b)\<rparr>"
    using assms(2) buildSettings_read buildSettings_default by metis
  moreover have "exportConfigFromCLI x = DefaultExportConfig"
    using assms(3) by (simp add: cli_reads_def exportFlags_def exportConfigFromCLI_def DefaultExportConfig_def)
  moreover have "preheatConfigFromCLI p = DefaultPreheatConfig"
    using assms(4) by (simp add: cli_reads_def preheatFlags_def preheatConfigFromCLI_def DefaultPreheatConfig_def)
  moreover have "daemonConfigFromCLI s = DefaultDaemonConfig"
    using assms(5) by (simp add: cli_reads_def batchDaemonFlags_def daemonConfigFromCLI_def DefaultDaemonConfig_def)
  ultimately show ?thesis using daemonSettings_read daemonSettings_declared buildSettings_read buildSettings_declared by blast
qed

text \<open>A context that answers from a list of settings.\<close>

definition ctxOf :: "cli_flag list \<Rightarrow> cli_context" where
  "ctxOf fs =
     \<lparr>cli_String = (\<lambda>n. case filter (\<lambda>f. case f of StringFlag m v \<Rightarrow> m = n | _ \<Rightarrow> False) fs of StringFlag m v # _ \<Rightarrow> v | _ \<Rightarrow> ''''),
      cli_StringSlice = (\<lambda>n. case filter (\<lambda>f. case f of StringSliceFlag m v \<Rightarrow> m = n | _ \<Rightarrow> False) fs of StringSliceFlag m v # _ \<Rightarrow> v | _ \<Rightarrow> []),
      cli_Bool = (\<lambda>n. case filter (\<lambda>f. case f of BoolFlag m v \<Rightarrow> m = n | _ \<Rightarrow> False) fs of BoolFlag m v # _ \<Rightarrow> v | _ \<Rightarrow> False),
      cli_Int = (\<lambda>n. case filter (\<lambda>f. case f of IntFlag m v \<Rightarrow> m = n | _ \<Rightarrow> False) fs of IntFlag m v # _ \<Rightarrow> v | _ \<Rightarrow> 0),
      cli_Int64 = (\<lambda>n. case filter (\<lambda>f. case f of Int64Flag m v \<Rightarrow> m = n | _ \<Rightarrow> False) fs of Int64Flag m v # _ \<Rightarrow> v | _ \<Rightarrow> 0),
      cli_Uint64 = (\<lambda>n. case filter (\<lambda>f. case f of Uint64Flag m v \<Rightarrow> m = n | _ \<Rightarrow> False) fs of Uint64Flag m v # _ \<Rightarrow> v | _ \<Rightarrow> 0),
      cli_Duration = (\<lambda>n. case filter (\<lambda>f. case f of DurationFlag m v \<Rightarrow> m = n | _ \<Rightarrow> False) fs of DurationFlag m v # _ \<Rightarrow> v | _ \<Rightarrow> 0),
      cli_FirstArg = '' app ''\<rparr>"

theorem flags_configure_witness:
  "configFromCLI (ctxOf daemonFlags) = DefaultConfig \<and> bcf_Target (buildConfigFromCLI (ctxOf buildFlags)) = ''app''"
proof -
  have "cli_reads (ctxOf daemonFlags) daemonFlags" by (simp add: cli_reads_def ctxOf_def daemonFlags_def)
  moreover have "cli_reads (ctxOf buildFlags) buildFlags" by (simp add: cli_reads_def ctxOf_def buildFlags_def)
  moreover have "cli_reads (ctxOf exportFlags) exportFlags" by (simp add: cli_reads_def ctxOf_def exportFlags_def)
  moreover have "cli_reads (ctxOf preheatFlags) preheatFlags" by (simp add: cli_reads_def ctxOf_def preheatFlags_def)
  moreover have "cli_reads (ctxOf batchDaemonFlags) batchDaemonFlags" by (simp add: cli_reads_def ctxOf_def batchDaemonFlags_def)
  ultimately have "configFromCLI (ctxOf daemonFlags) = DefaultConfig \<and>
      buildConfigFromCLI (ctxOf buildFlags) = batch_DefaultConfig\<lparr>bcf_Target := trimSpace (cli_FirstArg (ctxOf buildFlags))\<rparr>"
    using flags_configure by blast
  moreover have "trimSpace (cli_FirstArg (ctxOf buildFlags)) = ''app''"
    by (simp add: ctxOf_def trimSpace_def trimLeftFunc_def trimRightFunc_def isSpace_def)
  ultimately show ?thesis by simp
qed

text \<open>Tracing is off unless an exporter or an endpoint asks for it, and an error leaves nothing running.\<close>

lemma telemetry_off:
  assumes "\<And>v. getenv v = ''''"
  shows "telemetry_Start getenv newErr resourceErr service = (NoTracing, [], None)"
  by (simp add: telemetry_Start_def assms)

lemma telemetry_error_clean:
  "telemetry_Start getenv newErr resourceErr service = (t, closed, Some e) \<Longrightarrow> t = NoTracing"
  by (auto simp: telemetry_Start_def Let_def split: if_splits option.splits)

end
