(* ===== verification/Spec2Isabelle.thy ===== *)
theory Spec2Isabelle
  imports Build_Theorems Work_Dirs Server Build_Client Batch_Command Batch_Logging Batch_Daemon Preheat Batch_Tree Batch_Store Observer Command_Lines
begin

text \<open>
  A verification library for buildkit-service.

  The program. The repository holds two programs that build container images on a pool of
  \<^verbatim>\<open>buildkitd\<close> workers, and an observer of one worker. The daemon (\<^verbatim>\<open>internal/builddaemon\<close>) is an HTTP service: a request
  uploads a build context, the daemon unpacks it within limits, makes a task, and a goroutine runs the
  task on a worker that it picks by consistent hashing of the context's content, with a global and a
  per-worker bound on concurrent builds, retries and failover to other workers. The batch builder
  (\<^verbatim>\<open>internal/buildbatch\<close>) builds a directory of images once, with the same ring and worker
  pool, a retry queue, and a database of results that lets a later run skip what is done; it also has a
  daemon of its own that runs such a batch from an uploaded archive, one at a time, and a command that
  asks a Dragonfly scheduler to preload the images. Both programs run the preprocessor of
  \<^verbatim>\<open>pkg/dockerfilepreprocess\<close> on a Dockerfile. The observer (\<^verbatim>\<open>internal/buildobserver\<close>) exports
  what a worker reports about its cache and its builds.

  Shared ground.
    \<^item> \<open>Go_Prelude\<close>: Go strings as byte lists, errors as values with their wrapping chain, counting
      semaphores (buffered channels), 64-bit arithmetic, number formatting, and generic lemmas.
    \<^item> \<open>Go_Float\<close>: \<^verbatim>\<open>float64\<close> as rational numbers rounded to 53 bits, with the error of a rounding.
    \<^item> \<open>Go_Path\<close>: \<^verbatim>\<open>path.Clean\<close>, \<^verbatim>\<open>filepath.Join\<close> and \<^verbatim>\<open>filepath.IsAbs\<close> on lexical paths.
    \<^item> \<open>Transition_Systems\<close>: machines given by an executable step function on labels, reachability,
      runs, and the locales \<open>ts_invariant\<close> and \<open>ts_history\<close> whose lemmas turn a one-step proof into a
      property of every reachable state or of every later state. Every machine below interprets them.

  The daemon.
    \<^item> \<open>Consistent_Hash\<close> (\<^verbatim>\<open>scheduler.go\<close>): FNV-1a on 32-bit words, the ring, the ranking of the
      workers for a key. The walk is a \<^theory_text>\<open>partial_function\<close>: where every worker has a point on the
      ring it returns a permutation of the workers; the locale \<open>slot_ranking\<close> is what clients use.
    \<^item> \<open>Addr_Pool\<close> (\<^verbatim>\<open>scheduler.go\<close>): address parsing and the pool of slots, on an explicit heap
      because a refresh keeps the slot objects that running builds hold.
    \<^item> \<open>Build_Steps\<close> (\<^verbatim>\<open>build.go\<close>, \<^verbatim>\<open>observability.go\<close>): image names, formats and steps,
      solve attributes, error classes.
    \<^item> \<open>Build_Client\<close> (\<^verbatim>\<open>build.go\<close>): the options of a solve and of a connection, the progress
      records, and the cache of BuildKit clients as a machine: concurrent calls dial without the lock, and
      still an address has one open client and no client leaks.
    \<^item> \<open>Task_Store\<close> (\<^verbatim>\<open>tasks.go\<close>): tasks, views, the store, and the update closures, each an
      interpretation of \<open>task_update\<close> (identity fields kept, terminal states kept).
    \<^item> \<open>Build_Machine\<close> (\<^verbatim>\<open>runBuildTask\<close>, \<^verbatim>\<open>runBuildStepAttempt\<close>, \<^verbatim>\<open>acquireAddr\<close>): one program
      point per access to shared state; an event is a submission, a cancellation, an address refresh,
      a reaping, or one step of one goroutine, so that a run is an arbitrary interleaving.
      \<open>Build_Safety\<close>, \<open>Build_Lifecycle\<close>, \<open>Build_Outcomes\<close> and \<open>Build_Progress\<close> hold its invariants and
      \<open>Build_Theorems\<close> the properties: exact accounting of slots, ends that stay, one observation per
      task, the done channel, no solve after the end, absence of deadlock, termination of a goroutine.
      \<open>Work_Dirs\<close> adds the directories that the reaper removes: those of ended tasks, and no other.
    \<^item> \<open>Mode_Scheduler\<close> (\<^verbatim>\<open>mode_scheduler.go\<close>): modes and their FIFO queues (locale
      \<open>fifo_queue\<close>); builds of a mode start in the order of submission and within its concurrency.
    \<^item> \<open>Target_Router\<close> (\<^verbatim>\<open>target_router.go\<close>): rendezvous routing; the order of the targets does not
      matter and removing a target only moves the images it had.
    \<^item> \<open>Workspace\<close> (\<^verbatim>\<open>workspace.go\<close>): upload, extraction (contained in its directory, bounded,
      complete), the bounded log writer (locale \<open>bounded_sink\<close>), the schedule key.
    \<^item> \<open>Daemon_Config\<close> (\<^verbatim>\<open>config.go\<close>), \<open>Registry_Check\<close> (\<^verbatim>\<open>registry.go\<close>: an image check sends
      credentials to allowed hosts only, within its slots, with its status codes), \<open>Heredoc\<close>
      (\<^verbatim>\<open>pkg/dockerfilepreprocess\<close>), \<open>Build_Request\<close> (\<^verbatim>\<open>build_request.go\<close>: the whole admission
      handler, what it leaves behind on refusal, its budget) and \<open>Server\<close> (\<^verbatim>\<open>server.go\<close>, \<^verbatim>\<open>run.go\<close>:
      routes, token, handlers, shutdown). \<open>Build_Request\<close> and \<open>Server\<close> put the components together: what
      a request does to the daemon is a sequence of events of the build machine.

  The batch builder.
    \<^item> \<open>Batch_Specs\<close> (\<^verbatim>\<open>build_specs.go\<close>, \<^verbatim>\<open>build_variables.go\<close>, \<^verbatim>\<open>workspace.go\<close>): what is
      to be built, and that grouping and filtering lose nothing.
    \<^item> \<open>Output_Capture\<close> (\<^verbatim>\<open>build_execution.go\<close>): the ring buffer refines "the last n bytes".
    \<^item> \<open>Failure_Log\<close> (\<^verbatim>\<open>failure_log_store.go\<close>): the bounded log of failures and its reader; the
      binary search for the longest payload that fits equals the linear one.
    \<^item> \<open>Batch_Results\<close> (\<^verbatim>\<open>results.go\<close>, \<^verbatim>\<open>lmdb_store_linux.go\<close>, \<^verbatim>\<open>export.go\<close>): the database
      as a map with failing calls, round trips, and counters that refine a count over outcomes.
    \<^item> \<open>Batch_Pool\<close> (\<^verbatim>\<open>scheduler.go\<close>): workers in cooldown and the two-pass choice.
    \<^item> \<open>Batch_Run\<close> and \<open>Batch_Safety\<close> (\<^verbatim>\<open>build_command_batch.go\<close>,
      \<^verbatim>\<open>build_command_streaming.go\<close>): the scheduling loop and its goroutines as a machine; no job is
      lost or built twice, and the semaphores count the goroutines.
    \<^item> \<open>Batch_Command\<close> (the same files): the two commands from their options on. It composes loading or
      streaming preparation, filtering by earlier results, the loop and the database: a command that returns without an
      error leaves a successful result for everything it was asked to build.
    \<^item> \<open>Batch_Logging\<close> (\<^verbatim>\<open>logging.go\<close>, \<^verbatim>\<open>results.go\<close>): log lines, progress, the formats of
      elapsed times with bounds on their floating-point rounding, and the decoding of result entries.

  The batch daemon and the other commands.
    \<^item> \<open>Batch_Options\<close> (\<^verbatim>\<open>config.go\<close>, \<^verbatim>\<open>daemon_options.go\<close>, \<^verbatim>\<open>build_command.go\<close>): the
      configurations and the strict query parameters; a query means what the command line means.
    \<^item> \<open>Batch_Archive\<close> (\<^verbatim>\<open>daemon_archive.go\<close>): the check of an uploaded archive, exact against a
      specification of its layout, and its extraction, which stays below its directory and completes the
      images that the check promised.
    \<^item> \<open>Batch_Daemon\<close> (\<^verbatim>\<open>daemon.go\<close>, \<^verbatim>\<open>daemon_handlers.go\<close>): the server as a machine with a
      program point per access to its state, the refusals and the deferred calls included: one build at a
      time, every request ends and cleans up. The lemma \<open>image_dir_race\<close> is a run in which the end of one
      build removes the images of the next.
    \<^item> \<open>Preheat\<close> (\<^verbatim>\<open>preheat.go\<close>): URLs, the throttled loop and its goroutines as a machine.
    \<^item> \<open>Batch_Tree\<close> (\<^verbatim>\<open>workspace_copy.go\<close>, \<^verbatim>\<open>source_hash.go\<close>): directory trees, their copy with
      permissions and umask, exact on success, and the scheduling key, which identifies a context of text
      files (and, by \<open>source_hash_collision\<close>, not one with NUL bytes).
    \<^item> \<open>Batch_Store\<close> (\<^verbatim>\<open>lmdb_store_linux.go\<close>, \<^verbatim>\<open>lmdb_store_stub.go\<close>): the calls into LMDB; every
      session closes what it opened, whatever the library answers.
    \<^item> \<open>Observer\<close> (\<^verbatim>\<open>buildobserver/observer.go\<close>, \<^verbatim>\<open>cmd/buildkit-observer\<close>): snapshots and metrics.
    \<^item> \<open>Command_Lines\<close> (\<^verbatim>\<open>cmd/*/cli.go\<close>, \<^verbatim>\<open>pkg/telemetry\<close>): flags, their defaults and the
      configurations they fill, and when tracing starts.

  Parameters. Code outside the repository is an argument of the definitions that use it: the image
  reference parser and digest parser, SHA-256, DNS, JSON, the multipart and zip readers, the shell and
  heredoc parsers of BuildKit, the file system where its errors matter, the registry's transport and
  the outcome of a solve or of \<^verbatim>\<open>buildctl\<close>. Where a theorem relies on such code, it says so in a
  hypothesis and its witness gives a concrete function. Time is an argument of each step; two steps
  may have any times, so no theorem depends on a clock that advances.

  Bounds. Limits of the code (upload and extraction sizes, log size, number of files, tasks) are
  arguments, so the theorems hold for every limit. No definition has fuel: recursion is structural or
  has a measure, the ring walk is a \<^theory_text>\<open>partial_function\<close> with a proof that it returns, and loops that
  wait are steps of a machine. Goroutine termination counts the steps of one goroutine while the
  workers come from a finite set; with an unbounded supply of new workers a build may fail over forever.

  Not modelled. BuildKit itself, LMDB's storage, the metrics registry, the OpenTelemetry exporters, the
  flag and HTTP libraries: they are libraries that the code calls. The ring and the pool of
  \<^verbatim>\<open>buildbatch/consistent_hash.go\<close> and \<^verbatim>\<open>buildbatch/scheduler.go\<close> are the code of \<open>Consistent_Hash\<close> and \<open>Addr_Pool\<close> once
  more. The \<^verbatim>\<open>main\<close> functions and the pprof servers only start what is modelled. A Go data
  race or a panic other than the ones written out is outside the model: a step is one critical section of
  the code.
\<close>

end
